(* ===== verification/Prelude.thy ===== *)
theory Prelude
  imports Main "HOL-Library.Word"
begin

text \<open>
  Shared vocabulary of the development: machine integers, the collections of simplification
  rules the component proofs draw from, and the pieces of the Rust standard library that the
  modelled crates call on byte strings (ASCII classification, \<open>strip_prefix\<close>,
  \<open>split_once\<close>, \<open>str::parse\<close> and \<open>from_str_radix\<close> on integers, decimal \<open>Display\<close>).
  A Rust \<open>&str\<close> or \<open>&[u8]\<close> is a \<open>string\<close>: an Isabelle character is one byte.
  Parsing failures of the library are \<open>None\<close>; every caller maps the error kind away.
\<close>

section \<open>Machine integers and collections of rules\<close>

type_synonym u8 = "8 word"
type_synonym u16 = "16 word"
type_synonym u32 = "32 word"
type_synonym u64 = "64 word"

named_theorems frame_simps "what an operation leaves unchanged"
named_theorems step_intros "introduction rules of the step relations"

section \<open>Lists and options\<close>

lemma last_in_range: "xs \<noteq> [] \<Longrightarrow> xs ! (length xs - 1) = last xs"
  by (simp add: last_conv_nth)

lemma nth_drop_hd: "i < length xs \<Longrightarrow> drop i xs = xs ! i # drop (Suc i) xs"
  by (rule Cons_nth_drop_Suc [symmetric])

lemma take_drop_nth: "i < j \<Longrightarrow> j \<le> length xs \<Longrightarrow>
    take (j - i) (drop i xs) = xs ! i # take (j - Suc i) (drop (Suc i) xs)"
  by (simp add: nth_drop_hd take_Cons')

lemma option_case_Some_iff:
  "(case x of None \<Rightarrow> None | Some y \<Rightarrow> f y) = Some z \<longleftrightarrow> (\<exists>y. x = Some y \<and> f y = Some z)"
  by (cases x) auto

section \<open>ASCII classes\<close>

abbreviation code :: "char \<Rightarrow> nat" where
  "code c \<equiv> of_char c"

definition is_ascii_digit :: "char \<Rightarrow> bool" where
  "is_ascii_digit c \<longleftrightarrow> 48 \<le> code c \<and> code c \<le> 57"

definition is_ascii_alphabetic :: "char \<Rightarrow> bool" where
  "is_ascii_alphabetic c \<longleftrightarrow> 65 \<le> code c \<and> code c \<le> 90 \<or> 97 \<le> code c \<and> code c \<le> 122"

definition is_ascii_alphanumeric :: "char \<Rightarrow> bool" where
  "is_ascii_alphanumeric c \<longleftrightarrow> is_ascii_alphabetic c \<or> is_ascii_digit c"

definition is_ascii_hexdigit :: "char \<Rightarrow> bool" where
  "is_ascii_hexdigit c \<longleftrightarrow> is_ascii_digit c \<or> 65 \<le> code c \<and> code c \<le> 70 \<or>
     97 \<le> code c \<and> code c \<le> 102"

text \<open>Space, tab, line feed, form feed, carriage return; the vertical tab is not in the class.\<close>

definition is_ascii_whitespace :: "char \<Rightarrow> bool" where
  "is_ascii_whitespace c \<longleftrightarrow> code c \<in> {9, 10, 12, 13, 32}"

lemmas ascii_defs = is_ascii_digit_def is_ascii_alphabetic_def is_ascii_alphanumeric_def
  is_ascii_hexdigit_def is_ascii_whitespace_def

section \<open>Byte-string helpers of the Rust library\<close>

fun strip_prefix :: "'a list \<Rightarrow> 'a list \<Rightarrow> 'a list option" where
  "strip_prefix [] s = Some s"
| "strip_prefix (p # ps) [] = None"
| "strip_prefix (p # ps) (c # cs) = (if p = c then strip_prefix ps cs else None)"

fun split_once :: "char \<Rightarrow> string \<Rightarrow> (string \<times> string) option" where
  "split_once d [] = None"
| "split_once d (c # cs) =
     (if c = d then Some ([], cs)
      else case split_once d cs of None \<Rightarrow> None | Some (a, b) \<Rightarrow> Some (c # a, b))"

lemma strip_prefix_append [simp]: "strip_prefix p (p @ s) = Some s"
  by (induction p) auto

lemma strip_prefix_Some: "strip_prefix p s = Some r \<longleftrightarrow> s = p @ r"
  by (induction p s rule: strip_prefix.induct) auto

lemma split_once_None: "split_once d s = None \<longleftrightarrow> d \<notin> set s"
  by (induction s) (auto split: option.splits)

lemma split_once_append [simp]: "d \<notin> set a \<Longrightarrow> split_once d (a @ d # b) = Some (a, b)"
  by (induction a) auto

section \<open>Integers in text\<close>

definition digit_val :: "nat \<Rightarrow> char \<Rightarrow> nat option" where
  "digit_val radix c =
     (let v = (if is_ascii_digit c then code c - 48
               else if 97 \<le> code c \<and> code c \<le> 122 then code c - 87
               else if 65 \<le> code c \<and> code c \<le> 90 then code c - 55
               else radix)
      in if v < radix then Some v else None)"

fun digits_val :: "nat \<Rightarrow> nat \<Rightarrow> string \<Rightarrow> nat option" where
  "digits_val radix acc [] = Some acc"
| "digits_val radix acc (c # cs) =
     (case digit_val radix c of None \<Rightarrow> None | Some d \<Rightarrow> digits_val radix (acc * radix + d) cs)"

text \<open>
  \<open>uN::from_str_radix\<close>, with \<open>str::parse\<close> the case of radix 10: one optional plus sign, at
  least one digit, and the value must be below the bound \<open>2 ^ N\<close>.
\<close>

definition parse_unsigned :: "nat \<Rightarrow> nat \<Rightarrow> string \<Rightarrow> nat option" where
  "parse_unsigned radix bound s =
     (let ds = (case s of c # cs \<Rightarrow> if c = CHR ''+'' then cs else s | [] \<Rightarrow> [])
      in if ds = [] then None
         else case digits_val radix 0 ds of
                None \<Rightarrow> None
              | Some v \<Rightarrow> if v < bound then Some v else None)"

text \<open>\<open>i64::from_str\<close>: one optional sign, and the value must lie in \<open>[-2^63, 2^63)\<close>.\<close>

definition parse_i64 :: "string \<Rightarrow> int option" where
  "parse_i64 s =
     (case s of
        c # cs \<Rightarrow>
          if c = CHR ''-'' then
            (if cs = [] then None
             else case digits_val 10 0 cs of
                    None \<Rightarrow> None
                  | Some v \<Rightarrow> if v \<le> 2 ^ 63 then Some (- int v) else None)
          else map_option int (parse_unsigned 10 (2 ^ 63) s)
      | [] \<Rightarrow> None)"

text \<open>Decimal \<open>Display\<close> of an unsigned integer.\<close>

definition digit_char :: "nat \<Rightarrow> char" where
  "digit_char d = char_of (48 + d)"

fun show_nat :: "nat \<Rightarrow> string" where
  "show_nat n = (if n < 10 then [digit_char n] else show_nat (n div 10) @ [digit_char (n mod 10)])"

declare show_nat.simps [simp del]

lemma code_digit_char [simp]: "d < 10 \<Longrightarrow> code (digit_char d) = 48 + d"
  by (simp add: digit_char_def of_char_of)

lemma digit_char_ascii [simp]: "d < 10 \<Longrightarrow> is_ascii_digit (digit_char d)"
  by (simp add: is_ascii_digit_def)

lemma digit_val_digit_char [simp]: "d < 10 \<Longrightarrow> digit_val 10 (digit_char d) = Some d"
  by (simp add: digit_val_def is_ascii_digit_def)

lemma digit_val_None_not_digit: "\<not> is_ascii_digit c \<Longrightarrow> digit_val 10 c = None"
  by (auto simp: digit_val_def Let_def)

lemma digit_val_digit: "is_ascii_digit c \<Longrightarrow> digit_val 10 c = Some (code c - 48)"
  by (auto simp: digit_val_def is_ascii_digit_def Let_def)

lemma digits_val_append:
  "digits_val r acc (a @ b) =
     (case digits_val r acc a of None \<Rightarrow> None | Some v \<Rightarrow> digits_val r v b)"
  by (induction a arbitrary: acc) (auto split: option.splits)

lemma digits_val_all_digits: "\<forall>c \<in> set s. is_ascii_digit c \<Longrightarrow> \<exists>v. digits_val 10 acc s = Some v"
  by (induction s arbitrary: acc) (auto simp: digit_val_digit)

lemma digits_val_Some_digits: "digits_val 10 acc s = Some v \<Longrightarrow> \<forall>c \<in> set s. is_ascii_digit c"
proof (induction s arbitrary: acc)
  case (Cons c cs)
  then show ?case
    by (cases "is_ascii_digit c") (auto simp: digit_val_None_not_digit split: option.splits)
qed simp

lemma digits_val_show_nat [simp]: "digits_val 10 0 (show_nat n) = Some n"
proof (induction n rule: show_nat.induct)
  case (1 n)
  show ?case
  proof (cases "n < 10")
    case True
    then show ?thesis by (simp add: show_nat.simps [of n])
  next
    case False
    with 1 have "digits_val 10 0 (show_nat (n div 10)) = Some (n div 10)" by simp
    with False show ?thesis
      by (simp add: show_nat.simps [of n] digits_val_append)
  qed
qed

lemma show_nat_digits: "c \<in> set (show_nat n) \<Longrightarrow> is_ascii_digit c"
  using digits_val_Some_digits [OF digits_val_show_nat] by blast

lemma show_nat_nonempty [simp]: "show_nat n \<noteq> []"
  by (subst show_nat.simps) simp

lemma show_nat_hd_digit: "is_ascii_digit (hd (show_nat n))"
  by (rule show_nat_digits [OF hd_in_set [OF show_nat_nonempty]])

lemma digit_not_sign: "is_ascii_digit c \<Longrightarrow> c \<noteq> CHR ''+'' \<and> c \<noteq> CHR ''-''"
  by (auto simp: is_ascii_digit_def)

lemma parse_unsigned_digits:
  assumes "s \<noteq> []" and "\<forall>c \<in> set s. is_ascii_digit c"
  shows "parse_unsigned 10 bound s =
    (case digits_val 10 0 s of None \<Rightarrow> None | Some v \<Rightarrow> if v < bound then Some v else None)"
  using assms digit_not_sign
  by (cases s) (auto simp: parse_unsigned_def Let_def)

lemma parse_unsigned_show_nat [simp]:
  "parse_unsigned 10 bound (show_nat n) = (if n < bound then Some n else None)"
  using parse_unsigned_digits [OF show_nat_nonempty] show_nat_digits by simp

lemma parse_i64_digits:
  assumes "s \<noteq> []" and "\<forall>c \<in> set s. is_ascii_digit c"
  shows "parse_i64 s = map_option int (parse_unsigned 10 (2 ^ 63) s)"
  using assms digit_not_sign by (cases s) (auto simp: parse_i64_def)

lemma parse_i64_show_nat [simp]:
  "parse_i64 (show_nat n) = (if n < 2 ^ 63 then Some (int n) else None)"
  using parse_i64_digits [OF show_nat_nonempty] show_nat_digits by simp

lemma parse_unsigned_bound: "parse_unsigned radix bound s = Some v \<Longrightarrow> v < bound"
  by (auto simp: parse_unsigned_def Let_def split: if_splits option.splits)

end
