(* ===== verification/Lexer.thy ===== *)
theory Lexer
  imports Prelude
begin

text \<open>
  The HLSL lexer, \<^verbatim>\<open>crates/hlsl-compiler/src/lexer.rs\<close>: spans, tokens, keywords, the scanner state
  and its methods, in the order of the source. The scanner works on byte offsets into the
  source, as the code does; a method that can fail returns \<open>Inl\<close> of the lexing error. Every
  indexed read of the source text is guarded in the code by a comparison with its length, and
  the model reads under the same guard. A double is the pair of a decimal mantissa and a power of
  ten whose nearest \<open>f64\<close> the code computes.
\<close>

section \<open>Tokens\<close>

record span =
  span_start :: nat
  span_end :: nat

definition Span_new :: "nat \<Rightarrow> nat \<Rightarrow> span" where
  "Span_new a b = \<lparr>span_start = a, span_end = b\<rparr>"

datatype keyword =
    KVoid | KFloat | KInt | KUint | KBool | KStruct | KReturn | KIf | KElse | KFor
  | KSamplerState | KTexture2D | KCBuffer | KRegister

datatype f64 = F64 (f64_mantissa: nat) (f64_exp10: int)

datatype token_kind =
    TIdent string | TKeyword keyword | TSemantic string
  | TIntLiteral int | TUintLiteral u64 | TFloatLiteral f64 | TBoolLiteral bool
  | LParen | RParen | LBrace | RBrace | LBracket | RBracket
  | Comma | Semicolon | Colon | Dot
  | TAssign | EqEq | Neq | Lt | Le | Gt | Ge
  | Plus | Minus | Star | Slash | Percent | Bang | Tilde | Amp | Pipe | Caret
  | AndAnd | OrOr | PlusEq | MinusEq | StarEq | SlashEq
  | Eof

record token =
  kind :: token_kind
  span :: span

record lex_error =
  lx_span :: span
  lx_msg :: string

section \<open>The scanner state and its primitives\<close>

record lexer =
  src :: string
  pos :: nat
  tokens :: "token list"

definition Lexer_new :: "string \<Rightarrow> lexer" where
  "Lexer_new source = \<lparr>src = source, pos = 0, tokens = []\<rparr>"

definition lex_err :: "nat \<Rightarrow> nat \<Rightarrow> string \<Rightarrow> lex_error" where
  "lex_err a b msg = \<lparr>lx_span = Span_new a b, lx_msg = msg\<rparr>"

definition peek_is :: "lexer \<Rightarrow> nat \<Rightarrow> char option" where
  "peek_is l off = (if pos l + off < length (src l) then Some (src l ! (pos l + off)) else None)"

definition peek_sat :: "lexer \<Rightarrow> nat \<Rightarrow> (char \<Rightarrow> bool) \<Rightarrow> bool" where
  "peek_sat l off p = (case peek_is l off of None \<Rightarrow> False | Some c \<Rightarrow> p c)"

definition emit :: "span \<Rightarrow> token_kind \<Rightarrow> lexer \<Rightarrow> lexer" where
  "emit sp k l = l\<lparr>tokens := tokens l @ [\<lparr>kind = k, span = sp\<rparr>]\<rparr>"

definition slice :: "string \<Rightarrow> nat \<Rightarrow> nat \<Rightarrow> string" where
  "slice s a b = take (b - a) (drop a s)"

text \<open>The scanning loops \<open>while pos < len && p(src[pos]) { pos += 1 }\<close>.\<close>

function scan_while :: "(char \<Rightarrow> bool) \<Rightarrow> string \<Rightarrow> nat \<Rightarrow> nat" where
  "scan_while p s i = (if i < length s \<and> p (s ! i) then scan_while p s (Suc i) else i)"
  by pat_completeness auto
termination
  by (relation "measure (\<lambda>(p, s, i). length s - i)") auto

text \<open>The block-comment loop: the offset after the closing mark, \<open>None\<close> when it is missing.\<close>

function block_comment_end :: "string \<Rightarrow> nat \<Rightarrow> nat option" where
  "block_comment_end s i =
     (if i + 1 < length s then
        (if s ! i = CHR ''*'' \<and> s ! (i + 1) = CHR ''/'' then Some (i + 2)
         else block_comment_end s (Suc i))
      else None)"
  by pat_completeness auto
termination
  by (relation "measure (\<lambda>(s, i). length s - i)") auto

declare scan_while.simps [simp del]
declare block_comment_end.simps [simp del]

lemma scan_while_ge: "i \<le> scan_while p s i"
proof (induction p s i rule: scan_while.induct)
  case (1 p s i)
  then show ?case by (auto simp: scan_while.simps [of p s i])
qed

lemma scan_while_le: "i \<le> length s \<Longrightarrow> scan_while p s i \<le> length s"
proof (induction p s i rule: scan_while.induct)
  case (1 p s i)
  then show ?case by (auto simp: scan_while.simps [of p s i])
qed

lemma scan_while_less: "i < length s \<Longrightarrow> p (s ! i) \<Longrightarrow> i < scan_while p s i"
  using scan_while_ge [of "Suc i" p s] by (subst scan_while.simps) simp

lemma scan_while_all:
  "i \<le> j \<Longrightarrow> j < scan_while p s i \<Longrightarrow> j < length s \<and> p (s ! j)"
proof (induction p s i rule: scan_while.induct)
  case (1 p s i)
  then show ?case
    by (cases "i = j") (auto simp: scan_while.simps [of p s i] scan_while.simps [of p s j] split: if_splits)
qed

lemma block_comment_end_bounds:
  "block_comment_end s i = Some j \<Longrightarrow> i + 2 \<le> j \<and> j \<le> length s"
proof (induction s i rule: block_comment_end.induct)
  case (1 s i)
  then show ?case
    by (subst (asm) block_comment_end.simps) (auto split: if_splits)
qed

section \<open>Whitespace and comments\<close>

function skip_ws_and_comments :: "lexer \<Rightarrow> lex_error + lexer" where
  "skip_ws_and_comments l =
     (if pos l < length (src l) then
        (let c = src l ! pos l in
         if is_ascii_whitespace c then skip_ws_and_comments (l\<lparr>pos := pos l + 1\<rparr>)
         else if c = CHR ''/'' \<and> peek_is l 1 = Some (CHR ''/'') then
           skip_ws_and_comments (l\<lparr>pos := scan_while (\<lambda>c. c \<noteq> CHR 0x0A) (src l) (pos l + 2)\<rparr>)
         else if c = CHR ''/'' \<and> peek_is l 1 = Some (CHR ''*'') then
           (case block_comment_end (src l) (pos l + 2) of
              None \<Rightarrow> Inl (lex_err (pos l) (length (src l)) ''unterminated block comment'')
            | Some p \<Rightarrow> skip_ws_and_comments (l\<lparr>pos := p\<rparr>))
         else Inr l)
      else Inr l)"
  by pat_completeness auto
termination
proof (relation "measure (\<lambda>l. length (src l) - pos l)", goal_cases)
  case (3 l c)
  then show ?case
    using scan_while_ge [of "pos l + 2" "\<lambda>c. c \<noteq> CHR 0x0A" "src l"] by simp
next
  case (4 l c p)
  then show ?case by (auto dest: block_comment_end_bounds)
qed auto

declare skip_ws_and_comments.simps [simp del]

section \<open>Numbers\<close>

definition consume_uint_suffix :: "lexer \<Rightarrow> bool \<times> lexer" where
  "consume_uint_suffix l =
     (if peek_sat l 0 (\<lambda>c. c = CHR ''u'' \<or> c = CHR ''U'') then (True, l\<lparr>pos := pos l + 1\<rparr>)
      else (False, l))"

definition consume_float_suffix :: "lexer \<Rightarrow> lexer" where
  "consume_float_suffix l =
     (if peek_sat l 0 (\<lambda>c. c = CHR ''f'' \<or> c = CHR ''F'') then l\<lparr>pos := pos l + 1\<rparr> else l)"

text \<open>
  \<open>f64::from_str\<close> on the texts the lexer passes to it, which begin with a digit or a dot (the
  signed and the named forms do not arise): digits with an optional point, at least one digit
  in all, and an optional exponent of at least one digit.
\<close>

definition parse_exp10 :: "string \<Rightarrow> int option" where
  "parse_exp10 s =
     (case s of
        [] \<Rightarrow> Some 0
      | c # r \<Rightarrow>
          if c = CHR ''e'' \<or> c = CHR ''E'' then
            (let neg = (case r of d # _ \<Rightarrow> d = CHR ''-'' | [] \<Rightarrow> False);
                 ds = (case r of d # r' \<Rightarrow> if d = CHR ''-'' \<or> d = CHR ''+'' then r' else r | [] \<Rightarrow> [])
             in if ds = [] then None
                else map_option (\<lambda>v. if neg then - int v else int v) (digits_val 10 0 ds))
          else None)"

definition parse_f64 :: "string \<Rightarrow> f64 option" where
  "parse_f64 s =
     (let ip = takeWhile is_ascii_digit s;
          r1 = dropWhile is_ascii_digit s;
          fp = (case r1 of c # r \<Rightarrow> if c = CHR ''.'' then takeWhile is_ascii_digit r else [] | [] \<Rightarrow> []);
          r3 = (case r1 of c # r \<Rightarrow> if c = CHR ''.'' then dropWhile is_ascii_digit r else r1 | [] \<Rightarrow> [])
      in if ip = [] \<and> fp = [] then None
         else case (digits_val 10 0 (ip @ fp), parse_exp10 r3) of
                (Some m, Some e) \<Rightarrow> Some (F64 m (e - int (length fp)))
              | _ \<Rightarrow> None)"

text \<open>The loop over the characters of a decimal literal: the final offset, \<open>had_dot\<close>, \<open>had_exp\<close>.\<close>

function decimal_loop :: "string \<Rightarrow> nat \<Rightarrow> bool \<Rightarrow> bool \<Rightarrow> nat \<times> bool \<times> bool" where
  "decimal_loop s i had_dot had_exp =
     (if i < length s then
        (let c = s ! i in
         if is_ascii_digit c then decimal_loop s (i + 1) had_dot had_exp
         else if c = CHR ''.'' \<and> \<not> had_dot \<and> \<not> had_exp then decimal_loop s (i + 1) True had_exp
         else if (c = CHR ''e'' \<or> c = CHR ''E'') \<and> \<not> had_exp then
           (let i1 = i + 1;
                i2 = (if i1 < length s \<and> (s ! i1 = CHR ''+'' \<or> s ! i1 = CHR ''-'') then i1 + 1 else i1)
            in decimal_loop s i2 True True)
         else (i, had_dot, had_exp))
      else (i, had_dot, had_exp))"
  by pat_completeness auto
termination
  by (relation "measure (\<lambda>(s, i, _, _). length s - i)") (auto split: if_splits)

declare decimal_loop.simps [simp del]

definition number_hex :: "nat \<Rightarrow> lexer \<Rightarrow> lex_error + lexer" where
  "number_hex st l =
     (let hex_start = pos l + 2;
          l1 = l\<lparr>pos := scan_while is_ascii_hexdigit (src l) hex_start\<rparr>
      in if pos l1 = hex_start then Inl (lex_err st (pos l1) ''empty hex literal'')
         else
           let text = slice (src l1) hex_start (pos l1);
               (is_uint, l2) = consume_uint_suffix l1;
               sp = Span_new st (pos l2)
           in case parse_unsigned 16 (2 ^ 64) text of
                None \<Rightarrow> Inl (lex_err st (pos l2) ''invalid hex literal'')
              | Some v \<Rightarrow>
                  if is_uint then Inr (emit sp (TUintLiteral (of_nat v)) l2)
                  else Inr (emit sp (TIntLiteral (sint (of_nat v :: u64))) l2))"

definition number_decimal :: "nat \<Rightarrow> lexer \<Rightarrow> lex_error + lexer" where
  "number_decimal st l =
     (let (p, had_dot, had_exp) = decimal_loop (src l) (pos l) False False;
          l1 = l\<lparr>pos := p\<rparr>
      in if had_dot \<or> had_exp then
           let l2 = consume_float_suffix l1;
               sp = Span_new st (pos l2)
           in case parse_f64 (slice (src l2) st (pos l2)) of
                None \<Rightarrow> Inl (lex_err st (pos l2) ''invalid float literal'')
              | Some v \<Rightarrow> Inr (emit sp (TFloatLiteral v) l2)
         else
           let (is_uint, l2) = consume_uint_suffix l1;
               sp = Span_new st (pos l2);
               text = slice (src l2) st (pos l2)
           in if is_uint then
                (case parse_unsigned 10 (2 ^ 64) text of
                   None \<Rightarrow> Inl (lex_err st (pos l2) ''invalid integer literal'')
                 | Some v \<Rightarrow> Inr (emit sp (TUintLiteral (of_nat v)) l2))
              else
                (case parse_i64 text of
                   None \<Rightarrow> Inl (lex_err st (pos l2) ''invalid integer literal'')
                 | Some v \<Rightarrow> Inr (emit sp (TIntLiteral v) l2)))"

definition number :: "nat \<Rightarrow> lexer \<Rightarrow> lex_error + lexer" where
  "number st l =
     (if src l ! pos l = CHR ''0'' \<and> peek_sat l 1 (\<lambda>c. c = CHR ''x'' \<or> c = CHR ''X'')
      then number_hex st l
      else number_decimal st l)"

section \<open>Identifiers, keywords, semantics\<close>

definition semantic_bases :: "string list" where
  "semantic_bases =
     [''POSITION'', ''POSITIONT'', ''PSIZE'', ''COLOR'', ''FOG'', ''TEXCOORD'', ''TANGENT'',
      ''BINORMAL'', ''NORMAL'', ''DEPTH'', ''VPOS'', ''VFACE'', ''BLENDWEIGHT'', ''BLENDINDICES'']"

definition is_semantic :: "string \<Rightarrow> bool" where
  "is_semantic text \<longleftrightarrow>
     strip_prefix ''SV_'' text \<noteq> None \<or>
     list_ex (\<lambda>base. text = base \<or>
        (case strip_prefix base text of
           None \<Rightarrow> False
         | Some r \<Rightarrow> r \<noteq> [] \<and> list_all is_ascii_digit r)) semantic_bases"

definition keyword_table :: "(string \<times> token_kind) list" where
  "keyword_table =
     [(''void'', TKeyword KVoid), (''int'', TKeyword KInt), (''uint'', TKeyword KUint),
      (''bool'', TKeyword KBool), (''struct'', TKeyword KStruct), (''return'', TKeyword KReturn),
      (''if'', TKeyword KIf), (''else'', TKeyword KElse), (''for'', TKeyword KFor),
      (''SamplerState'', TKeyword KSamplerState), (''Texture2D'', TKeyword KTexture2D),
      (''cbuffer'', TKeyword KCBuffer), (''register'', TKeyword KRegister),
      (''true'', TBoolLiteral True), (''false'', TBoolLiteral False)]"

definition is_float_shape :: "string \<Rightarrow> bool" where
  "is_float_shape rest \<longleftrightarrow>
     list_all (\<lambda>c. is_ascii_digit c \<or> c = CHR ''x'') rest \<and> list_ex is_ascii_digit rest"

definition classify_ident :: "string \<Rightarrow> token_kind" where
  "classify_ident text =
     (case map_of keyword_table text of
        Some k \<Rightarrow> k
      | None \<Rightarrow>
          (case strip_prefix ''float'' text of
             Some rest \<Rightarrow>
               if rest = [] then TKeyword KFloat
               else if is_float_shape rest then TIdent text
               else if is_semantic text then TSemantic text
               else TIdent text
           | None \<Rightarrow> if is_semantic text then TSemantic text else TIdent text))"

definition is_ident_char :: "char \<Rightarrow> bool" where
  "is_ident_char c \<longleftrightarrow> is_ascii_alphanumeric c \<or> c = CHR ''_''"

definition ident :: "nat \<Rightarrow> lexer \<Rightarrow> lexer" where
  "ident st l =
     (let l1 = l\<lparr>pos := scan_while is_ident_char (src l) (pos l)\<rparr>;
          text = slice (src l1) st (pos l1)
      in emit (Span_new st (pos l1)) (classify_ident text) l1)"

section \<open>Operators and punctuation\<close>

definition op2_kind :: "char \<Rightarrow> char \<Rightarrow> token_kind option" where
  "op2_kind c n = map_of
     [((CHR ''='', CHR ''=''), EqEq), ((CHR ''!'', CHR ''=''), Neq),
      ((CHR ''<'', CHR ''=''), Le), ((CHR ''>'', CHR ''=''), Ge),
      ((CHR ''&'', CHR ''&''), AndAnd), ((CHR ''|'', CHR ''|''), OrOr),
      ((CHR ''+'', CHR ''=''), PlusEq), ((CHR ''-'', CHR ''=''), MinusEq),
      ((CHR ''*'', CHR ''=''), StarEq), ((CHR ''/'', CHR ''=''), SlashEq)] (c, n)"

definition op1_kind :: "char \<Rightarrow> token_kind option" where
  "op1_kind c = map_of
     [(CHR ''('', LParen), (CHR '')'', RParen), (CHR ''{'', LBrace), (CHR ''}'', RBrace),
      (CHR ''['', LBracket), (CHR '']'', RBracket), (CHR '','', Comma), (CHR '';'', Semicolon),
      (CHR '':'', Colon), (CHR ''.'', Dot), (CHR ''='', TAssign), (CHR ''<'', Lt), (CHR ''>'', Gt),
      (CHR ''+'', Plus), (CHR ''-'', Minus), (CHR ''*'', Star), (CHR ''/'', Slash),
      (CHR ''%'', Percent), (CHR ''!'', Bang), (CHR ''~'', Tilde), (CHR ''&'', Amp),
      (CHR ''|'', Pipe), (CHR ''^'', Caret)] c"

definition op :: "nat \<Rightarrow> lexer \<Rightarrow> lex_error + lexer" where
  "op st l =
     (let c = src l ! pos l;
          l1 = l\<lparr>pos := pos l + 1\<rparr>;
          n = (case peek_is l1 0 of Some n \<Rightarrow> n | None \<Rightarrow> CHR 0x00)
      in case op2_kind c n of
           Some k \<Rightarrow> (let l2 = l1\<lparr>pos := pos l1 + 1\<rparr> in Inr (emit (Span_new st (pos l2)) k l2))
         | None \<Rightarrow>
             (case op1_kind c of
                Some k \<Rightarrow> Inr (emit (Span_new st (st + 1)) k l1)
              | None \<Rightarrow> Inl (lex_err st (st + 1) (''unexpected character '' @ show_nat (code c)))))"

section \<open>The main loop\<close>

definition starts_number :: "lexer \<Rightarrow> bool" where
  "starts_number l \<longleftrightarrow>
     is_ascii_digit (src l ! pos l) \<or> src l ! pos l = CHR ''.'' \<and> peek_sat l 1 is_ascii_digit"

definition lex_one :: "lexer \<Rightarrow> lex_error + lexer" where
  "lex_one l =
     (let st = pos l; c = src l ! pos l in
      if starts_number l then number st l
      else if c = CHR 0x22 then
        Inl (lex_err st (st + 1) ''string literals are not supported yet'')
      else if is_ascii_alphabetic c \<or> c = CHR ''_'' then Inr (ident st l)
      else op st l)"

definition eof_token :: "lexer \<Rightarrow> token" where
  "eof_token l = \<lparr>kind = Eof, span = Span_new (pos l) (pos l)\<rparr>"

text \<open>
  One token read: the source is untouched, the offset moves forward within the source, and one
  token whose span is exactly the bytes passed over is appended; it is never the end marker.
\<close>

definition reads_token :: "lexer \<Rightarrow> token_kind \<Rightarrow> lexer \<Rightarrow> bool" where
  "reads_token l k l' \<longleftrightarrow> src l' = src l \<and> pos l < pos l' \<and> pos l' \<le> length (src l) \<and>
     tokens l' = tokens l @ [\<lparr>kind = k, span = Span_new (pos l) (pos l')\<rparr>] \<and> k \<noteq> Eof"

lemma peek_sat_in_range: "peek_sat l off p \<Longrightarrow> pos l + off < length (src l) \<and> p (src l ! (pos l + off))"
  by (auto simp: peek_sat_def peek_is_def split: if_splits)

lemma decimal_loop_bounds:
  "i \<le> length s \<Longrightarrow> decimal_loop s i d e = (j, d', e') \<Longrightarrow> i \<le> j \<and> j \<le> length s"
proof (induction s i d e rule: decimal_loop.induct)
  case (1 s i d e)
  show ?case
  proof (cases "i < length s")
    case True
    let ?i2 = "if i + 1 < length s \<and> (s ! (i + 1) = CHR ''+'' \<or> s ! (i + 1) = CHR ''-'')
               then i + 1 + 1 else i + 1"
    consider (digit) "is_ascii_digit (s ! i)"
      | (dot) "\<not> is_ascii_digit (s ! i)" "s ! i = CHR ''.''" "\<not> d" "\<not> e"
      | (exp) "\<not> is_ascii_digit (s ! i)" "\<not> (s ! i = CHR ''.'' \<and> \<not> d \<and> \<not> e)"
          "s ! i = CHR ''e'' \<or> s ! i = CHR ''E''" "\<not> e"
      | (stop) "\<not> is_ascii_digit (s ! i)" "\<not> (s ! i = CHR ''.'' \<and> \<not> d \<and> \<not> e)"
          "\<not> ((s ! i = CHR ''e'' \<or> s ! i = CHR ''E'') \<and> \<not> e)"
      by blast
    then show ?thesis
    proof cases
      case digit
      with 1 True show ?thesis by (simp add: decimal_loop.simps [of s i])
    next
      case dot
      with 1 True show ?thesis by (simp add: decimal_loop.simps [of s i])
    next
      case exp
      have "decimal_loop s ?i2 True True = (j, d', e')"
        using exp True 1(5) by (auto simp: decimal_loop.simps [of s i] Let_def)
      moreover have "?i2 \<le> length s" using True by simp
      ultimately have "?i2 \<le> j \<and> j \<le> length s"
        using 1(3) [OF True refl exp(1,2)] exp(3,4) by blast
      then show ?thesis by (auto split: if_splits)
    next
      case stop
      with 1(4,5) True show ?thesis by (auto simp: decimal_loop.simps [of s i] Let_def split: if_splits)
    qed
  next
    case False
    with 1(5) have "j = i" by (simp add: decimal_loop.simps [of s i])
    with 1(4) show ?thesis by simp
  qed
qed

lemma decimal_loop_progress:
  assumes "i < length s" and "is_ascii_digit (s ! i) \<or> s ! i = CHR ''.''"
    and "decimal_loop s i False False = (j, d', e')"
  shows "i < j \<and> j \<le> length s"
proof -
  have "\<exists>d. decimal_loop s (i + 1) d False = (j, d', e')"
    using assms by (auto simp: decimal_loop.simps [of s i False False] Let_def split: if_splits)
  with assms(1) show ?thesis using decimal_loop_bounds [of "i + 1" s] by fastforce
qed

lemma slice_frame: "slice s i i = []"
  by (simp add: slice_def)

lemma consume_uint_suffix_cases:
  assumes "consume_uint_suffix l = (b, l')" and "pos l \<le> length (src l)"
  shows "src l' = src l \<and> tokens l' = tokens l \<and> pos l \<le> pos l' \<and> pos l' \<le> length (src l)"
  using assms peek_sat_in_range [of l 0 "\<lambda>c. c = CHR ''u'' \<or> c = CHR ''U''"]
  by (auto simp: consume_uint_suffix_def split: if_splits)

lemma consume_float_suffix_frame:
  assumes "pos l \<le> length (src l)"
  shows "src (consume_float_suffix l) = src l \<and> tokens (consume_float_suffix l) = tokens l \<and>
    pos l \<le> pos (consume_float_suffix l) \<and> pos (consume_float_suffix l) \<le> length (src l)"
  using assms peek_sat_in_range [of l 0 "\<lambda>c. c = CHR ''f'' \<or> c = CHR ''F''"]
  by (auto simp: consume_float_suffix_def)

lemma number_hex_reads:
  assumes "number_hex (pos l) l = Inr l'" and "pos l + 1 < length (src l)"
  shows "\<exists>k. reads_token l k l'"
proof -
  let ?p = "scan_while is_ascii_hexdigit (src l) (pos l + 2)"
  let ?l1 = "l\<lparr>pos := ?p\<rparr>"
  obtain b l2 where c: "consume_uint_suffix ?l1 = (b, l2)" by fastforce
  have p: "pos l + 2 \<le> ?p" "?p \<le> length (src l)"
    using assms(2) by (simp_all add: scan_while_ge scan_while_le)
  from consume_uint_suffix_cases [OF c] p
  have l2: "src l2 = src l" "tokens l2 = tokens l" "?p \<le> pos l2" "pos l2 \<le> length (src l)" by auto
  from assms(1) c show ?thesis
    using l2 p by (fastforce simp: number_hex_def Let_def reads_token_def emit_def
        split: if_splits option.splits prod.splits)
qed

lemma number_decimal_reads:
  assumes "number_decimal (pos l) l = Inr l'" and "pos l < length (src l)"
    and "is_ascii_digit (src l ! pos l) \<or> src l ! pos l = CHR ''.''"
  shows "\<exists>k. reads_token l k l'"
proof -
  obtain p d e where loop: "decimal_loop (src l) (pos l) False False = (p, d, e)"
    by (metis prod_cases3)
  let ?l1 = "l\<lparr>pos := p\<rparr>"
  have p: "pos l < p" "p \<le> length (src l)"
    using decimal_loop_progress [OF assms(2,3) loop] by auto
  obtain b l2 where c: "consume_uint_suffix ?l1 = (b, l2)" by fastforce
  from consume_uint_suffix_cases [OF c] p
  have l2: "src l2 = src l" "tokens l2 = tokens l" "p \<le> pos l2" "pos l2 \<le> length (src l)" by auto
  from consume_float_suffix_frame [of ?l1] p
  have f: "src (consume_float_suffix ?l1) = src l" "tokens (consume_float_suffix ?l1) = tokens l"
    "p \<le> pos (consume_float_suffix ?l1)" "pos (consume_float_suffix ?l1) \<le> length (src l)" by auto
  show ?thesis
  proof (cases "d \<or> e")
    case True
    with assms(1) loop f p show ?thesis
      by (fastforce simp: number_decimal_def Let_def reads_token_def emit_def split: option.splits)
  next
    case False
    with assms(1) loop c l2 p show ?thesis
      by (fastforce simp: number_decimal_def Let_def reads_token_def emit_def
          split: option.splits if_splits)
  qed
qed

lemma number_reads:
  assumes "number (pos l) l = Inr l'" and "pos l < length (src l)" and "starts_number l"
  shows "\<exists>k. reads_token l k l'"
proof (cases "src l ! pos l = CHR ''0'' \<and> peek_sat l 1 (\<lambda>c. c = CHR ''x'' \<or> c = CHR ''X'')")
  case True
  then have "pos l + 1 < length (src l)"
    by (blast dest: peek_sat_in_range)
  with True assms(1) show ?thesis by (simp add: number_def number_hex_reads)
next
  case False
  with assms show ?thesis
    by (simp add: number_def number_decimal_reads starts_number_def) (metis number_decimal_reads)
qed

lemma classify_ident_not_Eof: "classify_ident text \<noteq> Eof"
proof (cases "map_of keyword_table text")
  case (Some k)
  then have "k \<in> set (map snd keyword_table)" by (force dest: map_of_SomeD)
  then have "k \<noteq> Eof" by (auto simp: keyword_table_def)
  with Some show ?thesis by (simp add: classify_ident_def)
qed (auto simp: classify_ident_def split: option.splits)

lemma ident_reads:
  assumes "pos l < length (src l)" and "is_ident_char (src l ! pos l)"
  shows "reads_token l (classify_ident (slice (src l) (pos l) (pos (ident (pos l) l)))) (ident (pos l) l)"
  using assms scan_while_less [of "pos l" "src l" is_ident_char] scan_while_le [of "pos l" "src l" is_ident_char]
  by (simp add: ident_def Let_def reads_token_def emit_def classify_ident_not_Eof)

lemma op_kind_not_Eof: "op2_kind c n = Some k \<Longrightarrow> k \<noteq> Eof" "op1_kind c = Some k \<Longrightarrow> k \<noteq> Eof"
  by (auto simp: op2_kind_def op1_kind_def split: if_splits)

lemma op2_kind_not_nul: "op2_kind c (CHR 0x00) = None"
  by (simp add: op2_kind_def)

lemma op_reads:
  assumes "op (pos l) l = Inr l'" and "pos l < length (src l)"
  shows "\<exists>k. reads_token l k l'"
  using assms
  by (auto simp: op_def Let_def reads_token_def emit_def peek_is_def op_kind_not_Eof op2_kind_not_nul
      split: option.splits if_splits)

lemma lex_one_cases:
  assumes "lex_one l = Inr l'"
  obtains (num) "starts_number l" "number (pos l) l = Inr l'"
    | (ident) "is_ident_char (src l ! pos l)" "ident (pos l) l = l'"
    | (op) "op (pos l) l = Inr l'"
  using assms
  by (auto simp: lex_one_def Let_def is_ident_char_def is_ascii_alphanumeric_def split: if_splits)

lemma lex_one_reads:
  assumes "lex_one l = Inr l'" and "pos l < length (src l)"
  shows "\<exists>k. reads_token l k l'"
  using assms(1)
  by (cases rule: lex_one_cases) (use assms(2) number_reads ident_reads op_reads in blast)+

text \<open>The ways a successful skip unfolds: it stops, or it passes one blank or one comment.\<close>

lemma skip_cases:
  assumes "skip_ws_and_comments l = Inr l'"
  obtains (stop) "l' = l"
      "pos l < length (src l) \<Longrightarrow> \<not> is_ascii_whitespace (src l ! pos l)"
      "\<not> (pos l + 1 < length (src l) \<and> src l ! pos l = CHR ''/'' \<and>
          src l ! (pos l + 1) \<in> {CHR ''/'', CHR ''*''})"
    | (blank) "pos l < length (src l)" "is_ascii_whitespace (src l ! pos l)"
      "skip_ws_and_comments (l\<lparr>pos := pos l + 1\<rparr>) = Inr l'"
    | (line) "pos l + 1 < length (src l)" "src l ! pos l = CHR ''/''" "src l ! (pos l + 1) = CHR ''/''"
      "\<not> is_ascii_whitespace (src l ! pos l)"
      "skip_ws_and_comments (l\<lparr>pos := scan_while (\<lambda>c. c \<noteq> CHR 0x0A) (src l) (pos l + 2)\<rparr>) = Inr l'"
    | (block) p where "pos l + 1 < length (src l)" "src l ! pos l = CHR ''/''"
      "src l ! (pos l + 1) = CHR ''*''" "\<not> is_ascii_whitespace (src l ! pos l)"
      "block_comment_end (src l) (pos l + 2) = Some p"
      "skip_ws_and_comments (l\<lparr>pos := p\<rparr>) = Inr l'"
proof (cases "pos l < length (src l)")
  case False
  with assms stop show ?thesis by (simp add: skip_ws_and_comments.simps [of l])
next
  case True
  note unfolded = assms [unfolded skip_ws_and_comments.simps [of l] Let_def if_P [OF True]]
  show ?thesis
  proof (cases "is_ascii_whitespace (src l ! pos l)")
    case True
    with \<open>pos l < length (src l)\<close> unfolded blank show ?thesis by simp
  next
    case False
    with True unfolded line block stop show ?thesis
      by (auto simp: peek_is_def split: if_splits option.splits)
  qed
qed

lemma skip_frame:
  "skip_ws_and_comments l = Inr l' \<Longrightarrow> pos l \<le> length (src l) \<Longrightarrow>
    src l' = src l \<and> tokens l' = tokens l \<and> pos l \<le> pos l' \<and> pos l' \<le> length (src l)"
proof (induction "length (src l) - pos l" arbitrary: l rule: less_induct)
  case less
  from less.prems(1) show ?case
  proof (cases rule: skip_cases)
    case blank
    then have "length (src l) - (pos l + 1) < length (src l) - pos l" by simp
    with less.hyps [OF _ blank(3)] blank(1) show ?thesis by simp
  next
    case line
    then have "pos l + 2 \<le> scan_while (\<lambda>c. c \<noteq> CHR 0x0A) (src l) (pos l + 2)"
      "scan_while (\<lambda>c. c \<noteq> CHR 0x0A) (src l) (pos l + 2) \<le> length (src l)"
      by (simp_all add: scan_while_ge scan_while_le)
    moreover from this line(1) have
      "length (src l) - scan_while (\<lambda>c. c \<noteq> CHR 0x0A) (src l) (pos l + 2) < length (src l) - pos l"
      by simp
    ultimately show ?thesis using less.hyps [OF _ line(5)] by simp
  next
    case (block p)
    then have "pos l + 2 \<le> p" "p \<le> length (src l)"
      using block_comment_end_bounds [OF block(5)] by simp_all
    moreover from this block(1) have "length (src l) - p < length (src l) - pos l" by simp
    ultimately show ?thesis using less.hyps [OF _ block(6)] by simp
  qed (use less.prems in simp)
qed

function run :: "lexer \<Rightarrow> lex_error + token list" where
  "run l =
     (if pos l < length (src l) then
        (case skip_ws_and_comments l of
           Inl e \<Rightarrow> Inl e
         | Inr l1 \<Rightarrow>
             if length (src l1) \<le> pos l1 then Inr (tokens l1 @ [eof_token l1])
             else (case lex_one l1 of Inl e \<Rightarrow> Inl e | Inr l2 \<Rightarrow> run l2))
      else Inr (tokens l @ [eof_token l]))"
  by pat_completeness auto
termination
proof (relation "measure (\<lambda>l. length (src l) - pos l)", goal_cases)
  case (2 l l1 l2)
  then have "src l1 = src l" "pos l \<le> pos l1" using skip_frame [of l l1] by auto
  moreover obtain k where "reads_token l1 k l2" using lex_one_reads [of l1 l2] 2 by auto
  ultimately show ?case using 2 by (auto simp: reads_token_def)
qed auto

declare run.simps [simp del]

definition lex :: "string \<Rightarrow> lex_error + token list" where
  "lex source = run (Lexer_new source)"

end
