(* ===== verification/Ast.thy ===== *)
theory Ast
  imports Lexer
begin

text \<open>
  The abstract syntax of \<^verbatim>\<open>crates/hlsl-compiler/src/ast.rs\<close> with the two methods of \<open>Type\<close> and its
  \<open>Display\<close>, and the type words of \<^verbatim>\<open>crates/hlsl-compiler/src/parser.rs\<close> that decode such a text
  back (\<open>decode_shape\<close>, \<open>decode_type_word\<close>, \<open>is_type_word\<close>). Dimensions are 32-bit words.
\<close>

section \<open>Types\<close>

datatype scalar_kind = SkFloat | SkInt | SkUint | SkBool

datatype type =
    TyVoid
  | TyScalar scalar_kind
  | TyVector scalar_kind u32
  | TyMatrix scalar_kind u32 u32
  | TyStruct string
  | TyTexture2D
  | TySamplerState

fun component_count :: "type \<Rightarrow> u32" where
  "component_count TyVoid = 0"
| "component_count (TyScalar _) = 1"
| "component_count (TyVector _ n) = n"
| "component_count (TyMatrix _ r c) = r * c"
| "component_count (TyStruct _) = 0"
| "component_count TyTexture2D = 0"
| "component_count TySamplerState = 0"

fun is_composite :: "type \<Rightarrow> bool" where
  "is_composite (TyVector _ _) = True"
| "is_composite (TyMatrix _ _ _) = True"
| "is_composite _ = False"

fun show_scalar :: "scalar_kind \<Rightarrow> string" where
  "show_scalar SkFloat = ''float''"
| "show_scalar SkInt = ''int''"
| "show_scalar SkUint = ''uint''"
| "show_scalar SkBool = ''bool''"

fun show_type :: "type \<Rightarrow> string" where
  "show_type TyVoid = ''void''"
| "show_type (TyScalar k) = show_scalar k"
| "show_type (TyVector k n) = show_scalar k @ show_nat (unat n)"
| "show_type (TyMatrix k r c) = show_scalar k @ show_nat (unat r) @ ''x'' @ show_nat (unat c)"
| "show_type (TyStruct name) = name"
| "show_type TyTexture2D = ''Texture2D''"
| "show_type TySamplerState = ''SamplerState''"

section \<open>Expressions, statements, declarations\<close>

datatype literal = LInt int | LUint u64 | LFloat f64 | LBool bool

datatype binary_op =
    Add | Sub | Mul | Div | Mod | Assign | AddAssign | SubAssign | MulAssign | DivAssign
  | OpEq | OpNe | OpLt | OpLe | OpGt | OpGe | And | Or | BitAnd | BitOr | BitXor

datatype unary_op = Neg | Not | BitNot

datatype expr =
    ELiteral literal
  | EIdent string
  | EConstruct type "expr list"
  | ECall string "expr list"
  | EMethodCall expr string "expr list"
  | EMember expr string
  | EBinary binary_op expr expr
  | EUnary unary_op expr
  | ECast type expr

record var_decl =
  vd_ty :: type
  vd_name :: string
  vd_init :: "expr option"
  vd_semantic :: "string option"

datatype stmt =
    SReturn "expr option"
  | SVarDecl var_decl
  | SExpr expr
  | SIf expr block "block option"
  | SFor "stmt option" "expr option" "expr option" block
  | SBlock block
and block = Block (stmts: "stmt list")

record param =
  pm_ty :: type
  pm_name :: string
  pm_semantic :: "string option"

record struct_member =
  sm_ty :: type
  sm_name :: string
  sm_semantic :: "string option"

record struct_decl =
  sd_name :: string
  sd_members :: "struct_member list"

record cbuffer_decl =
  cb_name :: string
  cb_register :: "string option"
  cb_members :: "struct_member list"

record function_decl =
  fd_return_type :: type
  fd_name :: string
  fd_params :: "param list"
  fd_semantic :: "string option"
  fd_body :: "block option"

record global_var_decl =
  gv_ty :: type
  gv_name :: string
  gv_register :: "string option"

datatype decl =
    DStruct struct_decl
  | DCBuffer cbuffer_decl
  | DFunction function_decl
  | DGlobalVar global_var_decl

record translation_unit =
  decls :: "decl list"

section \<open>Type words\<close>

definition parse_u32 :: "string \<Rightarrow> u32 option" where
  "parse_u32 s = map_option of_nat (parse_unsigned 10 (2 ^ 32) s)"

definition decode_shape :: "string \<Rightarrow> (u32 \<times> u32) option" where
  "decode_shape rest =
     (if rest = [] then Some (1, 1)
      else case split_once (CHR ''x'') rest of
        Some (r, c) \<Rightarrow>
          (case parse_u32 r of
             None \<Rightarrow> None
           | Some r \<Rightarrow>
               (case parse_u32 c of
                  None \<Rightarrow> None
                | Some c \<Rightarrow> if 1 \<le> r \<and> 1 \<le> c then Some (r, c) else None))
      | None \<Rightarrow>
          (case parse_u32 rest of
             None \<Rightarrow> None
           | Some n \<Rightarrow> if 2 \<le> n \<and> n \<le> 4 then Some (n, 1) else None))"

definition type_of_shape :: "scalar_kind \<Rightarrow> u32 \<times> u32 \<Rightarrow> type" where
  "type_of_shape k rc =
     (case rc of (r, c) \<Rightarrow>
        if r = 1 \<and> c = 1 then TyScalar k
        else if c = 1 then TyVector k r
        else TyMatrix k r c)"

definition decode_type_word :: "string \<Rightarrow> type option" where
  "decode_type_word s =
     (case strip_prefix ''float'' s of
        Some rest \<Rightarrow> map_option (type_of_shape SkFloat) (decode_shape rest)
      | None \<Rightarrow>
     (case strip_prefix ''int'' s of
        Some rest \<Rightarrow> map_option (type_of_shape SkInt) (decode_shape rest)
      | None \<Rightarrow>
     (case strip_prefix ''uint'' s of
        Some rest \<Rightarrow> map_option (type_of_shape SkUint) (decode_shape rest)
      | None \<Rightarrow>
     (case strip_prefix ''bool'' s of
        Some rest \<Rightarrow> map_option (type_of_shape SkBool) (decode_shape rest)
      | None \<Rightarrow> None))))"

definition is_type_word :: "string \<Rightarrow> bool" where
  "is_type_word s \<longleftrightarrow> decode_type_word s \<noteq> None"

section \<open>Printing a type and decoding it\<close>

text \<open>
  The types a type word can name: scalars, vectors of two to four components (longer column shapes
  \<open>Nx1\<close> also decode to vectors), and matrices of at least two columns.
\<close>

fun word_type :: "type \<Rightarrow> bool" where
  "word_type (TyScalar _) = True"
| "word_type (TyVector _ n) \<longleftrightarrow> 2 \<le> n \<and> n \<le> 4"
| "word_type (TyMatrix _ r c) \<longleftrightarrow> 1 \<le> r \<and> 2 \<le> c"
| "word_type _ = False"

lemma parse_u32_show [simp]: "parse_u32 (show_nat (unat (n :: u32))) = Some n"
  by (simp add: parse_u32_def unsigned_less [of n, simplified])

lemma x_not_digit [simp]: "CHR ''x'' \<notin> set (show_nat n)"
  using show_nat_digits [of "CHR ''x''" n] by (auto simp: is_ascii_digit_def)

lemma decode_shape_vector: "2 \<le> n \<Longrightarrow> n \<le> 4 \<Longrightarrow> decode_shape (show_nat (unat (n :: u32))) = Some (n, 1)"
  by (simp add: decode_shape_def split_once_None [THEN iffD2])

lemma decode_shape_matrix:
  "1 \<le> r \<Longrightarrow> 1 \<le> c \<Longrightarrow>
    decode_shape (show_nat (unat (r :: u32)) @ ''x'' @ show_nat (unat (c :: u32))) = Some (r, c)"
  by (simp add: decode_shape_def)

lemma decode_type_word_scalar:
  "decode_type_word (show_scalar k @ rest) = map_option (type_of_shape k) (decode_shape rest)"
  by (cases k) (simp_all add: decode_type_word_def)

text \<open>Types print and decode back: the text that \<open>Display\<close> gives a scalar, vector or matrix type
  is a type word that decodes to the same type.
\<close>

theorem decode_show_type: "word_type t \<Longrightarrow> decode_type_word (show_type t) = Some t"
proof (cases t)
  case (TyScalar k)
  then show ?thesis using decode_type_word_scalar [of k "[]"]
    by (simp add: decode_shape_def type_of_shape_def)
next
  case (TyVector k n)
  moreover assume "word_type t"
  moreover have "n \<noteq> 1" if "2 \<le> n" using that by (auto simp: word_le_nat_alt)
  ultimately show ?thesis
    by (simp add: decode_type_word_scalar decode_shape_vector type_of_shape_def)
next
  case (TyMatrix k r c)
  moreover assume "word_type t"
  moreover have "1 \<le> c \<and> c \<noteq> 1" if "2 \<le> c" using that by (auto simp: word_le_nat_alt)
  ultimately show ?thesis
    by (simp add: decode_type_word_scalar decode_shape_matrix [simplified] type_of_shape_def)
qed simp_all

theorem decode_show_type_witness:
  "decode_type_word (show_type (TyMatrix SkFloat 3 4)) = Some (TyMatrix SkFloat 3 4)"
  by (rule decode_show_type) simp

text \<open>Every type a word decodes to is a scalar, a vector of at least two components, or a matrix
  with at least one row and at least two columns; no other constructor and no empty shape
  is ever produced.
\<close>

theorem decode_type_word_shape:
  assumes "decode_type_word s = Some t"
  shows "case t of TyScalar _ \<Rightarrow> True | TyVector _ n \<Rightarrow> 2 \<le> n | TyMatrix _ r c \<Rightarrow> 1 \<le> r \<and> 2 \<le> c
    | _ \<Rightarrow> False"
proof -
  from assms obtain k rest rc where rc: "decode_shape rest = Some rc" "t = type_of_shape k rc"
    by (auto simp: decode_type_word_def split: option.splits)
  obtain r c where p: "rc = (r, c)" by fastforce
  have two: "1 \<le> x" if "2 \<le> x" for x :: u32
    using that by (simp add: word_le_nat_alt)
  from rc(1) p have "1 \<le> r \<and> 1 \<le> c"
    by (auto simp: decode_shape_def two split: option.splits if_splits)
  moreover have "2 \<le> x" if "1 \<le> x" "x \<noteq> 1" for x :: u32
  proof -
    have "unat x \<noteq> 1" using that(2) by (auto simp: word_unat_eq_iff)
    with that(1) show ?thesis by (simp add: word_le_nat_alt)
  qed
  ultimately show ?thesis using rc(2) p by (auto simp: type_of_shape_def)
qed

theorem decode_type_word_shape_witness:
  "case TyVector SkFloat 5 of TyScalar _ \<Rightarrow> True | TyVector _ n \<Rightarrow> 2 \<le> n
    | TyMatrix _ r c \<Rightarrow> 1 \<le> r \<and> 2 \<le> c | _ \<Rightarrow> False"
proof -
  have "decode_type_word ''float5x1'' = Some (TyVector SkFloat 5)"
    by (simp add: decode_type_word_def decode_shape_def parse_u32_def parse_unsigned_def
        digit_val_def is_ascii_digit_def type_of_shape_def Let_def)
  from decode_type_word_shape [OF this] show ?thesis .
qed

end
