(* ===== verification/Parser.thy ===== *)
theory Parser
  imports Ast
begin

text \<open>
  The recursive-descent parser, \<^verbatim>\<open>crates/hlsl-compiler/src/parser.rs\<close>: its state (the token vector, the
  cursor, the struct names declared so far) and one definition per method, in the order of
  the source. A method returns an outcome: a value with the new state, a parse error, a panic
  (an index outside the token vector), or \<open>Timeout\<close> when the fuel of a loop or of a recursion runs
  out. Recursion is tied through parameters: the expression methods take the expression parser
  they re-enter as \<open>pe\<close>, the statement methods the statement parser as \<open>ps\<close>, and \<open>parse_expr\<close>
  and \<open>parse_stmt\<close> close the two knots on the fuel. A fuel of the number of tokens is enough
  (theory ParserTotal). Diagnostics carry the expectation and the token found; their rendering
  as text is not modelled.
\<close>

section \<open>Outcomes and state\<close>

datatype what = What string | WhatGot string token_kind

datatype diag = Expected what token_kind | UnknownType string

record parse_error =
  pe_span :: span
  pe_msg :: diag

datatype 'a outcome = Ok 'a | Err parse_error | Panic | Timeout

definition obind :: "'a outcome \<Rightarrow> ('a \<Rightarrow> 'b outcome) \<Rightarrow> 'b outcome" where
  "obind m f = (case m of Ok x \<Rightarrow> f x | Err e \<Rightarrow> Err e | Panic \<Rightarrow> Panic | Timeout \<Rightarrow> Timeout)"

lemma obind_simps [simp]:
  "obind (Ok x) f = f x" "obind (Err e) f = Err e" "obind Panic f = Panic" "obind Timeout f = Timeout"
  by (simp_all add: obind_def)

record parser =
  toks :: "token list"
  idx :: nat
  struct_names :: "string set"

type_synonym 'a parse = "('a \<times> parser) outcome"

definition Parser_new :: "token list \<Rightarrow> parser" where
  "Parser_new ts = \<lparr>toks = ts, idx = 0, struct_names = {}\<rparr>"

section \<open>Token helpers\<close>

definition tok_at :: "parser \<Rightarrow> nat \<Rightarrow> token outcome" where
  "tok_at p i = (if i < length (toks p) then Ok (toks p ! i) else Panic)"

definition peek :: "parser \<Rightarrow> token_kind outcome" where
  "peek p = obind (tok_at p (idx p)) (\<lambda>t. Ok (kind t))"

definition at_eof :: "parser \<Rightarrow> bool outcome" where
  "at_eof p = obind (peek p) (\<lambda>k. Ok (k = Eof))"

definition span_here :: "parser \<Rightarrow> span outcome" where
  "span_here p = obind (tok_at p (idx p)) (\<lambda>t. Ok (span t))"

definition bump :: "parser \<Rightarrow> token_kind parse" where
  "bump p = obind (peek p) (\<lambda>k. Ok (k, if k = Eof then p else p\<lparr>idx := idx p + 1\<rparr>))"

text \<open>\<open>mem::discriminant\<close>: the constructor alone is compared, a payload is ignored.\<close>

definition same_discriminant :: "token_kind \<Rightarrow> token_kind \<Rightarrow> bool" where
  "same_discriminant a b = (case a of
     TIdent _ \<Rightarrow> (case b of TIdent _ \<Rightarrow> True | _ \<Rightarrow> False)
   | TKeyword _ \<Rightarrow> (case b of TKeyword _ \<Rightarrow> True | _ \<Rightarrow> False)
   | TSemantic _ \<Rightarrow> (case b of TSemantic _ \<Rightarrow> True | _ \<Rightarrow> False)
   | TIntLiteral _ \<Rightarrow> (case b of TIntLiteral _ \<Rightarrow> True | _ \<Rightarrow> False)
   | TUintLiteral _ \<Rightarrow> (case b of TUintLiteral _ \<Rightarrow> True | _ \<Rightarrow> False)
   | TFloatLiteral _ \<Rightarrow> (case b of TFloatLiteral _ \<Rightarrow> True | _ \<Rightarrow> False)
   | TBoolLiteral _ \<Rightarrow> (case b of TBoolLiteral _ \<Rightarrow> True | _ \<Rightarrow> False)
   | _ \<Rightarrow> a = b)"

definition eat :: "token_kind \<Rightarrow> parser \<Rightarrow> bool parse" where
  "eat want p = obind (peek p) (\<lambda>k.
     if same_discriminant k want then obind (bump p) (\<lambda>(_, p). Ok (True, p)) else Ok (False, p))"

definition unexpected :: "what \<Rightarrow> parser \<Rightarrow> 'a outcome" where
  "unexpected w p = obind (span_here p) (\<lambda>sp. obind (peek p) (\<lambda>k.
     Err \<lparr>pe_span = sp, pe_msg = Expected w k\<rparr>))"

definition expect :: "token_kind \<Rightarrow> string \<Rightarrow> parser \<Rightarrow> unit parse" where
  "expect want w p = obind (peek p) (\<lambda>k.
     if same_discriminant k want then obind (bump p) (\<lambda>(_, p). Ok ((), p))
     else unexpected (What w) p)"

text \<open>The errors placed at the token before the cursor, \<open>toks[idx.saturating_sub(1)]\<close>.\<close>

definition err_before :: "diag \<Rightarrow> parser \<Rightarrow> 'a outcome" where
  "err_before d p = obind (tok_at p (idx p - 1)) (\<lambda>t. Err \<lparr>pe_span = span t, pe_msg = d\<rparr>)"

definition expect_ident :: "string \<Rightarrow> parser \<Rightarrow> string parse" where
  "expect_ident w p = obind (bump p) (\<lambda>(k, p).
     case k of TIdent s \<Rightarrow> Ok (s, p) | other \<Rightarrow> err_before (Expected (What w) other) p)"

lemma bump_progress:
  assumes "bump p = Ok (k, p')" and "k \<noteq> Eof"
  shows "idx p < length (toks p) \<and> p' = p\<lparr>idx := idx p + 1\<rparr>"
  using assms by (auto simp: bump_def peek_def tok_at_def obind_def split: if_splits)

text \<open>The loops \<open>while !matches!(peek, stop | Eof) { bump }\<close>.\<close>

function skip_to :: "(token_kind \<Rightarrow> bool) \<Rightarrow> parser \<Rightarrow> parser outcome" where
  "skip_to stop p =
     (case bump p of
        Ok (k, p') \<Rightarrow> if stop k \<or> k = Eof then Ok p else skip_to stop p'
      | Err e \<Rightarrow> Err e | Panic \<Rightarrow> Panic | Timeout \<Rightarrow> Timeout)"
  by pat_completeness auto
termination
proof (relation "measure (\<lambda>(_, p). length (toks p) - idx p)", goal_cases)
  case (2 stop p kp k p')
  then show ?case using bump_progress [of p k p'] by auto
qed simp

declare skip_to.simps [simp del]

definition skip_until_rparen :: "parser \<Rightarrow> parser outcome" where
  "skip_until_rparen p = obind (skip_to (\<lambda>k. k = RParen) p) (\<lambda>p.
     obind (eat RParen p) (\<lambda>(_, p). Ok p))"

definition skip_until_gt :: "parser \<Rightarrow> parser outcome" where
  "skip_until_gt p = obind (skip_to (\<lambda>k. k = Gt) p) (\<lambda>p.
     obind (peek p) (\<lambda>k. if k = Gt then obind (bump p) (\<lambda>(_, p). Ok p) else Ok p))"

section \<open>Types, semantics, registers\<close>

definition type_token_len :: "parser \<Rightarrow> nat outcome" where
  "type_token_len p = obind (peek p) (\<lambda>k. Ok (case k of
     TKeyword kw \<Rightarrow>
       (if kw \<in> {KVoid, KFloat, KInt, KUint, KBool, KSamplerState, KTexture2D} then 1 else 0)
   | TIdent s \<Rightarrow> (if is_type_word s \<or> s \<in> struct_names p then 1 else 0)
   | _ \<Rightarrow> 0))"

definition peek_is_type :: "parser \<Rightarrow> bool outcome" where
  "peek_is_type p = obind (type_token_len p) (\<lambda>n. Ok (0 < n))"

definition looks_like_var_decl :: "parser \<Rightarrow> bool outcome" where
  "looks_like_var_decl p = obind (peek_is_type p) (\<lambda>b.
     if \<not> b then Ok False
     else obind (type_token_len p) (\<lambda>j. obind (tok_at p (idx p + j)) (\<lambda>t.
       Ok (case kind t of TIdent _ \<Rightarrow> True | _ \<Rightarrow> False))))"

definition parse_type :: "parser \<Rightarrow> type parse" where
  "parse_type p = obind (bump p) (\<lambda>(k, p).
     case k of
       TKeyword KVoid \<Rightarrow> Ok (TyVoid, p)
     | TKeyword KFloat \<Rightarrow> Ok (TyScalar SkFloat, p)
     | TKeyword KInt \<Rightarrow> Ok (TyScalar SkInt, p)
     | TKeyword KUint \<Rightarrow> Ok (TyScalar SkUint, p)
     | TKeyword KBool \<Rightarrow> Ok (TyScalar SkBool, p)
     | TKeyword KSamplerState \<Rightarrow> Ok (TySamplerState, p)
     | TKeyword KTexture2D \<Rightarrow>
         obind (eat Lt p) (\<lambda>(b, p).
           if b then obind (skip_until_gt p) (\<lambda>p. Ok (TyTexture2D, p)) else Ok (TyTexture2D, p))
     | TIdent s \<Rightarrow>
         (case decode_type_word s of
            Some ty \<Rightarrow> Ok (ty, p)
          | None \<Rightarrow>
              if s \<in> struct_names p then Ok (TyStruct s, p) else err_before (UnknownType s) p)
     | other \<Rightarrow> err_before (Expected (What ''type'') other) p)"

definition parse_optional_semantic :: "parser \<Rightarrow> string option parse" where
  "parse_optional_semantic p = obind (eat Colon p) (\<lambda>(b, p).
     if \<not> b then Ok (None, p)
     else obind (bump p) (\<lambda>(k, p).
       Ok (case k of TSemantic s \<Rightarrow> Some s | TIdent s \<Rightarrow> Some s | _ \<Rightarrow> None, p)))"

text \<open>A failed \<open>expect\<close> of \<open>register\<close> is turned into \<open>None\<close>, with the colon already consumed.\<close>

definition parse_optional_register :: "parser \<Rightarrow> string option parse" where
  "parse_optional_register p = obind (eat Colon p) (\<lambda>(b, p).
     if \<not> b then Ok (None, p)
     else case expect (TKeyword KRegister) ''register'' p of
       Err _ \<Rightarrow> Ok (None, p)
     | Panic \<Rightarrow> Panic
     | Timeout \<Rightarrow> Timeout
     | Ok (_, p) \<Rightarrow>
         obind (eat LParen p) (\<lambda>(b, p).
           if \<not> b then Ok (None, p)
           else obind (bump p) (\<lambda>(k, p).
             case k of
               TIdent s \<Rightarrow> obind (skip_until_rparen p) (\<lambda>p. Ok (Some s, p))
             | _ \<Rightarrow> obind (skip_until_rparen p) (\<lambda>p. Ok (None, p)))))"

section \<open>Members and parameters\<close>

text \<open>
  The loop over the members of a \<open>struct\<close> or a \<open>cbuffer\<close>; \<open>w\<close> names the member in diagnostics.
\<close>

fun parse_members :: "nat \<Rightarrow> string \<Rightarrow> parser \<Rightarrow> struct_member list parse" where
  "parse_members 0 w p = Timeout"
| "parse_members (Suc n) w p = obind (eat RBrace p) (\<lambda>(b, p).
     if b then Ok ([], p)
     else obind (parse_type p) (\<lambda>(ty, p).
       obind (expect_ident w p) (\<lambda>(mname, p).
       obind (parse_optional_semantic p) (\<lambda>(sem, p).
       obind (expect Semicolon '';'' p) (\<lambda>(_, p).
       obind (parse_members n w p) (\<lambda>(ms, p).
         Ok (\<lparr>sm_ty = ty, sm_name = mname, sm_semantic = sem\<rparr> # ms, p)))))))"

definition parse_struct :: "nat \<Rightarrow> parser \<Rightarrow> struct_decl parse" where
  "parse_struct n p = obind (expect (TKeyword KStruct) ''struct'' p) (\<lambda>(_, p).
     obind (expect_ident ''struct name'' p) (\<lambda>(name, p).
     obind (expect LBrace ''{'' p) (\<lambda>(_, p).
     obind (parse_members n ''member name'' p) (\<lambda>(ms, p).
     obind (expect Semicolon ''; after struct'' p) (\<lambda>(_, p).
       Ok (\<lparr>sd_name = name, sd_members = ms\<rparr>, p))))))"

definition parse_cbuffer :: "nat \<Rightarrow> parser \<Rightarrow> cbuffer_decl parse" where
  "parse_cbuffer n p = obind (expect (TKeyword KCBuffer) ''cbuffer'' p) (\<lambda>(_, p).
     obind (expect_ident ''cbuffer name'' p) (\<lambda>(name, p).
     obind (parse_optional_register p) (\<lambda>(reg, p).
     obind (expect LBrace ''{'' p) (\<lambda>(_, p).
     obind (parse_members n ''cbuffer member name'' p) (\<lambda>(ms, p).
     obind (expect Semicolon ''; after cbuffer'' p) (\<lambda>(_, p).
       Ok (\<lparr>cb_name = name, cb_register = reg, cb_members = ms\<rparr>, p)))))))"

definition eat_modifier_word :: "parser \<Rightarrow> parser outcome" where
  "eat_modifier_word p = obind (peek p) (\<lambda>k.
     case k of
       TIdent s \<Rightarrow>
         if s \<in> {''in'', ''out'', ''inout'', ''uniform''} then obind (bump p) (\<lambda>(_, p). Ok p)
         else Ok p
     | _ \<Rightarrow> Ok p)"

fun parse_params_loop :: "nat \<Rightarrow> parser \<Rightarrow> param list parse" where
  "parse_params_loop 0 p = Timeout"
| "parse_params_loop (Suc n) p = obind (eat_modifier_word p) (\<lambda>p.
     obind (parse_type p) (\<lambda>(ty, p).
     obind (expect_ident ''parameter name'' p) (\<lambda>(name, p).
     obind (parse_optional_semantic p) (\<lambda>(sem, p).
     obind (eat Comma p) (\<lambda>(b, p).
       let pm = \<lparr>pm_ty = ty, pm_name = name, pm_semantic = sem\<rparr> in
       if \<not> b then Ok ([pm], p)
       else obind (parse_params_loop n p) (\<lambda>(ps, p). Ok (pm # ps, p)))))))"

definition parse_params :: "nat \<Rightarrow> parser \<Rightarrow> param list parse" where
  "parse_params n p = obind (peek p) (\<lambda>k.
     if k = RParen then Ok ([], p) else parse_params_loop n p)"

section \<open>Expressions\<close>

type_synonym expr_parser = "parser \<Rightarrow> expr parse"

fun parse_args_loop :: "nat \<Rightarrow> expr_parser \<Rightarrow> parser \<Rightarrow> expr list parse" where
  "parse_args_loop 0 pe p = Timeout"
| "parse_args_loop (Suc n) pe p = obind (pe p) (\<lambda>(e, p).
     obind (eat Comma p) (\<lambda>(b, p).
       if \<not> b then Ok ([e], p)
       else obind (parse_args_loop n pe p) (\<lambda>(es, p). Ok (e # es, p))))"

definition parse_args :: "nat \<Rightarrow> expr_parser \<Rightarrow> parser \<Rightarrow> expr list parse" where
  "parse_args n pe p = obind (peek p) (\<lambda>k.
     if k = RParen then Ok ([], p) else parse_args_loop n pe p)"

text \<open>
  A parenthesis: a cast when a type and a closing parenthesis follow; otherwise an expression,
  read from where the cursor stands, which is behind the type if one was there.
\<close>

definition parse_paren :: "expr_parser \<Rightarrow> expr_parser \<Rightarrow> parser \<Rightarrow> expr parse" where
  "parse_paren pe pu p =
     (let group = (\<lambda>p. obind (pe p) (\<lambda>(e, p). obind (expect RParen '')'' p) (\<lambda>(_, p). Ok (e, p))))
      in obind (bump p) (\<lambda>(_, p).
         obind (peek_is_type p) (\<lambda>t.
           if t then
             obind (parse_type p) (\<lambda>(ty, p).
             obind (eat RParen p) (\<lambda>(b, p).
               if b then obind (pu p) (\<lambda>(inner, p). Ok (ECast ty inner, p)) else group p))
           else group p)))"

definition parse_word :: "nat \<Rightarrow> expr_parser \<Rightarrow> string \<Rightarrow> parser \<Rightarrow> expr parse" where
  "parse_word n pe s p = obind (bump p) (\<lambda>(_, p).
     obind (eat LParen p) (\<lambda>(b, p).
       if b then
         obind (parse_args n pe p) (\<lambda>(args, p).
         obind (expect RParen '')'' p) (\<lambda>(_, p).
           case decode_type_word s of
             Some ty \<Rightarrow> Ok (EConstruct ty args, p)
           | None \<Rightarrow> Ok (ECall s args, p)))
       else Ok (EIdent s, p)))"

definition parse_primary :: "nat \<Rightarrow> expr_parser \<Rightarrow> expr_parser \<Rightarrow> parser \<Rightarrow> expr parse" where
  "parse_primary n pe pu p = obind (peek p) (\<lambda>k.
     case k of
       TIntLiteral v \<Rightarrow> obind (bump p) (\<lambda>(_, p). Ok (ELiteral (LInt v), p))
     | TUintLiteral v \<Rightarrow> obind (bump p) (\<lambda>(_, p). Ok (ELiteral (LUint v), p))
     | TFloatLiteral v \<Rightarrow> obind (bump p) (\<lambda>(_, p). Ok (ELiteral (LFloat v), p))
     | TBoolLiteral v \<Rightarrow> obind (bump p) (\<lambda>(_, p). Ok (ELiteral (LBool v), p))
     | LParen \<Rightarrow> parse_paren pe pu p
     | TIdent s \<Rightarrow> parse_word n pe s p
     | other \<Rightarrow> unexpected (WhatGot ''expression'' other) p)"

fun postfix_loop :: "nat \<Rightarrow> expr_parser \<Rightarrow> expr \<Rightarrow> parser \<Rightarrow> expr parse" where
  "postfix_loop 0 pe e p = Timeout"
| "postfix_loop (Suc n) pe e p = obind (peek p) (\<lambda>k.
     if k = Dot then
       obind (bump p) (\<lambda>(_, p).
       obind (expect_ident ''member name'' p) (\<lambda>(m, p).
       obind (eat LParen p) (\<lambda>(b, p).
         if b then
           obind (parse_args (Suc n) pe p) (\<lambda>(args, p).
           obind (expect RParen '')'' p) (\<lambda>(_, p).
             postfix_loop n pe (EMethodCall e m args) p))
         else postfix_loop n pe (EMember e m) p)))
     else Ok (e, p))"

definition parse_postfix :: "nat \<Rightarrow> expr_parser \<Rightarrow> expr_parser \<Rightarrow> parser \<Rightarrow> expr parse" where
  "parse_postfix n pe pu p = obind (parse_primary n pe pu p) (\<lambda>(e, p). postfix_loop n pe e p)"

definition unary_op_of :: "token_kind \<Rightarrow> unary_op option" where
  "unary_op_of k = (case k of Minus \<Rightarrow> Some Neg | Bang \<Rightarrow> Some Not | Tilde \<Rightarrow> Some BitNot | _ \<Rightarrow> None)"

fun parse_unary :: "nat \<Rightarrow> expr_parser \<Rightarrow> parser \<Rightarrow> expr parse" where
  "parse_unary 0 pe p = Timeout"
| "parse_unary (Suc n) pe p = obind (peek p) (\<lambda>k.
     case unary_op_of k of
       Some u \<Rightarrow> obind (bump p) (\<lambda>(_, p). obind (parse_unary n pe p) (\<lambda>(e, p). Ok (EUnary u e, p)))
     | None \<Rightarrow> parse_postfix (Suc n) pe (parse_unary n pe) p)"

text \<open>
  The loop every binary level has: while the next token is an operator of the level, read it and
  an operand of the level below, and fold to the left.
\<close>

fun binary_loop ::
  "nat \<Rightarrow> (token_kind \<Rightarrow> binary_op option) \<Rightarrow> expr_parser \<Rightarrow> expr \<Rightarrow> parser \<Rightarrow> expr parse" where
  "binary_loop 0 opf sub lhs p = Timeout"
| "binary_loop (Suc n) opf sub lhs p = obind (peek p) (\<lambda>k.
     case opf k of
       Some bop \<Rightarrow> obind (bump p) (\<lambda>(_, p). obind (sub p) (\<lambda>(rhs, p).
          binary_loop n opf sub (EBinary bop lhs rhs) p))
     | None \<Rightarrow> Ok (lhs, p))"

definition binary_level ::
  "nat \<Rightarrow> (token_kind \<Rightarrow> binary_op option) \<Rightarrow> expr_parser \<Rightarrow> expr_parser" where
  "binary_level n opf sub p = obind (sub p) (\<lambda>(lhs, p). binary_loop n opf sub lhs p)"

definition mul_op :: "token_kind \<Rightarrow> binary_op option" where
  "mul_op k = (case k of Star \<Rightarrow> Some Mul | Slash \<Rightarrow> Some Div | Percent \<Rightarrow> Some Mod | _ \<Rightarrow> None)"

definition add_op :: "token_kind \<Rightarrow> binary_op option" where
  "add_op k = (case k of Plus \<Rightarrow> Some Add | Minus \<Rightarrow> Some Sub | _ \<Rightarrow> None)"

definition rel_op :: "token_kind \<Rightarrow> binary_op option" where
  "rel_op k = (case k of Lt \<Rightarrow> Some OpLt | Le \<Rightarrow> Some OpLe | Gt \<Rightarrow> Some OpGt | Ge \<Rightarrow> Some OpGe | _ \<Rightarrow> None)"

definition equality_op :: "token_kind \<Rightarrow> binary_op option" where
  "equality_op k = (case k of EqEq \<Rightarrow> Some OpEq | Neq \<Rightarrow> Some OpNe | _ \<Rightarrow> None)"

definition and_op :: "token_kind \<Rightarrow> binary_op option" where
  "and_op k = (case k of AndAnd \<Rightarrow> Some And | _ \<Rightarrow> None)"

definition or_op :: "token_kind \<Rightarrow> binary_op option" where
  "or_op k = (case k of OrOr \<Rightarrow> Some Or | _ \<Rightarrow> None)"

definition assign_op :: "token_kind \<Rightarrow> binary_op option" where
  "assign_op k = (case k of TAssign \<Rightarrow> Some Assign | PlusEq \<Rightarrow> Some AddAssign
     | MinusEq \<Rightarrow> Some SubAssign | StarEq \<Rightarrow> Some MulAssign | SlashEq \<Rightarrow> Some DivAssign | _ \<Rightarrow> None)"

definition parse_mul :: "nat \<Rightarrow> expr_parser \<Rightarrow> expr_parser" where
  "parse_mul n pe = binary_level n mul_op (parse_unary n pe)"

definition parse_add :: "nat \<Rightarrow> expr_parser \<Rightarrow> expr_parser" where
  "parse_add n pe = binary_level n add_op (parse_mul n pe)"

definition parse_rel :: "nat \<Rightarrow> expr_parser \<Rightarrow> expr_parser" where
  "parse_rel n pe = binary_level n rel_op (parse_add n pe)"

definition parse_equality :: "nat \<Rightarrow> expr_parser \<Rightarrow> expr_parser" where
  "parse_equality n pe = binary_level n equality_op (parse_rel n pe)"

definition parse_and :: "nat \<Rightarrow> expr_parser \<Rightarrow> expr_parser" where
  "parse_and n pe = binary_level n and_op (parse_equality n pe)"

definition parse_or :: "nat \<Rightarrow> expr_parser \<Rightarrow> expr_parser" where
  "parse_or n pe = binary_level n or_op (parse_and n pe)"

fun parse_assign :: "nat \<Rightarrow> expr_parser \<Rightarrow> parser \<Rightarrow> expr parse" where
  "parse_assign 0 pe p = Timeout"
| "parse_assign (Suc n) pe p = obind (parse_or (Suc n) pe p) (\<lambda>(lhs, p).
     obind (peek p) (\<lambda>k.
       case assign_op k of
         Some bop \<Rightarrow> obind (bump p) (\<lambda>(_, p). obind (parse_assign n pe p) (\<lambda>(rhs, p).
            Ok (EBinary bop lhs rhs, p)))
       | None \<Rightarrow> Ok (lhs, p)))"

fun parse_expr :: "nat \<Rightarrow> parser \<Rightarrow> expr parse" where
  "parse_expr 0 p = Timeout"
| "parse_expr (Suc n) p = parse_assign (Suc n) (parse_expr n) p"

section \<open>Statements\<close>

type_synonym stmt_parser = "parser \<Rightarrow> stmt parse"

fun block_loop :: "nat \<Rightarrow> stmt_parser \<Rightarrow> parser \<Rightarrow> stmt list parse" where
  "block_loop 0 ps p = Timeout"
| "block_loop (Suc n) ps p = obind (peek p) (\<lambda>k.
     if k = RBrace \<or> k = Eof then Ok ([], p)
     else obind (ps p) (\<lambda>(s, p). obind (block_loop n ps p) (\<lambda>(ss, p). Ok (s # ss, p))))"

definition parse_block_body :: "nat \<Rightarrow> stmt_parser \<Rightarrow> parser \<Rightarrow> block parse" where
  "parse_block_body n ps p = obind (block_loop n ps p) (\<lambda>(ss, p). Ok (Block ss, p))"

definition parse_block_or_stmt :: "nat \<Rightarrow> stmt_parser \<Rightarrow> parser \<Rightarrow> block parse" where
  "parse_block_or_stmt n ps p = obind (eat LBrace p) (\<lambda>(b, p).
     if b then
       obind (parse_block_body n ps p) (\<lambda>(blk, p).
       obind (expect RBrace ''}'' p) (\<lambda>(_, p). Ok (blk, p)))
     else obind (ps p) (\<lambda>(s, p). Ok (Block [s], p)))"

definition parse_var_decl :: "nat \<Rightarrow> parser \<Rightarrow> var_decl parse" where
  "parse_var_decl n p = obind (parse_type p) (\<lambda>(ty, p).
     obind (expect_ident ''variable name'' p) (\<lambda>(name, p).
     obind (parse_optional_semantic p) (\<lambda>(sem, p).
     obind (eat TAssign p) (\<lambda>(b, p).
       if b then obind (parse_expr n p) (\<lambda>(e, p).
         Ok (\<lparr>vd_ty = ty, vd_name = name, vd_init = Some e, vd_semantic = sem\<rparr>, p))
       else Ok (\<lparr>vd_ty = ty, vd_name = name, vd_init = None, vd_semantic = sem\<rparr>, p)))))"

definition parse_return :: "nat \<Rightarrow> parser \<Rightarrow> stmt parse" where
  "parse_return n p = obind (expect (TKeyword KReturn) ''return'' p) (\<lambda>(_, p).
     obind (eat Semicolon p) (\<lambda>(b, p).
       if b then Ok (SReturn None, p)
       else obind (parse_expr n p) (\<lambda>(e, p).
         obind (expect Semicolon '';'' p) (\<lambda>(_, p). Ok (SReturn (Some e), p)))))"

definition parse_if :: "nat \<Rightarrow> stmt_parser \<Rightarrow> parser \<Rightarrow> stmt parse" where
  "parse_if n ps p = obind (expect (TKeyword KIf) ''if'' p) (\<lambda>(_, p).
     obind (expect LParen ''('' p) (\<lambda>(_, p).
     obind (parse_expr n p) (\<lambda>(cond, p).
     obind (expect RParen '')'' p) (\<lambda>(_, p).
     obind (parse_block_or_stmt n ps p) (\<lambda>(thn, p).
     obind (eat (TKeyword KElse) p) (\<lambda>(b, p).
       if b then obind (parse_block_or_stmt n ps p) (\<lambda>(els, p). Ok (SIf cond thn (Some els), p))
       else Ok (SIf cond thn None, p)))))))"

definition for_init :: "nat \<Rightarrow> parser \<Rightarrow> stmt option parse" where
  "for_init n p = obind (eat Semicolon p) (\<lambda>(b, p).
     if b then Ok (None, p)
     else
       obind (obind (looks_like_var_decl p) (\<lambda>v.
           if v then obind (parse_var_decl n p) (\<lambda>(vd, p). Ok (SVarDecl vd, p))
           else obind (parse_expr n p) (\<lambda>(e, p). Ok (SExpr e, p)))) (\<lambda>(s, p).
       obind (expect Semicolon '';'' p) (\<lambda>(_, p). Ok (Some s, p))))"

definition for_cond :: "nat \<Rightarrow> parser \<Rightarrow> expr option parse" where
  "for_cond n p = obind (eat Semicolon p) (\<lambda>(b, p).
     if b then Ok (None, p)
     else obind (parse_expr n p) (\<lambda>(e, p).
       obind (expect Semicolon '';'' p) (\<lambda>(_, p). Ok (Some e, p))))"

definition for_update :: "nat \<Rightarrow> parser \<Rightarrow> expr option parse" where
  "for_update n p = obind (peek p) (\<lambda>k.
     if k = RParen then Ok (None, p)
     else obind (parse_expr n p) (\<lambda>(e, p). Ok (Some e, p)))"

definition parse_for :: "nat \<Rightarrow> stmt_parser \<Rightarrow> parser \<Rightarrow> stmt parse" where
  "parse_for n ps p = obind (expect (TKeyword KFor) ''for'' p) (\<lambda>(_, p).
     obind (expect LParen ''('' p) (\<lambda>(_, p).
     obind (for_init n p) (\<lambda>(init, p).
     obind (for_cond n p) (\<lambda>(cond, p).
     obind (for_update n p) (\<lambda>(upd, p).
     obind (expect RParen '')'' p) (\<lambda>(_, p).
     obind (parse_block_or_stmt n ps p) (\<lambda>(body, p).
       Ok (SFor init cond upd body, p))))))))"

definition parse_simple_stmt :: "nat \<Rightarrow> parser \<Rightarrow> stmt parse" where
  "parse_simple_stmt n p = obind (looks_like_var_decl p) (\<lambda>v.
     if v then
       obind (parse_var_decl n p) (\<lambda>(vd, p).
       obind (expect Semicolon '';'' p) (\<lambda>(_, p). Ok (SVarDecl vd, p)))
     else
       obind (parse_expr n p) (\<lambda>(e, p).
       obind (expect Semicolon '';'' p) (\<lambda>(_, p). Ok (SExpr e, p))))"

definition stmt_body :: "nat \<Rightarrow> stmt_parser \<Rightarrow> parser \<Rightarrow> stmt parse" where
  "stmt_body n ps p = obind (peek p) (\<lambda>k.
     if k = TKeyword KReturn then parse_return n p
     else if k = TKeyword KIf then parse_if n ps p
     else if k = TKeyword KFor then parse_for n ps p
     else if k = LBrace then
       obind (bump p) (\<lambda>(_, p).
       obind (parse_block_body n ps p) (\<lambda>(b, p).
       obind (expect RBrace ''}'' p) (\<lambda>(_, p). Ok (SBlock b, p))))
     else parse_simple_stmt n p)"

fun parse_stmt :: "nat \<Rightarrow> parser \<Rightarrow> stmt parse" where
  "parse_stmt 0 p = Timeout"
| "parse_stmt (Suc n) p = stmt_body (Suc n) (parse_stmt n) p"

section \<open>Declarations\<close>

definition parse_function_rest :: "nat \<Rightarrow> type \<Rightarrow> string \<Rightarrow> parser \<Rightarrow> decl parse" where
  "parse_function_rest n ty name p = obind (bump p) (\<lambda>(_, p).
     obind (parse_params n p) (\<lambda>(ps, p).
     obind (expect RParen '')'' p) (\<lambda>(_, p).
     obind (parse_optional_semantic p) (\<lambda>(sem, p).
     obind (eat Semicolon p) (\<lambda>(b, p).
       if b then
         Ok (DFunction \<lparr>fd_return_type = ty, fd_name = name, fd_params = ps, fd_semantic = sem,
                        fd_body = None\<rparr>, p)
       else
         obind (expect LBrace ''{'' p) (\<lambda>(_, p).
         obind (parse_block_body n (parse_stmt n) p) (\<lambda>(body, p).
         obind (expect RBrace ''}'' p) (\<lambda>(_, p).
           Ok (DFunction \<lparr>fd_return_type = ty, fd_name = name, fd_params = ps, fd_semantic = sem,
                          fd_body = Some body\<rparr>, p)))))))))"

definition parse_function_or_global_var :: "nat \<Rightarrow> parser \<Rightarrow> decl parse" where
  "parse_function_or_global_var n p = obind (parse_type p) (\<lambda>(ty, p).
     obind (expect_ident ''function or variable name'' p) (\<lambda>(name, p).
     obind (peek p) (\<lambda>k.
       case k of
         LParen \<Rightarrow> parse_function_rest n ty name p
       | Colon \<Rightarrow>
           obind (parse_optional_register p) (\<lambda>(reg, p).
           obind (expect Semicolon '';'' p) (\<lambda>(_, p).
             Ok (DGlobalVar \<lparr>gv_ty = ty, gv_name = name, gv_register = reg\<rparr>, p)))
       | Semicolon \<Rightarrow>
           obind (bump p) (\<lambda>(_, p).
             Ok (DGlobalVar \<lparr>gv_ty = ty, gv_name = name, gv_register = None\<rparr>, p))
       | other \<Rightarrow> unexpected (WhatGot (''`(`, `:`, or `;` after `'' @ name @ ''`'') other) p)))"

definition parse_decl :: "nat \<Rightarrow> parser \<Rightarrow> decl parse" where
  "parse_decl n p = obind (peek p) (\<lambda>k.
     if k = TKeyword KStruct then
       obind (parse_struct n p) (\<lambda>(s, p).
         Ok (DStruct s, p\<lparr>struct_names := insert (sd_name s) (struct_names p)\<rparr>))
     else if k = TKeyword KCBuffer then
       obind (parse_cbuffer n p) (\<lambda>(c, p). Ok (DCBuffer c, p))
     else parse_function_or_global_var n p)"

fun unit_loop :: "nat \<Rightarrow> nat \<Rightarrow> parser \<Rightarrow> decl list parse" where
  "unit_loop 0 n p = Timeout"
| "unit_loop (Suc m) n p = obind (at_eof p) (\<lambda>e.
     if e then Ok ([], p)
     else obind (parse_decl n p) (\<lambda>(d, p). obind (unit_loop m n p) (\<lambda>(ds, p). Ok (d # ds, p))))"

definition parse_unit :: "nat \<Rightarrow> parser \<Rightarrow> translation_unit parse" where
  "parse_unit n p = obind (unit_loop n n p) (\<lambda>(ds, p). Ok (\<lparr>decls = ds\<rparr>, p))"

text \<open>The fuel is the number of tokens.\<close>

definition parse :: "token list \<Rightarrow> translation_unit outcome" where
  "parse ts = obind (parse_unit (length ts) (Parser_new ts)) (\<lambda>(u, _). Ok u)"

end
