(* ===== verification/LexerSpec.thy ===== *)
theory LexerSpec
  imports Lexer
begin

text \<open>
  What lexing promises, stated over \<^verbatim>\<open>crates/hlsl-compiler/src/lexer.rs\<close> as modelled in theory
  Lexer: the token stream covers the source text without loss (\<open>covers\<close>), ends with
  exactly one end marker, and literals and words are read back as they are written. The two
  literal suffixes the lexer recognises on decimal literals are shown to be rejected.
\<close>

section \<open>What lexing means\<close>

text \<open>Text the lexer drops: blanks, line comments, and block comments.\<close>

inductive trivia :: "string \<Rightarrow> bool" where
  trivia_nil: "trivia []"
| trivia_blank: "is_ascii_whitespace c \<Longrightarrow> trivia r \<Longrightarrow> trivia (c # r)"
| trivia_line: "CHR 0x0A \<notin> set body \<Longrightarrow> r = [] \<or> hd r = CHR 0x0A \<Longrightarrow> trivia r \<Longrightarrow>
    trivia (''//'' @ body @ r)"
| trivia_block: "\<forall>a b. body @ ''*'' \<noteq> a @ ''*/'' @ b \<Longrightarrow> trivia r \<Longrightarrow>
    trivia (''/*'' @ body @ ''*/'' @ r)"

lemma slice_append:
  "i \<le> j \<Longrightarrow> j \<le> k \<Longrightarrow> k \<le> length s \<Longrightarrow> slice s i k = slice s i j @ slice s j k"
proof -
  assume "i \<le> j" "j \<le> k"
  then obtain a b where "j = i + a" "k = i + a + b" by (metis le_Suc_ex)
  then show ?thesis by (simp add: slice_def take_add add.commute)
qed

lemma slice_Cons: "i < k \<Longrightarrow> k \<le> length s \<Longrightarrow> slice s i k = s ! i # slice s (Suc i) k"
  by (simp add: slice_def take_drop_nth)

lemma slice_nth: "j < k - i \<Longrightarrow> k \<le> length s \<Longrightarrow> slice s i k ! j = s ! (i + j)"
  by (simp add: slice_def)

lemma length_slice: "k \<le> length s \<Longrightarrow> length (slice s i k) = k - i"
  by (simp add: slice_def)

lemma set_slice: "c \<in> set (slice s i k) \<Longrightarrow> k \<le> length s \<Longrightarrow> \<exists>j. i \<le> j \<and> j < k \<and> s ! j = c"
  by (auto simp: in_set_conv_nth length_slice slice_nth) (metis add.commute le_add1 less_diff_conv)

lemma block_comment_end_first:
  "block_comment_end s i = Some j \<Longrightarrow>
     s ! (j - 2) = CHR ''*'' \<and> s ! (j - 1) = CHR ''/'' \<and>
     (\<forall>k. i \<le> k \<and> k + 2 < j \<longrightarrow> \<not> (s ! k = CHR ''*'' \<and> s ! (k + 1) = CHR ''/''))"
proof (induction s i rule: block_comment_end.induct)
  case (1 s i)
  show ?case
  proof (cases "s ! i = CHR ''*'' \<and> s ! (i + 1) = CHR ''/''")
    case True
    with 1(2) show ?thesis by (auto simp: block_comment_end.simps [of s i] split: if_splits)
  next
    case False
    from False 1(2) have lt: "i + 1 < length s" and r: "block_comment_end s (Suc i) = Some j"
      by (auto simp: block_comment_end.simps [of s i] split: if_splits)
    from 1(1) [OF lt False r] False show ?thesis by (metis Suc_eq_plus1 le_antisym not_less_eq_eq)
  qed
qed


lemma scan_while_stop: "scan_while p s i < length s \<Longrightarrow> \<not> p (s ! scan_while p s i)"
proof (induction p s i rule: scan_while.induct)
  case (1 p s i)
  then show ?case
    by (cases "i < length s \<and> p (s ! i)") (auto simp: scan_while.simps [of p s i])
qed

lemma block_body_open:
  assumes "block_comment_end s i = Some j"
  shows "slice s i (j - 2) @ ''*'' \<noteq> a @ ''*/'' @ b"
proof
  from block_comment_end_bounds [OF assms] have bd: "i + 2 \<le> j" "j \<le> length s" by auto
  assume eq: "slice s i (j - 2) @ ''*'' = a @ ''*/'' @ b"
  have len: "length (slice s i (j - 2)) = j - 2 - i"
    using bd by (intro length_slice) simp
  from arg_cong [OF eq, of length] len have ln: "length a + 2 \<le> j - 1 - i" using bd by simp
  have whole: "(slice s i (j - 2) @ ''*'') ! m = s ! (i + m)" if "m < j - 1 - i" for m
  proof (cases "m < j - 2 - i")
    case True
    with bd len show ?thesis by (simp add: nth_append slice_nth)
  next
    case False
    with that have m: "m = j - 2 - i" by simp
    then have "i + m = j - 2" using bd by simp
    with block_comment_end_first [OF assms] m len show ?thesis by (simp add: nth_append)
  qed
  have "(a @ ''*/'' @ b) ! length a = CHR ''*''" "(a @ ''*/'' @ b) ! (length a + 1) = CHR ''/''"
    by (simp_all add: nth_append)
  then have "s ! (i + length a) = CHR ''*''" "s ! (i + length a + 1) = CHR ''/''"
    using whole [of "length a"] whole [of "length a + 1"] ln eq by (simp_all add: add.assoc)
  moreover have "i + length a + 2 < j" using ln bd by simp
  ultimately show False using block_comment_end_first [OF assms] by (metis le_add1)
qed

lemma skip_trivia:
  "skip_ws_and_comments l = Inr l' \<Longrightarrow> pos l \<le> length (src l) \<Longrightarrow>
    trivia (slice (src l) (pos l) (pos l'))"
proof (induction "length (src l) - pos l" arbitrary: l rule: less_induct)
  case less
  from skip_frame [OF less.prems] have fr: "pos l' \<le> length (src l)" by simp
  from less.prems(1) show ?case
  proof (cases rule: skip_cases)
    case stop
    then show ?thesis by (simp add: slice_frame trivia_nil)
  next
    case blank
    then have m: "length (src l) - (pos l + 1) < length (src l) - pos l" by simp
    have "pos l < pos l'" using skip_frame [OF blank(3)] blank(1) by simp
    with less.hyps [OF _ blank(3)] m blank(1,2) fr show ?thesis
      by (simp add: slice_Cons trivia_blank)
  next
    case line
    let ?p = "scan_while (\<lambda>c. c \<noteq> CHR 0x0A) (src l) (pos l + 2)"
    have p: "pos l + 2 \<le> ?p" "?p \<le> length (src l)"
      using line(1) by (simp_all add: scan_while_ge scan_while_le)
    have p': "?p \<le> pos l'" using skip_frame [OF line(5)] p by simp
    have "CHR 0x0A \<notin> set (slice (src l) (pos l + 2) ?p)"
      using scan_while_all [of "pos l + 2" _ "\<lambda>c. c \<noteq> CHR 0x0A" "src l"] set_slice p(2) by fastforce
    moreover have "trivia (slice (src l) ?p (pos l'))"
      using less.hyps [OF _ line(5)] p line(1) by simp
    moreover have "slice (src l) ?p (pos l') = [] \<or> hd (slice (src l) ?p (pos l')) = CHR 0x0A"
      using scan_while_stop [of "\<lambda>c. c \<noteq> CHR 0x0A" "src l" "pos l + 2"] p' fr
      by (cases "?p = pos l'") (auto simp: slice_Cons slice_frame)
    moreover have "slice (src l) (pos l) (pos l') =
        ''//'' @ slice (src l) (pos l + 2) ?p @ slice (src l) ?p (pos l')"
      using p p' fr line(1-3) slice_append [of "pos l + 2" ?p "pos l'" "src l"]
      by (simp add: slice_Cons)
    ultimately show ?thesis by (simp add: trivia_line del: append.simps)
  next
    case (block p)
    from block_comment_end_bounds [OF block(5)] have bd: "pos l + 4 \<le> p" "p \<le> length (src l)" by auto
    from block_comment_end_first [OF block(5)]
    have close: "src l ! (p - 2) = CHR ''*''" "src l ! (p - 1) = CHR ''/''" by auto
    have p': "p \<le> pos l'" using skip_frame [OF block(6)] bd by simp
    have tr: "trivia (slice (src l) p (pos l'))"
      using less.hyps [OF _ block(6)] bd block(1) by simp
    have "slice (src l) (p - 2) (pos l') = ''*/'' @ slice (src l) p (pos l')"
    proof -
      obtain q where q: "p = Suc (Suc q)" using bd by (cases p; cases "p - 1") auto
      with close p' fr show ?thesis by (simp add: slice_Cons)
    qed
    then have "slice (src l) (pos l) (pos l') =
        ''/*'' @ slice (src l) (pos l + 2) (p - 2) @ ''*/'' @ slice (src l) p (pos l')"
      using bd p' fr block(1-3) slice_append [of "pos l + 2" "p - 2" "pos l'" "src l"]
      by (simp add: slice_Cons)
    with block_body_open [OF block(5)] tr show ?thesis by (simp add: trivia_block del: append.simps)
  qed
qed

section \<open>The text of a token\<close>

definition keyword_word :: "keyword \<Rightarrow> string" where
  "keyword_word k = (case k of
     KVoid \<Rightarrow> ''void'' | KFloat \<Rightarrow> ''float'' | KInt \<Rightarrow> ''int'' | KUint \<Rightarrow> ''uint'' | KBool \<Rightarrow> ''bool''
   | KStruct \<Rightarrow> ''struct'' | KReturn \<Rightarrow> ''return'' | KIf \<Rightarrow> ''if'' | KElse \<Rightarrow> ''else'' | KFor \<Rightarrow> ''for''
   | KSamplerState \<Rightarrow> ''SamplerState'' | KTexture2D \<Rightarrow> ''Texture2D'' | KCBuffer \<Rightarrow> ''cbuffer''
   | KRegister \<Rightarrow> ''register'')"

text \<open>The one spelling of a token, where it has one; numbers have several.\<close>

definition spelling :: "token_kind \<Rightarrow> string option" where
  "spelling t = (case t of
     TIdent s \<Rightarrow> Some s | TSemantic s \<Rightarrow> Some s | TKeyword k \<Rightarrow> Some (keyword_word k)
   | TBoolLiteral b \<Rightarrow> Some (if b then ''true'' else ''false'')
   | TIntLiteral _ \<Rightarrow> None | TUintLiteral _ \<Rightarrow> None | TFloatLiteral _ \<Rightarrow> None | Eof \<Rightarrow> None
   | LParen \<Rightarrow> Some ''('' | RParen \<Rightarrow> Some '')'' | LBrace \<Rightarrow> Some ''{'' | RBrace \<Rightarrow> Some ''}''
   | LBracket \<Rightarrow> Some ''['' | RBracket \<Rightarrow> Some '']'' | Comma \<Rightarrow> Some '','' | Semicolon \<Rightarrow> Some '';''
   | Colon \<Rightarrow> Some '':'' | Dot \<Rightarrow> Some ''.'' | TAssign \<Rightarrow> Some ''='' | EqEq \<Rightarrow> Some ''==''
   | Neq \<Rightarrow> Some ''!='' | Lt \<Rightarrow> Some ''<'' | Le \<Rightarrow> Some ''<='' | Gt \<Rightarrow> Some ''>'' | Ge \<Rightarrow> Some ''>=''
   | Plus \<Rightarrow> Some ''+'' | Minus \<Rightarrow> Some ''-'' | Star \<Rightarrow> Some ''*'' | Slash \<Rightarrow> Some ''/''
   | Percent \<Rightarrow> Some ''%'' | Bang \<Rightarrow> Some ''!'' | Tilde \<Rightarrow> Some ''~'' | Amp \<Rightarrow> Some ''&''
   | Pipe \<Rightarrow> Some ''|'' | Caret \<Rightarrow> Some ''^'' | AndAnd \<Rightarrow> Some ''&&'' | OrOr \<Rightarrow> Some ''||''
   | PlusEq \<Rightarrow> Some ''+='' | MinusEq \<Rightarrow> Some ''-='' | StarEq \<Rightarrow> Some ''*='' | SlashEq \<Rightarrow> Some ''/='')"

definition spelled :: "token_kind \<Rightarrow> string \<Rightarrow> bool" where
  "spelled k text \<longleftrightarrow> (case spelling k of None \<Rightarrow> True | Some w \<Rightarrow> text = w)"

text \<open>
  The tokens of a source from offset \<open>i\<close>: each token is preceded by dropped text only, covers a
  nonempty piece of the source that spells it, and the end marker closes the source.
\<close>

fun covers :: "string \<Rightarrow> nat \<Rightarrow> token list \<Rightarrow> bool" where
  "covers s i [] = False"
| "covers s i (t # ts) =
     (i \<le> span_start (span t) \<and> trivia (slice s i (span_start (span t))) \<and>
      (if ts = [] then kind t = Eof \<and> span t = Span_new (length s) (length s)
       else kind t \<noteq> Eof \<and> span_start (span t) < span_end (span t) \<and> span_end (span t) \<le> length s \<and>
            spelled (kind t) (slice s (span_start (span t)) (span_end (span t))) \<and>
            covers s (span_end (span t)) ts))"

lemma spelled_classify: "spelled (classify_ident text) text"
proof (cases "map_of keyword_table text")
  case (Some k)
  then have "(text, k) \<in> set keyword_table" by (rule map_of_SomeD)
  then have "spelled k text" by (auto simp: keyword_table_def spelled_def spelling_def keyword_word_def)
  with Some show ?thesis by (simp add: classify_ident_def)
qed (auto simp: classify_ident_def spelled_def spelling_def keyword_word_def strip_prefix_Some
    split: option.splits)

lemma spelled_op2: "op2_kind c n = Some k \<Longrightarrow> spelled k [c, n]"
  by (auto simp: op2_kind_def spelled_def spelling_def split: if_splits)

lemma spelled_op1: "op1_kind c = Some k \<Longrightarrow> spelled k [c]"
  by (auto simp: op1_kind_def spelled_def spelling_def split: if_splits)

lemma spelling_literals [simp]:
  "spelling (TIntLiteral i) = None" "spelling (TUintLiteral u) = None"
  "spelling (TFloatLiteral f) = None"
  by (simp_all add: spelling_def)

lemma tokens_emit [simp]: "tokens (emit sp k l) = tokens l @ [\<lparr>kind = k, span = sp\<rparr>]"
  by (simp add: emit_def)

lemma consume_uint_suffix_tokens: "consume_uint_suffix l = (b, l') \<Longrightarrow> tokens l' = tokens l"
  by (auto simp: consume_uint_suffix_def split: if_splits)

lemma consume_float_suffix_tokens [simp]: "tokens (consume_float_suffix l) = tokens l"
  by (simp add: consume_float_suffix_def)

definition reads_number :: "lexer \<Rightarrow> lexer \<Rightarrow> bool" where
  "reads_number l l' \<longleftrightarrow> (\<exists>k sp. tokens l' = tokens l @ [\<lparr>kind = k, span = sp\<rparr>] \<and> spelling k = None)"

lemma number_hex_kind: "number_hex st l = Inr l' \<Longrightarrow> reads_number l l'"
  by (auto simp: number_hex_def reads_number_def Let_def consume_uint_suffix_tokens
      split: if_splits option.splits prod.splits)

lemma number_decimal_kind: "number_decimal st l = Inr l' \<Longrightarrow> reads_number l l'"
  by (auto simp: number_decimal_def reads_number_def Let_def consume_uint_suffix_tokens
      split: if_splits option.splits prod.splits)

lemma number_kind: "number st l = Inr l' \<Longrightarrow> reads_number l l'"
  by (auto simp: number_def number_hex_kind number_decimal_kind split: if_splits)

text \<open>The token one round of the loop appends, with its text.\<close>

definition reads_spelled :: "lexer \<Rightarrow> lexer \<Rightarrow> bool" where
  "reads_spelled l l' \<longleftrightarrow>
     (\<exists>k. reads_token l k l' \<and> spelled k (slice (src l) (pos l) (pos l')))"

lemma op_spelled:
  assumes "op (pos l) l = Inr l'" and lt: "pos l < length (src l)"
  shows "reads_spelled l l'"
proof -
  let ?c = "src l ! pos l"
  let ?n = "case peek_is (l\<lparr>pos := pos l + 1\<rparr>) 0 of Some n \<Rightarrow> n | None \<Rightarrow> CHR 0x00"
  obtain k where k: "reads_token l k l'" using op_reads [OF assms] by blast
  then have b: "pos l' \<le> length (src l)" and t: "tokens l' = tokens l @ [\<lparr>kind = k, span = Span_new (pos l) (pos l')\<rparr>]"
    by (auto simp: reads_token_def)
  have "spelled k (slice (src l) (pos l) (pos l'))"
  proof (cases "op2_kind ?c ?n")
    case (Some k2)
    then have "pos l + 1 < length (src l)" "?n = src l ! (pos l + 1)"
      by (auto simp: peek_is_def op2_kind_not_nul split: if_splits)
    moreover have "k = k2" "pos l' = pos l + 2"
      using Some assms(1) t by (simp_all add: op_def Let_def emit_def) (auto simp: emit_def)
    ultimately show ?thesis using spelled_op2 [OF Some] b by (simp add: slice_Cons slice_frame)
  next
    case None
    with assms(1) obtain k1 where k1: "op1_kind ?c = Some k1"
      "l' = emit (Span_new (pos l) (pos l + 1)) k1 (l\<lparr>pos := pos l + 1\<rparr>)"
      by (auto simp: op_def Let_def split: option.splits)
    with t have "k = k1" "pos l' = pos l + 1" by (simp_all add: emit_def)
    with spelled_op1 [OF k1(1)] b show ?thesis by (simp add: slice_Cons slice_frame)
  qed
  with k show ?thesis by (auto simp: reads_spelled_def)
qed

lemma number_spelled:
  assumes "number (pos l) l = Inr l'" and "pos l < length (src l)" and "starts_number l"
  shows "reads_spelled l l'"
proof -
  obtain k where k: "reads_token l k l'" using number_reads [OF assms] by blast
  with number_kind [OF assms(1)] have "spelling k = None" by (auto simp: reads_token_def reads_number_def)
  with k show ?thesis by (auto simp: reads_spelled_def spelled_def)
qed

lemma lex_one_spelled:
  assumes "lex_one l = Inr l'" and "pos l < length (src l)"
  shows "reads_spelled l l'"
  using assms(1)
proof (cases rule: lex_one_cases)
  case num
  with assms(2) show ?thesis by (simp add: number_spelled)
next
  case ident
  with ident_reads [OF assms(2) ident(1)] show ?thesis
    using spelled_classify by (auto simp: reads_spelled_def)
next
  case op
  with assms(2) show ?thesis by (simp add: op_spelled)
qed

text \<open>The loop appends to its tokens a list that covers the rest of the source.\<close>

lemma run_covers:
  "run l = Inr ts \<Longrightarrow> pos l \<le> length (src l) \<Longrightarrow>
    \<exists>new. ts = tokens l @ new \<and> covers (src l) (pos l) new"
proof (induction l rule: run.induct)
  case (1 l)
  show ?case
  proof (cases "pos l < length (src l)")
    case False
    with 1(2,3) show ?thesis
      by (auto simp: run.simps [of l] eof_token_def slice_frame trivia_nil Span_new_def)
  next
    case True
    with 1(2) obtain l1 where skip: "skip_ws_and_comments l = Inr l1"
      by (auto simp: run.simps [of l] split: sum.splits)
    note fr = skip_frame [OF skip 1(3)] and tr = skip_trivia [OF skip 1(3)]
    show ?thesis
    proof (cases "length (src l1) \<le> pos l1")
      case stop: True
      with True skip 1(2) fr tr show ?thesis
        by (auto simp: run.simps [of l] eof_token_def Span_new_def)
    next
      case False
      with True skip 1(2) obtain l2 where one: "lex_one l1 = Inr l2" and rest: "run l2 = Inr ts"
        by (auto simp: run.simps [of l] split: sum.splits)
      obtain k where k: "reads_token l1 k l2" "spelled k (slice (src l1) (pos l1) (pos l2))"
        using lex_one_spelled [OF one] False by (auto simp: reads_spelled_def)
      then have b: "src l2 = src l1" "pos l1 < pos l2" "pos l2 \<le> length (src l2)" "k \<noteq> Eof"
        "tokens l2 = tokens l1 @ [\<lparr>kind = k, span = Span_new (pos l1) (pos l2)\<rparr>]"
        by (auto simp: reads_token_def)
      from 1(1) [OF True skip False one rest b(3)] obtain new
        where new: "ts = tokens l2 @ new" "covers (src l2) (pos l2) new" by blast
      then have "new \<noteq> []" by auto
      with new b k fr tr show ?thesis by (auto simp: Span_new_def)
    qed
  qed
qed

text \<open>The rules that evaluate the lexer on a concrete source.\<close>

lemmas lex_eval = lex_def Lexer_new_def run.simps skip_ws_and_comments.simps lex_one_def
  starts_number_def number_def number_decimal_def ident_def op_def op2_kind_def op1_kind_def
  peek_is_def peek_sat_def emit_def eof_token_def slice_def scan_while.simps
  block_comment_end.simps decimal_loop.simps classify_ident_def keyword_table_def is_semantic_def
  semantic_bases_def is_ident_char_def ascii_defs consume_uint_suffix_def consume_float_suffix_def
  parse_f64_def parse_exp10_def parse_unsigned_def parse_i64_def digit_val_def Let_def Span_new_def
  nth_Cons'


lemma lex_example:
  "lex ''a+=/*b*/.5'' =
     Inr [\<lparr>kind = TIdent ''a'', span = Span_new 0 1\<rparr>, \<lparr>kind = PlusEq, span = Span_new 1 3\<rparr>,
          \<lparr>kind = TFloatLiteral (F64 5 (- 1)), span = Span_new 8 10\<rparr>, \<lparr>kind = Eof, span = Span_new 10 10\<rparr>]"
  by (simp add: lex_eval)


section \<open>Single words and literals\<close>

lemma lex_first:
  assumes "s \<noteq> []" and "\<not> is_ascii_whitespace (hd s)" and "hd s \<noteq> CHR ''/''"
  shows "lex s = (case lex_one (Lexer_new s) of Inl e \<Rightarrow> Inl e | Inr l \<Rightarrow> run l)"
proof -
  have "skip_ws_and_comments (Lexer_new s) = Inr (Lexer_new s)"
    using assms by (subst skip_ws_and_comments.simps) (simp add: Lexer_new_def hd_conv_nth Let_def)
  moreover have "run (Lexer_new s) =
      (case lex_one (Lexer_new s) of Inl e \<Rightarrow> Inl e | Inr l \<Rightarrow> run l)"
    using assms(1) calculation by (subst run.simps) (simp add: Lexer_new_def)
  ultimately show ?thesis by (simp add: lex_def)
qed

lemma run_at_end: "length (src l) \<le> pos l \<Longrightarrow> run l = Inr (tokens l @ [eof_token l])"
  by (simp add: run.simps [of l])

lemma scan_while_all_end:
  "i \<le> length s \<Longrightarrow> \<forall>c \<in> set (drop i s). p c \<Longrightarrow> scan_while p s i = length s"
proof (induction p s i rule: scan_while.induct)
  case (1 p s i)
  then show ?case
    by (cases "i = length s") (auto simp: scan_while.simps [of p s i] scan_while.simps [of p s "length s"] nth_drop_hd)
qed

lemma slice_whole [simp]: "slice s 0 (length s) = s"
  by (simp add: slice_def)

text \<open>A word that starts with a letter or an underscore and continues with letters, digits and
  underscores is lexed into exactly one token, the one \<open>classify_ident\<close> gives it, spanning the
  whole word.
\<close>

theorem lex_word:
  assumes "w \<noteq> []" and "is_ascii_alphabetic (hd w) \<or> hd w = CHR ''_''"
    and "list_all is_ident_char w"
  shows "lex w = Inr [\<lparr>kind = classify_ident w, span = Span_new 0 (length w)\<rparr>,
                      \<lparr>kind = Eof, span = Span_new (length w) (length w)\<rparr>]"
proof -
  let ?l = "Lexer_new w"
  have c: "\<not> is_ascii_digit (w ! 0)" "w ! 0 \<noteq> CHR ''.''" "w ! 0 \<noteq> CHR 0x22"
    "\<not> is_ascii_whitespace (hd w)" "hd w \<noteq> CHR ''/''"
    using assms(1,2) by (auto simp: hd_conv_nth ascii_defs)
  have "scan_while is_ident_char w 0 = length w"
    using assms(3) by (intro scan_while_all_end) (auto simp: list_all_iff)
  then have "lex_one ?l = Inr \<lparr>src = w, pos = length w,
      tokens = [\<lparr>kind = classify_ident w, span = Span_new 0 (length w)\<rparr>]\<rparr>"
    using assms(1,2) c
    by (simp add: lex_one_def starts_number_def Lexer_new_def ident_def emit_def Let_def hd_conv_nth)
  then show ?thesis
    using assms(1) c by (simp add: lex_first run_at_end eof_token_def)
qed

theorem lex_word_witness:
  "lex ''TEXCOORD0'' = Inr [\<lparr>kind = TSemantic ''TEXCOORD0'', span = Span_new 0 9\<rparr>,
                          \<lparr>kind = Eof, span = Span_new 9 9\<rparr>]"
proof -
  have "classify_ident ''TEXCOORD0'' = TSemantic ''TEXCOORD0''" by code_simp
  moreover have "list_all is_ident_char ''TEXCOORD0''" by code_simp
  moreover have "is_ascii_alphabetic (CHR ''T'')" by code_simp
  ultimately show ?thesis using lex_word [of "''TEXCOORD0''"] by (simp add: eval_nat_numeral)
qed

text \<open>A run of digits is passed by the decimal loop without touching its flags.\<close>

lemma decimal_loop_digits:
  "i \<le> k \<Longrightarrow> k \<le> length s \<Longrightarrow> \<forall>j. i \<le> j \<and> j < k \<longrightarrow> is_ascii_digit (s ! j) \<Longrightarrow>
    decimal_loop s i d e = decimal_loop s k d e"
proof (induction "k - i" arbitrary: i)
  case (Suc n)
  then have "i < k" "is_ascii_digit (s ! i)" "i < length s" by auto
  then have "decimal_loop s i d e = decimal_loop s (i + 1) d e"
    by (subst decimal_loop.simps) simp
  also have "\<dots> = decimal_loop s k d e"
    using Suc.hyps(2) Suc.prems \<open>i < k\<close> by (intro Suc.hyps(1)) auto
  finally show ?case .
qed simp

lemma decimal_loop_prefix:
  assumes "list_all is_ascii_digit ds"
  shows "decimal_loop (a @ ds @ r) (length a) d e = decimal_loop (a @ ds @ r) (length a + length ds) d e"
  using assms by (intro decimal_loop_digits) (auto simp: list_all_length nth_append)

lemma list_all_show_nat: "list_all is_ascii_digit (show_nat n)"
  by (simp add: list_all_iff show_nat_digits)

lemma digit_facts:
  assumes "is_ascii_digit c"
  shows "\<not> is_ascii_whitespace c" "c \<noteq> CHR ''/''" "c \<noteq> CHR ''.''"
  using assms by (auto simp: ascii_defs)

text \<open>The first token of a text that begins with a decimal literal, read by \<open>number_decimal\<close>.\<close>

lemma lex_decimal_first:
  assumes "s = show_nat n @ r" and "r = [] \<or> hd r \<notin> {CHR ''x'', CHR ''X''} \<and> \<not> is_ascii_digit (hd r)"
  shows "lex s = (case number_decimal 0 (Lexer_new s) of Inl e \<Rightarrow> Inl e | Inr l \<Rightarrow> run l)"
proof -
  have ne: "s \<noteq> []" and hd: "hd s = hd (show_nat n)" using assms(1) by auto
  with show_nat_hd_digit [of n] have d: "is_ascii_digit (hd s)" by simp
  have "\<not> (s ! 0 = CHR ''0'' \<and> peek_sat (Lexer_new s) 1 (\<lambda>c. c = CHR ''x'' \<or> c = CHR ''X''))"
  proof
    assume a: "s ! 0 = CHR ''0'' \<and> peek_sat (Lexer_new s) 1 (\<lambda>c. c = CHR ''x'' \<or> c = CHR ''X'')"
    then have lt: "1 < length s" and x: "s ! 1 = CHR ''x'' \<or> s ! 1 = CHR ''X''"
      by (auto dest!: peek_sat_in_range simp: Lexer_new_def)
    show False
    proof (cases "length (show_nat n) = 1")
      case True
      then obtain c where "show_nat n = [c]" by (auto simp: length_Suc_conv)
      with lt x assms show False by (cases r) auto
    next
      case False
      then have "1 < length (show_nat n)" using show_nat_nonempty [of n] by (cases "show_nat n") auto
      then have "s ! 1 \<in> set (show_nat n)" by (simp add: assms(1) nth_append)
      with x show_nat_digits [of "s ! 1" n] show False by (auto simp: is_ascii_digit_def)
    qed
  qed
  with d ne have "lex_one (Lexer_new s) = number_decimal 0 (Lexer_new s)"
    by (auto simp: lex_one_def starts_number_def number_def Lexer_new_def hd_conv_nth Let_def)
  with ne digit_facts [OF d] show ?thesis by (simp add: lex_first)
qed

text \<open>Decimal integer literals read back: the decimal text of \<open>n\<close> lexes to the integer literal
  \<open>n\<close> exactly when \<open>n\<close> fits a signed 64-bit integer, and is rejected as an invalid
  integer literal otherwise.
\<close>

theorem lex_show_nat:
  "lex (show_nat n) =
     (let m = length (show_nat n) in
      if n < 2 ^ 63
      then Inr [\<lparr>kind = TIntLiteral (int n), span = Span_new 0 m\<rparr>, \<lparr>kind = Eof, span = Span_new m m\<rparr>]
      else Inl (lex_err 0 m ''invalid integer literal''))"
proof -
  have "decimal_loop (show_nat n) 0 False False = (length (show_nat n), False, False)"
    using decimal_loop_prefix [of "show_nat n" "[]" "[]" False False]
    by (simp add: list_all_show_nat decimal_loop.simps [of "show_nat n" "length (show_nat n)"])
  then show ?thesis
    using lex_decimal_first [of "show_nat n" n "[]"]
    by (simp add: number_decimal_def consume_uint_suffix_def peek_sat_def peek_is_def Lexer_new_def
        Let_def run_at_end eof_token_def emit_def)
qed

text \<open>The suffix of an unsigned decimal literal is never accepted: the lexer consumes the \<open>u\<close> and
  then parses a text that still contains it, so a decimal literal with the suffix is a lexing error
  for every value (the hexadecimal path cuts the text before the suffix and is not affected).
\<close>

theorem lex_decimal_uint_suffix_rejected:
  "lex (show_nat n @ ''u'') =
     Inl (lex_err 0 (length (show_nat n) + 1) ''invalid integer literal'')"
proof -
  let ?s = "show_nat n @ ''u''" and ?k = "length (show_nat n)"
  have "decimal_loop ?s ?k False False = (?k, False, False)"
    by (simp add: decimal_loop.simps [of ?s ?k] is_ascii_digit_def)
  then have loop: "decimal_loop ?s 0 False False = (?k, False, False)"
    using decimal_loop_prefix [of "show_nat n" "[]" "''u''" False False] by (simp add: list_all_show_nat)
  have "digits_val 10 0 ?s = None"
    by (simp add: digits_val_append digit_val_None_not_digit is_ascii_digit_def)
  then have "parse_unsigned 10 b ?s = None" for b
    using show_nat_hd_digit [of n]
    by (cases "show_nat n") (auto simp: parse_unsigned_def Let_def dest: digit_not_sign)
  with loop show ?thesis
    using lex_decimal_first [of ?s n "''u''"]
    by (simp add: number_decimal_def consume_uint_suffix_def peek_sat_def peek_is_def Lexer_new_def
        Let_def slice_def is_ascii_digit_def nth_append)
qed

text \<open>The suffix of a float literal is never accepted either: a literal with digits on both sides of
  the point followed by \<open>f\<close> is a lexing error for all values, because the text handed to
  the library's float parser still ends with the suffix.
\<close>

theorem lex_float_suffix_rejected:
  "lex (show_nat a @ ''.'' @ show_nat b @ ''f'') =
     Inl (lex_err 0 (length (show_nat a) + length (show_nat b) + 2) ''invalid float literal'')"
proof -
  let ?s = "show_nat a @ ''.'' @ show_nat b @ ''f''"
  let ?k = "length (show_nat a)" and ?m = "length (show_nat a) + 1 + length (show_nat b)"
  have "decimal_loop ?s 0 False False = decimal_loop ?s ?k False False"
    using decimal_loop_prefix [of "show_nat a" "[]" _ False False] by (simp add: list_all_show_nat)
  also have "\<dots> = decimal_loop ?s (?k + 1) True False"
    by (subst decimal_loop.simps) (simp add: is_ascii_digit_def)
  also have "\<dots> = decimal_loop ?s ?m True False"
    using decimal_loop_prefix [of "show_nat b" "show_nat a @ ''.''" "''f''" True False]
    by (simp add: list_all_show_nat)
  also have "\<dots> = (?m, True, False)"
    by (subst decimal_loop.simps) (simp add: is_ascii_digit_def nth_append)
  finally have loop: "decimal_loop ?s 0 False False = (?m, True, False)" .
  have tw: "takeWhile is_ascii_digit (show_nat n @ c # r) = show_nat n"
    "dropWhile is_ascii_digit (show_nat n @ c # r) = c # r" if "\<not> is_ascii_digit c" for n c r
    using that show_nat_digits by (simp_all add: takeWhile_append2 dropWhile_append2)
  have "parse_f64 ?s = None"
    by (simp add: parse_f64_def tw is_ascii_digit_def parse_exp10_def Let_def split: option.split)
  with loop show ?thesis
    using lex_decimal_first [of ?s a "''.'' @ show_nat b @ ''f''"]
    by (simp add: number_decimal_def consume_float_suffix_def peek_sat_def peek_is_def Lexer_new_def
        Let_def slice_def is_ascii_digit_def nth_append)
qed

end
