(* ===== verification/ParserTotal.thy ===== *)
theory ParserTotal
  imports Parser LexerSpec
begin

text \<open>
  The parser never indexes outside its token vector and always returns: on a token vector that ends
  with the end marker, every method yields a value or a parse error, keeps the cursor inside the
  vector, and moves it forward by at least one token where its callers rely on that. The
  contract a method owes its callers is \<open>pok\<close>; the locales \<open>expr_knot\<close> and \<open>stmt_knot\<close> state
  it for the parser a group of methods re-enters, and the fuel induction interprets them.
\<close>

section \<open>Well-formed parser states and the contract\<close>

definition wf_parser :: "parser \<Rightarrow> bool" where
  "wf_parser p \<longleftrightarrow> idx p < length (toks p) \<and> kind (last (toks p)) = Eof"

definition cur :: "parser \<Rightarrow> token_kind" where
  "cur p = kind (toks p ! idx p)"

definition left :: "parser \<Rightarrow> nat" where
  "left p = length (toks p) - idx p"

definition pok :: "nat \<Rightarrow> parser \<Rightarrow> 'a parse \<Rightarrow> bool" where
  "pok k p r \<longleftrightarrow> (case r of
     Ok (x, q) \<Rightarrow> wf_parser q \<and> toks q = toks p \<and> idx p + k \<le> idx q
   | Err e \<Rightarrow> True | Panic \<Rightarrow> False | Timeout \<Rightarrow> False)"

abbreviation keeps :: "parser \<Rightarrow> 'a parse \<Rightarrow> bool" where
  "keeps p r \<equiv> pok 0 p r"

abbreviation advances :: "parser \<Rightarrow> 'a parse \<Rightarrow> bool" where
  "advances p r \<equiv> pok (Suc 0) p r"

lemma pok_Ok [simp]: "pok k p (Ok (x, q)) \<longleftrightarrow> wf_parser q \<and> toks q = toks p \<and> idx p + k \<le> idx q"
  by (simp add: pok_def)

lemma pok_Err [simp]: "pok k p (Err e)"
  by (simp add: pok_def)

lemma advances_keeps: "advances p r \<Longrightarrow> keeps p r"
  by (auto simp: pok_def split: outcome.splits)

lemma pok_bind:
  assumes "pok j p m"
    and "\<And>x q. wf_parser q \<Longrightarrow> left q + j \<le> left p \<Longrightarrow> pok k q (f (x, q))"
  shows "pok (j + k) p (obind m f)"
proof (cases m)
  case (Ok xq)
  obtain x q where xq: "xq = (x, q)" by fastforce
  with Ok assms(1) have q: "wf_parser q" "toks q = toks p" "idx p + j \<le> idx q" by auto
  then have "left q + j \<le> left p" by (auto simp: left_def wf_parser_def)
  with assms(2) [of q x] q Ok xq show ?thesis
    by (auto simp: pok_def split: outcome.splits)
qed (use assms(1) in \<open>auto simp: pok_def\<close>)

lemmas keeps_bind = pok_bind [where j = 0 and k = 0, simplified]
lemmas advances_bind = pok_bind [where j = "Suc 0" and k = 0, simplified]
lemmas keeps_advances_bind = pok_bind [where j = 0 and k = "Suc 0", simplified]

lemma left_pos: "wf_parser p \<Longrightarrow> 0 < left p"
  by (simp add: left_def wf_parser_def)

section \<open>Token helpers\<close>

lemma wf_idx: "wf_parser p \<Longrightarrow> idx p < length (toks p)"
  by (simp add: wf_parser_def)

lemma peek_wf [simp]: "wf_parser p \<Longrightarrow> peek p = Ok (cur p)"
  by (simp add: peek_def tok_at_def cur_def wf_idx)

lemma tok_at_wf: "wf_parser p \<Longrightarrow> i \<le> idx p \<Longrightarrow> tok_at p i = Ok (toks p ! i)"
  by (auto simp: tok_at_def dest: wf_idx)

lemma step_wf:
  assumes "wf_parser p" and "cur p \<noteq> Eof"
  shows "wf_parser (p\<lparr>idx := idx p + 1\<rparr>)"
proof -
  have "toks p \<noteq> []" using assms(1) by (auto simp: wf_parser_def)
  have "idx p \<noteq> length (toks p) - 1"
  proof
    assume "idx p = length (toks p) - 1"
    with \<open>toks p \<noteq> []\<close> have "cur p = kind (last (toks p))" by (simp add: cur_def last_conv_nth)
    with assms show False by (simp add: wf_parser_def)
  qed
  with assms(1) show ?thesis by (auto simp: wf_parser_def)
qed

lemma bump_wf: "wf_parser p \<Longrightarrow> cur p \<noteq> Eof \<Longrightarrow> bump p = Ok (cur p, p\<lparr>idx := idx p + 1\<rparr>)"
  by (simp add: bump_def)

lemma bump_Eof: "wf_parser p \<Longrightarrow> cur p = Eof \<Longrightarrow> bump p = Ok (Eof, p)"
  by (simp add: bump_def)

lemma bump_keeps: "wf_parser p \<Longrightarrow> keeps p (bump p)"
  using step_wf [of p] by (cases "cur p = Eof") (auto simp: bump_def)

lemma bump_advances: "wf_parser p \<Longrightarrow> cur p \<noteq> Eof \<Longrightarrow> advances p (bump p)"
  using step_wf [of p] by (simp add: bump_wf)

lemma same_discriminant_Eof [simp]: "same_discriminant Eof k \<longleftrightarrow> k = Eof"
  by (auto simp: same_discriminant_def)

lemma eat_keeps: "wf_parser p \<Longrightarrow> keeps p (eat want p)"
  using step_wf [of p] by (auto simp: eat_def bump_def)

lemma unexpected_ok: "wf_parser p \<Longrightarrow> pok k p (unexpected w p)"
  by (simp add: unexpected_def span_here_def tok_at_wf)

lemma err_before_ok: "wf_parser p \<Longrightarrow> pok k p' (err_before d p)"
  by (simp add: err_before_def tok_at_wf)

lemma expect_advances: "wf_parser p \<Longrightarrow> want \<noteq> Eof \<Longrightarrow> advances p (expect want w p)"
  using step_wf [of p] by (auto simp: expect_def bump_def unexpected_ok)

lemma expect_ident_advances: "wf_parser p \<Longrightarrow> advances p (expect_ident w p)"
  using step_wf [of p]
  by (cases "cur p = Eof")
     (auto simp: expect_ident_def bump_wf bump_Eof err_before_ok split: token_kind.split)

lemma skip_to_keeps: "wf_parser p \<Longrightarrow> \<exists>q. skip_to stop p = Ok q \<and> wf_parser q \<and> toks q = toks p \<and> idx p \<le> idx q"
proof (induction stop p rule: skip_to.induct)
  case (1 stop p)
  show ?case
  proof (cases "stop (cur p) \<or> cur p = Eof")
    case True
    with 1(2) show ?thesis by (auto simp: skip_to.simps [of stop p] bump_def)
  next
    case False
    let ?q = "p\<lparr>idx := idx p + 1\<rparr>"
    from False 1(2) have b: "bump p = Ok (cur p, ?q)" by (simp add: bump_wf)
    from 1(1) [OF b refl False] step_wf 1(2) False
    obtain q where "skip_to stop ?q = Ok q" "wf_parser q" "toks q = toks p" "idx p + 1 \<le> idx q" by auto
    with b False show ?thesis by (simp add: skip_to.simps [of stop p])
  qed
qed

text \<open>Methods that return a bare state are put in the form of the contract by pairing.\<close>

definition paired :: "parser outcome \<Rightarrow> unit parse" where
  "paired m = obind m (\<lambda>q. Ok ((), q))"

lemma obind_paired: "obind m f = obind (paired m) (\<lambda>(_, q). f q)"
  by (cases m) (simp_all add: paired_def)

lemma skip_until_rparen_keeps: "wf_parser p \<Longrightarrow> keeps p (paired (skip_until_rparen p))"
  using skip_to_keeps [of p "\<lambda>k. k = RParen"] step_wf
  by (fastforce simp: skip_until_rparen_def paired_def eat_def bump_def)

lemma skip_until_gt_keeps: "wf_parser p \<Longrightarrow> keeps p (paired (skip_until_gt p))"
  using skip_to_keeps [of p "\<lambda>k. k = Gt"] step_wf
  by (fastforce simp: skip_until_gt_def paired_def bump_def)

lemma eat_modifier_word_keeps: "wf_parser p \<Longrightarrow> keeps p (paired (eat_modifier_word p))"
  using step_wf [of p]
  by (cases "cur p") (auto simp: eat_modifier_word_def paired_def bump_def)

lemma type_token_len_wf: "wf_parser p \<Longrightarrow> \<exists>n. type_token_len p = Ok n \<and> n \<le> 1 \<and> (n = 1 \<longrightarrow> cur p \<noteq> Eof)"
  by (cases "cur p") (auto simp: type_token_len_def)

lemma peek_is_type_wf: "wf_parser p \<Longrightarrow> \<exists>b. peek_is_type p = Ok b"
  using type_token_len_wf [of p] by (auto simp: peek_is_type_def)

lemma looks_like_var_decl_wf: "wf_parser p \<Longrightarrow> \<exists>b. looks_like_var_decl p = Ok b"
proof -
  assume wf: "wf_parser p"
  then obtain n where n: "type_token_len p = Ok n" "n \<le> 1" "n = 1 \<longrightarrow> cur p \<noteq> Eof"
    using type_token_len_wf by blast
  show ?thesis
  proof (cases "n = 1")
    case True
    with n(3) wf have "idx p + 1 < length (toks p)"
      using step_wf [of p] by (simp add: wf_parser_def)
    with True n(1) show ?thesis by (simp add: looks_like_var_decl_def peek_is_type_def tok_at_def)
  next
    case False
    with n show ?thesis by (auto simp: looks_like_var_decl_def peek_is_type_def)
  qed
qed

lemmas token_keeps = bump_keeps eat_keeps skip_until_rparen_keeps skip_until_gt_keeps
  eat_modifier_word_keeps

section \<open>Types, members, parameters\<close>

lemma parse_type_advances:
  assumes wf: "wf_parser p"
  shows "advances p (parse_type p)"
proof (cases "cur p = Eof")
  case True
  with wf show ?thesis by (simp add: parse_type_def bump_Eof err_before_ok)
next
  case False
  have tex: "keeps q (obind (eat Lt q) (\<lambda>(b, p).
      if b then obind (skip_until_gt p) (\<lambda>p. Ok (TyTexture2D, p)) else Ok (TyTexture2D, p)))"
    if "wf_parser q" for q
    using that by (auto simp: obind_paired [of "skip_until_gt _"] intro!: keeps_bind token_keeps)
  from wf False show ?thesis
    unfolding parse_type_def
    by (intro advances_bind bump_advances)
       (auto simp: err_before_ok tex split: token_kind.split keyword.split option.split)
qed

lemmas parse_type_keeps = advances_keeps [OF parse_type_advances]
lemmas expect_ident_keeps = advances_keeps [OF expect_ident_advances]
lemmas expect_keeps = advances_keeps [OF expect_advances]

lemma parse_optional_semantic_keeps: "wf_parser p \<Longrightarrow> keeps p (parse_optional_semantic p)"
  unfolding parse_optional_semantic_def by (auto intro!: keeps_bind token_keeps)

lemma register_rest_keeps:
  assumes "wf_parser p"
  shows "keeps p (obind (eat LParen p) (\<lambda>(b, p).
           if \<not> b then Ok (None, p)
           else obind (bump p) (\<lambda>(k, p).
             case k of
               TIdent s \<Rightarrow> obind (skip_until_rparen p) (\<lambda>p. Ok (Some s, p))
             | _ \<Rightarrow> obind (skip_until_rparen p) (\<lambda>p. Ok (None, p)))))"
  using assms
  by (auto simp: obind_paired [of "skip_until_rparen _"] intro!: keeps_bind token_keeps
      split: token_kind.split)

lemma parse_optional_register_keeps:
  assumes "wf_parser p"
  shows "keeps p (parse_optional_register p)"
proof -
  have reg: "keeps q (case expect (TKeyword KRegister) w q of
       Err _ \<Rightarrow> Ok (None, q) | Panic \<Rightarrow> Panic | Timeout \<Rightarrow> Timeout | Ok (_, p) \<Rightarrow> f p)"
    if "wf_parser q" "\<And>r. wf_parser r \<Longrightarrow> keeps r (f r)" for q w and f :: "parser \<Rightarrow> string option parse"
    using expect_keeps [OF that(1), of "TKeyword KRegister" w] that
    by (auto simp: pok_def split: outcome.splits) fastforce+
  from assms show ?thesis
    unfolding parse_optional_register_def
    by (auto intro!: keeps_bind token_keeps reg register_rest_keeps)
qed

lemmas small_keeps = token_keeps parse_type_keeps expect_ident_keeps expect_keeps
  parse_optional_semantic_keeps parse_optional_register_keeps

lemma parse_members_keeps: "wf_parser p \<Longrightarrow> left p \<le> n \<Longrightarrow> keeps p (parse_members n w p)"
proof (induction n arbitrary: p)
  case 0
  then show ?case using left_pos [of p] by simp
next
  case (Suc n)
  have rest: "keeps q (obind (parse_type q) (\<lambda>(ty, p). obind (expect_ident w p) (\<lambda>(mname, p).
       obind (parse_optional_semantic p) (\<lambda>(sem, p). obind (expect Semicolon '';'' p) (\<lambda>(_, p).
       obind (parse_members n w p) (\<lambda>(ms, p).
         Ok (\<lparr>sm_ty = ty, sm_name = mname, sm_semantic = sem\<rparr> # ms, p)))))))"
    if "wf_parser q" "left q \<le> Suc n" for q
    using that
    by (intro advances_keeps [OF advances_bind [OF parse_type_advances]])
       (auto intro!: keeps_bind small_keeps Suc.IH)
  with Suc.prems show ?case by (auto intro!: keeps_bind token_keeps)
qed

lemma parse_struct_advances:
  "wf_parser p \<Longrightarrow> left p \<le> n \<Longrightarrow> advances p (parse_struct n p)"
  unfolding parse_struct_def
  by (intro advances_bind expect_advances)
     (auto intro!: keeps_bind small_keeps parse_members_keeps)

lemma parse_cbuffer_advances:
  "wf_parser p \<Longrightarrow> left p \<le> n \<Longrightarrow> advances p (parse_cbuffer n p)"
  unfolding parse_cbuffer_def
  by (intro advances_bind expect_advances)
     (auto intro!: keeps_bind small_keeps parse_members_keeps)

lemma parse_params_loop_keeps: "wf_parser p \<Longrightarrow> left p \<le> n \<Longrightarrow> keeps p (parse_params_loop n p)"
proof (induction n arbitrary: p)
  case 0
  then show ?case using left_pos [of p] by simp
next
  case (Suc n)
  have rest: "advances q (obind (parse_type q) (\<lambda>(ty, p).
     obind (expect_ident ''parameter name'' p) (\<lambda>(name, p).
     obind (parse_optional_semantic p) (\<lambda>(sem, p).
     obind (eat Comma p) (\<lambda>(b, p).
       let pm = \<lparr>pm_ty = ty, pm_name = name, pm_semantic = sem\<rparr> in
       if \<not> b then Ok ([pm], p)
       else obind (parse_params_loop n p) (\<lambda>(ps, p). Ok (pm # ps, p)))))))"
    if "wf_parser q" "left q \<le> Suc n" for q
    using that
    by (intro advances_bind parse_type_advances)
       (auto simp: Let_def intro!: keeps_bind small_keeps Suc.IH)
  from Suc.prems show ?case
    by (auto simp: obind_paired [of "eat_modifier_word _"]
        intro!: keeps_bind token_keeps advances_keeps [OF rest])
qed

lemma parse_params_keeps: "wf_parser p \<Longrightarrow> left p \<le> n \<Longrightarrow> keeps p (parse_params n p)"
  by (simp add: parse_params_def parse_params_loop_keeps)

section \<open>Expressions\<close>

text \<open>
  What the expression methods need of the parser they re-enter: within \<open>n\<close> remaining tokens it
  returns and moves the cursor forward.
\<close>

locale expr_knot =
  fixes pe :: expr_parser and n :: nat
  assumes pe_advances: "wf_parser p \<Longrightarrow> left p \<le> n \<Longrightarrow> advances p (pe p)"
begin

lemma pe_keeps: "wf_parser p \<Longrightarrow> left p \<le> n \<Longrightarrow> keeps p (pe p)"
  by (rule advances_keeps) (rule pe_advances)

lemma parse_args_loop_keeps:
  "wf_parser p \<Longrightarrow> left p \<le> m \<Longrightarrow> left p \<le> n \<Longrightarrow> keeps p (parse_args_loop m pe p)"
proof (induction m arbitrary: p)
  case 0
  then show ?case using left_pos [of p] by simp
next
  case (Suc m)
  then have "advances p (parse_args_loop (Suc m) pe p)"
    unfolding parse_args_loop.simps
    by (intro advances_bind pe_advances)
       (auto intro!: keeps_bind token_keeps Suc.IH)
  then show ?case by (rule advances_keeps)
qed

lemma parse_args_keeps:
  "wf_parser p \<Longrightarrow> left p \<le> m \<Longrightarrow> left p \<le> n \<Longrightarrow> keeps p (parse_args m pe p)"
  by (simp add: parse_args_def parse_args_loop_keeps)

lemma parse_paren_advances:
  assumes "wf_parser p" and "left p \<le> Suc n" and "cur p \<noteq> Eof"
    and pu: "\<And>q. wf_parser q \<Longrightarrow> left q < left p \<Longrightarrow> advances q (pu q)"
  shows "advances p (parse_paren pe pu p)"
proof -
  have group: "keeps q (obind (pe q) (\<lambda>(e, p). obind (expect RParen '')'' p) (\<lambda>(_, p). Ok (e, p))))"
    if "wf_parser q" "left q \<le> n" for q
    using that by (auto intro!: keeps_bind small_keeps pe_keeps)
  have "keeps q (obind (peek_is_type q) (\<lambda>t.
           if t then
             obind (parse_type q) (\<lambda>(ty, p).
             obind (eat RParen p) (\<lambda>(b, p).
               if b then obind (pu p) (\<lambda>(inner, p). Ok (ECast ty inner, p))
               else obind (pe p) (\<lambda>(e, p). obind (expect RParen '')'' p) (\<lambda>(_, p). Ok (e, p)))))
           else obind (pe q) (\<lambda>(e, p). obind (expect RParen '')'' p) (\<lambda>(_, p). Ok (e, p)))))"
    if q: "wf_parser q" "left q \<le> n" "left q < left p" for q
    using peek_is_type_wf [OF q(1)] q
    by (auto intro!: keeps_bind small_keeps group advances_keeps [OF pu])
  with assms(1-3) show ?thesis
    unfolding parse_paren_def Let_def
    by (intro advances_bind bump_advances) auto
qed

lemma parse_word_advances:
  assumes "wf_parser p" and "left p \<le> m" and "left p \<le> Suc n" and "cur p \<noteq> Eof"
  shows "advances p (parse_word m pe s p)"
  using assms unfolding parse_word_def
  by (intro advances_bind bump_advances)
     (auto intro!: keeps_bind small_keeps parse_args_keeps split: option.split)

lemma parse_primary_advances:
  assumes "wf_parser p" and "left p \<le> m" and "left p \<le> Suc n"
    and "\<And>q. wf_parser q \<Longrightarrow> left q < left p \<Longrightarrow> advances q (pu q)"
  shows "advances p (parse_primary m pe pu p)"
  using assms step_wf [of p] parse_paren_advances [OF assms(1,3) _ assms(4)] parse_word_advances
  by (cases "cur p") (auto simp: parse_primary_def unexpected_ok bump_def)

lemma postfix_loop_keeps:
  "wf_parser p \<Longrightarrow> left p \<le> m \<Longrightarrow> left p \<le> Suc n \<Longrightarrow> keeps p (postfix_loop m pe e p)"
proof (induction m arbitrary: e p)
  case 0
  then show ?case using left_pos [of p] by simp
next
  case (Suc m)
  show ?case
  proof (cases "cur p = Dot")
    case True
    with Suc.prems have "advances p (postfix_loop (Suc m) pe e p)"
      by (simp, intro advances_bind bump_advances)
         (auto intro!: keeps_bind small_keeps parse_args_keeps Suc.IH)
    then show ?thesis by (rule advances_keeps)
  next
    case False
    with Suc.prems show ?thesis by simp
  qed
qed

lemma parse_unary_advances:
  "wf_parser p \<Longrightarrow> left p \<le> m \<Longrightarrow> left p \<le> Suc n \<Longrightarrow> advances p (parse_unary m pe p)"
proof (induction m arbitrary: p)
  case 0
  then show ?case using left_pos [of p] by simp
next
  case (Suc m)
  show ?case
  proof (cases "unary_op_of (cur p)")
    case None
    with Suc show ?thesis
      by (simp add: parse_postfix_def del: postfix_loop.simps, intro advances_bind parse_primary_advances)
         (auto simp del: postfix_loop.simps intro!: postfix_loop_keeps Suc.IH)
  next
    case (Some u)
    then have "cur p \<noteq> Eof" by (auto simp: unary_op_of_def)
    with Some Suc show ?thesis
      by (simp, intro advances_bind bump_advances)
         (auto intro!: keeps_bind advances_keeps [OF Suc.IH])
  qed
qed

end

text \<open>A binary level over any operand parser that moves forward, for any operators.\<close>

lemma binary_loop_keeps:
  assumes sub: "\<And>q. wf_parser q \<Longrightarrow> left q < N \<Longrightarrow> advances q (sub q)" and opf: "opf Eof = None"
  shows "wf_parser p \<Longrightarrow> left p \<le> m \<Longrightarrow> left p \<le> N \<Longrightarrow> keeps p (binary_loop m opf sub lhs p)"
proof (induction m arbitrary: lhs p)
  case 0
  then show ?case using left_pos [of p] by simp
next
  case (Suc m)
  show ?case
  proof (cases "opf (cur p)")
    case None
    with Suc.prems show ?thesis by simp
  next
    case (Some bop)
    with opf have "cur p \<noteq> Eof" by auto
    with Some Suc.prems have "advances p (binary_loop (Suc m) opf sub lhs p)"
      by (simp, intro advances_bind bump_advances)
         (auto intro!: keeps_bind advances_keeps [OF sub] Suc.IH)
    then show ?thesis by (rule advances_keeps)
  qed
qed

lemma binary_level_advances:
  assumes "\<And>q. wf_parser q \<Longrightarrow> left q \<le> N \<Longrightarrow> advances q (sub q)" and "opf Eof = None"
    and "wf_parser p" and "left p \<le> m" and "left p \<le> N"
  shows "advances p (binary_level m opf sub p)"
  unfolding binary_level_def using assms
  by (intro advances_bind) (auto intro!: binary_loop_keeps [where N = N])

lemma level_ops_Eof [simp]:
  "mul_op Eof = None" "add_op Eof = None" "rel_op Eof = None" "equality_op Eof = None"
  "and_op Eof = None" "or_op Eof = None" "assign_op Eof = None"
  by (simp_all add: mul_op_def add_op_def rel_op_def equality_op_def and_op_def or_op_def assign_op_def)

context expr_knot
begin

lemma parse_or_advances:
  assumes "wf_parser p" and "left p \<le> m" and "left p \<le> Suc n"
  shows "advances p (parse_or m pe p)"
  using assms
  unfolding parse_or_def parse_and_def parse_equality_def parse_rel_def parse_add_def parse_mul_def
  by (auto intro!: binary_level_advances [where N = "min m (Suc n)"] parse_unary_advances)

lemma parse_assign_advances:
  "wf_parser p \<Longrightarrow> left p \<le> m \<Longrightarrow> left p \<le> Suc n \<Longrightarrow> advances p (parse_assign m pe p)"
proof (induction m arbitrary: p)
  case 0
  then show ?case using left_pos [of p] by simp
next
  case (Suc m)
  have rest: "keeps q (case assign_op (cur q) of
         Some bop \<Rightarrow> obind (bump q) (\<lambda>(_, p). obind (parse_assign m pe p) (\<lambda>(rhs, p).
            Ok (EBinary bop lhs rhs, p)))
       | None \<Rightarrow> Ok (lhs, q))" if "wf_parser q" "left q \<le> m" "left q \<le> n" for q lhs
    using that by (auto intro!: keeps_bind token_keeps advances_keeps [OF Suc.IH] split: option.split)
  from Suc.prems show ?case
    by (simp, intro advances_bind parse_or_advances) (auto intro!: rest)
qed

end

lemma parse_expr_advances: "wf_parser p \<Longrightarrow> left p \<le> n \<Longrightarrow> advances p (parse_expr n p)"
proof (induction n arbitrary: p)
  case 0
  then show ?case using left_pos [of p] by simp
next
  case (Suc n)
  have "expr_knot (parse_expr n) n" using Suc.IH by unfold_locales
  with Suc.prems show ?case by (simp add: expr_knot.parse_assign_advances del: parse_assign.simps)
qed

interpretation expr: expr_knot "parse_expr n" n for n
  by unfold_locales (rule parse_expr_advances)

lemmas parse_expr_keeps = advances_keeps [OF parse_expr_advances]

section \<open>Statements\<close>

lemma parse_var_decl_advances: "wf_parser p \<Longrightarrow> left p \<le> n \<Longrightarrow> advances p (parse_var_decl n p)"
  unfolding parse_var_decl_def
  by (intro advances_bind parse_type_advances) (auto intro!: keeps_bind small_keeps parse_expr_keeps)

lemma parse_return_advances: "wf_parser p \<Longrightarrow> left p \<le> n \<Longrightarrow> advances p (parse_return n p)"
  unfolding parse_return_def
  by (intro advances_bind expect_advances) (auto intro!: keeps_bind small_keeps parse_expr_keeps)

lemma for_init_keeps:
  assumes "wf_parser p" and "left p \<le> n"
  shows "keeps p (for_init n p)"
proof -
  have "keeps q (obind (looks_like_var_decl q) (\<lambda>v.
           if v then obind (parse_var_decl n q) (\<lambda>(vd, p). Ok (SVarDecl vd, p))
           else obind (parse_expr n q) (\<lambda>(e, p). Ok (SExpr e, p))))"
    if "wf_parser q" "left q \<le> n" for q
    using that looks_like_var_decl_wf [OF that(1)]
    by (auto intro!: keeps_bind parse_expr_keeps advances_keeps [OF parse_var_decl_advances])
  with assms show ?thesis unfolding for_init_def by (auto intro!: keeps_bind small_keeps)
qed

lemma for_cond_keeps: "wf_parser p \<Longrightarrow> left p \<le> n \<Longrightarrow> keeps p (for_cond n p)"
  unfolding for_cond_def by (auto intro!: keeps_bind small_keeps parse_expr_keeps)

lemma for_update_keeps: "wf_parser p \<Longrightarrow> left p \<le> n \<Longrightarrow> keeps p (for_update n p)"
  unfolding for_update_def by (auto intro!: keeps_bind small_keeps parse_expr_keeps)

lemma parse_simple_stmt_advances:
  assumes "wf_parser p" and "left p \<le> n"
  shows "advances p (parse_simple_stmt n p)"
proof -
  have v: "advances p (obind (parse_var_decl n p) (\<lambda>(vd, p).
       obind (expect Semicolon '';'' p) (\<lambda>(_, p). Ok (SVarDecl vd, p))))"
    using assms
    by (intro advances_bind parse_var_decl_advances) (auto intro!: keeps_bind small_keeps)
  have e: "advances p (obind (parse_expr n p) (\<lambda>(e, p).
       obind (expect Semicolon '';'' p) (\<lambda>(_, p). Ok (SExpr e, p))))"
    using assms
    by (intro advances_bind parse_expr_advances) (auto intro!: keeps_bind small_keeps)
  from v e looks_like_var_decl_wf [OF assms(1)] show ?thesis
    by (auto simp: parse_simple_stmt_def)
qed

text \<open>The contract of the statement parser that blocks and branches re-enter.\<close>

locale stmt_knot =
  fixes ps :: stmt_parser and n :: nat
  assumes ps_advances: "wf_parser p \<Longrightarrow> left p \<le> n \<Longrightarrow> advances p (ps p)"
begin

lemma block_loop_keeps: "wf_parser p \<Longrightarrow> left p \<le> m \<Longrightarrow> left p \<le> n \<Longrightarrow> keeps p (block_loop m ps p)"
proof (induction m arbitrary: p)
  case 0
  then show ?case using left_pos [of p] by simp
next
  case (Suc m)
  then have "keeps p (obind (ps p) (\<lambda>(s, p). obind (block_loop m ps p) (\<lambda>(ss, p). Ok (s # ss, p))))"
    by (intro advances_keeps [OF advances_bind [OF ps_advances]]) (auto intro!: keeps_bind Suc.IH)
  with Suc.prems show ?case by simp
qed

lemma parse_block_body_keeps:
  "wf_parser p \<Longrightarrow> left p \<le> m \<Longrightarrow> left p \<le> n \<Longrightarrow> keeps p (parse_block_body m ps p)"
  unfolding parse_block_body_def by (auto intro!: keeps_bind block_loop_keeps)

lemma parse_block_or_stmt_keeps:
  "wf_parser p \<Longrightarrow> left p \<le> m \<Longrightarrow> left p \<le> n \<Longrightarrow> keeps p (parse_block_or_stmt m ps p)"
  unfolding parse_block_or_stmt_def
  by (auto intro!: keeps_bind small_keeps parse_block_body_keeps advances_keeps [OF ps_advances])

lemma parse_if_advances:
  "wf_parser p \<Longrightarrow> left p \<le> m \<Longrightarrow> left p \<le> Suc n \<Longrightarrow> advances p (parse_if m ps p)"
  unfolding parse_if_def
  by (intro advances_bind expect_advances)
     (auto intro!: keeps_bind small_keeps parse_expr_keeps parse_block_or_stmt_keeps)

lemma parse_for_advances:
  "wf_parser p \<Longrightarrow> left p \<le> m \<Longrightarrow> left p \<le> Suc n \<Longrightarrow> advances p (parse_for m ps p)"
  unfolding parse_for_def
  by (intro advances_bind expect_advances)
     (auto intro!: keeps_bind small_keeps for_init_keeps for_cond_keeps for_update_keeps
       parse_block_or_stmt_keeps)

lemma stmt_body_advances:
  assumes "wf_parser p" and "left p \<le> m" and "left p \<le> Suc n"
  shows "advances p (stmt_body m ps p)"
proof -
  have "advances p (obind (bump p) (\<lambda>(_, p). obind (parse_block_body m ps p) (\<lambda>(b, p).
       obind (expect RBrace ''}'' p) (\<lambda>(_, p). Ok (SBlock b, p)))))" if "cur p = LBrace"
    using assms that
    by (intro advances_bind bump_advances)
       (auto intro!: keeps_bind small_keeps parse_block_body_keeps)
  with assms show ?thesis
    by (simp add: stmt_body_def parse_return_advances parse_if_advances parse_for_advances
        parse_simple_stmt_advances)
qed

end

lemma parse_stmt_advances: "wf_parser p \<Longrightarrow> left p \<le> n \<Longrightarrow> advances p (parse_stmt n p)"
proof (induction n arbitrary: p)
  case 0
  then show ?case using left_pos [of p] by simp
next
  case (Suc n)
  have "stmt_knot (parse_stmt n) n" using Suc.IH by unfold_locales
  with Suc.prems show ?case by (simp add: stmt_knot.stmt_body_advances)
qed

interpretation stmt: stmt_knot "parse_stmt n" n for n
  by unfold_locales (rule parse_stmt_advances)

section \<open>Declarations and the translation unit\<close>

lemma parse_function_rest_keeps:
  "wf_parser p \<Longrightarrow> left p \<le> n \<Longrightarrow> keeps p (parse_function_rest n ty name p)"
  unfolding parse_function_rest_def
  by (auto intro!: keeps_bind small_keeps parse_params_keeps stmt.parse_block_body_keeps)

lemma parse_function_or_global_var_advances:
  assumes "wf_parser p" and "left p \<le> n"
  shows "advances p (parse_function_or_global_var n p)"
proof -
  have reg: "keeps q (obind (parse_optional_register q) (\<lambda>(reg, p).
           obind (expect Semicolon '';'' p) (\<lambda>(_, p).
             Ok (DGlobalVar \<lparr>gv_ty = ty, gv_name = name, gv_register = reg\<rparr>, p))))"
    if "wf_parser q" for q ty name
    using that by (auto intro!: keeps_bind small_keeps)
  from assms show ?thesis
    unfolding parse_function_or_global_var_def
    by (intro advances_bind parse_type_advances)
       (auto intro!: keeps_bind small_keeps parse_function_rest_keeps reg
         simp: unexpected_ok split: token_kind.split)
qed

lemma parse_struct_decl_advances:
  assumes "wf_parser p" and "left p \<le> n"
  shows "advances p (obind (parse_struct n p) (\<lambda>(s, p).
           Ok (DStruct s, p\<lparr>struct_names := insert (sd_name s) (struct_names p)\<rparr>)))"
  using assms
  by (intro advances_bind parse_struct_advances) (auto simp: wf_parser_def)

lemma parse_cbuffer_decl_advances:
  assumes "wf_parser p" and "left p \<le> n"
  shows "advances p (obind (parse_cbuffer n p) (\<lambda>(c, p). Ok (DCBuffer c, p)))"
  using assms by (intro advances_bind parse_cbuffer_advances) auto

lemma parse_decl_advances:
  "wf_parser p \<Longrightarrow> left p \<le> n \<Longrightarrow> advances p (parse_decl n p)"
  by (simp add: parse_decl_def parse_struct_decl_advances parse_cbuffer_decl_advances
      parse_function_or_global_var_advances)

lemma unit_loop_keeps: "wf_parser p \<Longrightarrow> left p \<le> m \<Longrightarrow> left p \<le> n \<Longrightarrow> keeps p (unit_loop m n p)"
proof (induction m arbitrary: p)
  case 0
  then show ?case using left_pos [of p] by simp
next
  case (Suc m)
  then have "keeps p (obind (parse_decl n p) (\<lambda>(d, p).
      obind (unit_loop m n p) (\<lambda>(ds, p). Ok (d # ds, p))))"
    by (intro advances_keeps [OF advances_bind [OF parse_decl_advances]])
       (auto intro!: keeps_bind Suc.IH)
  with Suc.prems show ?case by (simp add: at_eof_def)
qed

lemma parse_returns:
  assumes "ts \<noteq> []" and "kind (last ts) = Eof"
  shows "parse ts \<noteq> Panic \<and> parse ts \<noteq> Timeout"
proof -
  have "keeps (Parser_new ts) (unit_loop (length ts) (length ts) (Parser_new ts))"
    using assms by (intro unit_loop_keeps) (auto simp: wf_parser_def left_def Parser_new_def)
  then show ?thesis
    by (auto simp: parse_def parse_unit_def pok_def obind_def split: outcome.splits)
qed

end
