(* ===== verification/ParserSpec.thy ===== *)
theory ParserSpec
  imports ParserTotal
begin

text \<open>
  Properties of the parser and of the front end (lexing, then parsing): it always returns, and
  two statements of what it returns where the tree is not the one the source text denotes.
\<close>

section \<open>The front end\<close>

datatype front_error = FrontLex lex_error | FrontParse parse_error

text \<open>The first two phases of \<open>compile\<close>: a panic or a loop that does not end is the outer \<open>None\<close>.\<close>

definition front_end :: "string \<Rightarrow> (front_error + translation_unit) option" where
  "front_end source = (case lex source of
     Inl e \<Rightarrow> Some (Inl (FrontLex e))
   | Inr ts \<Rightarrow>
       (case parse ts of
          Ok u \<Rightarrow> Some (Inr u)
        | Err e \<Rightarrow> Some (Inl (FrontParse e))
        | Panic \<Rightarrow> None
        | Timeout \<Rightarrow> None))"

text \<open>C19. On every token vector that ends with the end marker the parser returns a translation
  unit or a parse error: it never indexes outside the vector and its loops end within a fuel
  of one step per token.\<close>

theorem parse_total:
  assumes "ts \<noteq> []" and "kind (last ts) = Eof"
  shows "(\<exists>u. parse ts = Ok u) \<or> (\<exists>e. parse ts = Err e)"
  using parse_returns [OF assms] by (cases "parse ts") auto

theorem parse_total_witness:
  "let ts = [\<lparr>kind = TKeyword KStruct, span = Span_new 0 6\<rparr>, \<lparr>kind = Eof, span = Span_new 6 6\<rparr>]
   in (\<exists>u. parse ts = Ok u) \<or> (\<exists>e. parse ts = Err e)"
  unfolding Let_def by (rule parse_total) simp_all

lemma covers_last: "covers s n ts \<Longrightarrow> ts \<noteq> [] \<and> kind (last ts) = Eof"
  by (induction s n ts rule: covers.induct) (auto split: if_splits)

lemma lex_last:
  assumes "lex s = Inr ts"
  shows "ts \<noteq> [] \<and> kind (last ts) = Eof"
proof -
  from assms obtain new where "ts = new" "covers s 0 new"
    using run_covers [of "Lexer_new s" ts] by (auto simp: lex_def Lexer_new_def)
  then show ?thesis using covers_last by blast
qed

text \<open>Lexing and parsing end with a result for every source text: the front end neither
  panics nor loops, whatever bytes it is given.\<close>

theorem front_end_total: "\<exists>r. front_end source = Some r"
  using lex_last [of source] parse_returns
  by (auto simp: front_end_def split: sum.split outcome.split)

section \<open>What the parser reads\<close>

text \<open>The kinds of the tokens not read yet, and the state after reading \<open>j\<close> of them.\<close>

definition ahead :: "parser \<Rightarrow> token_kind list" where
  "ahead p = map kind (drop (idx p) (toks p))"

definition adv :: "nat \<Rightarrow> parser \<Rightarrow> parser" where
  "adv j p = p\<lparr>idx := idx p + j\<rparr>"

lemma adv_simps [simp]:
  "ahead (adv j p) = drop j (ahead p)" "adv 0 p = p" "adv i (adv j p) = adv (j + i) p"
  "struct_names (adv j p) = struct_names p" "toks (adv j p) = toks p" "idx (adv j p) = idx p + j"
  by (simp_all add: ahead_def adv_def drop_map add.commute add.left_commute)

lemma ahead_nth: "ahead p = k # ks \<Longrightarrow> idx p < length (toks p) \<and> kind (toks p ! idx p) = k"
  unfolding ahead_def by (cases "idx p < length (toks p)") (auto simp: Cons_nth_drop_Suc [symmetric])

lemma peek_ahead: "ahead p = k # ks \<Longrightarrow> peek p = Ok k"
  using ahead_nth [of p k ks] by (simp add: peek_def tok_at_def)

lemma bump_ahead: "ahead p = k # ks \<Longrightarrow> k \<noteq> Eof \<Longrightarrow> bump p = Ok (k, adv 1 p)"
  by (simp add: bump_def peek_ahead adv_def)

lemma eat_ahead:
  "ahead p = k # ks \<Longrightarrow> want \<noteq> Eof \<Longrightarrow>
    eat want p = (if same_discriminant k want then Ok (True, adv 1 p) else Ok (False, p))"
  by (cases "k = Eof") (auto simp: eat_def peek_ahead bump_ahead)

lemma expect_ahead:
  "ahead p = k # ks \<Longrightarrow> same_discriminant k want \<Longrightarrow> want \<noteq> Eof \<Longrightarrow> expect want w p = Ok ((), adv 1 p)"
  by (cases "k = Eof") (auto simp: expect_def peek_ahead bump_ahead)

lemma expect_ident_ahead:
  "ahead p = TIdent s # ks \<Longrightarrow> expect_ident w p = Ok (s, adv 1 p)"
  by (simp add: expect_ident_def bump_ahead)

text \<open>A state over given token kinds, with empty spans.\<close>

definition on_kinds :: "token_kind list \<Rightarrow> parser" where
  "on_kinds ks = Parser_new (map (\<lambda>k. \<lparr>kind = k, span = Span_new 0 0\<rparr>) ks)"

lemma ahead_on_kinds [simp]: "ahead (on_kinds ks) = ks"
  by (simp add: on_kinds_def Parser_new_def ahead_def o_def)

lemmas ahead_steps = peek_ahead bump_ahead eat_ahead expect_ahead expect_ident_ahead

lemma tok_at_next: "ahead p = k # k' # ks \<Longrightarrow> \<exists>t. tok_at p (Suc (idx p)) = Ok t \<and> kind t = k'"
  using ahead_nth [of "adv 1 p" k' ks] by (auto simp: tok_at_def)

text \<open>An identifier that no operator, call or member access follows is read as an expression.\<close>

definition ends_expr :: "token_kind \<Rightarrow> bool" where
  "ends_expr k \<longleftrightarrow> k = RParen \<or> k = Semicolon \<or> k = Comma \<or> k = RBrace \<or> k = Eof"

lemma ends_expr_ops [simp]:
  "ends_expr k \<Longrightarrow> mul_op k = None" "ends_expr k \<Longrightarrow> add_op k = None"
  "ends_expr k \<Longrightarrow> rel_op k = None" "ends_expr k \<Longrightarrow> equality_op k = None"
  "ends_expr k \<Longrightarrow> and_op k = None" "ends_expr k \<Longrightarrow> or_op k = None"
  "ends_expr k \<Longrightarrow> assign_op k = None" "ends_expr k \<Longrightarrow> k \<noteq> Dot"
  "ends_expr k \<Longrightarrow> \<not> same_discriminant k LParen"
  by (auto simp: ends_expr_def mul_op_def add_op_def rel_op_def equality_op_def and_op_def or_op_def
      assign_op_def same_discriminant_def)

lemmas level_defs = parse_or_def parse_and_def parse_equality_def parse_rel_def parse_add_def
  parse_mul_def binary_level_def

lemma parse_expr_primary:
  assumes "ahead p = k # ks" and "unary_op_of k = None"
    and "parse_primary (Suc n) (parse_expr n) (parse_unary n (parse_expr n)) p = Ok (e, adv j p)"
    and "drop j (ahead p) = k' # ks'" and "ends_expr k'"
  shows "parse_expr (Suc n) p = Ok (e, adv j p)"
  using assms by (simp add: level_defs parse_postfix_def ahead_steps)

lemma parse_expr_word:
  assumes "ahead p = TIdent s # k # ks" and "ends_expr k"
  shows "parse_expr (Suc n) p = Ok (EIdent s, adv 1 p)"
  using assms
  by (intro parse_expr_primary [where k = "TIdent s"])
     (simp_all add: parse_primary_def parse_word_def unary_op_of_def ahead_steps)

lemma same_discriminant_keyword [simp]: "same_discriminant (TKeyword a) (TKeyword b)"
  by (simp add: same_discriminant_def)

lemma looks_like_var_decl_ahead:
  assumes "ahead p = TIdent s # k # ks" and "\<And>v. k \<noteq> TIdent v"
  shows "looks_like_var_decl p = Ok False"
proof -
  obtain t where t: "tok_at p (Suc (idx p)) = Ok t" "kind t = k"
    using tok_at_next [OF assms(1)] by blast
  with assms show ?thesis
    by (auto simp: looks_like_var_decl_def peek_is_type_def type_token_len_def peek_ahead
        split: token_kind.split)
qed

text \<open>The parser takes any keyword for \<open>else\<close>: after the branch of an \<open>if\<close>, the test for
  \<open>else\<close> compares the discriminants of the tokens only, so the keyword that starts the next statement
  is consumed and the statement becomes the alternative. The text
  \<open>if (c) { } return y;\<close> is read as \<open>if (c) { } else y;\<close>: the return is lost.\<close>

theorem if_swallows_keyword:
  assumes "ahead p = [TKeyword KIf, LParen, TIdent c, RParen, LBrace, RBrace,
                      TKeyword kw, TIdent y, Semicolon] @ ks"
  shows "parse_stmt (Suc (Suc n)) p =
           Ok (SIf (EIdent c) (Block []) (Some (Block [SExpr (EIdent y)])), adv 9 p)"
proof -
  have lk: "looks_like_var_decl (adv 7 p) = Ok False"
    by (rule looks_like_var_decl_ahead [of _ y Semicolon ks]) (use assms in simp_all)
  have e: "parse_expr (Suc (Suc n)) (adv 2 p) = Ok (EIdent c, adv 3 p)"
    "parse_expr (Suc n) (adv 7 p) = Ok (EIdent y, adv 8 p)"
    using parse_expr_word [of "adv 2 p" c RParen] parse_expr_word [of "adv 7 p" y Semicolon] assms
    by (simp_all add: ends_expr_def)
  from assms lk e show ?thesis
    by (simp add: stmt_body_def parse_if_def parse_block_or_stmt_def parse_block_body_def
        parse_simple_stmt_def ahead_steps same_discriminant_def eval_nat_numeral del: parse_expr.simps)
qed

theorem if_swallows_keyword_witness:
  "parse_stmt (Suc (Suc 0)) (on_kinds [TKeyword KIf, LParen, TIdent ''c'', RParen, LBrace, RBrace,
                           TKeyword KReturn, TIdent ''y'', Semicolon, RBrace, Eof]) =
     Ok (SIf (EIdent ''c'') (Block []) (Some (Block [SExpr (EIdent ''y'')])),
         adv 9 (on_kinds [TKeyword KIf, LParen, TIdent ''c'', RParen, LBrace, RBrace,
                          TKeyword KReturn, TIdent ''y'', Semicolon, RBrace, Eof]))"
  by (rule if_swallows_keyword) simp

text \<open>In a parenthesised expression that starts with a vector or matrix constructor the
  constructor is dropped: the parenthesis looks ahead for a cast, consumes the type name and does not
  give it back when no closing parenthesis follows. The text \<open>(float2(v))\<close> is read as \<open>v\<close>.\<close>

theorem paren_drops_constructor:
  assumes "ahead p = [LParen, TIdent w, LParen, TIdent v, RParen, RParen, k] @ ks"
    and "decode_type_word w = Some ty" and "\<not> is_type_word v" and "v \<notin> struct_names p"
    and "ends_expr k"
  shows "parse_expr (Suc (Suc (Suc n))) p = Ok (EIdent v, adv 6 p)"
proof -
  have "parse_expr (Suc n) (adv 3 p) = Ok (EIdent v, adv 4 p)"
    using parse_expr_word [of "adv 3 p" v RParen] assms(1) by (simp add: ends_expr_def)
  then have i: "parse_expr (Suc (Suc n)) (adv 2 p) = Ok (EIdent v, adv 5 p)"
    using assms(1,3,4) parse_expr_primary [of "adv 2 p" LParen _ "Suc n" "EIdent v" 3 RParen]
    by (simp add: parse_primary_def parse_paren_def Let_def ahead_steps unary_op_of_def ends_expr_def
        peek_is_type_def type_token_len_def same_discriminant_def eval_nat_numeral del: parse_expr.simps)
  from assms(1,2) have "parse_type (adv 1 p) = Ok (ty, adv 2 p)"
    by (simp add: parse_type_def ahead_steps eval_nat_numeral)
  with i assms show ?thesis
    using parse_expr_primary [of p LParen _ "Suc (Suc n)" "EIdent v" 6 k ks]
    by (simp add: parse_primary_def parse_paren_def Let_def ahead_steps unary_op_of_def
        peek_is_type_def type_token_len_def is_type_word_def same_discriminant_def
        eval_nat_numeral del: parse_expr.simps)
qed

theorem paren_drops_constructor_witness:
  "parse_expr (Suc (Suc (Suc 0)))
     (on_kinds [LParen, TIdent ''float2'', LParen, TIdent ''v'', RParen, RParen, Semicolon, Eof]) =
   Ok (EIdent ''v'', adv 6
     (on_kinds [LParen, TIdent ''float2'', LParen, TIdent ''v'', RParen, RParen, Semicolon, Eof]))"
proof (rule paren_drops_constructor [where k = Semicolon and ks = "[Eof]"])
  show "decode_type_word ''float2'' = Some (TyVector SkFloat 2)"
    by (simp add: decode_type_word_def decode_shape_def parse_u32_def parse_unsigned_def
        digit_val_def is_ascii_digit_def type_of_shape_def Let_def)
  show "\<not> is_type_word ''v''" by (simp add: is_type_word_def decode_type_word_def)
  show "''v'' \<notin> struct_names (on_kinds [LParen, TIdent ''float2'', LParen, TIdent ''v'', RParen, RParen,
      Semicolon, Eof])" by (simp add: on_kinds_def Parser_new_def)
qed (simp_all add: ends_expr_def)

end
