(* ===== verification/Handle.thy ===== *)
theory Handle
  imports Prelude
begin

text \<open>
  The process-global handle table, \<^verbatim>\<open>crates/ntapi/src/handle.rs\<close>, with \<open>clone_ref\<close> of
  \<^verbatim>\<open>sync.rs\<close>. An \<open>Arc\<close> to the state of a synchronisation object is an index into a store
  (theory Sync); a file descriptor is the number Linux gave. Dropping a file object closes its
  descriptor: the descriptors passed to \<open>close(2)\<close> are logged, in order, by the callers. The locale \<open>handle_store\<close> is
  what the rest of the layer relies on; it is interpreted on the table.
\<close>

section \<open>Objects\<close>

type_synonym handle = u64
type_synonym arc = nat
type_synonym fd = int

datatype object =
    OEvent arc
  | OMutex arc
  | OSemaphore arc
  | OThread arc
  | OFile fd
  | OSection u64 u64
  | OProcess

text \<open>The copy of an object that the synchronisation calls work on: an \<open>Arc\<close> is shared, a file
  object is rebuilt around the same descriptor.\<close>

definition clone_ref :: "object \<Rightarrow> object" where
  "clone_ref ob = (case ob of
     OEvent e \<Rightarrow> OEvent e
   | OMutex m \<Rightarrow> OMutex m
   | OSemaphore s \<Rightarrow> OSemaphore s
   | OThread t \<Rightarrow> OThread t
   | OFile f \<Rightarrow> OFile f
   | OSection b n \<Rightarrow> OSection b n
   | OProcess \<Rightarrow> OProcess)"

lemma clone_ref_id [simp]: "clone_ref ob = ob"
  by (cases ob) (simp_all add: clone_ref_def)

text \<open>\<open>Drop\<close>: the descriptors that dropping an object passes to \<open>close(2)\<close>.\<close>

definition drop_object :: "object \<Rightarrow> fd list" where
  "drop_object ob = (case ob of OFile f \<Rightarrow> if 0 \<le> f then [f] else [] | _ \<Rightarrow> [])"

section \<open>The table\<close>

record handle_table =
  objects :: "handle \<rightharpoonup> object"
  next_handle :: handle

definition HandleTable_new :: handle_table where
  "HandleTable_new = \<lparr>objects = Map.empty, next_handle = 0x10000\<rparr>"

definition HandleTable_insert :: "object \<Rightarrow> handle_table \<Rightarrow> handle \<times> handle_table" where
  "HandleTable_insert ob t =
     (let h = next_handle t
      in (h, t\<lparr>next_handle := h + 1, objects := (objects t)(h \<mapsto> ob)\<rparr>))"

definition HandleTable_remove :: "handle \<Rightarrow> handle_table \<Rightarrow> object option \<times> handle_table" where
  "HandleTable_remove h t = (objects t h, t\<lparr>objects := (objects t)(h := None)\<rparr>)"

definition create :: "object \<Rightarrow> handle_table \<Rightarrow> handle \<times> handle_table" where
  "create ob t = HandleTable_insert ob t"

definition with_object :: "handle \<Rightarrow> (object \<Rightarrow> 'r) \<Rightarrow> handle_table \<Rightarrow> 'r option" where
  "with_object h f t = map_option f (objects t h)"

text \<open>\<open>GetCurrentProcess() = (HANDLE)-1\<close>, \<open>GetCurrentThread() = (HANDLE)-2\<close>, and the stdio
  descriptors used as handles.\<close>

definition is_pseudo_handle :: "handle \<Rightarrow> bool" where
  "is_pseudo_handle h \<longleftrightarrow>
     h = 0xFFFFFFFFFFFFFFFF \<or> h = 0xFFFFFFFFFFFFFFFF - 1 \<or> h \<le> 2"

text \<open>The result, the new table, and the descriptors closed.\<close>

definition close :: "handle \<Rightarrow> handle_table \<Rightarrow> bool \<times> handle_table \<times> fd list" where
  "close h t =
     (if is_pseudo_handle h then (True, t, [])
      else
        (case HandleTable_remove h t of
           (None, t') \<Rightarrow> (False, t', [])
         | (Some ob, t') \<Rightarrow> (True, t', drop_object ob)))"

section \<open>The interface\<close>

text \<open>
  What a client of the table relies on. \<open>room n t\<close> says that \<open>n\<close> more objects fit before the
  counter reaches the pseudo-handles.
\<close>

locale handle_store =
  fixes new :: "'o \<Rightarrow> 't \<Rightarrow> 'h \<times> 't"
    and lookup :: "'t \<Rightarrow> 'h \<Rightarrow> 'o option"
    and del :: "'h \<Rightarrow> 't \<Rightarrow> bool \<times> 't \<times> 'd list"
    and released :: "'o \<Rightarrow> 'd list"
    and inv :: "'t \<Rightarrow> bool"
    and room :: "nat \<Rightarrow> 't \<Rightarrow> bool"
    and older :: "'h \<Rightarrow> 't \<Rightarrow> bool"
    and pseudo :: "'h \<Rightarrow> bool"
  assumes new_inv: "inv t \<Longrightarrow> room (Suc n) t \<Longrightarrow> new ob t = (h, t') \<Longrightarrow> inv t' \<and> room n t'"
    and new_lookup: "new ob t = (h, t') \<Longrightarrow> lookup t' = (lookup t)(h \<mapsto> ob)"
    and new_not_older: "new ob t = (h, t') \<Longrightarrow> \<not> older h t"
    and new_older: "inv t \<Longrightarrow> room (Suc n) t \<Longrightarrow> new ob t = (h, t') \<Longrightarrow> older h' t' \<longleftrightarrow> h' = h \<or> older h' t"
    and new_real: "inv t \<Longrightarrow> room (Suc n) t \<Longrightarrow> new ob t = (h, t') \<Longrightarrow> \<not> pseudo h"
    and lookup_older: "inv t \<Longrightarrow> lookup t h = Some ob \<Longrightarrow> older h t"
    and del_inv: "inv t \<Longrightarrow> del h t = (b, t', ds) \<Longrightarrow> inv t'"
    and del_room: "del h t = (b, t', ds) \<Longrightarrow> room n t' = room n t"
    and del_older: "del h t = (b, t', ds) \<Longrightarrow> older h' t' = older h' t"
    and del_real: "\<not> pseudo h \<Longrightarrow> del h t = (b, t', ds) \<Longrightarrow>
        lookup t' = (lookup t)(h := None) \<and> (b \<longleftrightarrow> lookup t h \<noteq> None) \<and>
        ds = (case lookup t h of None \<Rightarrow> [] | Some ob \<Rightarrow> released ob)"
    and del_pseudo: "pseudo h \<Longrightarrow> del h t = (True, t, [])"
begin

lemma new_fresh: "inv t \<Longrightarrow> new ob t = (h, t') \<Longrightarrow> lookup t h = None"
  using lookup_older [of t h] new_not_older [of ob t h t'] by (cases "lookup t h") blast+

lemma del_other:
  assumes "del h t = (b, t', ds)" and "h' \<noteq> h"
  shows "lookup t' h' = lookup t h'"
  using assms del_real [of h t b t' ds] del_pseudo [of h t] by (cases "pseudo h") auto

lemma new_del:
  assumes "inv t" "room (Suc n) t" "new ob t = (h, t')"
  shows "\<exists>t''. del h t' = (True, t'', released ob) \<and> lookup t'' = lookup t"
proof -
  obtain b t'' ds where d: "del h t' = (b, t'', ds)" by (metis prod_cases3)
  from del_real [OF new_real [OF assms] d] new_lookup [OF assms(3)] new_fresh [OF assms(1,3)]
  show ?thesis using d by auto
qed

lemma del_twice:
  assumes "\<not> pseudo h" "del h t = (b, t', ds)"
  shows "\<exists>t''. del h t' = (False, t'', []) \<and> lookup t'' = lookup t'"
proof -
  obtain b' t'' ds' where d: "del h t' = (b', t'', ds')" by (metis prod_cases3)
  from del_real [OF assms(1) d] del_real [OF assms] show ?thesis using d by auto
qed

end

section \<open>The table implements the interface\<close>

definition table_inv :: "handle_table \<Rightarrow> bool" where
  "table_inv t \<longleftrightarrow> 0x10000 \<le> next_handle t \<and>
     (\<forall>h. objects t h \<noteq> None \<longrightarrow> 0x10000 \<le> h \<and> h < next_handle t)"

definition table_room :: "nat \<Rightarrow> handle_table \<Rightarrow> bool" where
  "table_room n t \<longleftrightarrow> unat (next_handle t) + n < 2 ^ 64 - 2"

definition issued :: "handle \<Rightarrow> handle_table \<Rightarrow> bool" where
  "issued h t \<longleftrightarrow> h < next_handle t"

lemma unat_succ64: "unat (x :: u64) + 1 < 2 ^ 64 \<Longrightarrow> unat (x + 1) = unat x + 1"
  by (simp add: unat_word_ariths)

lemma next_room:
  assumes "table_room (Suc n) t"
  shows "unat (next_handle t + 1) = unat (next_handle t) + 1"
  using assms by (intro unat_succ64) (simp add: table_room_def)

lemma next_not_pseudo:
  assumes "table_inv t" "table_room (Suc n) t"
  shows "\<not> is_pseudo_handle (next_handle t)"
proof -
  have "0x10000 \<le> unat (next_handle t)" using assms(1) by (simp add: table_inv_def word_le_nat_alt)
  moreover have "unat (next_handle t) < 2 ^ 64 - 3" using assms(2) by (simp add: table_room_def)
  ultimately show ?thesis
    by (auto simp: is_pseudo_handle_def word_le_nat_alt dest!: arg_cong [of _ _ unat])
qed

interpretation ht: handle_store create objects close drop_object table_inv table_room issued is_pseudo_handle
proof (unfold_locales, goal_cases)
  case (1 t n ob h t')
  note nx = next_room [OF 1(2)]
  have le: "next_handle t \<le> next_handle t + 1" using nx by (simp add: word_le_nat_alt)
  from 1 nx le show ?case
    by (auto simp: create_def HandleTable_insert_def Let_def table_inv_def table_room_def
        word_less_nat_alt word_le_nat_alt less_Suc_eq split: if_splits)
next
  case (4 t n ob h t' h')
  with next_room [OF 4(2)] show ?case
    by (auto simp: create_def HandleTable_insert_def Let_def issued_def word_less_nat_alt
        less_Suc_eq word_unat_eq_iff)
next
  case (5 t n ob h t')
  then show ?case
    using next_not_pseudo by (auto simp: create_def HandleTable_insert_def Let_def)
qed (auto simp: create_def HandleTable_insert_def Let_def table_inv_def issued_def
      close_def HandleTable_remove_def table_room_def split: option.splits if_splits)

lemmas table_defs = create_def HandleTable_insert_def with_object_def close_def HandleTable_remove_def
  Let_def

lemma table_inv_new: "table_inv HandleTable_new"
  by (simp add: table_inv_def HandleTable_new_def)

section \<open>Sequences of calls\<close>

datatype handle_call = Create object | Close handle

text \<open>The handles the creations return, the table, and the descriptors closed, over a sequence of
  calls.\<close>

fun calls :: "handle_call list \<Rightarrow> handle_table \<Rightarrow> handle list \<times> handle_table \<times> fd list" where
  "calls [] t = ([], t, [])"
| "calls (Create ob # cs) t =
     (case create ob t of (h, t') \<Rightarrow> case calls cs t' of (hs, t'', ds) \<Rightarrow> (h # hs, t'', ds))"
| "calls (Close h # cs) t =
     (case close h t of (_, t', ds) \<Rightarrow> case calls cs t' of (hs, t'', ds') \<Rightarrow> (hs, t'', ds @ ds'))"

lemma calls_inv:
  "table_inv t \<Longrightarrow> table_room (length cs) t \<Longrightarrow> calls cs t = (hs, t', ds) \<Longrightarrow>
    table_inv t' \<and> distinct hs \<and> (\<forall>h \<in> set hs. \<not> issued h t \<and> \<not> is_pseudo_handle h) \<and>
    (\<forall>h. issued h t \<longrightarrow> issued h t') \<and> (\<forall>h. objects t' h \<noteq> None \<longrightarrow> h \<in> set hs \<or> objects t h \<noteq> None)"
proof (induction cs t arbitrary: hs t' ds rule: calls.induct)
  case (1 t)
  then show ?case by simp
next
  case (2 ob cs t)
  obtain h t1 where c: "create ob t = (h, t1)" by fastforce
  obtain hs2 t2 ds2 where r: "calls cs t1 = (hs2, t2, ds2)" by (metis prod_cases3)
  from 2(3) have room: "table_room (Suc (length cs)) t" by simp
  note new = ht.new_inv [OF 2(2) room c] ht.new_older [OF 2(2) room c] ht.new_lookup [OF c]
    ht.new_not_older [OF c] ht.new_real [OF 2(2) room c]
  from 2(1) [OF c [symmetric] _ _ r] new(1) have ih: "table_inv t2 \<and> distinct hs2 \<and>
      (\<forall>h \<in> set hs2. \<not> issued h t1 \<and> \<not> is_pseudo_handle h) \<and> (\<forall>h. issued h t1 \<longrightarrow> issued h t2) \<and>
      (\<forall>h. objects t2 h \<noteq> None \<longrightarrow> h \<in> set hs2 \<or> objects t1 h \<noteq> None)"
    by simp
  have "hs = h # hs2" "t' = t2" using 2(4) c r by auto
  with ih new(2-) show ?case by (auto split: if_splits)
next
  case (3 h cs t)
  obtain b t1 ds1 where c: "close h t = (b, t1, ds1)" by (metis prod_cases3)
  obtain hs2 t2 ds2 where r: "calls cs t1 = (hs2, t2, ds2)" by (metis prod_cases3)
  have "table_room (length cs) t1" using 3(3) ht.del_room [OF c] by (simp add: table_room_def)
  with 3(1) [OF c [symmetric] refl _ _ r] ht.del_inv [OF 3(2) c] ht.del_older [OF c]
  have ih: "table_inv t2 \<and> distinct hs2 \<and>
      (\<forall>h \<in> set hs2. \<not> issued h t \<and> \<not> is_pseudo_handle h) \<and> (\<forall>h. issued h t \<longrightarrow> issued h t2) \<and>
      (\<forall>h. objects t2 h \<noteq> None \<longrightarrow> h \<in> set hs2 \<or> objects t1 h \<noteq> None)"
    by simp
  have "objects t h' \<noteq> None" if "objects t1 h' \<noteq> None" for h'
    using that c by (auto simp: close_def HandleTable_remove_def split: if_splits option.splits)
  moreover have "hs = hs2" "t' = t2" using 3(4) c r by auto
  ultimately show ?case using ih by auto
qed

text \<open>C28. A handle is never issued twice and never collides with a pseudo-handle: over any sequence
  of creations and closes from the initial table, shorter than the range of the counter, the
  handles returned are pairwise different (also after their objects are closed), none is a
  pseudo-handle or a stdio descriptor, and only handles that were returned resolve at the end.\<close>

theorem handles_never_reused:
  assumes "length cs < 2 ^ 64 - 2 - 0x10000" and "calls cs HandleTable_new = (hs, t, ds)"
  shows "distinct hs \<and> (\<forall>h \<in> set hs. \<not> is_pseudo_handle h) \<and> dom (objects t) \<subseteq> set hs"
proof -
  have "table_room (length cs) HandleTable_new"
    using assms(1) by (simp add: table_room_def HandleTable_new_def)
  from calls_inv [OF table_inv_new this assms(2)] show ?thesis
    by (auto simp: HandleTable_new_def)
qed

lemma calls_example:
  "calls [Create OProcess, Close 0x10000, Create (OFile 5), Close 0x10001] HandleTable_new =
     ([0x10000, 0x10001], HandleTable_new\<lparr>next_handle := 0x10002\<rparr>, [5])"
  by (simp add: table_defs HandleTable_new_def is_pseudo_handle_def drop_object_def)

theorem handles_never_reused_witness:
  "distinct [0x10000, 0x10001 :: handle] \<and> \<not> is_pseudo_handle 0x10000 \<and> \<not> is_pseudo_handle 0x10001 \<and>
   dom (objects (HandleTable_new\<lparr>next_handle := 0x10002\<rparr>)) \<subseteq> set [0x10000, 0x10001]"
  using handles_never_reused [OF _ calls_example] by simp

text \<open>Creating an object and closing its handle succeeds, releases exactly what dropping the
  object releases, leaves every other handle as it was, and a second close fails and releases
  nothing.\<close>

theorem create_close_round_trip:
  assumes "table_inv t" and "table_room 1 t" and "create ob t = (h, t')"
  shows "with_object h id t' = Some ob \<and>
    (\<exists>t2 t3. close h t' = (True, t2, drop_object ob) \<and> objects t2 = objects t \<and>
             close h t2 = (False, t3, []) \<and> objects t3 = objects t)"
proof -
  have r: "table_room (Suc 0) t" using assms(2) by simp
  obtain t2 where t2: "close h t' = (True, t2, drop_object ob)" "objects t2 = objects t"
    using ht.new_del [OF assms(1) r assms(3)] by blast
  moreover obtain t3 where "close h t2 = (False, t3, [])" "objects t3 = objects t2"
    using ht.del_twice [OF ht.new_real [OF assms(1) r assms(3)] t2(1)] by blast
  ultimately show ?thesis using ht.new_lookup [OF assms(3)] by (auto simp: with_object_def)
qed

theorem create_close_round_trip_witness:
  "with_object 0x10000 id (snd (create (OFile 7) HandleTable_new)) = Some (OFile 7) \<and>
    (\<exists>t2 t3. close 0x10000 (snd (create (OFile 7) HandleTable_new)) = (True, t2, drop_object (OFile 7)) \<and>
       objects t2 = objects HandleTable_new \<and>
       close 0x10000 t2 = (False, t3, []) \<and> objects t3 = objects HandleTable_new)"
  by (rule create_close_round_trip [OF table_inv_new])
     (simp_all add: table_room_def HandleTable_new_def table_defs)

end
