(* ===== verification/Sync.thy ===== *)
theory Sync
  imports Handle
begin

text \<open>
  The handle-backed synchronisation objects of \<^verbatim>\<open>crates/ntapi/src/sync.rs\<close>: events, mutexes,
  semaphores, \<open>WaitForSingleObject\<close>, \<open>WaitForMultipleObjects\<close> and \<open>WaitOnAddress\<close>. The state is one record
  \<open>kernel\<close>: the handle table, the stores the \<open>Arc\<close>s point into, the monotonic clock, the guest memory, and two logs, of the
  descriptors passed to \<open>close(2)\<close> and of the calls of \<open>futex_wake\<close>.

  A wait runs beside other threads. Everything they do between two atomic accesses of the waiting
  thread (and while it sleeps in \<open>futex_wait\<close> or \<open>nanosleep\<close>, and as time passes) is a function \<open>env\<close>: its
  \<open>i\<close>-th value is applied at the \<open>i\<close>-th such point. Nothing is assumed of it except where a theorem says so.
  The loops take fuel.
\<close>

section \<open>State\<close>

record event_inner =
  ev_state :: u32
  manual_reset :: bool

record mutex_inner =
  mx_lock :: u32
  mx_owner :: u64
  mx_recursion :: u32

record semaphore_inner =
  sm_count :: u32

datatype futex_word = EventWord arc | MutexWord arc | SemWord arc | UserWord u64

record kernel =
  table :: handle_table
  events :: "arc \<Rightarrow> event_inner"
  mutexes :: "arc \<Rightarrow> mutex_inner"
  semaphores :: "arc \<Rightarrow> semaphore_inner"
  thread_tid :: "arc \<Rightarrow> u32"
  next_arc :: arc
  clock :: u64
  guest :: "u64 \<Rightarrow> u8"
  closed :: "fd list"
  wakes :: "(futex_word \<times> int) list"

type_synonym env = "nat \<Rightarrow> kernel \<Rightarrow> kernel"

abbreviation INFINITE :: u32 where "INFINITE \<equiv> 0xFFFFFFFF"
abbreviation WAIT_OBJECT_0 :: u32 where "WAIT_OBJECT_0 \<equiv> 0"
abbreviation WAIT_TIMEOUT :: u32 where "WAIT_TIMEOUT \<equiv> 0x102"
abbreviation WAIT_FAILED :: u32 where "WAIT_FAILED \<equiv> 0xFFFFFFFF"
abbreviation i32_max :: int where "i32_max \<equiv> 2 ^ 31 - 1"

definition futex_wake :: "futex_word \<Rightarrow> int \<Rightarrow> kernel \<Rightarrow> kernel" where
  "futex_wake w n k = k\<lparr>wakes := wakes k @ [(w, n)]\<rparr>"

text \<open>A new \<open>Arc\<close> is an unused index. The copy a call obtained from the table is dropped when the call
  ends; for a file that closes the descriptor.\<close>

definition with_cloned :: "handle \<Rightarrow> kernel \<Rightarrow> object option" where
  "with_cloned h k = with_object h clone_ref (table k)"

definition drop_ref :: "object option \<Rightarrow> kernel \<Rightarrow> kernel" where
  "drop_ref r k = k\<lparr>closed := closed k @ (case r of None \<Rightarrow> [] | Some ob \<Rightarrow> drop_object ob)\<rparr>"

definition create_handle :: "object \<Rightarrow> kernel \<Rightarrow> handle \<times> kernel" where
  "create_handle ob k = (case create ob (table k) of (h, t) \<Rightarrow> (h, k\<lparr>table := t\<rparr>))"

definition deadline_ns :: "u32 \<Rightarrow> kernel \<Rightarrow> u64 option" where
  "deadline_ns ms k = (if ms = INFINITE then None else Some (clock k + ucast ms * 1000000))"

section \<open>The wait loop\<close>

text \<open>
  Every wait of the source has the same loop: try to take the object; if it is taken, return; if
  another thread was faster, start over; otherwise read the clock, give up at the deadline, and
  sleep in \<open>futex_wait\<close>. What differs is the attempt.
\<close>

datatype attempt = Got | Lost | NotYet

type_synonym attempt_fun = "env \<Rightarrow> nat \<Rightarrow> kernel \<Rightarrow> attempt \<times> nat \<times> kernel"

fun wait_loop ::
  "nat \<Rightarrow> attempt_fun \<Rightarrow> env \<Rightarrow> u64 option \<Rightarrow> nat \<Rightarrow> kernel \<Rightarrow> (u32 \<times> nat \<times> kernel) option" where
  "wait_loop 0 att env dl i k = None"
| "wait_loop (Suc n) att env dl i k =
     (case att env i k of
        (Got, j, k') \<Rightarrow> Some (WAIT_OBJECT_0, j, k')
      | (Lost, j, k') \<Rightarrow> wait_loop n att env dl j k'
      | (NotYet, j, k') \<Rightarrow>
          (case dl of
             None \<Rightarrow> wait_loop n att env dl (j + 1) (env j k')
           | Some d \<Rightarrow>
               (let k2 = env j k'
                in if d \<le> clock k2 then Some (WAIT_TIMEOUT, j + 1, k2)
                   else wait_loop n att env dl (j + 2) (env (j + 1) k2))))"

section \<open>Events\<close>

definition EventInner_new :: "bool \<Rightarrow> bool \<Rightarrow> event_inner" where
  "EventInner_new manual initial = \<lparr>ev_state = (if initial then 1 else 0), manual_reset = manual\<rparr>"

definition store_event :: "arc \<Rightarrow> u32 \<Rightarrow> kernel \<Rightarrow> kernel" where
  "store_event a v k = k\<lparr>events := (events k)(a := (events k a)\<lparr>ev_state := v\<rparr>)\<rparr>"

definition EventInner_set :: "arc \<Rightarrow> kernel \<Rightarrow> kernel" where
  "EventInner_set a k =
     (let k = store_event a 1 k
      in futex_wake (EventWord a) (if manual_reset (events k a) then i32_max else 1) k)"

definition EventInner_reset :: "arc \<Rightarrow> kernel \<Rightarrow> kernel" where
  "EventInner_reset a k = store_event a 0 k"

definition EventInner_pulse :: "arc \<Rightarrow> kernel \<Rightarrow> kernel" where
  "EventInner_pulse a k =
     (let k = store_event a 1 k;
          k = futex_wake (EventWord a) (if manual_reset (events k a) then i32_max else 1) k
      in store_event a 0 k)"

text \<open>\<open>manual_reset\<close> is not atomic and never written after creation: it is read once.\<close>

definition event_attempt :: "arc \<Rightarrow> bool \<Rightarrow> attempt_fun" where
  "event_attempt a manual env i k =
     (let k = env i k in
      if ev_state (events k a) = 1 then
        if manual then (Got, i + 1, k)
        else
          (let k = env (i + 1) k in
           if ev_state (events k a) = 1 then (Got, i + 2, store_event a 0 k)
           else (Lost, i + 2, k))
      else (NotYet, i + 1, k))"

definition EventInner_wait :: "nat \<Rightarrow> env \<Rightarrow> nat \<Rightarrow> arc \<Rightarrow> u32 \<Rightarrow> kernel \<Rightarrow> (u32 \<times> nat \<times> kernel) option" where
  "EventInner_wait n env i a ms k =
     wait_loop n (event_attempt a (manual_reset (events k a))) env (deadline_ns ms k) i k"

definition create_event_w :: "int \<Rightarrow> int \<Rightarrow> kernel \<Rightarrow> handle \<times> kernel" where
  "create_event_w manual initial k =
     (let a = next_arc k;
          k = k\<lparr>next_arc := a + 1,
                events := (events k)(a := EventInner_new (manual \<noteq> 0) (initial \<noteq> 0))\<rparr>
      in create_handle (OEvent a) k)"

definition set_event :: "handle \<Rightarrow> kernel \<Rightarrow> bool \<times> kernel" where
  "set_event h k = (let r = with_cloned h k in
     case r of Some (OEvent a) \<Rightarrow> (True, EventInner_set a k) | _ \<Rightarrow> (False, drop_ref r k))"

definition reset_event :: "handle \<Rightarrow> kernel \<Rightarrow> bool \<times> kernel" where
  "reset_event h k = (let r = with_cloned h k in
     case r of Some (OEvent a) \<Rightarrow> (True, EventInner_reset a k) | _ \<Rightarrow> (False, drop_ref r k))"

definition pulse_event :: "handle \<Rightarrow> kernel \<Rightarrow> bool \<times> kernel" where
  "pulse_event h k = (let r = with_cloned h k in
     case r of Some (OEvent a) \<Rightarrow> (True, EventInner_pulse a k) | _ \<Rightarrow> (False, drop_ref r k))"

section \<open>Mutexes\<close>

definition MutexInner_new :: mutex_inner where
  "MutexInner_new = \<lparr>mx_lock = 0, mx_owner = 0, mx_recursion = 0\<rparr>"

definition upd_mutex :: "arc \<Rightarrow> (mutex_inner \<Rightarrow> mutex_inner) \<Rightarrow> kernel \<Rightarrow> kernel" where
  "upd_mutex a f k = k\<lparr>mutexes := (mutexes k)(a := f (mutexes k a))\<rparr>"

definition mutex_attempt :: "u64 \<Rightarrow> arc \<Rightarrow> attempt_fun" where
  "mutex_attempt me a env i k =
     (let k = env i k in
      if mx_lock (mutexes k a) = 0
      then (Got, i + 1, upd_mutex a (\<lambda>m. m\<lparr>mx_lock := 1, mx_owner := me, mx_recursion := 1\<rparr>) k)
      else (NotYet, i + 1, k))"

text \<open>\<open>me\<close> is the id of the calling thread.\<close>

definition MutexInner_acquire ::
  "nat \<Rightarrow> env \<Rightarrow> nat \<Rightarrow> u64 \<Rightarrow> arc \<Rightarrow> u32 \<Rightarrow> kernel \<Rightarrow> (u32 \<times> nat \<times> kernel) option" where
  "MutexInner_acquire n env i me a ms k =
     (if mx_owner (mutexes k a) = me
      then Some (WAIT_OBJECT_0, i, upd_mutex a (\<lambda>m. m\<lparr>mx_recursion := mx_recursion m + 1\<rparr>) k)
      else wait_loop n (mutex_attempt me a) env (deadline_ns ms k) i k)"

definition MutexInner_release :: "u64 \<Rightarrow> arc \<Rightarrow> kernel \<Rightarrow> bool \<times> kernel" where
  "MutexInner_release me a k =
     (if mx_owner (mutexes k a) \<noteq> me then (False, k)
      else
        (let r = mx_recursion (mutexes k a) - 1;
             k = upd_mutex a (\<lambda>m. m\<lparr>mx_recursion := r\<rparr>) k
         in if r = 0
            then (True, futex_wake (MutexWord a) 1 (upd_mutex a (\<lambda>m. m\<lparr>mx_owner := 0, mx_lock := 0\<rparr>) k))
            else (True, k)))"

definition create_mutex_w :: "u64 \<Rightarrow> int \<Rightarrow> kernel \<Rightarrow> handle \<times> kernel" where
  "create_mutex_w me initial_owner k =
     (let a = next_arc k;
          inner = (if initial_owner \<noteq> 0
                   then MutexInner_new\<lparr>mx_lock := 1, mx_owner := me, mx_recursion := 1\<rparr>
                   else MutexInner_new);
          k = k\<lparr>next_arc := a + 1, mutexes := (mutexes k)(a := inner)\<rparr>
      in create_handle (OMutex a) k)"

definition release_mutex :: "u64 \<Rightarrow> handle \<Rightarrow> kernel \<Rightarrow> bool \<times> kernel" where
  "release_mutex me h k = (let r = with_cloned h k in
     case r of Some (OMutex a) \<Rightarrow> MutexInner_release me a k | _ \<Rightarrow> (False, drop_ref r k))"

section \<open>Semaphores\<close>

definition SemaphoreInner_new :: "u32 \<Rightarrow> semaphore_inner" where
  "SemaphoreInner_new initial = \<lparr>sm_count = initial\<rparr>"

definition upd_sem :: "arc \<Rightarrow> u32 \<Rightarrow> kernel \<Rightarrow> kernel" where
  "upd_sem a c k = k\<lparr>semaphores := (semaphores k)(a := (semaphores k a)\<lparr>sm_count := c\<rparr>)\<rparr>"

definition sem_attempt :: "arc \<Rightarrow> attempt_fun" where
  "sem_attempt a env i k =
     (let k = env i k; c = sm_count (semaphores k a) in
      if 0 < c then
        (let k = env (i + 1) k in
         if sm_count (semaphores k a) = c then (Got, i + 2, upd_sem a (c - 1) k) else (Lost, i + 2, k))
      else (NotYet, i + 1, k))"

definition SemaphoreInner_wait ::
  "nat \<Rightarrow> env \<Rightarrow> nat \<Rightarrow> arc \<Rightarrow> u32 \<Rightarrow> kernel \<Rightarrow> (u32 \<times> nat \<times> kernel) option" where
  "SemaphoreInner_wait n env i a ms k = wait_loop n (sem_attempt a) env (deadline_ns ms k) i k"

text \<open>Little-endian access to the guest's memory.\<close>

fun read_le :: "nat \<Rightarrow> u64 \<Rightarrow> kernel \<Rightarrow> u64" where
  "read_le 0 p k = 0"
| "read_le (Suc n) p k = ucast (guest k p) + push_bit 8 (read_le n (p + 1) k)"

fun write_le :: "nat \<Rightarrow> u64 \<Rightarrow> u64 \<Rightarrow> kernel \<Rightarrow> kernel" where
  "write_le 0 p v k = k"
| "write_le (Suc n) p v k = write_le n (p + 1) (drop_bit 8 v) (k\<lparr>guest := (guest k)(p := ucast v)\<rparr>)"

text \<open>\<open>release_count as i32\<close> reads the word as a signed number.\<close>

definition SemaphoreInner_release :: "arc \<Rightarrow> u32 \<Rightarrow> u64 \<Rightarrow> kernel \<Rightarrow> bool \<times> kernel" where
  "SemaphoreInner_release a release_count prev k =
     (let k = (if prev \<noteq> 0 then write_le 4 prev (ucast (sm_count (semaphores k a))) k else k);
          k = upd_sem a (sm_count (semaphores k a) + release_count) k
      in (True, futex_wake (SemWord a) (sint release_count) k))"

definition create_semaphore_w :: "int \<Rightarrow> int \<Rightarrow> kernel \<Rightarrow> handle \<times> kernel" where
  "create_semaphore_w initial maximum k =
     (let a = next_arc k;
          k = k\<lparr>next_arc := a + 1,
                semaphores := (semaphores k)(a := SemaphoreInner_new (of_int (max initial 0)))\<rparr>
      in create_handle (OSemaphore a) k)"

definition release_semaphore :: "handle \<Rightarrow> int \<Rightarrow> u64 \<Rightarrow> kernel \<Rightarrow> bool \<times> kernel" where
  "release_semaphore h release prev k = (let r = with_cloned h k in
     case r of
       Some (OSemaphore a) \<Rightarrow> SemaphoreInner_release a (of_int (max release 0)) prev k
     | _ \<Rightarrow> (False, drop_ref r k))"

section \<open>Waiting on handles\<close>

definition wait_for_single_object ::
  "nat \<Rightarrow> env \<Rightarrow> nat \<Rightarrow> u64 \<Rightarrow> handle \<Rightarrow> u32 \<Rightarrow> kernel \<Rightarrow> (u32 \<times> nat \<times> kernel) option" where
  "wait_for_single_object n env i me h ms k = (let r = with_cloned h k in
     case r of
       Some (OEvent a) \<Rightarrow> EventInner_wait n env i a ms k
     | Some (OMutex a) \<Rightarrow> MutexInner_acquire n env i me a ms k
     | Some (OSemaphore a) \<Rightarrow> SemaphoreInner_wait n env i a ms k
     | Some (OThread a) \<Rightarrow> Some (WAIT_OBJECT_0, i, k)
     | Some OProcess \<Rightarrow>
         Some (if h = 0xFFFFFFFFFFFFFFFF then WAIT_OBJECT_0 else WAIT_FAILED, i, k)
     | None \<Rightarrow> Some (if h = 0xFFFFFFFFFFFFFFFF then WAIT_OBJECT_0 else WAIT_FAILED, i, k)
     | Some _ \<Rightarrow> Some (WAIT_FAILED, i, drop_ref r k))"

text \<open>One pass over the handles: \<open>Inl\<close> a result that ends the call, \<open>Inr\<close> whether all were signaled.\<close>

fun poll_pass ::
  "nat \<Rightarrow> env \<Rightarrow> u64 \<Rightarrow> bool \<Rightarrow> nat \<Rightarrow> handle list \<Rightarrow> bool \<Rightarrow> nat \<Rightarrow> kernel \<Rightarrow> ((u32 + bool) \<times> nat \<times> kernel) option" where
  "poll_pass n env me wait_all idx [] all i k = Some (Inr all, i, k)"
| "poll_pass n env me wait_all idx (h # hs) all i k =
     (case wait_for_single_object n env i me h 0 k of
        None \<Rightarrow> None
      | Some (r, j, k') \<Rightarrow>
          if r = WAIT_OBJECT_0 then
            if \<not> wait_all then Some (Inl (of_nat idx + WAIT_OBJECT_0), j, k')
            else poll_pass n env me wait_all (idx + 1) hs all j k'
          else if r = WAIT_TIMEOUT then poll_pass n env me wait_all (idx + 1) hs False j k'
          else Some (Inl WAIT_FAILED, j, k'))"

fun poll_loop ::
  "nat \<Rightarrow> env \<Rightarrow> u64 \<Rightarrow> bool \<Rightarrow> handle list \<Rightarrow> u64 option \<Rightarrow> nat \<Rightarrow> kernel \<Rightarrow> (u32 \<times> nat \<times> kernel) option" where
  "poll_loop 0 env me wait_all hs dl i k = None"
| "poll_loop (Suc n) env me wait_all hs dl i k =
     (case poll_pass (Suc n) env me wait_all 0 hs True i k of
        None \<Rightarrow> None
      | Some (Inl r, j, k') \<Rightarrow> Some (r, j, k')
      | Some (Inr all, j, k') \<Rightarrow>
          if wait_all \<and> all then Some (WAIT_OBJECT_0, j, k')
          else
            (case dl of
               Some d \<Rightarrow>
                 (let k2 = env j k'
                  in if d \<le> clock k2 then Some (WAIT_TIMEOUT, j + 1, k2)
                     else poll_loop n env me wait_all hs dl (j + 2) (env (j + 1) k2))
             | None \<Rightarrow> poll_loop n env me wait_all hs dl (j + 1) (env j k')))"

text \<open>\<open>handles\<close> is \<open>None\<close> for a null pointer, else the \<open>count\<close> handles it points to.\<close>

definition wait_for_multiple_objects ::
  "nat \<Rightarrow> env \<Rightarrow> nat \<Rightarrow> u64 \<Rightarrow> handle list option \<Rightarrow> int \<Rightarrow> u32 \<Rightarrow> kernel \<Rightarrow> (u32 \<times> nat \<times> kernel) option" where
  "wait_for_multiple_objects n env i me handles wait_all ms k =
     (case handles of
        None \<Rightarrow> Some (WAIT_FAILED, i, k)
      | Some hs \<Rightarrow>
          if hs = [] then Some (WAIT_FAILED, i, k)
          else poll_loop n env me (wait_all \<noteq> 0) hs (deadline_ns ms k) i k)"

section \<open>Waiting on an address\<close>

definition addr_attempt :: "nat \<Rightarrow> u64 \<Rightarrow> u64 \<Rightarrow> attempt_fun" where
  "addr_attempt sz addr expected env i k =
     (let k = env i k in
      if read_le sz addr k \<noteq> expected then (Got, i + 1, k) else (NotYet, i + 1, k))"

text \<open>The polling variants read the expected value again in every round.\<close>

definition addr_poll_attempt :: "nat \<Rightarrow> u64 \<Rightarrow> u64 \<Rightarrow> attempt_fun" where
  "addr_poll_attempt sz addr compare env i k =
     (let k = env i k; cur = read_le sz addr k; k = env (i + 1) k; exp = read_le sz compare k in
      if cur \<noteq> exp then (Got, i + 2, k) else (NotYet, i + 2, k))"

definition wait_on_address ::
  "nat \<Rightarrow> env \<Rightarrow> nat \<Rightarrow> u64 \<Rightarrow> u64 \<Rightarrow> nat \<Rightarrow> u32 \<Rightarrow> kernel \<Rightarrow> (int \<times> nat \<times> kernel) option" where
  "wait_on_address n env i addr compare sz ms k =
     (let dl = deadline_ns ms k;
          result = map_option (\<lambda>(r, j, k). (if r = WAIT_OBJECT_0 then 1 else 0, j, k))
      in if addr = 0 \<or> compare = 0 then Some (0, i, k)
         else if sz = 4
         then result (wait_loop n (addr_attempt 4 addr (read_le 4 compare k)) env dl i k)
         else if sz = 8 \<or> sz = 1 \<or> sz = 2
         then result (wait_loop n (addr_poll_attempt sz addr compare) env dl i k)
         else Some (0, i, k))"

definition wake_by_address_single :: "u64 \<Rightarrow> kernel \<Rightarrow> kernel" where
  "wake_by_address_single addr k = (if addr = 0 then k else futex_wake (UserWord addr) 1 k)"

definition wake_by_address_all :: "u64 \<Rightarrow> kernel \<Rightarrow> kernel" where
  "wake_by_address_all addr k = (if addr = 0 then k else futex_wake (UserWord addr) i32_max k)"

end
