(* ===== verification/SyncSpec.thy ===== *)
theory SyncSpec
  imports Sync
begin

text \<open>
  What the waits of theory Sync promise. The locale \<open>waitable\<close> states the contract between the wait
  loop and an attempt: an attempt that does not take the object changes nothing of its own, one
  that takes it does so in a state in which the object was ready. The loop lemmas are proved once in
  it, and it is interpreted for events, mutexes, semaphores and addresses.
\<close>

section \<open>Interference\<close>

text \<open>The state after the other threads have acted at the points \<open>i\<close> to \<open>j - 1\<close>.\<close>

definition passes :: "env \<Rightarrow> nat \<Rightarrow> nat \<Rightarrow> kernel \<Rightarrow> kernel" where
  "passes env i j k = fold env [i..<j] k"

lemma passes_refl [simp]: "passes env i i k = k"
  by (simp add: passes_def)

lemma passes_step [simp]: "passes env i (Suc i) k = env i k"
  by (simp add: passes_def)

lemma passes_Suc: "i \<le> j \<Longrightarrow> passes env i (Suc j) k = env j (passes env i j k)"
  by (simp add: passes_def)

lemma passes_two [simp]: "passes env i (Suc (Suc i)) k = env (Suc i) (env i k)"
  by (simp add: passes_Suc)

lemma passes_trans:
  assumes "i \<le> j" and "j \<le> l"
  shows "passes env j l (passes env i j k) = passes env i l k"
proof -
  have "[i..<l] = [i..<j] @ [j..<l]" using assms upt_add_eq_append [of i j "l - j"] by simp
  then show ?thesis by (simp add: passes_def)
qed

definition idle :: env where
  "idle i k = k"

lemma idle_simp: "idle i k = k"
  by (simp add: idle_def)

lemma passes_idle [simp]: "passes idle i j k = k"
proof -
  have "fold idle xs k = k" for xs by (induction xs arbitrary: k) (simp_all add: idle_simp)
  then show ?thesis by (simp add: passes_def)
qed

section \<open>The contract of an attempt\<close>

locale waitable =
  fixes att :: attempt_fun
    and ready :: "kernel \<Rightarrow> bool"
    and taken :: "kernel \<Rightarrow> kernel"
  assumes att_got: "att env i k = (Got, j, k') \<Longrightarrow>
      i < j \<and> ready (passes env i j k) \<and> k' = taken (passes env i j k)"
    and att_lost: "att env i k = (Lost, j, k') \<Longrightarrow> i < j \<and> k' = passes env i j k"
    and att_notyet: "att env i k = (NotYet, j, k') \<Longrightarrow> i < j \<and> k' = passes env i j k"
begin

text \<open>A wait has one of two results. It succeeds by taking the object in a state where it was ready;
  it times out only after the deadline, and has then changed nothing.\<close>

lemma wait_loop_result:
  "wait_loop n att env dl i k = Some (r, j, k') \<Longrightarrow>
    i < j \<and>
    (r = WAIT_OBJECT_0 \<and> ready (passes env i j k) \<and> k' = taken (passes env i j k) \<or>
     r = WAIT_TIMEOUT \<and> k' = passes env i j k \<and> (\<exists>d. dl = Some d \<and> d \<le> clock k'))"
proof (induction n arbitrary: i k)
  case 0
  then show ?case by simp
next
  case (Suc n)
  obtain a i1 k1 where a: "att env i k = (a, i1, k1)" by (metis prod_cases3)
  show ?case
  proof (cases a)
    case Got
    with a Suc.prems att_got [of env i k] show ?thesis by auto
  next
    case Lost
    with a have l: "i < i1" "k1 = passes env i i1 k" using att_lost [of env i k] by auto
    from Lost a Suc.prems have "wait_loop n att env dl i1 k1 = Some (r, j, k')" by simp
    from Suc.IH [OF this] l show ?thesis by (auto simp: passes_trans)
  next
    case NotYet
    with a have l: "i < i1" "k1 = passes env i i1 k" using att_notyet [of env i k] by auto
    have e: "env i1 k1 = passes env i (Suc i1) k" "env (Suc i1) (env i1 k1) = passes env i (Suc (Suc i1)) k"
      using l by (simp_all add: passes_Suc)
    show ?thesis
    proof (cases dl)
      case None
      with NotYet a Suc.prems have "wait_loop n att env dl (Suc i1) (env i1 k1) = Some (r, j, k')"
        by simp
      from Suc.IH [OF this] l e show ?thesis by (auto simp: passes_trans)
    next
      case (Some d)
      show ?thesis
      proof (cases "d \<le> clock (env i1 k1)")
        case True
        with Some NotYet a Suc.prems have "r = WAIT_TIMEOUT" "j = Suc i1" "k' = env i1 k1"
          by (auto simp: Let_def)
        with l e True Some show ?thesis by auto
      next
        case False
        with Some NotYet a Suc.prems
        have "wait_loop n att env dl (Suc (Suc i1)) (env (Suc i1) (env i1 k1)) = Some (r, j, k')"
          by (simp add: Let_def)
        from Suc.IH [OF this] l e show ?thesis by (auto simp: passes_trans)
      qed
    qed
  qed
qed

text \<open>With a deadline, if time passes at every point and no race is lost, the loop ends: the fuel
  needed is the time left.\<close>

lemma wait_loop_returns:
  assumes mono: "\<And>i k. unat (clock k) < unat d \<Longrightarrow> unat (clock k) < unat (clock (env i k))"
    and past: "\<And>i k. d \<le> clock k \<Longrightarrow> d \<le> clock (env i k)"
    and nolost: "\<And>i k j k'. att env i k \<noteq> (Lost, j, k')"
  shows "unat d - unat (clock k) < n \<Longrightarrow> \<exists>x. wait_loop n att env (Some d) i k = Some x"
proof (induction n arbitrary: i k)
  case 0
  then show ?case by simp
next
  case (Suc n)
  obtain a i1 k1 where a: "att env i k = (a, i1, k1)" by (metis prod_cases3)
  show ?case
  proof (cases a)
    case NotYet
    with a have l: "i < i1" "k1 = passes env i i1 k" using att_notyet [of env i k] by auto
    let ?k2 = "env i1 k1" and ?k3 = "env (Suc i1) (env i1 k1)"
    have up: "min (unat d) (unat (clock k)) \<le> unat (clock (passes env i j k))" for j
    proof (induction j)
      case (Suc j)
      show ?case
      proof (cases "i \<le> j")
        case True
        let ?p = "passes env i j k"
        have "unat (clock ?p) < unat d \<Longrightarrow> unat (clock ?p) < unat (clock (env j ?p))" by (rule mono)
        moreover have "unat d \<le> unat (clock ?p) \<Longrightarrow> unat d \<le> unat (clock (env j ?p))"
          using past [of ?p j] by (simp add: word_le_nat_alt)
        ultimately show ?thesis
          using Suc True by (cases "unat (clock ?p) < unat d") (auto simp: passes_Suc)
      qed (simp add: passes_def)
    qed (simp add: passes_def)
    show ?thesis
    proof (cases "d \<le> clock ?k2")
      case True
      with NotYet a show ?thesis by (simp add: Let_def)
    next
      case False
      then have "unat (clock ?k2) < unat d" by (simp add: word_le_nat_alt)
      moreover from this have "unat (clock ?k2) < unat (clock ?k3)" by (rule mono)
      moreover have "min (unat d) (unat (clock k)) \<le> unat (clock ?k2)"
        using up [of "Suc i1"] l by (simp add: passes_Suc)
      ultimately have "unat d - unat (clock ?k3) < n" using Suc.prems by linarith
      from Suc.IH [OF this, of "Suc (Suc i1)"] NotYet a False show ?thesis
        by (simp add: Let_def)
    qed
  qed (use a nolost in auto)
qed

text \<open>A poll, a wait with timeout zero that nothing interferes with, ends in the first round.\<close>

lemma wait_loop_poll:
  assumes "\<And>i k j k'. att idle i k \<noteq> (Lost, j, k')"
    and notyet: "\<And>i k j k'. att idle i k = (NotYet, j, k') \<Longrightarrow> \<not> ready k"
  shows "\<exists>j. wait_loop (Suc n) att idle (Some (clock k)) i k =
    Some (if ready k then (WAIT_OBJECT_0, j, taken k) else (WAIT_TIMEOUT, j, k))"
proof -
  obtain a i1 k1 where a: "att idle i k = (a, i1, k1)" by (metis prod_cases3)
  with assms(1) att_got [of idle i k] att_notyet [of idle i k] notyet [of i k] show ?thesis
    by (cases a) (auto simp: idle_simp)
qed

end

section \<open>Interpretations\<close>

definition event_ready :: "arc \<Rightarrow> kernel \<Rightarrow> bool" where
  "event_ready a k \<longleftrightarrow> ev_state (events k a) = 1"

definition event_taken :: "arc \<Rightarrow> bool \<Rightarrow> kernel \<Rightarrow> kernel" where
  "event_taken a manual k = (if manual then k else store_event a 0 k)"

interpretation event: waitable "event_attempt a manual" "event_ready a" "event_taken a manual" for a manual
  by unfold_locales
     (auto simp: event_attempt_def event_ready_def event_taken_def Let_def split: if_splits)

definition mutex_ready :: "arc \<Rightarrow> kernel \<Rightarrow> bool" where
  "mutex_ready a k \<longleftrightarrow> mx_lock (mutexes k a) = 0"

definition mutex_taken :: "u64 \<Rightarrow> arc \<Rightarrow> kernel \<Rightarrow> kernel" where
  "mutex_taken me a k = upd_mutex a (\<lambda>m. m\<lparr>mx_lock := 1, mx_owner := me, mx_recursion := 1\<rparr>) k"

interpretation mutex: waitable "mutex_attempt me a" "mutex_ready a" "mutex_taken me a" for me a
  by unfold_locales
     (auto simp: mutex_attempt_def mutex_ready_def mutex_taken_def upd_mutex_def Let_def split: if_splits)

definition sem_ready :: "arc \<Rightarrow> kernel \<Rightarrow> bool" where
  "sem_ready a k \<longleftrightarrow> 0 < sm_count (semaphores k a)"

definition sem_taken :: "arc \<Rightarrow> kernel \<Rightarrow> kernel" where
  "sem_taken a k = upd_sem a (sm_count (semaphores k a) - 1) k"

interpretation sem: waitable "sem_attempt a" "sem_ready a" "sem_taken a" for a
  by unfold_locales
     (auto simp: sem_attempt_def sem_ready_def sem_taken_def Let_def split: if_splits)

interpretation addr: waitable "addr_attempt n p v" "\<lambda>k. read_le n p k \<noteq> v" "\<lambda>k. k" for n p v
  by unfold_locales (auto simp: addr_attempt_def Let_def split: if_splits)

section \<open>What a wait returns\<close>

text \<open>A process with no objects, used by the witnesses.\<close>

definition kernel_new :: kernel where
  "kernel_new = \<lparr>table = HandleTable_new, events = (\<lambda>_. EventInner_new False False),
     mutexes = (\<lambda>_. MutexInner_new), semaphores = (\<lambda>_. SemaphoreInner_new 0), thread_tid = (\<lambda>_. 0),
     next_arc = 0, clock = 0, guest = (\<lambda>_. 0), closed = [], wakes = []\<rparr>"

lemmas kernel_eval = kernel_new_def EventInner_new_def MutexInner_new_def SemaphoreInner_new_def
  store_event_def upd_mutex_def upd_sem_def deadline_ns_def idle_simp Let_def

lemma deadline_Some:
  "deadline_ns ms k = Some d \<longleftrightarrow> ms \<noteq> INFINITE \<and> d = clock k + ucast ms * 1000000"
  by (auto simp: deadline_ns_def)

text \<open>C29. Waiting for an event, whatever the other threads do meanwhile, has one of two outcomes.
  The wait succeeds in a state in which the event is signaled; an auto-reset event
  is then reset and nothing else is touched, a manual-reset event stays signaled. Or
  it times out: the timeout is not infinite, the deadline has passed, and the waiting
  thread has changed nothing.\<close>

theorem event_wait_result:
  assumes "EventInner_wait n env i a ms k = Some (r, j, k')"
  shows "r = WAIT_OBJECT_0 \<and> ev_state (events (passes env i j k) a) = 1 \<and>
           k' = (if manual_reset (events k a) then passes env i j k else store_event a 0 (passes env i j k)) \<or>
         r = WAIT_TIMEOUT \<and> k' = passes env i j k \<and> ms \<noteq> INFINITE \<and>
           clock k + ucast ms * 1000000 \<le> clock k'"
  using event.wait_loop_result [OF assms [unfolded EventInner_wait_def]]
  by (auto simp: event_ready_def event_taken_def deadline_Some)

lemma event_wait_example:
  "EventInner_wait 1 idle 0 3 0 (store_event 3 1 kernel_new) =
     Some (WAIT_OBJECT_0, 2, store_event 3 0 (store_event 3 1 kernel_new))"
  by (simp add: EventInner_wait_def event_attempt_def kernel_eval)

theorem event_wait_result_witness:
  "(0 :: u32) = WAIT_OBJECT_0 \<and> ev_state (events (passes idle 0 2 (store_event 3 1 kernel_new)) 3) = 1 \<and>
     store_event 3 0 (store_event 3 1 kernel_new) =
       (if manual_reset (events (store_event 3 1 kernel_new) 3) then passes idle 0 2 (store_event 3 1 kernel_new)
        else store_event 3 0 (passes idle 0 2 (store_event 3 1 kernel_new)))"
  using event_wait_result [OF event_wait_example] by simp

text \<open>C30. Acquiring a mutex succeeds at once for its owner, with one more level of recursion;
  another thread acquires it only in a state in which the lock word is free and becomes
  its owner at level one, or times out after the deadline and has changed nothing.\<close>

theorem mutex_acquire_result:
  assumes "MutexInner_acquire n env i me a ms k = Some (r, j, k')"
  shows "mx_owner (mutexes k a) = me \<and> r = WAIT_OBJECT_0 \<and>
           k' = upd_mutex a (\<lambda>m. m\<lparr>mx_recursion := mx_recursion m + 1\<rparr>) k \<or>
         mx_owner (mutexes k a) \<noteq> me \<and>
           (r = WAIT_OBJECT_0 \<and> mx_lock (mutexes (passes env i j k) a) = 0 \<and>
              mutexes k' a = \<lparr>mx_lock = 1, mx_owner = me, mx_recursion = 1\<rparr> \<and>
              k' = (passes env i j k)\<lparr>mutexes := (mutexes (passes env i j k))(a := mutexes k' a)\<rparr> \<or>
            r = WAIT_TIMEOUT \<and> k' = passes env i j k \<and> ms \<noteq> INFINITE \<and>
              clock k + ucast ms * 1000000 \<le> clock k')"
proof (cases "mx_owner (mutexes k a) = me")
  case True
  with assms show ?thesis by (simp add: MutexInner_acquire_def)
next
  case False
  with assms have "wait_loop n (mutex_attempt me a) env (deadline_ns ms k) i k = Some (r, j, k')"
    by (simp add: MutexInner_acquire_def)
  from mutex.wait_loop_result [OF this] False show ?thesis
    by (auto simp: mutex_ready_def mutex_taken_def upd_mutex_def deadline_Some)
qed

lemma mutex_acquire_example:
  "MutexInner_acquire 1 idle 0 42 3 0 kernel_new =
     Some (WAIT_OBJECT_0, 1, upd_mutex 3 (\<lambda>m. m\<lparr>mx_lock := 1, mx_owner := 42, mx_recursion := 1\<rparr>) kernel_new)"
  by (simp add: MutexInner_acquire_def mutex_attempt_def kernel_eval)

theorem mutex_acquire_result_witness:
  "mutexes (upd_mutex 3 (\<lambda>m. m\<lparr>mx_lock := 1, mx_owner := 42, mx_recursion := 1\<rparr>) kernel_new) 3 =
     \<lparr>mx_lock = 1, mx_owner = 42, mx_recursion = 1\<rparr>"
  using mutex_acquire_result [OF mutex_acquire_example] by (simp add: kernel_eval)

text \<open>C31. Waiting for a semaphore takes exactly one unit, from a state in which at least one is
  available, so the count never goes below zero; or it times out and takes nothing.\<close>

theorem semaphore_wait_result:
  assumes "SemaphoreInner_wait n env i a ms k = Some (r, j, k')"
  shows "r = WAIT_OBJECT_0 \<and> 0 < sm_count (semaphores (passes env i j k) a) \<and>
           unat (sm_count (semaphores k' a)) + 1 = unat (sm_count (semaphores (passes env i j k) a)) \<and>
           k' = (passes env i j k)\<lparr>semaphores := (semaphores (passes env i j k))(a := semaphores k' a)\<rparr> \<or>
         r = WAIT_TIMEOUT \<and> k' = passes env i j k \<and> ms \<noteq> INFINITE \<and>
           clock k + ucast ms * 1000000 \<le> clock k'"
proof -
  have dec: "unat (c - 1) + 1 = unat c" if "0 < c" for c :: u32
    using that by (simp add: unat_minus_one word_gt_0 unat_gt_0 Suc_pred)
  show ?thesis
    using sem.wait_loop_result [OF assms [unfolded SemaphoreInner_wait_def]] dec
    by (auto simp: sem_ready_def sem_taken_def upd_sem_def deadline_Some)
qed

lemma semaphore_wait_example:
  "SemaphoreInner_wait 1 idle 0 3 0 (upd_sem 3 5 kernel_new) = Some (WAIT_OBJECT_0, 2, upd_sem 3 4 (upd_sem 3 5 kernel_new))"
  by (simp add: SemaphoreInner_wait_def sem_attempt_def kernel_eval)

theorem semaphore_wait_result_witness:
  "unat (sm_count (semaphores (upd_sem 3 4 (upd_sem 3 5 kernel_new)) 3)) + 1 =
     unat (sm_count (semaphores (passes idle 0 2 (upd_sem 3 5 kernel_new)) 3))"
  using semaphore_wait_result [OF semaphore_wait_example] by simp


text \<open>Time passes up to a horizon of three milliseconds, and nothing else happens.\<close>

definition ticking :: env where
  "ticking i k = (if clock k < 3000000 then k\<lparr>clock := clock k + 1\<rparr> else k)"


section \<open>Polling one handle\<close>

text \<open>Whether a handle can be waited for, whether its object is signaled for the calling thread, and
  what a successful wait does to it.\<close>

definition can_wait :: "handle \<Rightarrow> kernel \<Rightarrow> bool" where
  "can_wait h k = (case objects (table k) h of
     None \<Rightarrow> h = 0xFFFFFFFFFFFFFFFF
   | Some ob \<Rightarrow> (case ob of OFile _ \<Rightarrow> False | OSection _ _ \<Rightarrow> False | OProcess \<Rightarrow> h = 0xFFFFFFFFFFFFFFFF | _ \<Rightarrow> True))"

definition signaled :: "u64 \<Rightarrow> handle \<Rightarrow> kernel \<Rightarrow> bool" where
  "signaled me h k = (case objects (table k) h of
     Some (OEvent a) \<Rightarrow> ev_state (events k a) = 1
   | Some (OMutex a) \<Rightarrow> mx_owner (mutexes k a) = me \<or> mx_lock (mutexes k a) = 0
   | Some (OSemaphore a) \<Rightarrow> 0 < sm_count (semaphores k a)
   | _ \<Rightarrow> True)"

definition acquired :: "u64 \<Rightarrow> handle \<Rightarrow> kernel \<Rightarrow> kernel" where
  "acquired me h k = (case objects (table k) h of
     Some (OEvent a) \<Rightarrow> event_taken a (manual_reset (events k a)) k
   | Some (OMutex a) \<Rightarrow>
       if mx_owner (mutexes k a) = me then upd_mutex a (\<lambda>m. m\<lparr>mx_recursion := mx_recursion m + 1\<rparr>) k
       else mutex_taken me a k
   | Some (OSemaphore a) \<Rightarrow> sem_taken a k
   | _ \<Rightarrow> k)"

lemma poll_object:
  assumes "can_wait h k"
  shows "\<exists>j. wait_for_single_object (Suc n) idle i me h 0 k =
    Some (if signaled me h k then (WAIT_OBJECT_0, j, acquired me h k) else (WAIT_TIMEOUT, j, k))"
proof -
  have d: "deadline_ns 0 k = Some (clock k)" by (simp add: deadline_ns_def)
  have ev: "\<exists>j. wait_loop (Suc n) (event_attempt a m) idle (Some (clock k)) i k =
      Some (if event_ready a k then (WAIT_OBJECT_0, j, event_taken a m k) else (WAIT_TIMEOUT, j, k))" for a m
    by (rule event.wait_loop_poll) (auto simp: idle_simp event_attempt_def event_ready_def Let_def split: if_splits)
  have mx: "\<exists>j. wait_loop (Suc n) (mutex_attempt me a) idle (Some (clock k)) i k =
      Some (if mutex_ready a k then (WAIT_OBJECT_0, j, mutex_taken me a k) else (WAIT_TIMEOUT, j, k))" for a
    by (rule mutex.wait_loop_poll) (auto simp: idle_simp mutex_attempt_def mutex_ready_def Let_def split: if_splits)
  have sm: "\<exists>j. wait_loop (Suc n) (sem_attempt a) idle (Some (clock k)) i k =
      Some (if sem_ready a k then (WAIT_OBJECT_0, j, sem_taken a k) else (WAIT_TIMEOUT, j, k))" for a
    by (rule sem.wait_loop_poll) (auto simp: idle_simp sem_attempt_def sem_ready_def Let_def split: if_splits)
  note defs = can_wait_def signaled_def acquired_def wait_for_single_object_def with_cloned_def
    with_object_def EventInner_wait_def MutexInner_acquire_def SemaphoreInner_wait_def d Let_def
    event_ready_def mutex_ready_def sem_ready_def
  show ?thesis
  proof (cases "objects (table k) h")
    case None
    with assms show ?thesis by (simp add: defs)
  next
    case (Some ob)
    show ?thesis
    proof (cases ob)
      case (OEvent a)
      with Some ev [of a "manual_reset (events k a)"] show ?thesis
        by (simp add: defs del: wait_loop.simps split del: if_split cong del: if_weak_cong)
    next
      case (OMutex a)
      with Some mx [of a] show ?thesis
        by (cases "mx_owner (mutexes k a) = me")
           (simp_all add: defs del: wait_loop.simps split del: if_split cong del: if_weak_cong)
    next
      case (OSemaphore a)
      with Some sm [of a] show ?thesis
        by (simp add: defs del: wait_loop.simps split del: if_split cong del: if_weak_cong)
    qed (use Some assms in \<open>simp_all add: defs\<close>)
  qed
qed

lemma acquired_table [simp]: "table (acquired me h k) = table k"
  by (auto simp: acquired_def event_taken_def store_event_def mutex_taken_def sem_taken_def upd_mutex_def
      upd_sem_def split: option.split object.split)

lemma can_wait_acquired [simp]: "can_wait h (acquired me h' k) = can_wait h k"
  by (simp add: can_wait_def)

text \<open>Waiting for any: the pass stops at the first signaled handle.\<close>

lemma poll_pass_any:
  assumes "\<forall>h \<in> set hs. can_wait h k"
  shows "\<exists>j. poll_pass (Suc n) idle me False idx hs all i k =
    (case find (\<lambda>m. signaled me (hs ! m) k) [0..<length hs] of
       Some m \<Rightarrow> Some (Inl (of_nat (idx + m)), j, acquired me (hs ! m) k)
     | None \<Rightarrow> Some (Inr (all \<and> hs = []), j, k))"
  using assms
proof (induction hs arbitrary: idx all i)
  case Nil
  then show ?case by simp
next
  case (Cons h hs)
  have upt: "[0..<length (h # hs)] = 0 # map Suc [0..<length hs]"
    by (simp only: length_Cons upt_conv_Cons zero_less_Suc map_Suc_upt)
  have shift: "find (\<lambda>m. signaled me ((h # hs) ! m) k) (map Suc ms) =
      map_option Suc (find (\<lambda>m. signaled me (hs ! m) k) ms)" for ms
    by (induction ms) simp_all
  from Cons.prems obtain j where j: "wait_for_single_object (Suc n) idle i me h 0 k =
      Some (if signaled me h k then (WAIT_OBJECT_0, j, acquired me h k) else (WAIT_TIMEOUT, j, k))"
    using poll_object [of h k n i me] by auto
  show ?case
  proof (cases "signaled me h k")
    case True
    with j show ?thesis unfolding upt by simp
  next
    case False
    obtain j' where "poll_pass (Suc n) idle me False (idx + 1) hs False j k =
      (case find (\<lambda>m. signaled me (hs ! m) k) [0..<length hs] of
         Some m \<Rightarrow> Some (Inl (of_nat (idx + 1 + m)), j', acquired me (hs ! m) k)
       | None \<Rightarrow> Some (Inr (False \<and> hs = []), j', k))"
      using Cons.IH [of "idx + 1" False j] Cons.prems by auto
    with j False show ?thesis unfolding upt using shift [of "[0..<length hs]"]
      by (auto split: option.splits)
  qed
qed

text \<open>\<open>WaitForMultipleObjects\<close> for any of several objects, undisturbed: it returns the smallest
  index whose object is signaled and takes that object only; if none is signaled and the
  timeout is zero it times out and changes nothing.\<close>

theorem wait_any_first:
  assumes "hs \<noteq> []" and "\<forall>h \<in> set hs. can_wait h k"
  shows "case find (\<lambda>m. signaled me (hs ! m) k) [0..<length hs] of
     Some m \<Rightarrow> \<exists>j. wait_for_multiple_objects (Suc n) idle i me (Some hs) 0 ms k =
                 Some (WAIT_OBJECT_0 + of_nat m, j, acquired me (hs ! m) k)
   | None \<Rightarrow> \<exists>j. wait_for_multiple_objects (Suc n) idle i me (Some hs) 0 0 k = Some (WAIT_TIMEOUT, j, k)"
proof -
  from poll_pass_any [OF assms(2), of n me 0 True i] obtain j where
    "poll_pass (Suc n) idle me False 0 hs True i k =
      (case find (\<lambda>m. signaled me (hs ! m) k) [0..<length hs] of
         Some m \<Rightarrow> Some (Inl (of_nat (0 + m)), j, acquired me (hs ! m) k)
       | None \<Rightarrow> Some (Inr (True \<and> hs = []), j, k))"
    by blast
  with assms(1) show ?thesis
    by (auto simp: wait_for_multiple_objects_def deadline_ns_def idle_simp Let_def split: option.splits)
qed

text \<open>Two events under the handles 0x10000 and 0x10001: the first signaled, the second not.\<close>

definition two_events :: kernel where
  "two_events = snd (create_event_w 0 0 (snd (create_event_w 0 1 kernel_new)))"

lemma two_events_objects:
  "objects (table two_events) = [0x10000 \<mapsto> OEvent 0, 0x10001 \<mapsto> OEvent 1]"
  by (simp add: two_events_def create_event_w_def create_handle_def table_defs HandleTable_new_def kernel_new_def)

lemma two_events_state:
  "events two_events 0 = \<lparr>ev_state = 1, manual_reset = False\<rparr>"
  "events two_events (Suc 0) = \<lparr>ev_state = 0, manual_reset = False\<rparr>"
  by (simp_all add: two_events_def create_event_w_def create_handle_def table_defs HandleTable_new_def
      kernel_eval)

theorem wait_any_first_witness:
  "\<exists>j. wait_for_multiple_objects (Suc 0) idle 0 42 (Some [0x10001, 0x10000]) 0 100 two_events =
     Some (WAIT_OBJECT_0 + of_nat 1, j, acquired 42 0x10000 two_events)"
  using wait_any_first [where hs = "[0x10001, 0x10000]" and k = two_events and me = 42 and n = 0 and i = 0 and ms = 100]
  by (simp add: can_wait_def signaled_def two_events_objects two_events_state upt_rec)

text \<open>Waiting for all of several objects is not atomic: each poll takes the objects that are
  signaled, before the others are known to be. With an auto-reset event that is signaled
  and a second one that is not, the call times out, and the signal of the first event is gone.\<close>

theorem wait_all_loses_signal:
  assumes "objects (table k) h1 = Some (OEvent a)" and "objects (table k) h2 = Some (OEvent b)" and "a \<noteq> b"
    and "events k a = \<lparr>ev_state = 1, manual_reset = False\<rparr>" and "ev_state (events k b) = 0"
  shows "\<exists>j k'. wait_for_multiple_objects (Suc n) idle i me (Some [h1, h2]) 1 0 k = Some (WAIT_TIMEOUT, j, k') \<and>
                ev_state (events k' a) = 0"
proof -
  let ?k1 = "store_event a 0 k"
  have "can_wait h1 k" "can_wait h2 ?k1" "signaled me h1 k" "\<not> signaled me h2 ?k1" "acquired me h1 k = ?k1"
    using assms by (auto simp: can_wait_def signaled_def acquired_def event_taken_def store_event_def)
  then obtain j1 j2 where
    "wait_for_single_object (Suc n) idle i me h1 0 k = Some (WAIT_OBJECT_0, j1, ?k1)"
    "wait_for_single_object (Suc n) idle j1 me h2 0 ?k1 = Some (WAIT_TIMEOUT, j2, ?k1)"
    using poll_object [of h1 k n i me] poll_object [of h2 ?k1 n _ me] by fastforce
  then show ?thesis
    by (simp add: wait_for_multiple_objects_def deadline_ns_def idle_simp Let_def) (simp add: store_event_def)
qed

theorem wait_all_loses_signal_witness:
  "\<exists>j k'. wait_for_multiple_objects (Suc 0) idle 0 42 (Some [0x10000, 0x10001]) 1 0 two_events =
     Some (WAIT_TIMEOUT, j, k') \<and> ev_state (events k' 0) = 0"
  by (rule wait_all_loses_signal [where b = 1]) (simp_all add: two_events_objects two_events_state)

section \<open>Handles of the wrong kind\<close>

text \<open>A synchronisation call on a handle that names a file closes the file: the call fails, the
  handle stays in the table and still resolves to the file object, but the copy made by
  \<open>clone_ref\<close> is dropped at the end of the call and that closes the descriptor the two share.\<close>

theorem sync_call_closes_file:
  assumes "objects (table k) h = Some (OFile f)" and "0 \<le> f"
  shows "set_event h k = (False, k\<lparr>closed := closed k @ [f]\<rparr>) \<and>
     reset_event h k = (False, k\<lparr>closed := closed k @ [f]\<rparr>) \<and>
     pulse_event h k = (False, k\<lparr>closed := closed k @ [f]\<rparr>) \<and>
     release_mutex me h k = (False, k\<lparr>closed := closed k @ [f]\<rparr>) \<and>
     release_semaphore h c p k = (False, k\<lparr>closed := closed k @ [f]\<rparr>) \<and>
     wait_for_single_object n env i me h ms k = Some (WAIT_FAILED, i, k\<lparr>closed := closed k @ [f]\<rparr>)"
  using assms
  by (simp_all add: set_event_def reset_event_def pulse_event_def release_mutex_def release_semaphore_def
      wait_for_single_object_def with_cloned_def with_object_def drop_ref_def drop_object_def)

theorem sync_call_closes_file_witness:
  "closed (snd (set_event 0x10000 (snd (create_handle (OFile 7) kernel_new)))) = [7]"
proof -
  have "objects (table (snd (create_handle (OFile 7) kernel_new))) 0x10000 = Some (OFile 7)"
    by (simp add: create_handle_def table_defs HandleTable_new_def kernel_new_def)
  from sync_call_closes_file [OF this, of 0 0 0 0 idle 0 0] show ?thesis
    by (simp add: create_handle_def table_defs HandleTable_new_def kernel_new_def)
qed

end
