(* ===== verification/RecursiveLock.thy ===== *)
theory RecursiveLock
  imports Prelude
begin

text \<open>
  The recursive lock of \<open>CRITICAL_SECTION\<close> and of \<open>Mutex\<close>, \<^verbatim>\<open>crates/ntapi/src/sync.rs\<close>: both have the
  same three atomic words and the same code, but a mutex can give up at a deadline
  (\<open>timed\<close>). First the calls run alone (\<open>enter\<close>, \<open>leave\<close> and the entry points over the guest's
  structures); then any number of threads, one atomic access at a time, as the step relation
  \<open>lock_step\<close>, with the futex queue as the set of sleeping threads. The invariants are proved by rule
  induction over the reachable states.
\<close>

section \<open>The lock alone\<close>

record cs_inner =
  cs_lock :: u32
  cs_owner :: u64
  cs_recursion :: u32

definition CriticalSectionInner_new :: cs_inner where
  "CriticalSectionInner_new = \<lparr>cs_lock = 0, cs_owner = 0, cs_recursion = 0\<rparr>"

text \<open>\<open>None\<close>: the caller blocks until another thread leaves.\<close>

definition enter :: "u64 \<Rightarrow> cs_inner \<Rightarrow> cs_inner option" where
  "enter me c =
     (if cs_owner c = me then Some (c\<lparr>cs_recursion := cs_recursion c + 1\<rparr>)
      else if cs_lock c = 0 then Some (c\<lparr>cs_lock := 1, cs_owner := me, cs_recursion := 1\<rparr>)
      else None)"

definition leave :: "u64 \<Rightarrow> cs_inner \<Rightarrow> cs_inner" where
  "leave me c =
     (if cs_owner c \<noteq> me then c
      else
        (let r = cs_recursion c - 1; c = c\<lparr>cs_recursion := r\<rparr>
         in if r = 0 then c\<lparr>cs_owner := 0, cs_lock := 0\<rparr> else c))"

section \<open>The guest's structures\<close>

text \<open>The first eight bytes of each \<open>CRITICAL_SECTION\<close> of the guest, and the boxes on the heap.\<close>

record cs_heap =
  cs_slot :: "u64 \<Rightarrow> u64"
  cs_box :: "u64 \<rightharpoonup> cs_inner"

text \<open>\<open>raw\<close> is the address the allocator returns.\<close>

definition initialize_critical_section :: "u64 \<Rightarrow> u64 \<Rightarrow> cs_heap \<Rightarrow> cs_heap" where
  "initialize_critical_section raw cs hp =
     (if cs = 0 then hp
      else hp\<lparr>cs_box := (cs_box hp)(raw \<mapsto> CriticalSectionInner_new), cs_slot := (cs_slot hp)(cs := raw)\<rparr>)"

definition cs_inner_ptr :: "u64 \<Rightarrow> cs_heap \<Rightarrow> u64 option" where
  "cs_inner_ptr cs hp =
     (if cs = 0 then None else let raw = cs_slot hp cs in if raw = 0 then None else Some raw)"

text \<open>The outer \<open>None\<close> is an access to a box that was freed, the inner one that the caller blocks.\<close>

definition enter_critical_section :: "u64 \<Rightarrow> u64 \<Rightarrow> cs_heap \<Rightarrow> cs_heap option option" where
  "enter_critical_section me cs hp =
     (case cs_inner_ptr cs hp of
        None \<Rightarrow> Some (Some hp)
      | Some raw \<Rightarrow>
          (case cs_box hp raw of
             None \<Rightarrow> None
           | Some c \<Rightarrow>
               Some (map_option (\<lambda>c'. hp\<lparr>cs_box := (cs_box hp)(raw \<mapsto> c')\<rparr>) (enter me c))))"

definition leave_critical_section :: "u64 \<Rightarrow> u64 \<Rightarrow> cs_heap \<Rightarrow> cs_heap option" where
  "leave_critical_section me cs hp =
     (case cs_inner_ptr cs hp of
        None \<Rightarrow> Some hp
      | Some raw \<Rightarrow>
          (case cs_box hp raw of
             None \<Rightarrow> None
           | Some c \<Rightarrow> Some (hp\<lparr>cs_box := (cs_box hp)(raw \<mapsto> leave me c)\<rparr>)))"

definition delete_critical_section :: "u64 \<Rightarrow> cs_heap \<Rightarrow> cs_heap option" where
  "delete_critical_section cs hp =
     (if cs = 0 then Some hp
      else
        (let raw = cs_slot hp cs in
         if raw = 0 then Some hp
         else if cs_box hp raw = None then None
         else Some (hp\<lparr>cs_box := (cs_box hp)(raw := None), cs_slot := (cs_slot hp)(cs := 0)\<rparr>)))"

section \<open>Many threads\<close>

text \<open>Where a thread stands: between two calls, or before the atomic access named.\<close>

datatype pc =
    Idle
  | EnterLoad | EnterAdd | EnterCas | EnterOwner | EnterRec | EnterWait | Asleep
  | LeaveLoad | LeaveSub | LeaveOwner | LeaveUnlock | LeaveWake

text \<open>\<open>depth\<close> and \<open>holder\<close> are ghosts: how often a thread has entered and not left, and which thread
  won the last exchange of the lock word and has not stored zero since.\<close>

record lock_sys =
  inner :: cs_inner
  at :: "u64 \<Rightarrow> pc"
  depth :: "u64 \<Rightarrow> nat"
  holder :: "u64 option"

definition goto :: "u64 \<Rightarrow> pc \<Rightarrow> lock_sys \<Rightarrow> lock_sys" where
  "goto t p s = s\<lparr>at := (at s)(t := p)\<rparr>"

definition set_inner :: "(cs_inner \<Rightarrow> cs_inner) \<Rightarrow> lock_sys \<Rightarrow> lock_sys" where
  "set_inner f s = s\<lparr>inner := f (inner s)\<rparr>"

definition set_depth :: "u64 \<Rightarrow> nat \<Rightarrow> lock_sys \<Rightarrow> lock_sys" where
  "set_depth t n s = s\<lparr>depth := (depth s)(t := n)\<rparr>"

text \<open>A thread id is not zero. Nesting stays below the range of the recursion counter. A sleeping thread is
  woken by a wake, by its timeout, or spuriously.\<close>

inductive lock_step :: "bool \<Rightarrow> lock_sys \<Rightarrow> lock_sys \<Rightarrow> bool" for timed :: bool where
  call_enter: "at s t = Idle \<Longrightarrow> t \<noteq> 0 \<Longrightarrow> Suc (depth s t) < 2 ^ 32 \<Longrightarrow> lock_step timed s (goto t EnterLoad s)"
| call_leave: "at s t = Idle \<Longrightarrow> t \<noteq> 0 \<Longrightarrow> lock_step timed s (goto t LeaveLoad s)"
| enter_own: "at s t = EnterLoad \<Longrightarrow> cs_owner (inner s) = t \<Longrightarrow> lock_step timed s (goto t EnterAdd s)"
| enter_other: "at s t = EnterLoad \<Longrightarrow> cs_owner (inner s) \<noteq> t \<Longrightarrow> lock_step timed s (goto t EnterCas s)"
| enter_add: "at s t = EnterAdd \<Longrightarrow>
    lock_step timed s (goto t Idle (set_depth t (Suc (depth s t))
      (set_inner (\<lambda>c. c\<lparr>cs_recursion := cs_recursion c + 1\<rparr>) s)))"
| cas_ok: "at s t = EnterCas \<Longrightarrow> cs_lock (inner s) = 0 \<Longrightarrow>
    lock_step timed s (goto t EnterOwner (set_inner (\<lambda>c. c\<lparr>cs_lock := 1\<rparr>) (s\<lparr>holder := Some t\<rparr>)))"
| cas_fail: "at s t = EnterCas \<Longrightarrow> cs_lock (inner s) \<noteq> 0 \<Longrightarrow> lock_step timed s (goto t EnterWait s)"
| store_owner: "at s t = EnterOwner \<Longrightarrow>
    lock_step timed s (goto t EnterRec (set_inner (\<lambda>c. c\<lparr>cs_owner := t\<rparr>) s))"
| store_rec: "at s t = EnterRec \<Longrightarrow>
    lock_step timed s (goto t Idle (set_depth t 1 (set_inner (\<lambda>c. c\<lparr>cs_recursion := 1\<rparr>) s)))"
| give_up: "timed \<Longrightarrow> at s t = EnterWait \<Longrightarrow> lock_step timed s (goto t Idle s)"
| wait_sleep: "at s t = EnterWait \<Longrightarrow> cs_lock (inner s) = 1 \<Longrightarrow> lock_step timed s (goto t Asleep s)"
| wait_skip: "at s t = EnterWait \<Longrightarrow> cs_lock (inner s) \<noteq> 1 \<Longrightarrow> lock_step timed s (goto t EnterCas s)"
| awake: "at s t = Asleep \<Longrightarrow> lock_step timed s (goto t EnterCas s)"
| leave_other: "at s t = LeaveLoad \<Longrightarrow> cs_owner (inner s) \<noteq> t \<Longrightarrow> lock_step timed s (goto t Idle s)"
| leave_own: "at s t = LeaveLoad \<Longrightarrow> cs_owner (inner s) = t \<Longrightarrow> lock_step timed s (goto t LeaveSub s)"
| leave_sub: "at s t = LeaveSub \<Longrightarrow>
    lock_step timed s (goto t (if cs_recursion (inner s) - 1 = 0 then LeaveOwner else Idle)
      (set_depth t (depth s t - 1) (set_inner (\<lambda>c. c\<lparr>cs_recursion := cs_recursion c - 1\<rparr>) s)))"
| clear_owner: "at s t = LeaveOwner \<Longrightarrow>
    lock_step timed s (goto t LeaveUnlock (set_inner (\<lambda>c. c\<lparr>cs_owner := 0\<rparr>) s))"
| unlock: "at s t = LeaveUnlock \<Longrightarrow>
    lock_step timed s (goto t LeaveWake (set_inner (\<lambda>c. c\<lparr>cs_lock := 0\<rparr>) (s\<lparr>holder := None\<rparr>)))"
| wake_one: "at s t = LeaveWake \<Longrightarrow> at s u = Asleep \<Longrightarrow> lock_step timed s (goto t Idle (goto u EnterCas s))"
| wake_none: "at s t = LeaveWake \<Longrightarrow> (\<forall>u. at s u \<noteq> Asleep) \<Longrightarrow> lock_step timed s (goto t Idle s)"

definition lock_start :: lock_sys where
  "lock_start = \<lparr>inner = CriticalSectionInner_new, at = (\<lambda>_. Idle), depth = (\<lambda>_. 0), holder = None\<rparr>"

inductive lock_reach :: "bool \<Rightarrow> lock_sys \<Rightarrow> bool" for timed :: bool where
  start: "lock_reach timed lock_start"
| step: "lock_reach timed s \<Longrightarrow> lock_step timed s s' \<Longrightarrow> lock_reach timed s'"

section \<open>The invariant\<close>

definition inside :: "u64 \<Rightarrow> lock_sys \<Rightarrow> bool" where
  "inside t s \<longleftrightarrow> cs_owner (inner s) = t \<and> 0 < depth s t \<and> depth s t < 2 ^ 32 \<and>
     cs_recursion (inner s) = of_nat (depth s t)"

definition thread_ok :: "lock_sys \<Rightarrow> u64 \<Rightarrow> bool" where
  "thread_ok s t = (case at s t of
     Idle \<Rightarrow> if holder s = Some t then inside t s else depth s t = 0
   | LeaveLoad \<Rightarrow> if holder s = Some t then inside t s else depth s t = 0
   | EnterLoad \<Rightarrow> if holder s = Some t then inside t s \<and> Suc (depth s t) < 2 ^ 32 else depth s t = 0
   | EnterAdd \<Rightarrow> holder s = Some t \<and> inside t s \<and> Suc (depth s t) < 2 ^ 32
   | EnterCas \<Rightarrow> holder s \<noteq> Some t \<and> depth s t = 0
   | EnterWait \<Rightarrow> holder s \<noteq> Some t \<and> depth s t = 0
   | Asleep \<Rightarrow> holder s \<noteq> Some t \<and> depth s t = 0
   | LeaveWake \<Rightarrow> holder s \<noteq> Some t \<and> depth s t = 0
   | EnterOwner \<Rightarrow> holder s = Some t \<and> cs_owner (inner s) = 0 \<and> depth s t = 0
   | EnterRec \<Rightarrow> holder s = Some t \<and> cs_owner (inner s) = t \<and> depth s t = 0
   | LeaveSub \<Rightarrow> holder s = Some t \<and> inside t s
   | LeaveOwner \<Rightarrow> holder s = Some t \<and> cs_owner (inner s) = t \<and> depth s t = 0
   | LeaveUnlock \<Rightarrow> holder s = Some t \<and> cs_owner (inner s) = 0 \<and> depth s t = 0)"

definition lock_words :: "lock_sys \<Rightarrow> bool" where
  "lock_words s \<longleftrightarrow> cs_lock (inner s) = (if holder s = None then 0 else 1) \<and>
     (cs_owner (inner s) \<noteq> 0 \<longrightarrow> holder s = Some (cs_owner (inner s)))"

definition same_for :: "u64 \<Rightarrow> lock_sys \<Rightarrow> lock_sys \<Rightarrow> bool" where
  "same_for u s s' \<longleftrightarrow> at s' u = at s u \<and> depth s' u = depth s u \<and> (holder s' = Some u \<longleftrightarrow> holder s = Some u)"

definition lock_inv :: "lock_sys \<Rightarrow> bool" where
  "lock_inv s \<longleftrightarrow> (\<forall>t. thread_ok s t) \<and> at s 0 = Idle \<and> depth s 0 = 0 \<and> holder s \<noteq> Some 0 \<and> lock_words s"

lemmas sys_defs = goto_def set_inner_def set_depth_def

lemma lock_inv_start: "lock_inv lock_start"
  by (simp add: lock_inv_def lock_words_def lock_start_def thread_ok_def CriticalSectionInner_new_def)

text \<open>A thread that did not move is still in order if it does not hold the lock before or after.\<close>

lemma thread_ok_other:
  assumes "thread_ok s u" "at s' u = at s u" "depth s' u = depth s u"
    and "holder s' = Some u \<longleftrightarrow> holder s = Some u"
    and "holder s = Some u \<Longrightarrow> cs_owner (inner s') = cs_owner (inner s) \<and>
            cs_recursion (inner s') = cs_recursion (inner s)"
  shows "thread_ok s' u"
  using assms by (cases "at s u") (auto simp: thread_ok_def inside_def)

lemma inv_step:
  assumes inv: "lock_inv s" and "t \<noteq> 0"
    and ok: "thread_ok s t \<Longrightarrow> lock_words s \<Longrightarrow> thread_ok s' t \<and> lock_words s' \<and>
       (holder s = Some t \<or> cs_owner (inner s') = cs_owner (inner s) \<and> cs_recursion (inner s') = cs_recursion (inner s))"
    and fr: "\<And>u. u \<noteq> t \<Longrightarrow> thread_ok s t \<Longrightarrow> lock_words s \<Longrightarrow> same_for u s s'"
  shows "lock_inv s'"
proof -
  have th: "thread_ok s u" for u using inv by (simp add: lock_inv_def)
  have w: "lock_words s" using inv by (simp add: lock_inv_def)
  note ok' = ok [OF th w]
  have "thread_ok s' u" for u
  proof (cases "u = t")
    case True
    with ok' show ?thesis by simp
  next
    case False
    with fr [OF _ th w, of u] ok' show ?thesis by (intro thread_ok_other [OF th]) (auto simp: same_for_def)
  qed
  with ok' inv fr [OF _ th w, of 0] \<open>t \<noteq> 0\<close> show ?thesis by (auto simp: lock_inv_def same_for_def)
qed

lemma of_nat_pos_eq: "(of_nat n :: u32) - 1 = 0 \<longleftrightarrow> n = 1" if "0 < n" "n < 2 ^ 32"
proof -
  have "(of_nat n :: u32) = 1 \<longleftrightarrow> n = 1"
    using that by (simp add: word_unat_eq_iff unat_of_nat)
  then show ?thesis by (simp add: right_minus_eq)
qed

lemma moving_not_zero: "lock_inv s \<Longrightarrow> at s t = p \<Longrightarrow> p \<noteq> Idle \<Longrightarrow> t \<noteq> 0"
  by (auto simp: lock_inv_def)

lemma inv_move:
  assumes "at s t = p" and "lock_inv s" and "p \<noteq> Idle"
    and "t \<noteq> 0 \<Longrightarrow> thread_ok s t \<Longrightarrow> lock_words s \<Longrightarrow> thread_ok s' t \<and> lock_words s' \<and>
       (holder s = Some t \<or> cs_owner (inner s') = cs_owner (inner s) \<and> cs_recursion (inner s') = cs_recursion (inner s))"
    and "\<And>u. u \<noteq> t \<Longrightarrow> thread_ok s t \<Longrightarrow> lock_words s \<Longrightarrow> same_for u s s'"
  shows "lock_inv s'"
proof -
  note nz = moving_not_zero [OF assms(2,1,3)]
  show ?thesis using inv_step [OF assms(2) nz assms(4) [OF nz] assms(5)] .
qed

lemma leave_sub_ok:
  assumes "at s t = LeaveSub" "thread_ok s t" "lock_words s"
  shows "thread_ok (goto t (if cs_recursion (inner s) - 1 = 0 then LeaveOwner else Idle)
      (set_depth t (depth s t - 1) (set_inner (\<lambda>c. c\<lparr>cs_recursion := cs_recursion c - 1\<rparr>) s))) t"
proof -
  from assms have "holder s = Some t" "cs_owner (inner s) = t" and d: "0 < depth s t" "depth s t < 2 ^ 32"
    and r: "cs_recursion (inner s) = of_nat (depth s t)"
    by (simp_all add: thread_ok_def inside_def)
  moreover have "of_nat (depth s t) - 1 = (of_nat (depth s t - 1) :: u32)" using d by (simp add: of_nat_diff)
  moreover note of_nat_pos_eq [OF d]
  ultimately show ?thesis using d
    by (cases "depth s t = 1") (simp_all add: sys_defs thread_ok_def inside_def)
qed

lemma lock_step_inv: "lock_step timed s s' \<Longrightarrow> lock_inv s \<Longrightarrow> lock_inv s'"
proof (induction rule: lock_step.induct)
  case (leave_sub s t)
  show ?case
  proof (rule inv_step [OF leave_sub(2) moving_not_zero [OF leave_sub(2,1)]], goal_cases)
    case 2
    from 2 leave_sub(1) have "holder s = Some t" by (simp add: thread_ok_def)
    with leave_sub_ok [OF leave_sub(1) 2] 2(2) show ?case
      by (simp add: lock_words_def) (simp add: sys_defs)
  qed (auto simp: same_for_def sys_defs)
next
  case (wake_one s t u)
  then have "u \<noteq> t" by auto
  have "lock_inv (goto u EnterCas s)"
    by (rule inv_step [OF wake_one(3) moving_not_zero [OF wake_one(3,2)]])
       (use wake_one(2) in \<open>auto simp: same_for_def sys_defs thread_ok_def lock_words_def\<close>)
  then show ?case
    by (rule inv_step [OF _ moving_not_zero [OF wake_one(3,1)]])
       (use wake_one(1) \<open>u \<noteq> t\<close> in \<open>auto simp: same_for_def sys_defs thread_ok_def lock_words_def\<close>)
next
  case (call_enter s t)
  show ?case
    by (rule inv_step [of s t]) (use call_enter in \<open>auto simp: same_for_def sys_defs thread_ok_def inside_def lock_words_def\<close>)
next
  case (call_leave s t)
  show ?case
    by (rule inv_step [of s t]) (use call_leave in \<open>auto simp: same_for_def sys_defs thread_ok_def inside_def lock_words_def\<close>)
qed (rule inv_move, assumption, assumption, simp,
     (auto simp: sys_defs thread_ok_def inside_def lock_words_def split: if_splits)[],
     (auto simp: same_for_def sys_defs thread_ok_def lock_words_def split: if_splits)[])+

lemma lock_reach_inv: "lock_reach timed s \<Longrightarrow> lock_inv s"
  by (induction rule: lock_reach.induct) (auto intro: lock_inv_start lock_step_inv)

lemma deep_holds:
  assumes "lock_inv s" and "0 < depth s t"
  shows "holder s = Some t \<and> inside t s"
proof -
  have "thread_ok s t" using assms(1) by (simp add: lock_inv_def)
  with assms(2) show ?thesis by (cases "at s t") (auto simp: thread_ok_def split: if_splits)
qed

text \<open>C24. Mutual exclusion: in every state that any number of threads reach by calling enter and
  leave in any order (leaves without an enter included), interleaved between any two atomic
  accesses, with timeouts and spurious wakeups, at most one thread is inside
  the critical section or owns the mutex, and the owner and recursion words are its id and the
  number of its pending enters.\<close>

theorem lock_mutual_exclusion:
  assumes "lock_reach timed s" and "0 < depth s t"
  shows "cs_lock (inner s) = 1 \<and> cs_owner (inner s) = t \<and> cs_recursion (inner s) = of_nat (depth s t) \<and>
         (\<forall>u. 0 < depth s u \<longrightarrow> u = t)"
proof -
  note inv = lock_reach_inv [OF assms(1)]
  note h = deep_holds [OF inv assms(2)]
  then have "cs_lock (inner s) = 1" using inv by (simp add: lock_inv_def lock_words_def)
  moreover have "u = t" if "0 < depth s u" for u using deep_holds [OF inv that] h by simp
  ultimately show ?thesis using h by (auto simp: inside_def)
qed

lemma inner_upd [simp]:
  "inner (goto t p s) = inner s" "at (goto t p s) = (at s)(t := p)" "depth (goto t p s) = depth s"
  "inner (set_depth t n s) = inner s" "at (set_depth t n s) = at s" "depth (set_depth t n s) = (depth s)(t := n)"
  "inner (set_inner f s) = f (inner s)" "at (set_inner f s) = at s" "depth (set_inner f s) = depth s"
  by (simp_all add: sys_defs)

text \<open>One thread entering a free lock, and then a second one going to sleep.\<close>

definition lock_demo :: lock_sys where
  "lock_demo = goto 7 Idle (set_depth 7 1 (set_inner (\<lambda>c. c\<lparr>cs_recursion := 1\<rparr>)
     (goto 7 EnterRec (set_inner (\<lambda>c. c\<lparr>cs_owner := 7\<rparr>)
       (goto 7 EnterOwner (set_inner (\<lambda>c. c\<lparr>cs_lock := 1\<rparr>)
         ((goto 7 EnterCas (goto 7 EnterLoad lock_start))\<lparr>holder := Some 7\<rparr>)))))))"

definition lock_demo2 :: lock_sys where
  "lock_demo2 = goto 8 Asleep (goto 8 EnterWait (goto 8 EnterCas (goto 8 EnterLoad lock_demo)))"

lemma lock_start_simps:
  "inner lock_start = \<lparr>cs_lock = 0, cs_owner = 0, cs_recursion = 0\<rparr>" "at lock_start t = Idle" "depth lock_start t = 0"
  by (simp_all add: lock_start_def CriticalSectionInner_new_def)

lemma lock_demo_simps:
  "inner lock_demo = \<lparr>cs_lock = 1, cs_owner = 7, cs_recursion = 1\<rparr>" "at lock_demo t = Idle"
  "depth lock_demo t = (if t = 7 then 1 else 0)"
  by (simp_all add: lock_demo_def lock_start_def CriticalSectionInner_new_def)

lemma lock_demo_reach: "lock_reach timed lock_demo"
proof -
  have "lock_reach timed (goto 7 EnterLoad lock_start)"
    by (rule lock_reach.step [OF lock_reach.start]) (rule call_enter; simp add: lock_start_simps)
  then have "lock_reach timed (goto 7 EnterCas (goto 7 EnterLoad lock_start))"
    by (rule lock_reach.step) (rule enter_other; simp add: lock_start_simps)
  then have "lock_reach timed (goto 7 EnterOwner (set_inner (\<lambda>c. c\<lparr>cs_lock := 1\<rparr>)
         ((goto 7 EnterCas (goto 7 EnterLoad lock_start))\<lparr>holder := Some 7\<rparr>)))"
    by (rule lock_reach.step) (rule cas_ok; simp add: lock_start_simps)
  then have "lock_reach timed (goto 7 EnterRec (set_inner (\<lambda>c. c\<lparr>cs_owner := 7\<rparr>)
       (goto 7 EnterOwner (set_inner (\<lambda>c. c\<lparr>cs_lock := 1\<rparr>)
         ((goto 7 EnterCas (goto 7 EnterLoad lock_start))\<lparr>holder := Some 7\<rparr>)))))"
    by (rule lock_reach.step) (rule store_owner; simp)
  then show ?thesis unfolding lock_demo_def by (rule lock_reach.step) (rule store_rec; simp)
qed

lemma lock_demo2_reach: "lock_reach timed lock_demo2"
proof -
  have "lock_reach timed (goto 8 EnterLoad lock_demo)"
    by (rule lock_reach.step [OF lock_demo_reach]) (rule call_enter; simp add: lock_demo_simps)
  then have "lock_reach timed (goto 8 EnterCas (goto 8 EnterLoad lock_demo))"
    by (rule lock_reach.step) (rule enter_other; simp add: lock_demo_simps)
  then have "lock_reach timed (goto 8 EnterWait (goto 8 EnterCas (goto 8 EnterLoad lock_demo)))"
    by (rule lock_reach.step) (rule cas_fail; simp add: lock_demo_simps)
  then show ?thesis unfolding lock_demo2_def
    by (rule lock_reach.step) (rule wait_sleep; simp add: lock_demo_simps)
qed

theorem lock_mutual_exclusion_witness:
  "cs_lock (inner lock_demo) = 1 \<and> cs_owner (inner lock_demo) = 7 \<and>
   cs_recursion (inner lock_demo) = of_nat (depth lock_demo 7) \<and> {u. 0 < depth lock_demo u} \<subseteq> {7}"
proof -
  have "0 < depth lock_demo 7" by (simp add: lock_demo_simps)
  from lock_mutual_exclusion [OF lock_demo_reach this] show ?thesis by blast
qed

section \<open>No wakeup is lost\<close>

definition will_retry :: "lock_sys \<Rightarrow> bool" where
  "will_retry s \<longleftrightarrow> (\<exists>t. at s t = LeaveWake \<or> at s t = EnterCas)"

definition wake_inv :: "lock_sys \<Rightarrow> bool" where
  "wake_inv s \<longleftrightarrow> (\<exists>t. at s t = Asleep) \<longrightarrow> cs_lock (inner s) \<noteq> 0 \<or> will_retry s"

lemma wake_move:
  assumes "wake_inv s" and "at s' = (at s)(t := p)"
    and "p = LeaveWake \<or> p = EnterCas \<or> cs_lock (inner s') \<noteq> 0 \<or>
         p \<noteq> Asleep \<and> at s t \<noteq> LeaveWake \<and> at s t \<noteq> EnterCas \<and> cs_lock (inner s') = cs_lock (inner s)"
  shows "wake_inv s'"
proof -
  consider "p = LeaveWake \<or> p = EnterCas" | "cs_lock (inner s') \<noteq> 0"
    | "p \<noteq> Asleep" "at s t \<noteq> LeaveWake" "at s t \<noteq> EnterCas" "cs_lock (inner s') = cs_lock (inner s)"
    using assms(3) by blast
  then show ?thesis
  proof cases
    case 1
    then have "will_retry s'" using assms(2) by (auto simp: will_retry_def intro: exI [of _ t])
    then show ?thesis by (simp add: wake_inv_def)
  next
    case 2
    then show ?thesis by (simp add: wake_inv_def)
  next
    case 3
    have "will_retry s \<Longrightarrow> will_retry s'" using 3 assms(2) by (auto simp: will_retry_def)
    with 3 assms(1,2) show ?thesis by (auto simp: wake_inv_def split: if_splits)
  qed
qed

lemma wake_inv_step: "lock_step timed s s' \<Longrightarrow> wake_inv s \<Longrightarrow> wake_inv s'"
proof (induction rule: lock_step.induct)
  case (wake_none s t)
  then show ?case by (simp add: wake_inv_def sys_defs)
next
  case (wake_one s t u)
  then have "u \<noteq> t" by auto
  then have "at (goto t Idle (goto u EnterCas s)) u = EnterCas" by (simp add: sys_defs)
  then have "will_retry (goto t Idle (goto u EnterCas s))" unfolding will_retry_def by blast
  then show ?case by (simp add: wake_inv_def)
qed (erule wake_move, (simp add: sys_defs; fail), (simp add: sys_defs; fail))+

lemma lock_reach_wake: "lock_reach timed s \<Longrightarrow> wake_inv s"
proof (induction rule: lock_reach.induct)
  case start
  show ?case by (simp add: wake_inv_def lock_start_def)
qed (rule wake_inv_step)

text \<open>C25. No wakeup is lost: whenever a thread sleeps on the lock word, the word is not free, or some
  thread is about to wake a sleeper or to try the lock again. So a lock that is free
  never leaves all its waiters asleep.\<close>

theorem lock_no_lost_wakeup:
  assumes "lock_reach timed s" and "at s t = Asleep"
  shows "cs_lock (inner s) \<noteq> 0 \<or> will_retry s"
  using lock_reach_wake [OF assms(1)] assms(2) by (auto simp: wake_inv_def)

theorem lock_no_lost_wakeup_witness:
  "at lock_demo2 8 = Asleep \<and> (0 < cs_lock (inner lock_demo2) \<or> will_retry lock_demo2)"
proof -
  have a: "at lock_demo2 8 = Asleep" by (simp add: lock_demo2_def)
  from lock_no_lost_wakeup [OF lock_demo2_reach [of True] a] a show ?thesis by (simp add: word_neq_0_conv)
qed

section \<open>A thread alone\<close>

text \<open>The calls as single functions agree with the steps: a thread that runs undisturbed through a
  call reaches the state the function gives.\<close>

lemma run_step: "lock_step timed s s' \<Longrightarrow> (lock_step timed)\<^sup>*\<^sup>* s' s'' \<Longrightarrow> (lock_step timed)\<^sup>*\<^sup>* s s''"
  by (rule converse_rtranclp_into_rtranclp)



text \<open>Leaving undoes entering: from a lock that is free, or that the caller owns and has not nested
  to the limit of the counter, an enter that succeeds followed by a leave restores all three words.
  A leave by a thread that is not the owner changes nothing.\<close>

theorem leave_enter:
  assumes "me \<noteq> 0" and "enter me c = Some c'"
    and "cs_lock c = 0 \<Longrightarrow> cs_owner c = 0 \<and> cs_recursion c = 0"
    and "cs_owner c = me \<Longrightarrow> cs_recursion c \<noteq> 0"
  shows "leave me c' = c \<and> cs_owner c' = me \<and> (\<forall>other. other \<noteq> me \<longrightarrow> leave other c' = c')"
proof (cases "cs_owner c = me")
  case True
  with assms have c': "c' = c\<lparr>cs_recursion := cs_recursion c + 1\<rparr>" "cs_recursion c \<noteq> 0"
    by (auto simp: enter_def)
  with True show ?thesis by (auto simp: leave_def Let_def)
next
  case False
  with assms have "cs_lock c = 0" by (auto simp: enter_def split: if_splits)
  with assms False have "c = \<lparr>cs_lock = 0, cs_owner = 0, cs_recursion = 0\<rparr>"
    and "c' = \<lparr>cs_lock = 1, cs_owner = me, cs_recursion = 1\<rparr>"
    by (auto simp: enter_def)
  then show ?thesis by (auto simp: leave_def Let_def)
qed

theorem leave_enter_witness:
  "leave 7 \<lparr>cs_lock = 1, cs_owner = 7, cs_recursion = 1\<rparr> = CriticalSectionInner_new \<and>
   cs_owner \<lparr>cs_lock = 1, cs_owner = 7, cs_recursion = 1\<rparr> = 7 \<and>
   leave 8 \<lparr>cs_lock = 1, cs_owner = 7, cs_recursion = 1\<rparr> = \<lparr>cs_lock = 1, cs_owner = 7, cs_recursion = 1\<rparr>"
  using leave_enter [of 7 CriticalSectionInner_new "\<lparr>cs_lock = 1, cs_owner = 7, cs_recursion = 1\<rparr>"]
  by (simp add: enter_def CriticalSectionInner_new_def)

end
