(* ===== verification/SrwLock.thy ===== *)
theory SrwLock
  imports Prelude "HOL-Library.Multiset"
begin

unbundle bit_operations_syntax

text \<open>
  The slim reader/writer lock of \<^verbatim>\<open>crates/ntapi/src/sync.rs\<close>: one word, whose bit 31 says that a writer
  holds the lock and whose other bits count the readers. The calls run alone first, with the entry
  points over the guest's \<open>SRWLOCK\<close>s; then any number of threads, one atomic access at a time (\<open>srw_step\<close>).
  A guest releases only what it holds, and fewer than \<open>2 ^ 31\<close> readers hold the lock at once.
\<close>

section \<open>The lock alone\<close>

abbreviation SRW_WRITER :: u32 where "SRW_WRITER \<equiv> 0x80000000"
abbreviation SRW_READER_MASK :: u32 where "SRW_READER_MASK \<equiv> 0x7FFFFFFF"

text \<open>\<open>None\<close>: the caller blocks.\<close>

definition acquire_exclusive :: "u32 \<Rightarrow> u32 option" where
  "acquire_exclusive s = (if s = 0 then Some SRW_WRITER else None)"

definition acquire_shared :: "u32 \<Rightarrow> u32 option" where
  "acquire_shared s = (if s AND SRW_WRITER = 0 then Some (s + 1) else None)"

definition release_exclusive :: "u32 \<Rightarrow> u32" where
  "release_exclusive s = 0"

text \<open>The new word, and whether a waiter is woken.\<close>

definition release_shared :: "u32 \<Rightarrow> u32 \<times> bool" where
  "release_shared s = (s - 1, s AND SRW_READER_MASK = 1)"

record srw_heap =
  srw_slot :: "u64 \<Rightarrow> u64"
  srw_box :: "u64 \<rightharpoonup> u32"

definition initialize_srw_lock :: "u64 \<Rightarrow> u64 \<Rightarrow> srw_heap \<Rightarrow> srw_heap" where
  "initialize_srw_lock raw srw hp =
     (if srw = 0 then hp
      else hp\<lparr>srw_box := (srw_box hp)(raw \<mapsto> 0), srw_slot := (srw_slot hp)(srw := raw)\<rparr>)"

definition srw_inner :: "u64 \<Rightarrow> srw_heap \<Rightarrow> u64 option" where
  "srw_inner srw hp =
     (if srw = 0 then None else let raw = srw_slot hp srw in if raw = 0 then None else Some raw)"

text \<open>Runs an operation on the word behind a lock: a lock without state is left alone; the outer \<open>None\<close> is an
  access to a box that does not exist, the inner one that the caller blocks.\<close>

definition on_srw :: "(u32 \<Rightarrow> u32 option) \<Rightarrow> u64 \<Rightarrow> srw_heap \<Rightarrow> srw_heap option option" where
  "on_srw f srw hp =
     (case srw_inner srw hp of
        None \<Rightarrow> Some (Some hp)
      | Some raw \<Rightarrow>
          (case srw_box hp raw of
             None \<Rightarrow> None
           | Some s \<Rightarrow> Some (map_option (\<lambda>s'. hp\<lparr>srw_box := (srw_box hp)(raw \<mapsto> s')\<rparr>) (f s))))"

definition acquire_srw_lock_exclusive :: "u64 \<Rightarrow> srw_heap \<Rightarrow> srw_heap option option" where
  "acquire_srw_lock_exclusive = on_srw acquire_exclusive"

definition acquire_srw_lock_shared :: "u64 \<Rightarrow> srw_heap \<Rightarrow> srw_heap option option" where
  "acquire_srw_lock_shared = on_srw acquire_shared"

definition release_srw_lock_exclusive :: "u64 \<Rightarrow> srw_heap \<Rightarrow> srw_heap option option" where
  "release_srw_lock_exclusive = on_srw (\<lambda>s. Some (release_exclusive s))"

definition release_srw_lock_shared :: "u64 \<Rightarrow> srw_heap \<Rightarrow> srw_heap option option" where
  "release_srw_lock_shared = on_srw (\<lambda>s. Some (fst (release_shared s)))"

section \<open>Many threads\<close>

datatype srw_pc =
    Out
  | XLoad | XCas | XWait u32 | XAsleep
  | SLoad | SCas u32 | SWait u32 | SAsleep
  | RelX | RelXWake | RelS | RelSWake

text \<open>\<open>writer\<close> and \<open>readers\<close> are ghosts: the thread that holds the lock exclusively, and the threads that
  hold it shared, each as often as it does.\<close>

record srw_sys =
  word :: u32
  srw_at :: "u64 \<Rightarrow> srw_pc"
  writer :: "u64 option"
  readers :: "u64 multiset"

definition to :: "u64 \<Rightarrow> srw_pc \<Rightarrow> srw_sys \<Rightarrow> srw_sys" where
  "to t p s = s\<lparr>srw_at := (srw_at s)(t := p)\<rparr>"

definition asleep :: "srw_pc \<Rightarrow> bool" where
  "asleep p \<longleftrightarrow> p = XAsleep \<or> p = SAsleep"

definition woken :: "srw_pc \<Rightarrow> srw_pc" where
  "woken p = (if p = XAsleep then XLoad else if p = SAsleep then SLoad else p)"

inductive srw_step :: "srw_sys \<Rightarrow> srw_sys \<Rightarrow> bool" where
  call_x: "srw_at s t = Out \<Longrightarrow> srw_step s (to t XLoad s)"
| call_s: "srw_at s t = Out \<Longrightarrow> srw_step s (to t SLoad s)"
| call_rx: "srw_at s t = Out \<Longrightarrow> writer s = Some t \<Longrightarrow> srw_step s (to t RelX s)"
| call_rs: "srw_at s t = Out \<Longrightarrow> t \<in># readers s \<Longrightarrow> srw_step s (to t RelS s)"
| x_free: "srw_at s t = XLoad \<Longrightarrow> word s = 0 \<Longrightarrow> srw_step s (to t XCas s)"
| x_held: "srw_at s t = XLoad \<Longrightarrow> word s \<noteq> 0 \<Longrightarrow> srw_step s (to t (XWait (word s)) s)"
| x_cas_ok: "srw_at s t = XCas \<Longrightarrow> word s = 0 \<Longrightarrow>
    srw_step s (to t Out (s\<lparr>word := SRW_WRITER, writer := Some t\<rparr>))"
| x_cas_fail: "srw_at s t = XCas \<Longrightarrow> word s \<noteq> 0 \<Longrightarrow> srw_step s (to t XLoad s)"
| x_sleep: "srw_at s t = XWait v \<Longrightarrow> word s = v \<Longrightarrow> srw_step s (to t XAsleep s)"
| x_skip: "srw_at s t = XWait v \<Longrightarrow> word s \<noteq> v \<Longrightarrow> srw_step s (to t XLoad s)"
| s_free: "srw_at s t = SLoad \<Longrightarrow> word s AND SRW_WRITER = 0 \<Longrightarrow> srw_step s (to t (SCas (word s)) s)"
| s_held: "srw_at s t = SLoad \<Longrightarrow> word s AND SRW_WRITER \<noteq> 0 \<Longrightarrow> srw_step s (to t (SWait (word s)) s)"
| s_cas_ok: "srw_at s t = SCas v \<Longrightarrow> word s = v \<Longrightarrow> size (readers s) + 1 < 2 ^ 31 \<Longrightarrow>
    srw_step s (to t Out (s\<lparr>word := v + 1, readers := add_mset t (readers s)\<rparr>))"
| s_cas_fail: "srw_at s t = SCas v \<Longrightarrow> word s \<noteq> v \<Longrightarrow> srw_step s (to t SLoad s)"
| s_sleep: "srw_at s t = SWait v \<Longrightarrow> word s = v \<Longrightarrow> srw_step s (to t SAsleep s)"
| s_skip: "srw_at s t = SWait v \<Longrightarrow> word s \<noteq> v \<Longrightarrow> srw_step s (to t SLoad s)"
| spurious: "asleep (srw_at s t) \<Longrightarrow> srw_step s (to t (woken (srw_at s t)) s)"
| rel_x: "srw_at s t = RelX \<Longrightarrow> srw_step s (to t RelXWake (s\<lparr>word := 0, writer := None\<rparr>))"
| wake_all: "srw_at s t = RelXWake \<Longrightarrow> srw_step s (to t Out (s\<lparr>srw_at := woken \<circ> srw_at s\<rparr>))"
| rel_s: "srw_at s t = RelS \<Longrightarrow>
    srw_step s (to t (if word s AND SRW_READER_MASK = 1 then RelSWake else Out)
      (s\<lparr>word := word s - 1, readers := readers s - {#t#}\<rparr>))"
| wake_one: "srw_at s t = RelSWake \<Longrightarrow> asleep (srw_at s u) \<Longrightarrow> srw_step s (to t Out (to u (woken (srw_at s u)) s))"
| wake_none: "srw_at s t = RelSWake \<Longrightarrow> (\<forall>u. \<not> asleep (srw_at s u)) \<Longrightarrow> srw_step s (to t Out s)"

definition srw_start :: srw_sys where
  "srw_start = \<lparr>word = 0, srw_at = (\<lambda>_. Out), writer = None, readers = {#}\<rparr>"

inductive srw_reach :: "srw_sys \<Rightarrow> bool" where
  start: "srw_reach srw_start"
| step: "srw_reach s \<Longrightarrow> srw_step s s' \<Longrightarrow> srw_reach s'"

section \<open>The word and its bits\<close>

lemma small_mask: "n < 2 ^ 31 \<Longrightarrow> (of_nat n :: u32) AND SRW_READER_MASK = of_nat n"
proof -
  assume n: "n < 2 ^ 31"
  have "(of_nat n :: u32) AND mask 31 = take_bit 31 (of_nat n)" by (simp add: take_bit_eq_mask)
  also have "\<dots> = of_nat (take_bit 31 n)" by (simp add: take_bit_of_nat)
  also have "\<dots> = of_nat n" using n by (simp add: take_bit_nat_eq_self)
  finally show ?thesis by (simp add: mask_eq_exp_minus_1)
qed

lemma small_writer: "n < 2 ^ 31 \<Longrightarrow> (of_nat n :: u32) AND SRW_WRITER = 0"
proof -
  assume n: "n < 2 ^ 31"
  have "SRW_READER_MASK AND SRW_WRITER = 0" by simp
  then have "((of_nat n :: u32) AND SRW_READER_MASK) AND SRW_WRITER = 0"
    by (simp only: and.assoc and_zero_eq)
  with small_mask [OF n] show ?thesis by simp
qed

lemma small_eq: "n < 2 ^ 31 \<Longrightarrow> m < 2 ^ 32 \<Longrightarrow> (of_nat n :: u32) = of_nat m \<longleftrightarrow> n = m"
  by (simp add: word_unat_eq_iff unat_of_nat)

lemma small_values:
  assumes "n < 2 ^ 31"
  shows "(of_nat n :: u32) = 0 \<longleftrightarrow> n = 0" "(of_nat n :: u32) = 1 \<longleftrightarrow> n = 1"
    "(of_nat n :: u32) \<noteq> SRW_WRITER"
  using small_eq [OF assms, of 0] small_eq [OF assms, of 1] small_eq [OF assms, of "2 ^ 31"] assms
  by simp_all

section \<open>The invariant\<close>

definition srw_ok :: "srw_sys \<Rightarrow> u64 \<Rightarrow> bool" where
  "srw_ok s t = (case srw_at s t of
     RelX \<Rightarrow> writer s = Some t
   | RelS \<Rightarrow> t \<in># readers s
   | XWait v \<Rightarrow> v \<noteq> 0
   | SWait v \<Rightarrow> v AND SRW_WRITER \<noteq> 0
   | SCas v \<Rightarrow> v AND SRW_WRITER = 0
   | _ \<Rightarrow> True)"

definition srw_word :: "srw_sys \<Rightarrow> bool" where
  "srw_word s \<longleftrightarrow> word s = (case writer s of Some _ \<Rightarrow> SRW_WRITER | None \<Rightarrow> of_nat (size (readers s))) \<and>
     (writer s \<noteq> None \<longrightarrow> readers s = {#}) \<and> size (readers s) < 2 ^ 31"

definition srw_inv :: "srw_sys \<Rightarrow> bool" where
  "srw_inv s \<longleftrightarrow> (\<forall>t. srw_ok s t) \<and> srw_word s"

lemma to_simps [simp]:
  "word (to t p s) = word s" "srw_at (to t p s) = (srw_at s)(t := p)" "writer (to t p s) = writer s"
  "readers (to t p s) = readers s"
  by (simp_all add: to_def)

lemma srw_word_cases:
  assumes "srw_word s"
  shows "word s = 0 \<longleftrightarrow> writer s = None \<and> readers s = {#}"
    and "word s AND SRW_WRITER = 0 \<longleftrightarrow> writer s = None"
    and "writer s = None \<Longrightarrow> word s = of_nat (size (readers s))"
    and "writer s \<noteq> None \<Longrightarrow> word s = SRW_WRITER \<and> readers s = {#}"
    and "size (readers s) < 2 ^ 31"
  using assms small_values [of "size (readers s)"] small_writer [of "size (readers s)"]
  by (auto simp: srw_word_def split: option.splits)

text \<open>A step of one thread: the rest of the threads keep their place and what they hold.\<close>

lemma srw_inv_step:
  assumes inv: "srw_inv s"
    and own: "srw_ok s t \<Longrightarrow> srw_word s \<Longrightarrow> srw_ok s' t \<and> srw_word s'"
    and fr: "\<And>u. u \<noteq> t \<Longrightarrow> srw_ok s t \<Longrightarrow> srw_word s \<Longrightarrow> srw_ok s u \<Longrightarrow> srw_ok s' u"
  shows "srw_inv s'"
  using assms unfolding srw_inv_def by metis

lemma srw_ok_upd: "u \<noteq> t \<Longrightarrow> srw_ok (to t p s) u = srw_ok s u"
  by (simp add: srw_ok_def split: srw_pc.split)

lemma srw_word_upd [simp]: "srw_word (to t p s) = srw_word s"
  by (simp add: srw_word_def split: option.split)

lemma srw_inv_move:
  assumes "srw_inv s" and "srw_ok s t \<Longrightarrow> srw_word s \<Longrightarrow> srw_ok (to t p s) t"
  shows "srw_inv (to t p s)"
  by (rule srw_inv_step [OF assms(1), of t]) (use assms(2) in \<open>auto simp: srw_ok_upd\<close>)

lemma srw_ok_woken: "asleep p \<Longrightarrow> srw_ok (to t (woken p) s) t"
  by (auto simp: srw_ok_def asleep_def woken_def)

lemma wake_all_inv: "srw_inv s \<Longrightarrow> srw_inv (s\<lparr>srw_at := woken \<circ> srw_at s\<rparr>)"
proof -
  assume inv: "srw_inv s"
  have "srw_ok (s\<lparr>srw_at := woken \<circ> srw_at s\<rparr>) t" for t
  proof -
    have "srw_ok s t" using inv by (simp add: srw_inv_def)
    then show ?thesis by (auto simp: srw_ok_def woken_def split: srw_pc.splits)
  qed
  with inv show ?thesis by (auto simp: srw_inv_def srw_word_def split: option.split)
qed

lemma rel_s_inv:
  assumes "srw_at s t = RelS" and "srw_inv s"
  shows "srw_inv (to t (if word s AND SRW_READER_MASK = 1 then RelSWake else Out)
      (s\<lparr>word := word s - 1, readers := readers s - {#t#}\<rparr>))"
proof (rule srw_inv_step [OF assms(2), of t])
  assume ok: "srw_ok s t" and w: "srw_word s"
  from ok assms(1) have t: "t \<in># readers s" by (simp add: srw_ok_def)
  then have "writer s = None" using srw_word_cases(4) [OF w] by fastforce
  moreover have "size (readers s) = Suc (size (readers s - {#t#}))" using t by (simp add: size_Suc_Diff1)
  ultimately show "srw_ok (to t (if word s AND SRW_READER_MASK = 1 then RelSWake else Out)
      (s\<lparr>word := word s - 1, readers := readers s - {#t#}\<rparr>)) t \<and>
    srw_word (to t (if word s AND SRW_READER_MASK = 1 then RelSWake else Out)
      (s\<lparr>word := word s - 1, readers := readers s - {#t#}\<rparr>))"
    using w by (simp add: srw_ok_def) (simp add: srw_word_def)
next
  fix u
  assume "u \<noteq> t" "srw_ok s u"
  then show "srw_ok (to t (if word s AND SRW_READER_MASK = 1 then RelSWake else Out)
      (s\<lparr>word := word s - 1, readers := readers s - {#t#}\<rparr>)) u"
    by (auto simp: srw_ok_upd) (auto simp: srw_ok_def in_diff_count split: srw_pc.splits)
qed

lemma srw_step_inv: "srw_step s s' \<Longrightarrow> srw_inv s \<Longrightarrow> srw_inv s'"
proof (induction rule: srw_step.induct)
  case (x_cas_ok s t)
  show ?case
  proof (rule srw_inv_step [OF x_cas_ok(3), of t])
    assume w: "srw_word s"
    then show "srw_ok (to t Out (s\<lparr>word := SRW_WRITER, writer := Some t\<rparr>)) t \<and>
        srw_word (to t Out (s\<lparr>word := SRW_WRITER, writer := Some t\<rparr>))"
      using srw_word_cases(1) [OF w] x_cas_ok(2) by (simp add: srw_ok_def) (simp add: srw_word_def)
    fix u
    assume "u \<noteq> t" "srw_ok s u"
    then show "srw_ok (to t Out (s\<lparr>word := SRW_WRITER, writer := Some t\<rparr>)) u"
      using srw_word_cases(1) [OF w] x_cas_ok(2)
      by (auto simp: srw_ok_upd) (auto simp: srw_ok_def split: srw_pc.splits)
  qed
next
  case (s_cas_ok s t v)
  show ?case
  proof (rule srw_inv_step [OF s_cas_ok(4), of t])
    assume w: "srw_word s" and "srw_ok s t"
    with s_cas_ok(1,2) have "word s AND SRW_WRITER = 0" by (simp add: srw_ok_def)
    then have none: "writer s = None" using srw_word_cases(2) [OF w] by simp
    with w s_cas_ok(2,3) show "srw_ok (to t Out (s\<lparr>word := v + 1, readers := add_mset t (readers s)\<rparr>)) t \<and>
        srw_word (to t Out (s\<lparr>word := v + 1, readers := add_mset t (readers s)\<rparr>))"
      by (simp add: srw_ok_def) (simp add: srw_word_def add.commute)
    fix u
    assume "u \<noteq> t" "srw_ok s u"
    then show "srw_ok (to t Out (s\<lparr>word := v + 1, readers := add_mset t (readers s)\<rparr>)) u"
      by (auto simp: srw_ok_upd) (auto simp: srw_ok_def split: srw_pc.splits)
  qed
next
  case (rel_x s t)
  show ?case
  proof (rule srw_inv_step [OF rel_x(2), of t])
    assume w: "srw_word s" and "srw_ok s t"
    with rel_x(1) have wr: "writer s = Some t" by (simp add: srw_ok_def)
    with srw_word_cases(4) [OF w] show "srw_ok (to t RelXWake (s\<lparr>word := 0, writer := None\<rparr>)) t \<and>
        srw_word (to t RelXWake (s\<lparr>word := 0, writer := None\<rparr>))"
      by (simp add: srw_ok_def) (simp add: srw_word_def)
    fix u
    assume "u \<noteq> t" "srw_ok s u"
    with wr show "srw_ok (to t RelXWake (s\<lparr>word := 0, writer := None\<rparr>)) u"
      by (auto simp: srw_ok_upd) (auto simp: srw_ok_def split: srw_pc.splits)
  qed
next
  case (wake_all s t)
  show ?case by (rule srw_inv_move [OF wake_all_inv [OF wake_all(2)]]) (simp add: srw_ok_def)
next
  case (rel_s s t)
  then show ?case by (rule rel_s_inv)
next
  case (wake_one s t u)
  have "srw_inv (to u (woken (srw_at s u)) s)"
    by (rule srw_inv_move [OF wake_one(3)]) (rule srw_ok_woken [OF wake_one(2)])
  then show ?case by (rule srw_inv_move) (simp add: srw_ok_def)
next
  case (spurious s t)
  show ?case by (rule srw_inv_move [OF spurious(2)]) (rule srw_ok_woken [OF spurious(1)])
qed (erule srw_inv_move, simp add: srw_ok_def)+

lemma srw_reach_inv: "srw_reach s \<Longrightarrow> srw_inv s"
proof (induction rule: srw_reach.induct)
  case start
  show ?case by (simp add: srw_inv_def srw_start_def srw_ok_def srw_word_def)
qed (rule srw_step_inv)

text \<open>C26. A writer excludes everybody else: in every state that any number of threads reach, acquiring and
  releasing in any interleaving of the atomic accesses, a thread that holds the lock
  exclusively is the only holder, and the word is then exactly the writer bit; without a
  writer the word is the number of readers.\<close>

theorem srw_exclusion:
  assumes "srw_reach s"
  shows "(writer s \<noteq> None \<longrightarrow> readers s = {#} \<and> word s = SRW_WRITER) \<and>
         (writer s = None \<longrightarrow> unat (word s) = size (readers s))"
proof -
  have w: "srw_word s" using srw_reach_inv [OF assms] by (simp add: srw_inv_def)
  from srw_word_cases(5) [OF w] have "unat (of_nat (size (readers s)) :: u32) = size (readers s)"
    by (simp add: unat_of_nat)
  with srw_word_cases(3,4) [OF w] show ?thesis by auto
qed

text \<open>A reader and then a writer, alone.\<close>

definition srw_demo :: srw_sys where
  "srw_demo = (let s = to 7 (SCas 0) (to 7 SLoad srw_start) in
     to 7 Out (s\<lparr>word := 0 + 1, readers := add_mset 7 (readers s)\<rparr>))"

definition srw_demo2 :: srw_sys where
  "srw_demo2 = to 8 XAsleep (to 8 (XWait 1) (to 8 XLoad srw_demo))"

lemma srw_demo_simps:
  "word srw_demo = 1" "srw_at srw_demo t = Out" "writer srw_demo = None" "readers srw_demo = {#7#}"
  by (simp_all add: srw_demo_def srw_start_def Let_def)

lemma srw_demo_reach: "srw_reach srw_demo"
proof -
  have "srw_reach (to 7 SLoad srw_start)"
    by (rule srw_reach.step [OF srw_reach.start]) (rule call_s; simp add: srw_start_def)
  then have "srw_reach (to 7 (SCas (word (to 7 SLoad srw_start))) (to 7 SLoad srw_start))"
    by (rule srw_reach.step) (rule s_free; simp add: srw_start_def)
  then have "srw_reach (to 7 (SCas 0) (to 7 SLoad srw_start))" by (simp add: srw_start_def)
  then show ?thesis unfolding srw_demo_def Let_def
    by (rule srw_reach.step) (rule s_cas_ok; simp add: srw_start_def)
qed

lemma srw_demo2_reach: "srw_reach srw_demo2"
proof -
  have "srw_reach (to 8 XLoad srw_demo)"
    by (rule srw_reach.step [OF srw_demo_reach]) (rule call_x; simp add: srw_demo_simps)
  then have "srw_reach (to 8 (XWait (word (to 8 XLoad srw_demo))) (to 8 XLoad srw_demo))"
    by (rule srw_reach.step) (rule x_held; simp add: srw_demo_simps)
  then have "srw_reach (to 8 (XWait 1) (to 8 XLoad srw_demo))" by (simp add: srw_demo_simps)
  then show ?thesis unfolding srw_demo2_def
    by (rule srw_reach.step) (rule x_sleep; simp add: srw_demo_simps)
qed

theorem srw_exclusion_witness:
  "writer srw_demo = None \<and> unat (word srw_demo) = size (readers srw_demo)"
  using srw_exclusion [OF srw_demo_reach] srw_demo_simps(3) by blast

section \<open>No wakeup is lost\<close>

definition retries :: "srw_pc \<Rightarrow> bool" where
  "retries p = (case p of XLoad \<Rightarrow> True | XCas \<Rightarrow> True | SLoad \<Rightarrow> True | SCas _ \<Rightarrow> True
     | RelXWake \<Rightarrow> True | RelSWake \<Rightarrow> True | _ \<Rightarrow> False)"

definition srw_wake_inv :: "srw_sys \<Rightarrow> bool" where
  "srw_wake_inv s \<longleftrightarrow> (\<exists>t. asleep (srw_at s t)) \<longrightarrow> word s \<noteq> 0 \<or> (\<exists>t. retries (srw_at s t))"

lemma srw_wake_move:
  assumes inv: "srw_wake_inv s" and at: "srw_at s' = (srw_at s)(t := p)"
    and "retries p \<or> word s' \<noteq> 0 \<or> \<not> asleep p \<and> \<not> retries (srw_at s t) \<and> word s' = word s"
  shows "srw_wake_inv s'"
  using assms(3)
proof (elim disjE conjE)
  assume "retries p"
  then have "retries (srw_at s' t)" using at by simp
  then show ?thesis unfolding srw_wake_inv_def by blast
next
  assume "word s' \<noteq> 0"
  then show ?thesis by (simp add: srw_wake_inv_def)
next
  assume p: "\<not> asleep p" "\<not> retries (srw_at s t)" "word s' = word s"
  have "\<exists>u. retries (srw_at s' u)" if "\<exists>u. retries (srw_at s u)"
    using that p(2) at by (metis fun_upd_other)
  moreover have "\<exists>u. asleep (srw_at s u)" if "\<exists>u. asleep (srw_at s' u)"
    using that p(1) at by (metis fun_upd_apply)
  ultimately show ?thesis using inv p(3) unfolding srw_wake_inv_def by metis
qed

lemmas pc_defs = retries_def asleep_def woken_def

lemma srw_wake_step: "srw_step s s' \<Longrightarrow> srw_inv s \<Longrightarrow> srw_wake_inv s \<Longrightarrow> srw_wake_inv s'"
proof (induction rule: srw_step.induct)
  case (x_sleep s t v)
  from x_sleep(3) have "srw_ok s t" by (simp add: srw_inv_def)
  with x_sleep(1,2) have "word s \<noteq> 0" by (simp add: srw_ok_def)
  then show ?case by (intro srw_wake_move [OF x_sleep(4), of _ t XAsleep]) simp_all
next
  case (s_sleep s t v)
  from s_sleep(3) have "srw_ok s t" by (simp add: srw_inv_def)
  with s_sleep(1,2) have "word s \<noteq> 0" by (auto simp: srw_ok_def)
  then show ?case by (intro srw_wake_move [OF s_sleep(4), of _ t SAsleep]) simp_all
next
  case (s_cas_ok s t v)
  from s_cas_ok(4) have w: "srw_word s" and ok: "srw_ok s t" by (simp_all add: srw_inv_def)
  from ok s_cas_ok(1,2) have "writer s = None" using srw_word_cases(2) [OF w] by (simp add: srw_ok_def)
  then have "v + 1 = of_nat (Suc (size (readers s)))"
    using srw_word_cases(3) [OF w] s_cas_ok(2) by (simp add: add.commute)
  then have "v + 1 \<noteq> 0" using small_values(1) [of "Suc (size (readers s))"] s_cas_ok(3) by (simp only:)
  then show ?case by (intro srw_wake_move [OF s_cas_ok(5), of _ t Out]) simp_all
next
  case (rel_s s t)
  from rel_s(2) have w: "srw_word s" and ok: "srw_ok s t" by (simp_all add: srw_inv_def)
  from ok rel_s(1) have "t \<in># readers s" by (simp add: srw_ok_def)
  then have wr: "writer s = None" using srw_word_cases(4) [OF w] by fastforce
  have "word s AND SRW_READER_MASK = word s"
    using small_mask [OF srw_word_cases(5) [OF w]] srw_word_cases(3) [OF w wr] by simp
  then have "retries (if word s AND SRW_READER_MASK = 1 then RelSWake else Out) \<or> word s - 1 \<noteq> 0"
    by (auto simp: retries_def right_minus_eq)
  then show ?case
    by (intro srw_wake_move [OF rel_s(3), of _ t "if word s AND SRW_READER_MASK = 1 then RelSWake else Out"])
       simp_all
next
  case (s_held s t)
  then have "word s \<noteq> 0" by auto
  then show ?case by (intro srw_wake_move [OF s_held(4), of _ t "SWait (word s)"]) simp_all
next
  case (wake_all s t)
  then show ?case by (auto simp: srw_wake_inv_def pc_defs split: if_splits)
next
  case (wake_one s t u)
  then have "u \<noteq> t" by (auto simp: asleep_def)
  then have "retries (srw_at (to t Out (to u (woken (srw_at s u)) s)) u)"
    using wake_one(2) by (auto simp: pc_defs)
  then show ?case unfolding srw_wake_inv_def by blast
next
  case (wake_none s t)
  then show ?case by (auto simp: srw_wake_inv_def asleep_def)
next
  case (spurious s t)
  then show ?case
    by (intro srw_wake_move [OF spurious(3), of _ t "woken (srw_at s t)"]) (auto simp: pc_defs)
qed (erule srw_wake_move, (simp; fail), (simp add: retries_def asleep_def; fail))+

text \<open>C27. No wakeup of the reader/writer lock is lost: whenever a thread sleeps on its word, the lock is
  held, or some thread is about to wake sleepers or to try for the lock.\<close>

theorem srw_no_lost_wakeup:
  assumes "srw_reach s" and "asleep (srw_at s t)"
  shows "writer s \<noteq> None \<or> readers s \<noteq> {#} \<or> (\<exists>u. retries (srw_at s u))"
proof -
  have "srw_inv s \<and> srw_wake_inv s" using assms(1)
  proof (induction rule: srw_reach.induct)
    case start
    show ?case
      using srw_reach_inv [OF srw_reach.start] by (simp add: srw_wake_inv_def srw_start_def asleep_def)
  qed (blast intro: srw_step_inv srw_wake_step)
  then have "srw_word s" and "word s \<noteq> 0 \<or> (\<exists>u. retries (srw_at s u))"
    using assms(2) by (auto simp: srw_wake_inv_def srw_inv_def)
  then show ?thesis using srw_word_cases(1) by auto
qed

theorem srw_no_lost_wakeup_witness:
  "asleep (srw_at srw_demo2 8) \<and>
   ((\<exists>w. writer srw_demo2 = Some w) \<or> 0 < size (readers srw_demo2) \<or> (\<exists>u. retries (srw_at srw_demo2 u)))"
proof -
  have a: "asleep (srw_at srw_demo2 8)" by (simp add: srw_demo2_def asleep_def)
  from srw_no_lost_wakeup [OF srw_demo2_reach a] a show ?thesis by (auto simp: nonempty_has_size)
qed

text \<open>A lock that was only zeroed, never passed to \<open>InitializeSRWLock\<close>, does not lock: every
  acquisition and release of it, by any number of threads, returns at once and changes nothing.\<close>

theorem srw_zeroed_does_not_lock:
  assumes "srw_slot hp srw = 0"
  shows "acquire_srw_lock_exclusive srw hp = Some (Some hp) \<and> acquire_srw_lock_shared srw hp = Some (Some hp) \<and>
         release_srw_lock_exclusive srw hp = Some (Some hp) \<and> release_srw_lock_shared srw hp = Some (Some hp)"
  using assms
  by (simp add: acquire_srw_lock_exclusive_def acquire_srw_lock_shared_def release_srw_lock_exclusive_def
      release_srw_lock_shared_def on_srw_def srw_inner_def Let_def)

theorem srw_zeroed_does_not_lock_witness:
  "acquire_srw_lock_exclusive 0x5000 \<lparr>srw_slot = (\<lambda>_. 0), srw_box = Map.empty\<rparr> =
     Some (Some \<lparr>srw_slot = (\<lambda>_. 0), srw_box = Map.empty\<rparr>)"
  using srw_zeroed_does_not_lock [where hp = "\<lparr>srw_slot = (\<lambda>_. 0), srw_box = Map.empty\<rparr>" and srw = "0x5000"]
  by simp

end
