(* ===== verification/KeyMap.thy ===== *)
theory KeyMap
  imports Prelude "HOL-Library.AList"
begin

text \<open>
  The interface of a map, \<open>key_map\<close>, and the hash map of the Rust standard library (\<open>HashMap\<close>) that implements
  it: an association list with distinct keys, in the order of an iteration, which the language leaves open.
\<close>

locale key_map =
  fixes empty :: 'm
    and get :: "'m \<Rightarrow> 'k \<Rightarrow> 'v option"
    and ins :: "'k \<Rightarrow> 'v \<Rightarrow> 'm \<Rightarrow> 'm"
    and del :: "'k \<Rightarrow> 'm \<Rightarrow> 'm"
    and inv :: "'m \<Rightarrow> bool"
  assumes get_empty: "get empty = Map.empty"
    and get_ins: "inv m \<Longrightarrow> get (ins k v m) = (get m)(k \<mapsto> v)"
    and get_del: "inv m \<Longrightarrow> get (del k m) = (get m)(k := None)"
    and inv_empty: "inv empty"
    and inv_ins: "inv m \<Longrightarrow> inv (ins k v m)"
    and inv_del: "inv m \<Longrightarrow> inv (del k m)"
begin

lemma get_ins_same: "inv m \<Longrightarrow> get (ins k v m) k = Some v"
  by (simp add: get_ins)

lemma get_ins_other: "inv m \<Longrightarrow> k' \<noteq> k \<Longrightarrow> get (ins k v m) k' = get m k'"
  by (simp add: get_ins)

lemma ins_del_fresh: "inv m \<Longrightarrow> get m k = None \<Longrightarrow> get (del k (ins k v m)) = get m"
  by (simp add: get_ins get_del inv_ins fun_eq_iff)

text \<open>The entry of a key, put there with a default if it is missing.\<close>

lemma get_entry_or:
  "inv m \<Longrightarrow> get (case get m k of None \<Rightarrow> ins k d m | Some v \<Rightarrow> m) =
     (get m)(k \<mapsto> (case get m k of None \<Rightarrow> d | Some v \<Rightarrow> v))"
  by (auto simp: get_ins fun_eq_iff split: option.splits)

lemma inv_entry_or: "inv m \<Longrightarrow> inv (case get m k of None \<Rightarrow> ins k d m | Some v \<Rightarrow> m)"
  by (simp add: inv_ins split: option.splits)

end

section \<open>The hash map\<close>

type_synonym ('k, 'v) hashmap = "('k \<times> 'v) list"

definition hm_inv :: "('k, 'v) hashmap \<Rightarrow> bool" where
  "hm_inv m \<longleftrightarrow> distinct (map fst m)"

text \<open>\<open>entry(k).or_default()\<close> and \<open>retain\<close>.\<close>

definition or_default :: "'k \<Rightarrow> 'v \<Rightarrow> ('k, 'v) hashmap \<Rightarrow> ('k, 'v) hashmap" where
  "or_default k d m = (case map_of m k of None \<Rightarrow> AList.update k d m | Some v \<Rightarrow> m)"

definition retain :: "('k \<Rightarrow> bool) \<Rightarrow> ('k, 'v) hashmap \<Rightarrow> ('k, 'v) hashmap" where
  "retain keep m = filter (\<lambda>(k, _). keep k) m"

interpretation hm: key_map "[]" map_of AList.update AList.delete hm_inv
  by unfold_locales (auto simp: hm_inv_def update_conv' delete_conv' distinct_update distinct_delete)

lemmas or_default_get = hm.get_entry_or [folded or_default_def]
  and or_default_inv = hm.inv_entry_or [folded or_default_def]

lemma retain_get: "map_of (retain keep m) k = (if keep k then map_of m k else None)"
  by (induction m) (auto simp: retain_def)

lemma retain_inv: "hm_inv m \<Longrightarrow> hm_inv (retain keep m)"
  by (induction m) (auto simp: hm_inv_def retain_def)

text \<open>Counting keys by iterating over the map counts a set of keys.\<close>

lemma keys_count: "hm_inv m \<Longrightarrow> length (filter P (map fst m)) = card {k. P k \<and> map_of m k \<noteq> None}"
proof -
  assume "hm_inv m"
  then have "length (filter P (map fst m)) = card (set (filter P (map fst m)))"
    unfolding hm_inv_def by (metis distinct_card distinct_filter)
  also have "set (filter P (map fst m)) = {k. P k \<and> map_of m k \<noteq> None}"
    by (auto simp: map_of_eq_None_iff) 
  finally show ?thesis .
qed

end
