(* ===== verification/BTree.thy ===== *)
theory BTree
  imports KeyMap
begin

text \<open>
  The ordered map of the Rust standard library (\<open>BTreeMap\<close>) as far as the modelled crates use it: a list of
  pairs in strictly ascending order of the keys. The locale \<open>ordered_map\<close>, a \<open>key_map\<close> with a search from above,
  is the interface its clients prove their lemmas against; it is interpreted on the list.
\<close>

type_synonym ('k, 'v) btree = "('k \<times> 'v) list"

fun bt_insert :: "'k :: linorder \<Rightarrow> 'v \<Rightarrow> ('k, 'v) btree \<Rightarrow> ('k, 'v) btree" where
  "bt_insert k v [] = [(k, v)]"
| "bt_insert k v ((k', v') # xs) =
     (if k < k' then (k, v) # (k', v') # xs
      else if k = k' then (k, v) # xs
      else (k', v') # bt_insert k v xs)"

definition bt_remove :: "'k :: linorder \<Rightarrow> ('k, 'v) btree \<Rightarrow> ('k, 'v) btree" where
  "bt_remove k xs = filter (\<lambda>(k', _). k' \<noteq> k) xs"

definition bt_get :: "('k :: linorder, 'v) btree \<Rightarrow> 'k \<Rightarrow> 'v option" where
  "bt_get xs k = map_of xs k"

text \<open>\<open>range(..=k).next_back()\<close>: the pair with the largest key not above \<open>k\<close>.\<close>

definition bt_last_le :: "'k :: linorder \<Rightarrow> ('k, 'v) btree \<Rightarrow> ('k \<times> 'v) option" where
  "bt_last_le k xs = (case takeWhile (\<lambda>(k', _). k' \<le> k) xs of [] \<Rightarrow> None | ys \<Rightarrow> Some (last ys))"

definition bt_inv :: "('k :: linorder, 'v) btree \<Rightarrow> bool" where
  "bt_inv xs \<longleftrightarrow> sorted_wrt (<) (map fst xs)"

section \<open>The interface\<close>

locale ordered_map = key_map empty get ins del inv
  for empty :: 'm
    and get :: "'m \<Rightarrow> 'k :: linorder \<Rightarrow> 'v option"
    and ins :: "'k \<Rightarrow> 'v \<Rightarrow> 'm \<Rightarrow> 'm"
    and del :: "'k \<Rightarrow> 'm \<Rightarrow> 'm"
    and inv :: "'m \<Rightarrow> bool" +
  fixes last_le :: "'k \<Rightarrow> 'm \<Rightarrow> ('k \<times> 'v) option"
  assumes last_le_None: "inv m \<Longrightarrow> last_le k m = None \<Longrightarrow> k' \<le> k \<Longrightarrow> get m k' = None"
    and last_le_Some: "inv m \<Longrightarrow> last_le k m = Some (k', v) \<Longrightarrow>
        get m k' = Some v \<and> k' \<le> k \<and> (\<forall>k''. k' < k'' \<and> k'' \<le> k \<longrightarrow> get m k'' = None)"
begin

lemma last_le_greatest:
  assumes "inv m" and "get m k' = Some v" and "k' \<le> k"
    and "\<And>k'' v'. get m k'' = Some v' \<Longrightarrow> k'' \<le> k \<Longrightarrow> k'' \<le> k'"
  shows "last_le k m = Some (k', v)"
proof (cases "last_le k m")
  case None
  with last_le_None [OF assms(1) None assms(3)] assms(2) show ?thesis by simp
next
  case (Some kv)
  obtain k2 v2 where kv: "kv = (k2, v2)" by fastforce
  from last_le_Some [OF assms(1) Some [unfolded kv]]
  have l: "get m k2 = Some v2" "k2 \<le> k" "\<not> (k2 < k' \<and> k' \<le> k)" using assms(2) by auto
  with assms(4) [OF l(1,2)] assms(3) have "k2 = k'" by auto
  with l(1) assms(2) Some kv show ?thesis by simp
qed

end

section \<open>The list implements it\<close>

lemma bt_insert_keys: "set (map fst (bt_insert k v xs)) = insert k (set (map fst xs))"
  by (induction k v xs rule: bt_insert.induct) auto

lemma bt_inv_insert: "bt_inv xs \<Longrightarrow> bt_inv (bt_insert k v xs)"
proof (induction k v xs rule: bt_insert.induct)
  case (2 k v k' v' xs)
  then show ?case using bt_insert_keys [of k v xs] by (auto simp: bt_inv_def)
qed (simp add: bt_inv_def)

lemma bt_inv_remove: "bt_inv xs \<Longrightarrow> bt_inv (bt_remove k xs)"
  by (induction xs) (auto simp: bt_inv_def bt_remove_def)

lemma bt_get_insert: "bt_inv xs \<Longrightarrow> bt_get (bt_insert k v xs) = (bt_get xs)(k \<mapsto> v)"
proof (induction k v xs rule: bt_insert.induct)
  case (2 k v k' v' xs)
  then show ?case by (auto simp: bt_inv_def bt_get_def fun_eq_iff)
qed (simp add: bt_get_def fun_eq_iff)

lemma bt_get_remove: "bt_get (bt_remove k xs) = (bt_get xs)(k := None)"
  by (induction xs) (auto simp: bt_remove_def bt_get_def fun_eq_iff)

lemma bt_last_le_Cons:
  "bt_last_le k ((k', v') # xs) =
     (if k' \<le> k then (case bt_last_le k xs of None \<Rightarrow> Some (k', v') | Some p \<Rightarrow> Some p) else None)"
  by (auto simp: bt_last_le_def split: list.splits)

lemma bt_last_le_spec:
  "bt_inv xs \<Longrightarrow>
    (case bt_last_le k xs of
       None \<Rightarrow> \<forall>k' \<le> k. bt_get xs k' = None
     | Some (k', v) \<Rightarrow> bt_get xs k' = Some v \<and> k' \<le> k \<and> (\<forall>k''. k' < k'' \<and> k'' \<le> k \<longrightarrow> bt_get xs k'' = None))"
proof (induction xs)
  case Nil
  then show ?case by (simp add: bt_last_le_def bt_get_def)
next
  case (Cons p xs)
  obtain k1 v1 where p: "p = (k1, v1)" by fastforce
  from Cons.prems p have tl: "bt_inv xs" and lt: "\<And>x. x \<in> fst ` set xs \<Longrightarrow> k1 < x"
    by (auto simp: bt_inv_def)
  have later: "k1 < x" if "bt_get xs x = Some v" for x v
    using lt [of x] map_of_SomeD [OF that [unfolded bt_get_def]] by force
  then have small: "bt_get xs x = None" if "x \<le> k1" for x
    using that by (cases "bt_get xs x") force+
  show ?case
  proof (cases "k1 \<le> k")
    case False
    with small show ?thesis by (auto simp: p bt_last_le_Cons) (auto simp: bt_get_def)
  next
    case True
    show ?thesis
    proof (cases "bt_last_le k xs")
      case None
      with Cons.IH [OF tl] True show ?thesis by (auto simp: p bt_last_le_Cons bt_get_def)
    next
      case (Some q)
      obtain k2 v2 where q: "q = (k2, v2)" by fastforce
      with Some Cons.IH [OF tl] later True show ?thesis
        by (fastforce simp: p bt_last_le_Cons bt_get_def)
    qed
  qed
qed

interpretation bt: ordered_map "[]" bt_get bt_insert bt_remove bt_inv bt_last_le
proof (unfold_locales, goal_cases)
  case (7 m k k')
  then show ?case using bt_last_le_spec [of m k] by simp
next
  case (8 m k k' v)
  then show ?case using bt_last_le_spec [of m k] by simp
next
  case 1
  show ?case by (simp add: bt_get_def fun_eq_iff)
next
  case 4
  show ?case by (simp add: bt_inv_def)
qed (auto simp: bt_get_insert bt_get_remove bt_inv_insert bt_inv_remove)

end
