(* ===== verification/Memory.thy ===== *)
theory Memory
  imports BTree
begin

unbundle bit_operations_syntax

text \<open>
  Virtual memory, \<^verbatim>\<open>crates/ntapi/src/memory.rs\<close>: the table of allocated regions, the translation of protection
  flags, and \<open>VirtualAlloc\<close>, \<open>VirtualFree\<close>, \<open>VirtualProtect\<close>, \<open>VirtualQuery\<close>. The Linux calls \<open>mmap\<close>, \<open>mprotect\<close>
  and \<open>munmap\<close> are parameters (a record of functions on a state of the kernel's); what is relied on of them is
  the predicate \<open>vm_laws\<close>. Addresses and sizes are 64-bit words, and their sums wrap. A null pointer is \<open>0\<close>. The
  page size \<open>page\<close> is a parameter too.
\<close>

section \<open>Flags\<close>

abbreviation MEM_COMMIT :: u32 where "MEM_COMMIT \<equiv> 0x1000"
abbreviation MEM_RESERVE :: u32 where "MEM_RESERVE \<equiv> 0x2000"
abbreviation MEM_DECOMMIT :: u32 where "MEM_DECOMMIT \<equiv> 0x4000"
abbreviation MEM_RELEASE :: u32 where "MEM_RELEASE \<equiv> 0x8000"
abbreviation PAGE_NOACCESS :: u32 where "PAGE_NOACCESS \<equiv> 0x01"
abbreviation PAGE_READONLY :: u32 where "PAGE_READONLY \<equiv> 0x02"
abbreviation PAGE_READWRITE :: u32 where "PAGE_READWRITE \<equiv> 0x04"
abbreviation PAGE_EXECUTE :: u32 where "PAGE_EXECUTE \<equiv> 0x10"
abbreviation PAGE_EXECUTE_READ :: u32 where "PAGE_EXECUTE_READ \<equiv> 0x20"
abbreviation PAGE_EXECUTE_READWRITE :: u32 where "PAGE_EXECUTE_READWRITE \<equiv> 0x40"
abbreviation PROT_NONE :: u32 where "PROT_NONE \<equiv> 0"
abbreviation PROT_READ :: u32 where "PROT_READ \<equiv> 1"
abbreviation PROT_WRITE :: u32 where "PROT_WRITE \<equiv> 2"
abbreviation PROT_EXEC :: u32 where "PROT_EXEC \<equiv> 4"

definition win_prot_to_linux :: "u32 \<Rightarrow> u32" where
  "win_prot_to_linux prot =
     (let p = 0;
          p = (if prot AND (PAGE_READWRITE OR PAGE_EXECUTE_READWRITE) \<noteq> 0
               then p OR (PROT_READ OR PROT_WRITE) else p);
          p = (if prot AND (PAGE_READONLY OR PAGE_EXECUTE_READ) \<noteq> 0 then p OR PROT_READ else p);
          p = (if prot AND (PAGE_EXECUTE OR PAGE_EXECUTE_READ OR PAGE_EXECUTE_READWRITE) \<noteq> 0
               then p OR PROT_EXEC else p)
      in if prot = PAGE_NOACCESS then PROT_NONE else p)"

definition linux_prot_to_win :: "u32 \<Rightarrow> u32" where
  "linux_prot_to_win prot =
     (let r = prot AND PROT_READ \<noteq> 0; w = prot AND PROT_WRITE \<noteq> 0; x = prot AND PROT_EXEC \<noteq> 0 in
      if \<not> r \<and> \<not> w \<and> \<not> x then PAGE_NOACCESS
      else if r \<and> \<not> w \<and> \<not> x then PAGE_READONLY
      else if r \<and> w \<and> \<not> x then PAGE_READWRITE
      else if r \<and> \<not> w \<and> x then PAGE_EXECUTE_READ
      else if r \<and> w \<and> x then PAGE_EXECUTE_READWRITE
      else if \<not> r \<and> \<not> w \<and> x then PAGE_EXECUTE
      else PAGE_READWRITE)"

definition round_up :: "u64 \<Rightarrow> u64 \<Rightarrow> u64" where
  "round_up n page = (n + page - 1) AND NOT (page - 1)"

definition round_down :: "u64 \<Rightarrow> u64 \<Rightarrow> u64" where
  "round_down n page = n AND NOT (page - 1)"

section \<open>The table\<close>

record region =
  base :: u64
  rsize :: u64
  prot :: u32

type_synonym alloc_table = "(u64, region) btree"

definition AllocTable_insert :: "u64 \<Rightarrow> u64 \<Rightarrow> u32 \<Rightarrow> alloc_table \<Rightarrow> alloc_table" where
  "AllocTable_insert b n p t = bt_insert b \<lparr>base = b, rsize = n, prot = p\<rparr> t"

definition AllocTable_remove :: "u64 \<Rightarrow> alloc_table \<Rightarrow> region option \<times> alloc_table" where
  "AllocTable_remove b t = (bt_get t b, bt_remove b t)"

definition containing :: "alloc_table \<Rightarrow> u64 \<Rightarrow> region option" where
  "containing t addr =
     (case bt_last_le addr t of
        None \<Rightarrow> None
      | Some (_, r) \<Rightarrow> if base r \<le> addr \<and> addr < base r + rsize r then Some r else None)"

section \<open>The calls\<close>

text \<open>\<open>mmap\<close>: address hint, length, protection, whether the address is fixed; \<open>None\<close> is \<open>MAP_FAILED\<close>.
  The other two return whether they succeeded.\<close>

record 'm linux_vm =
  mmap :: "u64 \<Rightarrow> u64 \<Rightarrow> u32 \<Rightarrow> bool \<Rightarrow> 'm \<Rightarrow> u64 option \<times> 'm"
  mprotect :: "u64 \<Rightarrow> u64 \<Rightarrow> u32 \<Rightarrow> 'm \<Rightarrow> bool \<times> 'm"
  munmap :: "u64 \<Rightarrow> u64 \<Rightarrow> 'm \<Rightarrow> bool \<times> 'm"

record 'm mem =
  regions :: alloc_table
  vm :: 'm

definition virtual_alloc :: "'m linux_vm \<Rightarrow> u64 \<Rightarrow> u64 \<Rightarrow> u32 \<Rightarrow> u32 \<Rightarrow> 'm mem \<Rightarrow> u64 \<times> 'm mem" where
  "virtual_alloc os page n alloc_type wprot st =
     (if n = 0 then (0, st)
      else if alloc_type AND (MEM_COMMIT OR MEM_RESERVE) = 0 then (0, st)
      else
        (let rounded = round_up n page;
             linux_prot = win_prot_to_linux wprot
         in case mmap os 0 rounded (PROT_READ OR PROT_WRITE) False (vm st) of
              (None, m) \<Rightarrow> (0, st\<lparr>vm := m\<rparr>)
            | (Some b, m) \<Rightarrow>
                (let (ok, m) = (if linux_prot \<noteq> PROT_READ OR PROT_WRITE
                                then mprotect os b rounded linux_prot m else (True, m))
                 in if \<not> ok then (0, st\<lparr>vm := snd (munmap os b rounded m)\<rparr>)
                    else (b, st\<lparr>vm := m, regions := AllocTable_insert b rounded linux_prot (regions st)\<rparr>))))"

definition virtual_free :: "'m linux_vm \<Rightarrow> u64 \<Rightarrow> u64 \<Rightarrow> u64 \<Rightarrow> u32 \<Rightarrow> 'm mem \<Rightarrow> bool \<times> 'm mem" where
  "virtual_free os page addr n free_type st =
     (if addr = 0 then (False, st)
      else if free_type AND MEM_RELEASE \<noteq> 0 then
        (case AllocTable_remove addr (regions st) of
           (None, t) \<Rightarrow> (False, st\<lparr>regions := t\<rparr>)
         | (Some r, t) \<Rightarrow>
             (case munmap os addr (rsize r) (vm st) of (ok, m) \<Rightarrow> (ok, st\<lparr>regions := t, vm := m\<rparr>)))
      else if free_type AND MEM_DECOMMIT \<noteq> 0 then
        if n = 0 then (False, st)
        else
          (let rounded = round_up n page; base_aligned = round_down addr page
           in case munmap os base_aligned rounded (vm st) of
                (False, m) \<Rightarrow> (False, st\<lparr>vm := m\<rparr>)
              | (True, m) \<Rightarrow>
                  (case mmap os base_aligned rounded PROT_NONE True m of
                     (None, m) \<Rightarrow> (False, st\<lparr>vm := m\<rparr>)
                   | (Some _, m) \<Rightarrow> (True, st\<lparr>vm := m\<rparr>)))
      else (False, st))"

text \<open>The result, the old protection written through \<open>old_prot\<close>, and the state.\<close>

definition virtual_protect ::
  "'m linux_vm \<Rightarrow> u64 \<Rightarrow> u64 \<Rightarrow> u64 \<Rightarrow> u32 \<Rightarrow> 'm mem \<Rightarrow> bool \<times> u32 option \<times> 'm mem" where
  "virtual_protect os page addr n new_prot st =
     (if addr = 0 \<or> n = 0 then (False, None, st)
      else
        (let base_aligned = round_down addr page;
             rounded = round_up (n + (addr - base_aligned)) page;
             old = (case containing (regions st) addr of Some r \<Rightarrow> prot r | None \<Rightarrow> PROT_READ OR PROT_WRITE);
             linux_prot = win_prot_to_linux new_prot
         in case mprotect os base_aligned rounded linux_prot (vm st) of
              (False, m) \<Rightarrow> (False, None, st\<lparr>vm := m\<rparr>)
            | (True, m) \<Rightarrow>
                (True, Some (linux_prot_to_win old),
                 st\<lparr>vm := m,
                    regions := (case bt_get (regions st) (round_down addr page) of
                                  Some r \<Rightarrow> bt_insert (round_down addr page) (r\<lparr>prot := linux_prot\<rparr>) (regions st)
                                | None \<Rightarrow> regions st)\<rparr>)))"

record mbi =
  base_address :: u64
  allocation_base :: u64
  allocation_protect :: u32
  region_size :: u64
  mem_state :: u32
  protect :: u32
  mem_type :: u32

text \<open>\<open>buffer\<close> is the address of the output structure, \<open>len\<close> its size; \<open>None\<close>: the call returns 0.\<close>

definition virtual_query :: "u64 \<Rightarrow> u64 \<Rightarrow> u64 \<Rightarrow> 'm mem \<Rightarrow> mbi option" where
  "virtual_query addr buffer len st =
     (if buffer = 0 \<or> len = 0 then None
      else if len < 48 then None
      else
        (case containing (regions st) addr of
           None \<Rightarrow> None
         | Some r \<Rightarrow> Some
             \<lparr>base_address = base r, allocation_base = base r, allocation_protect = PAGE_READWRITE,
              region_size = rsize r, mem_state = MEM_COMMIT, protect = linux_prot_to_win (prot r),
              mem_type = 0x20000\<rparr>))"

section \<open>Rounding\<close>

definition page_ok :: "u64 \<Rightarrow> bool" where
  "page_ok page \<longleftrightarrow> (\<exists>k < 64. page = 2 ^ k)"

lemma unat_and_not_mask: "k < 64 \<Longrightarrow> unat ((x :: u64) AND NOT (2 ^ k - 1)) = unat x div 2 ^ k * 2 ^ k"
proof -
  assume k: "k < 64"
  have "x AND NOT (2 ^ k - 1) = push_bit k (drop_bit k x)"
    by (rule bit_eqI) (auto simp: bit_simps mask_eq_exp_minus_1 [symmetric])
  moreover have "unat (push_bit k (drop_bit k x)) = unat x div 2 ^ k * 2 ^ k"
  proof -
    have "unat (push_bit k (drop_bit k x)) = take_bit 64 (push_bit k (unat x div 2 ^ k))"
      by (simp only: unsigned_push_bit_eq unat_drop_bit_eq) (simp add: drop_bit_eq_div)
    also have "\<dots> = (unat x div 2 ^ k * 2 ^ k) mod 2 ^ 64"
      by (simp add: take_bit_eq_mod push_bit_eq_mult)
    also have "\<dots> = unat x div 2 ^ k * 2 ^ k"
    proof (rule mod_less)
      have "unat x < 2 ^ LENGTH(64)" by (rule unsigned_less)
      then have "unat x < 2 ^ 64" by simp
      then show "unat x div 2 ^ k * 2 ^ k < 2 ^ 64"
        by (rule le_less_trans [OF div_times_less_eq_dividend])
    qed
    finally show ?thesis .
  qed
  ultimately show ?thesis by simp
qed

lemma unat_page: "k < 64 \<Longrightarrow> unat ((2 :: u64) ^ k) = 2 ^ k"
proof -
  assume "k < 64"
  then have "(2 :: nat) ^ k < 2 ^ 64" by (intro power_strict_increasing) simp_all
  then have "unat (of_nat (2 ^ k) :: u64) = 2 ^ k" by (simp add: unat_of_nat del: of_nat_power)
  then show ?thesis by simp
qed

lemma round_down_unat: "page_ok page \<Longrightarrow> unat (round_down n page) = unat n div unat page * unat page"
  unfolding round_down_def page_ok_def by (auto simp: unat_and_not_mask unat_page)

lemma round_up_unat:
  assumes "page_ok page" and "unat n + unat page \<le> 2 ^ 64"
  shows "unat (round_up n page) = (unat n + unat page - 1) div unat page * unat page"
proof -
  from assms(1) obtain k where k: "k < 64" "page = 2 ^ k" by (auto simp: page_ok_def)
  then have pos: "1 \<le> unat page" by (simp add: unat_page)
  have one: "unat (page - 1) = unat page - 1" using pos by (intro unat_minus_one) auto
  have "unat (n + (page - 1)) = unat n + (unat page - 1)"
    using assms(2) pos one by (subst unat_add_lem [THEN iffD1]) simp_all
  then have "unat (n + page - 1) = unat n + unat page - 1" using pos by (simp add: add_diff_eq)
  with k show ?thesis unfolding round_up_def by (simp add: unat_and_not_mask unat_page)
qed

lemma round_down_props:
  assumes "page_ok page"
  shows "unat page dvd unat (round_down n page)" and "unat (round_down n page) \<le> unat n"
    and "unat n < unat (round_down n page) + unat page"
proof -
  have "0 < unat page" using assms by (auto simp: page_ok_def unat_page)
  then have "unat n mod unat page < unat page" by simp
  moreover have "unat n = unat n div unat page * unat page + unat n mod unat page" by simp
  ultimately show "unat n < unat (round_down n page) + unat page" using round_down_unat [OF assms, of n] by linarith
qed (simp_all add: round_down_unat [OF assms])

lemma round_up_props:
  assumes "page_ok page" and "unat n + unat page \<le> 2 ^ 64"
  shows "unat page dvd unat (round_up n page)" and "unat n \<le> unat (round_up n page)"
    and "unat (round_up n page) < unat n + unat page"
proof -
  let ?p = "unat page" and ?n = "unat n"
  have pos: "0 < ?p" using assms(1) by (auto simp: page_ok_def unat_page)
  have up: "(?n + ?p - 1) div ?p * ?p \<le> ?n + ?p - 1" by (rule div_times_less_eq_dividend)
  have "?n + ?p - 1 = (?n + ?p - 1) div ?p * ?p + (?n + ?p - 1) mod ?p" by simp
  moreover have "(?n + ?p - 1) mod ?p < ?p" using pos by simp
  ultimately show "?n \<le> unat (round_up n page)" unfolding round_up_unat [OF assms] by linarith
  show "unat (round_up n page) < ?n + ?p" unfolding round_up_unat [OF assms] using up pos by linarith
qed (simp add: round_up_unat [OF assms])

text \<open>Rounding to pages, for a page size that is a power of two: \<open>round_down\<close> gives the greatest
  multiple of the page size not above its argument, and \<open>round_up\<close> the least multiple not below
  it, as long as the sum does not overflow.\<close>

theorem rounding_correct:
  assumes "page_ok page" and "unat n + unat page \<le> 2 ^ 64"
  shows "unat page dvd unat (round_down n page) \<and> unat (round_down n page) \<le> unat n \<and>
         unat n < unat (round_down n page) + unat page \<and>
         unat page dvd unat (round_up n page) \<and> unat n \<le> unat (round_up n page) \<and>
         unat (round_up n page) < unat n + unat page"
  using round_down_props [OF assms(1)] round_up_props [OF assms] by blast

theorem rounding_correct_witness:
  "unat (4096 :: u64) dvd unat (round_down 5000 4096) \<and> unat (round_down 5000 4096) \<le> unat (5000 :: u64) \<and>
   unat (5000 :: u64) < unat (round_down 5000 4096) + unat (4096 :: u64) \<and>
   unat (4096 :: u64) dvd unat (round_up 5000 4096) \<and> unat (5000 :: u64) \<le> unat (round_up 5000 4096) \<and>
   unat (round_up 5000 4096) < unat (5000 :: u64) + unat (4096 :: u64)"
proof (rule rounding_correct)
  have "(4096 :: u64) = 2 ^ 12" by simp
  then show "page_ok 4096" unfolding page_ok_def by (intro exI [of _ 12]) simp
qed simp

section \<open>Protections\<close>

text \<open>The protection flags round trip: each of the six Windows protections comes back from Linux as
  itself, and each Linux protection without write-only access comes back from Windows as itself.\<close>

theorem prot_round_trip:
  "(\<forall>p \<in> {PAGE_NOACCESS, PAGE_READONLY, PAGE_READWRITE, PAGE_EXECUTE, PAGE_EXECUTE_READ, PAGE_EXECUTE_READWRITE}.
      linux_prot_to_win (win_prot_to_linux p) = p) \<and>
   (\<forall>l \<in> {0, 1, 3, 4, 5, 7}. win_prot_to_linux (linux_prot_to_win l) = l)"
  by (simp add: win_prot_to_linux_def linux_prot_to_win_def Let_def)

theorem prot_round_trip_witness: "linux_prot_to_win (win_prot_to_linux PAGE_EXECUTE_READ) = PAGE_EXECUTE_READ"
  using prot_round_trip by simp

section \<open>What is relied on of Linux\<close>

text \<open>The addresses of a block of memory.\<close>

definition block :: "u64 \<Rightarrow> u64 \<Rightarrow> u64 set" where
  "block b n = {a. unat b \<le> unat a \<and> unat a < unat b + unat n}"

text \<open>
  \<open>mapped m\<close> is the set of mapped addresses. A mapping at an address of the kernel's choice is placed outside
  what is mapped, below the end of the address space and not at address zero; one at a fixed address is
  placed there. \<open>mprotect\<close> maps and unmaps nothing. \<open>munmap\<close> unmaps the range, or fails and does nothing.
\<close>

definition vm_laws :: "'m linux_vm \<Rightarrow> ('m \<Rightarrow> u64 set) \<Rightarrow> bool" where
  "vm_laws os mapped \<longleftrightarrow>
     (\<forall>n p m b m'. mmap os 0 n p False m = (Some b, m') \<longrightarrow>
        b \<noteq> 0 \<and> 0 < unat n \<and> unat b + unat n < 2 ^ 64 \<and> block b n \<inter> mapped m = {} \<and>
        mapped m' = mapped m \<union> block b n) \<and>
     (\<forall>a n p m b m'. mmap os a n p True m = (Some b, m') \<longrightarrow> b = a \<and> mapped m' = mapped m \<union> block a n) \<and>
     (\<forall>a n p f m m'. mmap os a n p f m = (None, m') \<longrightarrow> mapped m' = mapped m) \<and>
     (\<forall>a n p m. mapped (snd (mprotect os a n p m)) = mapped m) \<and>
     (\<forall>a n m m'. munmap os a n m = (True, m') \<longrightarrow> mapped m' = mapped m - block a n) \<and>
     (\<forall>a n m m'. munmap os a n m = (False, m') \<longrightarrow> mapped m' = mapped m)"

lemma vm_lawsD:
  assumes "vm_laws os mapped"
  shows "mmap os 0 n p False m = (Some b, m') \<Longrightarrow>
        b \<noteq> 0 \<and> 0 < unat n \<and> unat b + unat n < 2 ^ 64 \<and> block b n \<inter> mapped m = {} \<and> mapped m' = mapped m \<union> block b n"
    and "mmap os a n p True m = (Some b, m') \<Longrightarrow> b = a \<and> mapped m' = mapped m \<union> block a n"
    and "mmap os a n p f m = (None, m') \<Longrightarrow> mapped m' = mapped m"
    and "mapped (snd (mprotect os a n p m)) = mapped m"
    and "munmap os a n m = (True, m') \<Longrightarrow> mapped m' = mapped m - block a n"
    and "munmap os a n m = (False, m') \<Longrightarrow> mapped m' = mapped m"
  using assms by (simp_all add: vm_laws_def)

section \<open>The invariant\<close>

definition region_ok :: "u64 set \<Rightarrow> u64 \<Rightarrow> region \<Rightarrow> bool" where
  "region_ok M b r \<longleftrightarrow> base r = b \<and> 0 < unat (rsize r) \<and> unat b + unat (rsize r) < 2 ^ 64 \<and> block b (rsize r) \<subseteq> M"

definition apart :: "alloc_table \<Rightarrow> bool" where
  "apart t \<longleftrightarrow> (\<forall>b r b' r'. bt_get t b = Some r \<longrightarrow> bt_get t b' = Some r' \<longrightarrow> b \<noteq> b' \<longrightarrow>
     block b (rsize r) \<inter> block b' (rsize r') = {})"

text \<open>The regions of the table are nonempty, lie in mapped memory and do not overlap.\<close>

definition mem_inv :: "('m \<Rightarrow> u64 set) \<Rightarrow> 'm mem \<Rightarrow> bool" where
  "mem_inv mapped st \<longleftrightarrow> bt_inv (regions st) \<and> apart (regions st) \<and>
     (\<forall>b r. bt_get (regions st) b = Some r \<longrightarrow> region_ok (mapped (vm st)) b r)"

lemma in_block_iff:
  assumes "unat b + unat n < 2 ^ 64"
  shows "a \<in> block b n \<longleftrightarrow> b \<le> a \<and> a < b + n"
proof -
  have "unat (b + n) = unat b + unat n" using assms by (subst unat_add_lem [THEN iffD1]) simp_all
  then show ?thesis by (simp add: block_def word_le_nat_alt word_less_nat_alt)
qed

lemma containing_iff:
  assumes "mem_inv mapped st"
  shows "containing (regions st) a = Some r \<longleftrightarrow> (\<exists>b. bt_get (regions st) b = Some r \<and> a \<in> block b (rsize r))"
proof
  have inv: "bt_inv (regions st)" using assms by (simp add: mem_inv_def)
  have ok: "region_ok (mapped (vm st)) b r" if "bt_get (regions st) b = Some r" for b r
    using assms that by (simp add: mem_inv_def)
  assume "containing (regions st) a = Some r"
  then obtain b where l: "bt_last_le a (regions st) = Some (b, r)" and c: "base r \<le> a" "a < base r + rsize r"
    by (auto simp: containing_def split: option.splits if_splits)
  from bt.last_le_Some [OF inv l] have g: "bt_get (regions st) b = Some r" by simp
  with ok [OF g] c have "a \<in> block b (rsize r)" by (simp add: region_ok_def in_block_iff)
  with g show "\<exists>b. bt_get (regions st) b = Some r \<and> a \<in> block b (rsize r)" by blast
next
  have inv: "bt_inv (regions st)" using assms by (simp add: mem_inv_def)
  have ok: "region_ok (mapped (vm st)) b r" if "bt_get (regions st) b = Some r" for b r
    using assms that by (simp add: mem_inv_def)
  assume "\<exists>b. bt_get (regions st) b = Some r \<and> a \<in> block b (rsize r)"
  then obtain b where g: "bt_get (regions st) b = Some r" and a: "a \<in> block b (rsize r)" by blast
  from ok [OF g] a have c: "base r = b" "b \<le> a" "a < b + rsize r" by (simp_all add: region_ok_def in_block_iff)
  have "bt_last_le a (regions st) = Some (b, r)"
  proof (rule bt.last_le_greatest [OF inv g c(2)])
    fix b2 r2
    assume g2: "bt_get (regions st) b2 = Some r2" and le: "b2 \<le> a"
    show "b2 \<le> b"
    proof (rule ccontr)
      assume "\<not> b2 \<le> b"
      then have "b2 \<in> block b (rsize r)" using a le by (auto simp: block_def word_le_nat_alt)
      moreover have "b2 \<in> block b2 (rsize r2)" using ok [OF g2] by (simp add: block_def region_ok_def)
      moreover have "b \<noteq> b2" using \<open>\<not> b2 \<le> b\<close> by auto
      ultimately show False using assms g g2 unfolding mem_inv_def apart_def by blast
    qed
  qed
  with c show "containing (regions st) a = Some r" by (simp add: containing_def)
qed

text \<open>The table after an insertion beside the old regions, after a removal, and when more is mapped.\<close>

lemma mem_inv_insert:
  assumes "mem_inv mapped st" and "region_ok (mapped m) b r" and "mapped (vm st) \<subseteq> mapped m"
    and "\<And>b' r'. bt_get (regions st) b' = Some r' \<Longrightarrow> b' \<noteq> b \<Longrightarrow> block b (rsize r) \<inter> block b' (rsize r') = {}"
  shows "mem_inv mapped (st\<lparr>vm := m, regions := bt_insert b r (regions st)\<rparr>)"
proof -
  have inv: "bt_inv (regions st)" using assms(1) by (simp add: mem_inv_def)
  have "apart (bt_insert b r (regions st))"
    using assms(1,4) unfolding apart_def mem_inv_def bt.get_ins [OF inv]
    by (auto split: if_splits)
  with assms(1-3) inv show ?thesis
    by (auto simp: mem_inv_def bt.get_ins bt_inv_insert region_ok_def split: if_splits)
qed

lemma mem_inv_mapped:
  assumes "mem_inv mapped st" and "mapped (vm st) \<subseteq> mapped m"
  shows "mem_inv mapped (st\<lparr>vm := m\<rparr>)"
  using assms by (auto simp: mem_inv_def region_ok_def)

lemma mem_inv_remove:
  assumes "mem_inv mapped st" and "bt_get (regions st) b = Some r" and "mapped (vm st) - block b (rsize r) \<subseteq> mapped m"
  shows "mem_inv mapped (st\<lparr>regions := bt_remove b (regions st), vm := m\<rparr>)"
proof -
  have inv: "bt_inv (regions st)" using assms(1) by (simp add: mem_inv_def)
  have "apart (bt_remove b (regions st))"
    using assms(1) unfolding apart_def mem_inv_def bt.get_del [OF inv] by (auto split: if_splits)
  moreover have "region_ok (mapped m) b' r'" if "bt_get (regions st) b' = Some r'" "b' \<noteq> b" for b' r'
  proof -
    have "block b (rsize r) \<inter> block b' (rsize r') = {}"
      using assms(1,2) that unfolding mem_inv_def apart_def by blast
    moreover have "region_ok (mapped (vm st)) b' r'" using assms(1) that(1) by (simp add: mem_inv_def)
    ultimately show ?thesis using assms(3) by (auto simp: region_ok_def)
  qed
  ultimately show ?thesis
    using inv by (auto simp: mem_inv_def bt.get_del bt_inv_remove split: if_splits)
qed

lemma virtual_alloc_inv:
  assumes laws: "vm_laws os mapped" and inv: "mem_inv mapped st"
  shows "mem_inv mapped (snd (virtual_alloc os page n ty wp st))"
proof (cases "n = 0 \<or> ty AND (MEM_COMMIT OR MEM_RESERVE) = 0")
  case True
  with inv show ?thesis by (auto simp: virtual_alloc_def)
next
  case False
  let ?n = "round_up n page" and ?p = "win_prot_to_linux wp"
  obtain bo m where mm: "mmap os 0 ?n (PROT_READ OR PROT_WRITE) False (vm st) = (bo, m)" by fastforce
  show ?thesis
  proof (cases bo)
    case None
    with mm False inv vm_lawsD(3) [OF laws] show ?thesis
      by (auto simp: virtual_alloc_def Let_def intro!: mem_inv_mapped)
  next
    case (Some b)
    note l = vm_lawsD(1) [OF laws mm [unfolded Some]]
    obtain ok m2 where mp: "(if ?p \<noteq> PROT_READ OR PROT_WRITE then mprotect os b ?n ?p m else (True, m)) = (ok, m2)"
      by fastforce
    have m2: "mapped m2 = mapped m"
      using mp vm_lawsD(4) [OF laws, of b ?n ?p m] by (auto split: if_splits)
    show ?thesis
    proof (cases ok)
      case True
      have "mem_inv mapped (st\<lparr>vm := m2, regions := bt_insert b \<lparr>base = b, rsize = ?n, prot = ?p\<rparr> (regions st)\<rparr>)"
      proof (rule mem_inv_insert [OF inv])
        show "region_ok (mapped m2) b \<lparr>base = b, rsize = ?n, prot = ?p\<rparr>" using l m2 by (auto simp: region_ok_def)
        show "mapped (vm st) \<subseteq> mapped m2" using l m2 by auto
        fix b' r'
        assume "bt_get (regions st) b' = Some r'"
        then have "block b' (rsize r') \<subseteq> mapped (vm st)" using inv by (simp add: mem_inv_def region_ok_def)
        with l show "block b (rsize \<lparr>base = b, rsize = ?n, prot = ?p\<rparr>) \<inter> block b' (rsize r') = {}" by auto
      qed
      with True mm Some mp False show ?thesis by (simp add: virtual_alloc_def Let_def AllocTable_insert_def)
    next
      case nok: False
      obtain u m3 where mu: "munmap os b ?n m2 = (u, m3)" by fastforce
      have "mapped (vm st) \<subseteq> mapped m3"
        using vm_lawsD(5,6) [OF laws, of b ?n m2 m3] mu l m2 by (cases u) auto
      with nok mm Some mp mu False inv show ?thesis
        by (auto simp: virtual_alloc_def Let_def intro!: mem_inv_mapped)
    qed
  qed
qed

lemma virtual_free_inv:
  assumes laws: "vm_laws os mapped" and inv: "mem_inv mapped st"
    and "virtual_free os page addr n ft st = (ok, st')" and "ok \<or> ft AND MEM_RELEASE \<noteq> 0"
  shows "mem_inv mapped st'"
proof -
  consider "addr = 0" | "addr \<noteq> 0" "ft AND MEM_RELEASE \<noteq> 0" | "addr \<noteq> 0" "ft AND MEM_RELEASE = 0" "ok"
    using assms(4) by blast
  then show ?thesis
  proof cases
    case 1
    with assms(2,3) show ?thesis by (simp add: virtual_free_def)
  next
    case 2
    show ?thesis
    proof (cases "bt_get (regions st) addr")
      case None
      have "bt_remove addr (regions st) = regions st"
        using None by (force simp: bt_get_def bt_remove_def map_of_eq_None_iff intro!: filter_True)
      with None 2 assms(2,3) show ?thesis by (auto simp: virtual_free_def AllocTable_remove_def)
    next
      case (Some r)
      obtain u m where mu: "munmap os addr (rsize r) (vm st) = (u, m)" by fastforce
      have "mapped (vm st) - block addr (rsize r) \<subseteq> mapped m"
        using vm_lawsD(5,6) [OF laws, of addr "rsize r" "vm st" m] mu by (cases u) auto
      from mem_inv_remove [OF inv Some this] mu Some 2 assms(3) show ?thesis
        by (auto simp: virtual_free_def AllocTable_remove_def)
    qed
  next
    case 3
    let ?a = "round_down addr page" and ?n = "round_up n page"
    from 3 assms(3) obtain m1 m2 x where "munmap os ?a ?n (vm st) = (True, m1)" "mmap os ?a ?n PROT_NONE True m1 = (Some x, m2)"
      and st': "st' = st\<lparr>vm := m2\<rparr>"
      by (auto simp: virtual_free_def Let_def split: if_splits prod.splits bool.splits option.splits)
    then have "mapped (vm st) \<subseteq> mapped m2"
      using vm_lawsD(5) [OF laws, of ?a ?n "vm st" m1] vm_lawsD(2) [OF laws, of ?a ?n PROT_NONE m1 x m2] by auto
    with st' inv show ?thesis by (auto intro: mem_inv_mapped)
  qed
qed

lemma virtual_protect_inv:
  assumes laws: "vm_laws os mapped" and inv: "mem_inv mapped st"
  shows "mem_inv mapped (snd (snd (virtual_protect os page addr n wp st)))"
proof -
  let ?a = "round_down addr page"
  obtain ok m where mp: "mprotect os ?a (round_up (n + (addr - ?a)) page) (win_prot_to_linux wp) (vm st) = (ok, m)"
    by fastforce
  then have m: "mapped m = mapped (vm st)"
    using vm_lawsD(4) [OF laws, of ?a "round_up (n + (addr - ?a)) page" "win_prot_to_linux wp" "vm st"] by simp
  have ins: "mem_inv mapped (st\<lparr>vm := m, regions := bt_insert ?a (r\<lparr>prot := p\<rparr>) (regions st)\<rparr>)"
    if g: "bt_get (regions st) ?a = Some r" for r p
  proof (rule mem_inv_insert [OF inv])
    show "region_ok (mapped m) ?a (r\<lparr>prot := p\<rparr>)" using inv g m by (simp add: mem_inv_def region_ok_def)
    show "mapped (vm st) \<subseteq> mapped m" using m by simp
    show "block ?a (rsize (r\<lparr>prot := p\<rparr>)) \<inter> block b' (rsize r') = {}"
      if "bt_get (regions st) b' = Some r'" "b' \<noteq> ?a" for b' r'
      using inv g that unfolding mem_inv_def apart_def by simp
  qed
  show ?thesis
    using mp inv ins mem_inv_mapped [OF inv, of m] m
    by (auto simp: virtual_protect_def Let_def split: bool.split option.split)
qed

section \<open>Sequences of calls\<close>

text \<open>The states that calls reach from an empty table. A decommit that unmaps the range and cannot map it again is
  left out.\<close>

inductive mem_reach :: "'m linux_vm \<Rightarrow> u64 \<Rightarrow> 'm mem \<Rightarrow> bool" for os page where
  empty: "mem_reach os page \<lparr>regions = [], vm = m\<rparr>"
| alloc: "mem_reach os page st \<Longrightarrow> mem_reach os page (snd (virtual_alloc os page n ty wp st))"
| free: "mem_reach os page st \<Longrightarrow> virtual_free os page addr n ft st = (ok, st') \<Longrightarrow>
    ok \<or> ft AND MEM_RELEASE \<noteq> 0 \<Longrightarrow> mem_reach os page st'"
| protect: "mem_reach os page st \<Longrightarrow> mem_reach os page (snd (snd (virtual_protect os page addr n wp st)))"

lemma mem_reach_inv: "mem_reach os page st \<Longrightarrow> vm_laws os mapped \<Longrightarrow> mem_inv mapped st"
proof (induction rule: mem_reach.induct)
  case (empty m)
  show ?case by (simp add: mem_inv_def apart_def bt_get_def bt_inv_def)
qed (auto intro: virtual_alloc_inv virtual_free_inv virtual_protect_inv)


text \<open>A small kernel for the witnesses: it maps at one address, if nothing is there.\<close>

definition demo_vm :: "u64 set linux_vm" where
  "demo_vm = \<lparr>
     mmap = (\<lambda>a n p fixed m.
       if fixed then (Some a, m \<union> block a n)
       else if 0 < unat n \<and> unat n \<le> 0x100000 \<and> block 0x10000 n \<inter> m = {} then (Some 0x10000, m \<union> block 0x10000 n)
       else (None, m)),
     mprotect = (\<lambda>a n p m. (True, m)),
     munmap = (\<lambda>a n m. (True, m - block a n))\<rparr>"

lemma demo_vm_laws: "vm_laws demo_vm id"
  by (auto simp: vm_laws_def demo_vm_def split: if_splits)

definition demo_mem :: "u64 set mem" where
  "demo_mem = snd (virtual_alloc demo_vm 4096 8192 MEM_COMMIT PAGE_READWRITE \<lparr>regions = [], vm = {}\<rparr>)"

lemma demo_alloc:
  "virtual_alloc demo_vm 4096 8192 MEM_COMMIT PAGE_READWRITE \<lparr>regions = [], vm = {}\<rparr> =
     (0x10000, \<lparr>regions = [(0x10000, \<lparr>base = 0x10000, rsize = 8192, prot = 3\<rparr>)], vm = block 0x10000 8192\<rparr>)"
  by (simp add: virtual_alloc_def demo_vm_def round_up_def win_prot_to_linux_def AllocTable_insert_def Let_def)

lemma demo_reach: "mem_reach demo_vm 4096 demo_mem"
  unfolding demo_mem_def by (rule mem_reach.alloc [OF mem_reach.empty])


lemma virtual_alloc_Some:
  assumes "virtual_alloc os page n ty wp st = (b, st')" and "b \<noteq> 0"
  shows "regions st' = bt_insert b \<lparr>base = b, rsize = round_up n page, prot = win_prot_to_linux wp\<rparr> (regions st)"
  using assms
  by (auto simp: virtual_alloc_def AllocTable_insert_def Let_def split: if_splits option.splits prod.splits)

text \<open>What \<open>VirtualAlloc\<close> hands out, \<open>VirtualQuery\<close> describes: at every address of the new block it
  reports the block's base, its size rounded up to pages and the protection asked for; and after the block is
  released no address of it belongs to a region.\<close>

theorem alloc_query_release:
  assumes "vm_laws os mapped" and "mem_reach os page st"
    and "virtual_alloc os page n ty wp st = (b, st1)" and "b \<noteq> 0" and "a \<in> block b (round_up n page)"
    and "virtual_free os page b 0 MEM_RELEASE st1 = (ok, st2)"
  shows "virtual_query a buf 48 st1 = (if buf = 0 then None else Some
           \<lparr>base_address = b, allocation_base = b, allocation_protect = PAGE_READWRITE,
            region_size = round_up n page, mem_state = MEM_COMMIT,
            protect = linux_prot_to_win (win_prot_to_linux wp), mem_type = 0x20000\<rparr>) \<and>
         virtual_query a buf 48 st2 = None"
proof -
  let ?r = "\<lparr>base = b, rsize = round_up n page, prot = win_prot_to_linux wp\<rparr>"
  have st1: "mem_reach os page st1" using mem_reach.alloc [OF assms(2), of n ty wp] assms(3) by simp
  have st2: "mem_reach os page st2" by (rule mem_reach.free [OF st1 assms(6)]) simp
  note inv = mem_reach_inv [OF assms(2,1)] mem_reach_inv [OF st1 assms(1)] mem_reach_inv [OF st2 assms(1)]
  have bt: "bt_inv (regions st)" "bt_inv (regions st1)" using inv by (simp_all add: mem_inv_def)
  have g1: "bt_get (regions st1) = (bt_get (regions st))(b \<mapsto> ?r)"
    by (simp add: virtual_alloc_Some [OF assms(3,4)] bt.get_ins [OF bt(1)])
  then have q1: "containing (regions st1) a = Some ?r" using containing_iff [OF inv(2)] assms(5) by auto
  have "regions st2 = bt_remove b (regions st1)"
    using assms(4,6) g1 by (auto simp: virtual_free_def AllocTable_remove_def split: prod.splits)
  then have g2: "bt_get (regions st2) = (bt_get (regions st1))(b := None)" by (simp add: bt.get_del [OF bt(2)])
  have "containing (regions st2) a = None"
  proof (cases "containing (regions st2) a")
    case (Some r)
    then obtain b' where b': "bt_get (regions st2) b' = Some r" "a \<in> block b' (rsize r)"
      using containing_iff [OF inv(3)] by auto
    with g2 have "b' \<noteq> b" "bt_get (regions st1) b' = Some r" by (auto split: if_splits)
    moreover from this b'(2) have "containing (regions st1) a = Some r" using containing_iff [OF inv(2)] by blast
    ultimately have "base ?r = b'" using q1 inv(2) by (auto simp: mem_inv_def region_ok_def)
    with \<open>b' \<noteq> b\<close> show ?thesis by simp
  qed
  with q1 show ?thesis by (simp add: virtual_query_def)
qed

theorem alloc_query_release_witness:
  "virtual_query 0x11000 0x500 48 demo_mem = Some
     \<lparr>base_address = 0x10000, allocation_base = 0x10000, allocation_protect = PAGE_READWRITE,
      region_size = round_up 8192 4096, mem_state = MEM_COMMIT,
      protect = linux_prot_to_win (win_prot_to_linux PAGE_READWRITE), mem_type = 0x20000\<rparr>"
proof -
  obtain ok st2 where f: "virtual_free demo_vm 4096 0x10000 0 MEM_RELEASE demo_mem = (ok, st2)" by fastforce
  have a: "virtual_alloc demo_vm 4096 8192 MEM_COMMIT PAGE_READWRITE \<lparr>regions = [], vm = {}\<rparr> = (0x10000, demo_mem)"
    using demo_alloc by (simp add: demo_mem_def)
  have "0x11000 \<in> block 0x10000 (round_up 8192 4096)" by (simp add: block_def round_up_def)
  from alloc_query_release [OF demo_vm_laws mem_reach.empty a _ this f, of "0x500"] show ?thesis by simp
qed

text \<open>\<open>VirtualProtect\<close> on a part of a region is recorded wrongly: changing the first page of a region marks
  the whole region, so \<open>VirtualQuery\<close> reports the new protection for pages that kept the old one; changing a page
  inside a region is not recorded at all.\<close>

theorem protect_part_misrecorded:
  assumes "mem_reach os page st" and "vm_laws os mapped" and "bt_get (regions st) b = Some r"
    and "a \<in> block b (rsize r)" and "addr \<in> block b (rsize r)" and "addr \<noteq> 0"
    and "virtual_protect os page addr n wp st = (True, old, st')"
  shows "(round_down addr page = b \<longrightarrow>
            map_option prot (containing (regions st') a) = Some (win_prot_to_linux wp)) \<and>
         (bt_get (regions st) (round_down addr page) = None \<longrightarrow> regions st' = regions st)"
proof (intro conjI impI)
  have st': "mem_reach os page st'" using mem_reach.protect [OF assms(1), of addr n wp] assms(7) by simp
  note inv = mem_reach_inv [OF assms(1,2)] mem_reach_inv [OF st' assms(2)]
  assume "round_down addr page = b"
  with assms(3,7) have "regions st' = bt_insert b (r\<lparr>prot := win_prot_to_linux wp\<rparr>) (regions st)"
    by (auto simp: virtual_protect_def Let_def split: if_splits prod.splits bool.splits)
  then have "bt_get (regions st') b = Some (r\<lparr>prot := win_prot_to_linux wp\<rparr>)"
    using inv(1) by (simp add: bt.get_ins mem_inv_def)
  then have "containing (regions st') a = Some (r\<lparr>prot := win_prot_to_linux wp\<rparr>)"
    using containing_iff [OF inv(2)] assms(4) by auto
  then show "map_option prot (containing (regions st') a) = Some (win_prot_to_linux wp)" by simp
next
  assume "bt_get (regions st) (round_down addr page) = None"
  with assms(7) show "regions st' = regions st"
    by (auto simp: virtual_protect_def Let_def split: if_splits prod.splits bool.splits)
qed

theorem protect_part_misrecorded_witness:
  "map_option prot (containing (regions (snd (snd (virtual_protect demo_vm 4096 0x10000 4096 PAGE_READONLY demo_mem)))) 0x11000) =
     Some (win_prot_to_linux PAGE_READONLY)"
proof -
  obtain ok old st' where p: "virtual_protect demo_vm 4096 0x10000 4096 PAGE_READONLY demo_mem = (ok, old, st')"
    by (metis prod_cases3)
  then have ok by (auto simp: virtual_protect_def demo_vm_def Let_def)
  then have p': "virtual_protect demo_vm 4096 0x10000 4096 PAGE_READONLY demo_mem = (True, old, st')" using p by simp
  have g: "bt_get (regions demo_mem) 0x10000 = Some \<lparr>base = 0x10000, rsize = 8192, prot = 3\<rparr>"
    by (simp add: demo_mem_def demo_alloc bt_get_def)
  have m: "0x11000 \<in> block 0x10000 (rsize \<lparr>base = 0x10000, rsize = 8192, prot = 3\<rparr>)"
    "0x10000 \<in> block 0x10000 (rsize \<lparr>base = 0x10000, rsize = 8192, prot = 3\<rparr>)" by (simp_all add: block_def)
  have "round_down 0x10000 4096 = 0x10000" by (simp add: round_down_def)
  with protect_part_misrecorded [OF demo_reach demo_vm_laws g m _ p'] show ?thesis using p' by simp
qed

text \<open>A decommit is no release: when it succeeds the region stays in the table as it was, and
  \<open>VirtualQuery\<close> still reports its pages as committed, with the protection they had.\<close>

theorem decommit_keeps_region:
  assumes "ft AND MEM_RELEASE = 0" and "virtual_free os page addr n ft st = (True, st')"
  shows "regions st' = regions st \<and> virtual_query a buf len st' = virtual_query a buf len st"
proof -
  have "regions st' = regions st" using assms
    by (auto simp: virtual_free_def Let_def split: if_splits prod.splits bool.splits option.splits)
  then show ?thesis by (simp add: virtual_query_def)
qed

theorem decommit_keeps_region_witness:
  "regions (snd (virtual_free demo_vm 4096 0x10000 4096 MEM_DECOMMIT demo_mem)) = regions demo_mem"
proof -
  obtain ok st' where f: "virtual_free demo_vm 4096 0x10000 4096 MEM_DECOMMIT demo_mem = (ok, st')" by fastforce
  then have ok by (auto simp: virtual_free_def demo_vm_def Let_def)
  with f have "virtual_free demo_vm 4096 0x10000 4096 MEM_DECOMMIT demo_mem = (True, st')" by simp
  from decommit_keeps_region [OF _ this] f show ?thesis by simp
qed

end
