(* ===== verification/Thread.thy ===== *)
theory Thread
  imports SyncSpec
begin

text \<open>
  Threads and thread-local storage, \<^verbatim>\<open>crates/ntapi/src/thread.rs\<close>. Starting a host thread is outside the
  model: whether it succeeds, and the id the child has stored by the time it is read, are arguments of
  \<open>create_thread\<close>. The slots are a list of \<open>TLS_MINIMUM_AVAILABLE\<close> records, each with the values of the threads
  that set one; \<open>tid\<close> is the id of the calling thread.
\<close>

section \<open>Threads\<close>

definition create_thread :: "bool \<Rightarrow> u32 \<Rightarrow> u64 \<Rightarrow> u64 \<Rightarrow> kernel \<Rightarrow> handle \<times> kernel" where
  "create_thread spawned child_tid start tid_out k =
     (if start = 0 then (0, k)
      else if \<not> spawned then (0, k)
      else
        (let a = next_arc k;
             k = k\<lparr>next_arc := a + 1, thread_tid := (thread_tid k)(a := child_tid)\<rparr>;
             k = (if tid_out \<noteq> 0 then write_le 4 tid_out (ucast child_tid) k else k)
         in create_handle (OThread a) k))"

definition get_current_thread :: handle where
  "get_current_thread = 0xFFFFFFFFFFFFFFFF - 1"

definition get_current_process :: handle where
  "get_current_process = 0xFFFFFFFFFFFFFFFF"

definition get_thread_id :: "handle \<Rightarrow> kernel \<Rightarrow> u32 \<times> kernel" where
  "get_thread_id h k = (let r = with_cloned h k in
     case r of Some (OThread a) \<Rightarrow> (thread_tid k a, k) | _ \<Rightarrow> (0, drop_ref r k))"

definition resume_thread :: "handle \<Rightarrow> u32" where
  "resume_thread h = 0"

definition suspend_thread :: "handle \<Rightarrow> u32" where
  "suspend_thread h = 0"

section \<open>Thread-local storage\<close>

abbreviation TLS_MINIMUM_AVAILABLE :: nat where "TLS_MINIMUM_AVAILABLE \<equiv> 64"
abbreviation TLS_OUT_OF_INDEXES :: u32 where "TLS_OUT_OF_INDEXES \<equiv> 0xFFFFFFFF"

record tls_slot =
  in_use :: bool
  slot_values :: "u64 \<rightharpoonup> u64"

type_synonym tls = "tls_slot list"

definition tls_slots :: tls where
  "tls_slots = replicate TLS_MINIMUM_AVAILABLE \<lparr>in_use = False, slot_values = Map.empty\<rparr>"

text \<open>The loop over the slots, from index \<open>i\<close>.\<close>

fun tls_alloc_from :: "nat \<Rightarrow> tls \<Rightarrow> u32 \<times> tls" where
  "tls_alloc_from i [] = (TLS_OUT_OF_INDEXES, [])"
| "tls_alloc_from i (s # ss) =
     (if \<not> in_use s then (of_nat i, s\<lparr>in_use := True\<rparr> # ss)
      else case tls_alloc_from (i + 1) ss of (r, ss') \<Rightarrow> (r, s # ss'))"

definition tls_alloc :: "tls \<Rightarrow> u32 \<times> tls" where
  "tls_alloc ss = tls_alloc_from 0 ss"

definition tls_free :: "u32 \<Rightarrow> tls \<Rightarrow> bool \<times> tls" where
  "tls_free i ss =
     (if TLS_MINIMUM_AVAILABLE \<le> unat i then (False, ss)
      else if \<not> in_use (ss ! unat i) then (False, ss)
      else (True, ss[unat i := \<lparr>in_use = False, slot_values = Map.empty\<rparr>]))"

definition tls_get_value :: "u64 \<Rightarrow> u32 \<Rightarrow> tls \<Rightarrow> u64" where
  "tls_get_value tid i ss =
     (if TLS_MINIMUM_AVAILABLE \<le> unat i then 0
      else case slot_values (ss ! unat i) tid of Some v \<Rightarrow> v | None \<Rightarrow> 0)"

definition tls_set_value :: "u64 \<Rightarrow> u32 \<Rightarrow> u64 \<Rightarrow> tls \<Rightarrow> bool \<times> tls" where
  "tls_set_value tid i v ss =
     (if TLS_MINIMUM_AVAILABLE \<le> unat i then (False, ss)
      else (True, ss[unat i := (ss ! unat i)\<lparr>slot_values := (slot_values (ss ! unat i))(tid \<mapsto> v)\<rparr>]))"

section \<open>Allocation\<close>

definition tls_ok :: "tls \<Rightarrow> bool" where
  "tls_ok ss \<longleftrightarrow> length ss = TLS_MINIMUM_AVAILABLE"

lemma tls_alloc_from_spec:
  "i + length ss < 2 ^ 32 - 1 \<Longrightarrow> tls_alloc_from i ss =
     (case find (\<lambda>j. \<not> in_use (ss ! j)) [0..<length ss] of
        None \<Rightarrow> (TLS_OUT_OF_INDEXES, ss)
      | Some j \<Rightarrow> (of_nat (i + j), ss[j := (ss ! j)\<lparr>in_use := True\<rparr>]))"
proof (induction i ss rule: tls_alloc_from.induct)
  case (2 i s ss)
  have upt: "[0..<length (s # ss)] = 0 # map Suc [0..<length ss]"
    by (simp only: length_Cons upt_conv_Cons zero_less_Suc map_Suc_upt)
  have shift: "find (\<lambda>j. \<not> in_use ((s # ss) ! j)) (map Suc js) = map_option Suc (find (\<lambda>j. \<not> in_use (ss ! j)) js)" for js
    by (induction js) simp_all
  show ?case
  proof (cases "in_use s")
    case False
    then show ?thesis unfolding upt by simp
  next
    case True
    with 2 show ?thesis unfolding upt using shift [of "[0..<length ss]"]
      by (auto split: option.splits)
  qed
qed simp

lemma find_upt: "find P [0..<n] = Some j \<Longrightarrow> j < n \<and> P j \<and> (\<forall>i < j. \<not> P i)"
  by (auto simp: find_Some_iff)

lemma tls_alloc_eq:
  "tls_ok ss \<Longrightarrow> tls_alloc ss =
     (case find (\<lambda>j. \<not> in_use (ss ! j)) [0..<64] of
        None \<Rightarrow> (TLS_OUT_OF_INDEXES, ss)
      | Some j \<Rightarrow> (of_nat j, ss[j := (ss ! j)\<lparr>in_use := True\<rparr>]))"
  using tls_alloc_from_spec [of 0 ss] by (simp add: tls_alloc_def tls_ok_def split: option.split)

text \<open>\<open>TlsAlloc\<close> returns the lowest slot that is free, marks it and nothing else, or reports that all 64
  are in use and changes nothing.\<close>

theorem tls_alloc_lowest:
  assumes "tls_ok ss" and "tls_alloc ss = (i, ss')"
  shows "i = TLS_OUT_OF_INDEXES \<and> ss' = ss \<and> (\<forall>j < 64. in_use (ss ! j)) \<or>
         unat i < 64 \<and> \<not> in_use (ss ! unat i) \<and> (\<forall>j < unat i. in_use (ss ! j)) \<and>
         ss' = ss[unat i := (ss ! unat i)\<lparr>in_use := True\<rparr>]"
proof (cases "find (\<lambda>j. \<not> in_use (ss ! j)) [0..<64]")
  case None
  with assms show ?thesis by (auto simp: tls_alloc_eq find_None_iff)
next
  case (Some j)
  with assms have i: "i = of_nat j" "ss' = ss[j := (ss ! j)\<lparr>in_use := True\<rparr>]" by (auto simp: tls_alloc_eq)
  note j = find_upt [OF Some]
  then have "unat i = j" using i(1) by (simp add: unat_of_nat)
  with i j show ?thesis by auto
qed

theorem tls_alloc_lowest_witness:
  "(0 :: u32) = TLS_OUT_OF_INDEXES \<and> tls_slots[0 := (tls_slots ! 0)\<lparr>in_use := True\<rparr>] = tls_slots \<and> (\<forall>j < 64. in_use (tls_slots ! j)) \<or>
   unat (0 :: u32) < 64 \<and> \<not> in_use (tls_slots ! unat (0 :: u32)) \<and> (\<forall>j < unat (0 :: u32). in_use (tls_slots ! j)) \<and>
   tls_slots[0 := (tls_slots ! 0)\<lparr>in_use := True\<rparr>] =
     tls_slots[unat (0 :: u32) := (tls_slots ! unat (0 :: u32))\<lparr>in_use := True\<rparr>]"
  by (rule tls_alloc_lowest) (simp_all add: tls_ok_def tls_slots_def tls_alloc_def numeral_eq_Suc)

text \<open>A value set by a thread is read back by that thread and by no other; setting it changes no other slot and
  no other thread's value; and freeing the slot clears it for every thread.\<close>

theorem tls_isolated:
  assumes "tls_ok ss" and "unat i < 64" and "unat i' < 64"
    and "tls_set_value tid i v ss = (ok, ss1)" and "tls_free i ss1 = (True, ss2)"
  shows "ok \<and> tls_get_value tid' i' ss1 = (if tid' = tid \<and> i' = i then v else tls_get_value tid' i' ss) \<and>
         tls_get_value tid' i ss2 = 0"
proof -
  have ss1: "ok" "ss1 = ss[unat i := (ss ! unat i)\<lparr>slot_values := (slot_values (ss ! unat i))(tid \<mapsto> v)\<rparr>]"
    using assms(2,4) by (auto simp: tls_set_value_def)
  have ss2: "ss2 = ss1[unat i := \<lparr>in_use = False, slot_values = Map.empty\<rparr>]"
    using assms(2,5) by (auto simp: tls_free_def split: if_splits)
  have "unat i' = unat i \<longleftrightarrow> i' = i" by (simp add: word_unat_eq_iff)
  with assms(1-3) ss1 ss2 show ?thesis
    by (auto simp: tls_get_value_def tls_ok_def nth_list_update)
qed

theorem tls_isolated_witness:
  "tls_get_value 8 0 (snd (tls_set_value 7 0 5 (snd (tls_alloc tls_slots)))) =
     tls_get_value 8 0 (snd (tls_alloc tls_slots))"
proof -
  let ?ss = "snd (tls_alloc tls_slots)"
  have ss: "tls_ok ?ss" "in_use (?ss ! 0)" by (simp_all add: tls_ok_def tls_slots_def tls_alloc_def numeral_eq_Suc)
  obtain ok ss1 where s: "tls_set_value 7 0 5 ?ss = (ok, ss1)" by fastforce
  obtain ok2 ss2 where f: "tls_free 0 ss1 = (ok2, ss2)" by fastforce
  have ok2 using s f ss by (auto simp: tls_set_value_def tls_free_def tls_ok_def split: if_splits)
  with f have "tls_free 0 ss1 = (True, ss2)" by simp
  from tls_isolated [OF ss(1) _ _ s this, of 0 8] s show ?thesis by simp
qed

text \<open>\<open>TlsAlloc\<close> does not clear the slot it hands out, and \<open>TlsSetValue\<close> does not ask whether a slot is allocated:
  a value set on a free slot is what the thread reads after the slot has been allocated.\<close>

theorem tls_stale_value:
  assumes "tls_ok ss" and "tls_alloc ss = (i, ss')" and "unat i < 64"
  shows "fst (tls_alloc (snd (tls_set_value tid i v ss))) = i \<and>
         tls_get_value tid i (snd (tls_alloc (snd (tls_set_value tid i v ss)))) = v"
proof -
  define ss1 where "ss1 = ss[unat i := (ss ! unat i)\<lparr>slot_values := (slot_values (ss ! unat i))(tid \<mapsto> v)\<rparr>]"
  have set: "snd (tls_set_value tid i v ss) = ss1" using assms(3) by (simp add: tls_set_value_def ss1_def)
  have len: "length ss = 64" "length ss1 = 64" using assms(1) by (simp_all add: tls_ok_def ss1_def)
  have "in_use (ss1 ! j) = in_use (ss ! j)" for j
    using assms(3) len by (cases "j = unat i") (simp_all add: ss1_def)
  then have find: "find (\<lambda>j. \<not> in_use (ss1 ! j)) [0..<64] = find (\<lambda>j. \<not> in_use (ss ! j)) [0..<64]" by simp
  have "find (\<lambda>j. \<not> in_use (ss ! j)) [0..<64] \<noteq> None"
    using assms by (auto simp: tls_alloc_eq split: option.splits)
  then obtain j where j: "find (\<lambda>j. \<not> in_use (ss ! j)) [0..<64] = Some j" by blast
  with assms(1,2) have i: "i = of_nat j" by (simp add: tls_alloc_eq)
  then have u: "unat i = j" using find_upt [OF j] by (simp add: unat_of_nat)
  have "tls_alloc ss1 = (i, ss1[j := (ss1 ! j)\<lparr>in_use := True\<rparr>])"
    using j i find by (subst tls_alloc_eq) (simp_all add: tls_ok_def len)
  moreover have "slot_values (ss1 ! j) tid = Some v" using u assms(3) len by (simp add: ss1_def)
  ultimately show ?thesis using set u assms(3) len by (simp add: tls_get_value_def)
qed

theorem tls_stale_value_witness:
  "fst (tls_alloc (snd (tls_set_value 7 0 5 tls_slots))) = 0 \<and>
   tls_get_value 7 0 (snd (tls_alloc (snd (tls_set_value 7 0 5 tls_slots)))) = 5"
  by (rule tls_stale_value [of _ _ "tls_slots[0 := (tls_slots ! 0)\<lparr>in_use := True\<rparr>]"])
     (simp_all add: tls_ok_def tls_slots_def tls_alloc_def numeral_eq_Suc)

end
