(* ===== verification/Utf.thy ===== *)
theory Utf
  imports Prelude
begin

text \<open>
  Text as the Rust standard library keeps it. A \<open>String\<close> is the list of its Unicode scalar values; \<open>utf8\<close> gives its
  bytes (\<open>into_bytes\<close>), \<open>from_utf8\<close> is the checked decoder \<open>String::from_utf8\<close>, \<open>encode_utf16\<close> the code units and
  \<open>from_utf16_lossy\<close> the decoder that puts U+FFFD for an unpaired surrogate. The lemmas are the round trips between them.
\<close>

type_synonym rstring = "nat list"

definition is_scalar :: "nat \<Rightarrow> bool" where
  "is_scalar c \<longleftrightarrow> c < 0xD800 \<or> 0xE000 \<le> c \<and> c < 0x110000"

section \<open>UTF-16\<close>

definition utf16_char :: "nat \<Rightarrow> u16 list" where
  "utf16_char c =
     (if c < 0x10000 then [of_nat c]
      else [of_nat (0xD800 + (c - 0x10000) div 0x400), of_nat (0xDC00 + (c - 0x10000) mod 0x400)])"

definition encode_utf16 :: "rstring \<Rightarrow> u16 list" where
  "encode_utf16 s = concat (map utf16_char s)"

fun from_utf16_lossy :: "u16 list \<Rightarrow> rstring" where
  "from_utf16_lossy [] = []"
| "from_utf16_lossy (u # us) =
     (if unat u < 0xD800 \<or> 0xE000 \<le> unat u then unat u # from_utf16_lossy us
      else if 0xDC00 \<le> unat u then 0xFFFD # from_utf16_lossy us
      else
        (case us of
           [] \<Rightarrow> [0xFFFD]
         | v # vs \<Rightarrow>
             if 0xDC00 \<le> unat v \<and> unat v < 0xE000
             then (0x10000 + (unat u - 0xD800) * 0x400 + (unat v - 0xDC00)) # from_utf16_lossy vs
             else 0xFFFD # from_utf16_lossy us))"

lemma unat_of_nat_16: "c < 0x10000 \<Longrightarrow> unat (of_nat c :: u16) = c"
  by (simp add: unat_of_nat take_bit_nat_eq_self)

lemma from_utf16_char: "is_scalar c \<Longrightarrow> from_utf16_lossy (utf16_char c @ us) = c # from_utf16_lossy us"
proof (cases "c < 0x10000")
  case True
  moreover assume "is_scalar c"
  ultimately show ?thesis by (auto simp: utf16_char_def unat_of_nat_16 is_scalar_def)
next
  case False
  moreover assume "is_scalar c"
  ultimately have c: "0x10000 \<le> c" "c < 0x110000" by (auto simp: is_scalar_def)
  define d where "d = c - 0x10000"
  with c have d: "c = 0x10000 + d" "d < 0x100000" by auto
  then have m: "d div 0x400 < 0x400" "d mod 0x400 < 0x400" "d div 0x400 * 0x400 + d mod 0x400 = d" by auto
  define h l :: u16 where "h = of_nat (0xD800 + d div 0x400)" and "l = of_nat (0xDC00 + d mod 0x400)"
  have "unat h = 0xD800 + d div 0x400" "unat l = 0xDC00 + d mod 0x400"
    unfolding h_def l_def by (rule unat_of_nat_16, use m in linarith)+
  moreover have "utf16_char c = [h, l]" using d by (simp add: utf16_char_def h_def l_def)
  ultimately show ?thesis using d m by simp
qed

lemma from_encode_utf16: "\<forall>c \<in> set s. is_scalar c \<Longrightarrow> from_utf16_lossy (encode_utf16 s) = s"
  by (induction s) (simp_all add: encode_utf16_def from_utf16_char)

lemma from_utf16_scalar: "\<forall>c \<in> set (from_utf16_lossy us). is_scalar c"
proof (induction us rule: from_utf16_lossy.induct)
  case (2 u us)
  have "unat u < 0x10000" using unsigned_less [of u, where ?'a = nat] by simp
  then have single: "is_scalar (unat u)" if "unat u < 0xD800 \<or> 0xE000 \<le> unat u"
    using that by (auto simp: is_scalar_def)
  have bad: "is_scalar 0xFFFD" by (simp add: is_scalar_def)
  have pair: "is_scalar (9216 + ((unat u - 0xD800) * 0x400 + unat v))"
    if "unat u < 0xDC00" "0xDC00 \<le> unat v" "unat v < 0xE000" for v :: u16
    unfolding is_scalar_def using that by linarith
  show ?case
  proof (cases "unat u < 0xD800 \<or> 0xE000 \<le> unat u")
    case True
    with 2(1) single show ?thesis by simp
  next
    case f1: False
    show ?thesis
    proof (cases "0xDC00 \<le> unat u")
      case True
      with f1 2(2) bad show ?thesis by simp
    next
      case False
      with f1 2(3,4) bad pair show ?thesis by (cases us) simp_all
    qed
  qed
qed simp

section \<open>UTF-8\<close>

definition utf8_char :: "nat \<Rightarrow> u8 list" where
  "utf8_char c =
     (if c < 0x80 then [of_nat c]
      else if c < 0x800 then [of_nat (0xC0 + c div 0x40), of_nat (0x80 + c mod 0x40)]
      else if c < 0x10000 then
        [of_nat (0xE0 + c div 0x1000), of_nat (0x80 + c div 0x40 mod 0x40), of_nat (0x80 + c mod 0x40)]
      else
        [of_nat (0xF0 + c div 0x40000), of_nat (0x80 + c div 0x1000 mod 0x40),
         of_nat (0x80 + c div 0x40 mod 0x40), of_nat (0x80 + c mod 0x40)])"

definition utf8 :: "rstring \<Rightarrow> u8 list" where
  "utf8 s = concat (map utf8_char s)"

text \<open>The payload of a continuation byte.\<close>

definition cont :: "u8 \<Rightarrow> nat option" where
  "cont b = (if 0x80 \<le> unat b \<and> unat b < 0xC0 then Some (unat b - 0x80) else None)"

definition cons_if :: "bool \<Rightarrow> nat \<Rightarrow> rstring option \<Rightarrow> rstring option" where
  "cons_if ok c r = (if ok then map_option ((#) c) r else None)"

fun from_utf8 :: "u8 list \<Rightarrow> rstring option" where
  "from_utf8 [] = Some []"
| "from_utf8 (a # bs) =
     (if unat a < 0x80 then cons_if True (unat a) (from_utf8 bs)
      else if unat a < 0xC0 then None
      else if unat a < 0xE0 then
        (case bs of
           b # r \<Rightarrow>
             (case cont b of
                Some x \<Rightarrow> let c = (unat a - 0xC0) * 0x40 + x in cons_if (0x80 \<le> c) c (from_utf8 r)
              | None \<Rightarrow> None)
         | _ \<Rightarrow> None)
      else if unat a < 0xF0 then
        (case bs of
           b1 # b2 # r \<Rightarrow>
             (case (cont b1, cont b2) of
                (Some x, Some y) \<Rightarrow>
                  let c = (unat a - 0xE0) * 0x1000 + x * 0x40 + y in cons_if (0x800 \<le> c \<and> is_scalar c) c (from_utf8 r)
              | _ \<Rightarrow> None)
         | _ \<Rightarrow> None)
      else if unat a < 0xF8 then
        (case bs of
           b1 # b2 # b3 # r \<Rightarrow>
             (case (cont b1, cont b2, cont b3) of
                (Some x, Some y, Some z) \<Rightarrow>
                  let c = (unat a - 0xF0) * 0x40000 + x * 0x1000 + y * 0x40 + z
                  in cons_if (0x10000 \<le> c \<and> is_scalar c) c (from_utf8 r)
              | _ \<Rightarrow> None)
         | _ \<Rightarrow> None)
      else None)"

lemma unat_of_nat_8: "c < 0x100 \<Longrightarrow> unat (of_nat c :: u8) = c"
  by (simp add: unat_of_nat take_bit_nat_eq_self)

lemma cont_of_nat: "x < 0x40 \<Longrightarrow> cont (of_nat (0x80 + x)) = Some x"
  using unat_of_nat_8 [of "0x80 + x"] by (simp add: cont_def)

lemma cont_Some: "cont b = Some x \<Longrightarrow> unat b = 0x80 + x \<and> x < 0x40 \<and> of_nat (0x80 + x) = b"
  by (auto simp: cont_def split: if_splits)

lemma div64: "(c :: nat) div 0x1000 = c div 0x40 div 0x40" "(c :: nat) div 0x40000 = c div 0x40 div 0x40 div 0x40"
  by (simp_all add: div_mult2_eq [symmetric])

lemma join64_div: "(y :: nat) < 0x40 \<Longrightarrow> (q * 0x40 + y) div 0x40 = q"
  by simp

lemma join64_mod: "(y :: nat) < 0x40 \<Longrightarrow> (q * 0x40 + y) mod 0x40 = y"
  by simp

lemma from_utf8_char:
  assumes "is_scalar c"
  shows "from_utf8 (utf8_char c @ r) = map_option ((#) c) (from_utf8 r)"
proof -
  consider "c < 0x80" | "0x80 \<le> c" "c < 0x800" | "0x800 \<le> c" "c < 0x10000" | "0x10000 \<le> c" "c < 0x110000"
    using assms unfolding is_scalar_def by linarith
  then show ?thesis
  proof cases
    case 1
    then show ?thesis using unat_of_nat_8 [of c] by (simp add: utf8_char_def cons_if_def)
  next
    case 2
    define a :: u8 where "a = of_nat (0xC0 + c div 0x40)"
    have m: "c div 0x40 < 0x20" "c mod 0x40 < 0x40" "c div 0x40 * 0x40 + c mod 0x40 = c" using 2 by auto
    have "unat a = 0xC0 + c div 0x40" unfolding a_def by (rule unat_of_nat_8) (use m in linarith)
    moreover have "utf8_char c = [a, of_nat (0x80 + c mod 0x40)]" using 2 by (simp add: utf8_char_def a_def)
    ultimately show ?thesis using 2 m cont_of_nat [OF m(2)] by (simp add: cons_if_def)
  next
    case 3
    define a :: u8 where "a = of_nat (0xE0 + c div 0x1000)"
    have m: "c div 0x1000 < 0x10" "c div 0x40 mod 0x40 < 0x40" "c mod 0x40 < 0x40"
      using 3 by auto
    have e: "c div 0x1000 * 0x1000 + c div 0x40 mod 0x40 * 0x40 + c mod 0x40 = c"
      using div_mult_mod_eq [of c 64] div_mult_mod_eq [of "c div 64" 64] unfolding div64 by linarith
    have "unat a = 0xE0 + c div 0x1000" unfolding a_def by (rule unat_of_nat_8) (use m in linarith)
    moreover have "utf8_char c = [a, of_nat (0x80 + c div 0x40 mod 0x40), of_nat (0x80 + c mod 0x40)]"
      using 3 by (simp add: utf8_char_def a_def)
    ultimately show ?thesis using 3 m e assms cont_of_nat [OF m(2)] cont_of_nat [OF m(3)] by (simp add: cons_if_def)
  next
    case 4
    define a :: u8 where "a = of_nat (0xF0 + c div 0x40000)"
    have m: "c div 0x40000 < 8" "c div 0x1000 mod 0x40 < 0x40" "c div 0x40 mod 0x40 < 0x40" "c mod 0x40 < 0x40"
      using 4 by auto
    have e: "c div 0x40000 * 0x40000 + c div 0x1000 mod 0x40 * 0x1000 + c div 0x40 mod 0x40 * 0x40 + c mod 0x40 = c"
      using div_mult_mod_eq [of c 64] div_mult_mod_eq [of "c div 64" 64] div_mult_mod_eq [of "c div 64 div 64" 64]
      unfolding div64 by linarith
    have "unat a = 0xF0 + c div 0x40000" unfolding a_def by (rule unat_of_nat_8) (use m in linarith)
    moreover have "utf8_char c = [a, of_nat (0x80 + c div 0x1000 mod 0x40), of_nat (0x80 + c div 0x40 mod 0x40),
        of_nat (0x80 + c mod 0x40)]"
      using 4 by (simp add: utf8_char_def a_def)
    ultimately show ?thesis using 4 m e assms cont_of_nat [OF m(2)] cont_of_nat [OF m(3)] cont_of_nat [OF m(4)]
      by (simp add: cons_if_def)
  qed
qed

lemma from_utf8_utf8: "\<forall>c \<in> set s. is_scalar c \<Longrightarrow> from_utf8 (utf8 s) = Some s"
  by (induction s) (simp_all add: utf8_def from_utf8_char)

text \<open>The lead byte of a sequence, and what the decoder makes of each length of sequence.\<close>

lemma of_nat_unat_8: "unat (a :: u8) = n \<Longrightarrow> of_nat n = a"
  by auto

lemma utf8_char_2:
  assumes "0xC0 \<le> unat a" "unat a < 0xE0" "cont b = Some x" "c = (unat a - 0xC0) * 0x40 + x" "0x80 \<le> c"
  shows "utf8_char c = [a, b] \<and> is_scalar c"
proof -
  have x: "x < 0x40" "of_nat (0x80 + x) = b" using cont_Some [OF assms(3)] by auto
  then have "c div 0x40 = unat a - 0xC0" "c mod 0x40 = x" "c < 0x800" using assms by auto
  then show ?thesis using x assms(1,5) of_nat_unat_8 [of a "0xC0 + c div 0x40"] by (simp add: utf8_char_def is_scalar_def)
qed

lemma utf8_char_3:
  assumes "0xE0 \<le> unat a" "unat a < 0xF0" "cont b1 = Some x" "cont b2 = Some y"
    "c = (unat a - 0xE0) * 0x1000 + x * 0x40 + y" "0x800 \<le> c"
  shows "utf8_char c = [a, b1, b2]"
proof -
  have x: "x < 0x40" "of_nat (0x80 + x) = b1" "y < 0x40" "of_nat (0x80 + y) = b2"
    using cont_Some [OF assms(3)] cont_Some [OF assms(4)] by auto
  have c: "c = ((unat a - 0xE0) * 0x40 + x) * 0x40 + y" using assms(5) by simp
  have "c div 0x40 = (unat a - 0xE0) * 0x40 + x" "c mod 0x40 = y"
    unfolding c by (rule join64_div [OF x(3)], rule join64_mod [OF x(3)])
  moreover from this have "c div 0x1000 = unat a - 0xE0" "c div 0x40 mod 0x40 = x"
    unfolding div64 by (simp_all only: join64_div [OF x(1)] join64_mod [OF x(1)])
  moreover have "unat a - 0xE0 < 0x10" using assms(1,2) by simp
  then have "c < 0x10000" unfolding c using x(1,3) by simp
  ultimately show ?thesis using x assms(1,6) of_nat_unat_8 [of a "0xE0 + c div 0x1000"] by (simp add: utf8_char_def)
qed

lemma utf8_char_4:
  assumes "0xF0 \<le> unat a" "unat a < 0xF8" "cont b1 = Some x" "cont b2 = Some y" "cont b3 = Some z"
    "c = (unat a - 0xF0) * 0x40000 + x * 0x1000 + y * 0x40 + z" "0x10000 \<le> c"
  shows "utf8_char c = [a, b1, b2, b3]"
proof -
  have x: "x < 0x40" "of_nat (0x80 + x) = b1" "y < 0x40" "of_nat (0x80 + y) = b2" "z < 0x40" "of_nat (0x80 + z) = b3"
    using cont_Some [OF assms(3)] cont_Some [OF assms(4)] cont_Some [OF assms(5)] by auto
  have c: "c = (((unat a - 0xF0) * 0x40 + x) * 0x40 + y) * 0x40 + z" using assms(6) by simp
  have 1: "c div 0x40 = ((unat a - 0xF0) * 0x40 + x) * 0x40 + y" "c mod 0x40 = z"
    unfolding c by (rule join64_div [OF x(5)], rule join64_mod [OF x(5)])
  from this(1) have 2: "c div 0x1000 = (unat a - 0xF0) * 0x40 + x" "c div 0x40 mod 0x40 = y"
    unfolding div64 by (simp_all only: join64_div [OF x(3)] join64_mod [OF x(3)])
  then have "c div 0x40000 = unat a - 0xF0" "c div 0x1000 mod 0x40 = x"
    unfolding div64 by (simp_all only: join64_div [OF x(1)] join64_mod [OF x(1)])
  with 1(2) 2(2) show ?thesis using x assms(1,7) of_nat_unat_8 [of a "0xF0 + c div 0x40000"] by (simp add: utf8_char_def)
qed

lemma utf8_Cons: "utf8 (c # s) = utf8_char c @ utf8 s"
  by (simp add: utf8_def)

text \<open>What a successful step of the decoder took from the front.\<close>

lemma from_utf8_step:
  assumes "from_utf8 (a # bs) = Some s"
  obtains c r s' where "s = c # s'" "a # bs = utf8_char c @ r" "from_utf8 r = Some s'" "is_scalar c"
    "length r \<le> length bs"
proof -
  consider "unat a < 0x80" | "0x80 \<le> unat a" "unat a < 0xC0" | "0xC0 \<le> unat a" "unat a < 0xE0"
    | "0xE0 \<le> unat a" "unat a < 0xF0" | "0xF0 \<le> unat a" "unat a < 0xF8" | "0xF8 \<le> unat a" by linarith
  then show thesis
  proof cases
    case 1
    with assms that [of "unat a" _ bs] show thesis by (auto simp: cons_if_def utf8_char_def is_scalar_def)
  next
    case 3
    with assms obtain b r x s' where "bs = b # r" "cont b = Some x" "from_utf8 r = Some s'"
      and c: "0x80 \<le> (unat a - 0xC0) * 0x40 + x" "s = ((unat a - 0xC0) * 0x40 + x) # s'"
      by (auto simp: cons_if_def Let_def split: list.splits option.splits if_splits)
    with utf8_char_2 [OF 3 _ refl c(1)] that show thesis by fastforce
  next
    case 4
    with assms obtain b1 b2 r x y s' where "bs = b1 # b2 # r" "cont b1 = Some x" "cont b2 = Some y" "from_utf8 r = Some s'"
      and c: "0x800 \<le> (unat a - 0xE0) * 0x1000 + x * 0x40 + y" "is_scalar ((unat a - 0xE0) * 0x1000 + x * 0x40 + y)"
        "s = ((unat a - 0xE0) * 0x1000 + x * 0x40 + y) # s'"
      by (auto simp: cons_if_def Let_def split: list.splits option.splits if_splits)
    with utf8_char_3 [OF 4 _ _ refl c(1)] that show thesis by fastforce
  next
    case 5
    with assms obtain b1 b2 b3 r x y z s' where "bs = b1 # b2 # b3 # r" "cont b1 = Some x" "cont b2 = Some y"
        "cont b3 = Some z" "from_utf8 r = Some s'"
      and c: "0x10000 \<le> (unat a - 0xF0) * 0x40000 + x * 0x1000 + y * 0x40 + z"
        "is_scalar ((unat a - 0xF0) * 0x40000 + x * 0x1000 + y * 0x40 + z)"
        "s = ((unat a - 0xF0) * 0x40000 + x * 0x1000 + y * 0x40 + z) # s'"
      by (auto simp: cons_if_def Let_def split: list.splits option.splits if_splits)
    with utf8_char_4 [OF 5 _ _ _ refl c(1)] that show thesis by fastforce
  qed (use assms in simp_all)
qed

lemma utf8_from_utf8: "from_utf8 bs = Some s \<Longrightarrow> utf8 s = bs \<and> (\<forall>c \<in> set s. is_scalar c)"
proof (induction bs arbitrary: s rule: length_induct)
  case (1 bs)
  show ?case
  proof (cases bs)
    case Nil
    with 1(2) show ?thesis by (simp add: utf8_def)
  next
    case (Cons a bs')
    with 1(2) obtain c r s' where "s = c # s'" "a # bs' = utf8_char c @ r" "from_utf8 r = Some s'" "is_scalar c"
      "length r \<le> length bs'"
      using from_utf8_step by metis
    moreover from this have "length r < length bs" using Cons by (metis le_imp_less_Suc length_Cons)
    moreover from this have "utf8 s' = r \<and> (\<forall>c \<in> set s'. is_scalar c)"
      using 1(1) \<open>from_utf8 r = Some s'\<close> by blast
    ultimately show ?thesis using Cons by (simp add: utf8_Cons)
  qed
qed

end
