(* ===== verification/Guest.thy ===== *)
theory Guest
  imports Sync Utf
begin

unbundle bit_operations_syntax

text \<open>
  The guest's memory as the Win32 calls use it: byte strings and UTF-16 strings at an address, strings that end at a
  zero, and the lemmas on what is read back after a write. The scan for the zero is a partial function: where memory
  holds none it does not return.
\<close>

section \<open>Reading and writing\<close>

text \<open>The bytes of the guest from an address, and storing bytes there.\<close>

fun load_bytes :: "nat \<Rightarrow> u64 \<Rightarrow> kernel \<Rightarrow> u8 list" where
  "load_bytes 0 p k = []"
| "load_bytes (Suc n) p k = guest k p # load_bytes n (p + 1) k"

lemma length_load_bytes [simp]: "length (load_bytes n p k) = n"
  by (induction n arbitrary: p) simp_all

fun store_bytes :: "u8 list \<Rightarrow> u64 \<Rightarrow> kernel \<Rightarrow> kernel" where
  "store_bytes [] p k = k"
| "store_bytes (b # bs) p k = store_bytes bs (p + 1) (k\<lparr>guest := (guest k)(p := b)\<rparr>)"

fun load_units :: "nat \<Rightarrow> u64 \<Rightarrow> kernel \<Rightarrow> u16 list" where
  "load_units 0 p k = []"
| "load_units (Suc n) p k = ucast (read_le 2 p k) # load_units n (p + 2) k"

fun store_units :: "u16 list \<Rightarrow> u64 \<Rightarrow> kernel \<Rightarrow> kernel" where
  "store_units [] p k = k"
| "store_units (u # us) p k = store_units us (p + 2) (write_le 2 p (ucast u) k)"

text \<open>A write through an out-pointer that may be null.\<close>

definition put_le :: "nat \<Rightarrow> u64 \<Rightarrow> u64 \<Rightarrow> kernel \<Rightarrow> kernel" where
  "put_le n p v k = (if p = 0 then k else write_le n p v k)"

text \<open>The number of elements of \<open>w\<close> bytes before the first zero, from the \<open>i\<close>th element at \<open>p\<close>.\<close>

partial_function (option) nul_len :: "nat \<Rightarrow> u64 \<Rightarrow> kernel \<Rightarrow> nat \<Rightarrow> nat option" where
  "nul_len w p k i = (if read_le w (p + of_nat (w * i)) k = 0 then Some i else nul_len w p k (Suc i))"

definition utf16_to_string :: "u64 \<Rightarrow> kernel \<Rightarrow> rstring option" where
  "utf16_to_string p k =
     (if p = 0 then Some []
      else case nul_len 2 p k 0 of None \<Rightarrow> None | Some n \<Rightarrow> Some (from_utf16_lossy (load_units n p k)))"

section \<open>What is read back\<close>

lemma guest_write_le:
  "n < 2 ^ 64 \<Longrightarrow> (\<And>i. i < n \<Longrightarrow> a \<noteq> p + of_nat i) \<Longrightarrow> guest (write_le n p v k) a = guest k a"
proof (induction n p v k rule: write_le.induct)
  case (2 n p v k)
  have "a \<noteq> p + 1 + of_nat i" if "i < n" for i
    using 2(3) [of "Suc i"] that by (simp add: add.assoc)
  moreover have "a \<noteq> p" using 2(3) [of 0] by simp
  ultimately show ?case using 2(1,2) by simp
qed simp

lemma read_le_cong: "(\<And>i. i < n \<Longrightarrow> guest k (p + of_nat i) = guest k' (p + of_nat i)) \<Longrightarrow> read_le n p k = read_le n p k'"
proof (induction n arbitrary: p)
  case (Suc n)
  have "guest k (p + 1 + of_nat i) = guest k' (p + 1 + of_nat i)" if "i < n" for i
    using Suc.prems [of "Suc i"] that by (simp add: add.assoc)
  moreover have "guest k p = guest k' p" using Suc.prems [of 0] by simp
  ultimately show ?case using Suc.IH [of "p + 1"] by simp
qed simp

lemma take_bit_split: "take_bit 8 v + push_bit 8 (take_bit m (drop_bit 8 v)) = take_bit (8 + m) (v :: u64)"
proof -
  have "take_bit 8 v AND push_bit 8 (take_bit m (drop_bit 8 v)) = 0"
    by (rule bit_eqI) (auto simp: bit_simps)
  then have "take_bit 8 v + push_bit 8 (take_bit m (drop_bit 8 v)) = take_bit 8 v OR push_bit 8 (take_bit m (drop_bit 8 v))"
    by (rule disjunctive_add_eq_or)
  also have "\<dots> = take_bit (8 + m) v" by (rule bit_eqI) (auto simp: bit_simps)
  finally show ?thesis .
qed

lemma small_offset_neq: "i < 2 ^ 64 \<Longrightarrow> j < 2 ^ 64 \<Longrightarrow> i \<noteq> j \<Longrightarrow> (p :: u64) + of_nat i \<noteq> p + of_nat j"
  unfolding add_left_cancel by (simp add: word_unat_eq_iff unat_of_nat)

text \<open>Reads of a known width, byte by byte.\<close>

lemma read_le_4:
  "read_le 4 p k = ucast (guest k p) + push_bit 8 (ucast (guest k (p + 1)) + push_bit 8 (ucast (guest k (p + 2)) +
     push_bit 8 (ucast (guest k (p + 3)))))"
  by (simp add: numeral_eq_Suc add.assoc)

lemma read_le_2: "read_le 2 p k = ucast (guest k p) + push_bit 8 (ucast (guest k (p + 1)))"
  by (simp add: numeral_eq_Suc)

lemma read_le_8:
  "read_le 8 p k = ucast (guest k p) + push_bit 8 (ucast (guest k (p + 1)) + push_bit 8 (ucast (guest k (p + 2)) +
     push_bit 8 (ucast (guest k (p + 3)) + push_bit 8 (read_le 4 (p + 4) k))))"
  by (simp add: numeral_eq_Suc add.assoc)

text \<open>A value written and read back.\<close>

lemma read_write_le: "n \<le> 8 \<Longrightarrow> read_le n p (write_le n p v k) = take_bit (8 * n) v"
proof (induction n p v k rule: write_le.induct)
  case (2 n p v k)
  let ?k = "k\<lparr>guest := (guest k)(p := ucast v)\<rparr>"
  have "p \<noteq> p + 1 + of_nat i" if "i < n" for i
    using small_offset_neq [of 0 "Suc i" p] that 2(2) by (simp add: add.assoc)
  then have "guest (write_le n (p + 1) (drop_bit 8 v) ?k) p = ucast v"
    using 2(2) by (subst guest_write_le) auto
  moreover have "(ucast (ucast v :: u8) :: u64) = take_bit 8 v"
    by (rule bit_eqI) (auto simp: bit_simps)
  ultimately have "read_le (Suc n) p (write_le (Suc n) p v k) = take_bit 8 v + push_bit 8 (take_bit (8 * n) (drop_bit 8 v))"
    using 2 by simp
  then show ?case by (simp add: take_bit_split)
qed simp

text \<open>The addresses of \<open>n\<close> bytes.\<close>

definition area :: "u64 \<Rightarrow> nat \<Rightarrow> u64 set" where
  "area p n = (\<lambda>i. p + of_nat i) ` {..<n}"

lemma area_0 [simp]: "area p 0 = {}"
  by (simp add: area_def)

lemma area_Suc: "area p (Suc n) = insert p (area (p + 1) n)"
  by (simp add: area_def lessThan_Suc_eq_insert_0 image_image add.assoc)

lemma area_add: "area p (m + n) = area p m \<union> area (p + of_nat m) n"
  by (induction m arbitrary: p) (auto simp: area_Suc add.assoc)

lemma area_2: "area p (Suc (Suc n)) = area p 2 \<union> area (p + 2) n"
  using area_add [of p 2 n] by simp

lemma unat_area: "a \<in> area p n \<Longrightarrow> unat p + n \<le> 2 ^ 64 \<Longrightarrow> unat p \<le> unat a \<and> unat a < unat p + n"
  by (auto simp: area_def unat_word_ariths unat_of_nat take_bit_nat_def)

lemma area_apart: "unat p + m \<le> unat q \<Longrightarrow> unat q + n \<le> 2 ^ 64 \<Longrightarrow> area p m \<inter> area q n = {}"
  using unat_area [of _ p m] unat_area [of _ q n] unsigned_less [of q, where ?'a = nat] by fastforce

lemma fresh_area: "n < 2 ^ 64 \<Longrightarrow> p \<notin> area (p + 1) n"
proof
  assume "n < 2 ^ 64" "p \<in> area (p + 1) n"
  then obtain i where "i < n" "p = p + 1 + of_nat i" by (auto simp: area_def)
  with \<open>n < 2 ^ 64\<close> show False using small_offset_neq [of 0 "Suc i" p] by (simp add: add.assoc)
qed

lemma fresh_area_2: "n + 1 < 2 ^ 64 \<Longrightarrow> area p 2 \<inter> area (p + 2) n = {}"
  using fresh_area [of "Suc n" p] fresh_area [of n "p + 1"]
  by (auto simp: area_Suc numeral_2_eq_2 add.assoc)

subsection \<open>Frames\<close>

lemma write_le_frame: "a \<notin> area p n \<Longrightarrow> guest (write_le n p v k) a = guest k a"
  by (induction n p v k rule: write_le.induct) (auto simp: area_Suc)

lemma put_le_frame: "a \<notin> area p n \<Longrightarrow> guest (put_le n p v k) a = guest k a"
  by (simp add: put_le_def write_le_frame)

lemma store_bytes_frame: "a \<notin> area p (length bs) \<Longrightarrow> guest (store_bytes bs p k) a = guest k a"
  by (induction bs p k rule: store_bytes.induct) (auto simp: area_Suc)

lemma store_units_frame: "a \<notin> area p (2 * length us) \<Longrightarrow> guest (store_units us p k) a = guest k a"
  by (induction us p k rule: store_units.induct) (auto simp: area_2 write_le_frame)

lemma read_le_area: "(\<And>a. a \<in> area p n \<Longrightarrow> guest k a = guest k' a) \<Longrightarrow> read_le n p k = read_le n p k'"
  by (rule read_le_cong) (auto simp: area_def)

lemma load_bytes_area: "(\<And>a. a \<in> area p n \<Longrightarrow> guest k a = guest k' a) \<Longrightarrow> load_bytes n p k = load_bytes n p k'"
  by (induction n arbitrary: p) (auto simp: area_Suc)

lemma load_units_area:
  "(\<And>a. a \<in> area p (2 * n) \<Longrightarrow> guest k a = guest k' a) \<Longrightarrow> load_units n p k = load_units n p k'"
proof (induction n arbitrary: p)
  case (Suc n)
  then have "read_le 2 p k = read_le 2 p k'" by (intro read_le_area) (auto simp: area_2)
  with Suc show ?case by (auto simp: area_2)
qed simp

subsection \<open>Read after write\<close>

lemma load_store_bytes: "length bs \<le> 2 ^ 64 \<Longrightarrow> load_bytes (length bs) p (store_bytes bs p k) = bs"
proof (induction bs p k rule: store_bytes.induct)
  case (2 b bs p k)
  then have "p \<notin> area (p + 1) (length bs)" by (intro fresh_area) simp
  with 2 show ?case by (simp add: store_bytes_frame)
qed simp

lemma length_load_units [simp]: "length (load_units n p k) = n"
  by (induction n arbitrary: p) simp_all

text \<open>Words written at places apart from each other are all read back.\<close>

lemma writes_value:
  assumes "sorted_wrt (\<lambda>(a, _) (b, _). area a 8 \<inter> area b 8 = {}) ws" and "(a, v) \<in> set ws"
  shows "read_le 8 a (fold (\<lambda>(slot, ptr). write_le 8 slot ptr) ws k) = v"
  using assms
proof (induction ws arbitrary: k)
  case (Cons w ws)
  have frame: "x \<notin> area a 8" if "(b, u) \<in> set ws" "w = (a, v)" "x \<in> area b 8" for b u x
    using Cons.prems(1) that by fastforce
  have kept: "guest (fold (\<lambda>(slot, ptr). write_le 8 slot ptr) ws k) x = guest k x"
    if "\<forall>(b, u) \<in> set ws. x \<notin> area b 8" for ws :: "(u64 \<times> u64) list" and k x
    using that by (induction ws arbitrary: k) (auto simp: write_le_frame)
  show ?case
  proof (cases "w = (a, v)")
    case True
    have "read_le 8 a (fold (\<lambda>(slot, ptr). write_le 8 slot ptr) ws (write_le 8 a v k)) = read_le 8 a (write_le 8 a v k)"
      using frame True by (intro read_le_area kept) blast
    also have "\<dots> = v" using read_write_le [of 8 a v k] by (simp add: take_bit_word_eq_self)
    finally show ?thesis using True by simp
  next
    case False
    with Cons show ?thesis by (cases w) auto
  qed
qed simp

lemma read_unit: "(ucast (read_le 2 p (write_le 2 p (ucast (u :: u16)) k)) :: u16) = u"
proof -
  have "(ucast (take_bit 16 (ucast u :: u64)) :: u16) = u"
    by (rule bit_word_eqI) (simp add: bit_simps)
  then show ?thesis using read_write_le [of 2 p "ucast u" k] by simp
qed

lemma unat_push_8: "unat (r :: u64) < 2 ^ (8 * n) \<Longrightarrow> n < 8 \<Longrightarrow> unat (push_bit 8 r) = unat r * 256"
proof -
  assume r: "unat r < 2 ^ (8 * n)" and "n < 8"
  then have "(2 :: nat) ^ (8 * n) \<le> 2 ^ 56" by (intro power_increasing) auto
  with r have "unat r * 256 < 2 ^ 64" by simp
  moreover have "push_bit 8 r = r * 256" by (simp add: push_bit_eq_mult)
  ultimately show ?thesis by (simp add: unat_word_ariths)
qed

lemma read_le_bound: "n \<le> 8 \<Longrightarrow> unat (read_le n p k) < 2 ^ (8 * n)"
proof (induction n arbitrary: p)
  case (Suc n)
  let ?r = "read_le n (p + 1) k"
  have r: "unat ?r < 2 ^ (8 * n)" using Suc by simp
  have g: "unat (ucast (guest k p) :: u64) < 256"
    using unsigned_less [of "guest k p", where ?'a = nat] by (simp add: unsigned_ucast_eq take_bit_nat_def)
  have "unat (read_le (Suc n) p k) \<le> unat (ucast (guest k p) :: u64) + unat (push_bit 8 ?r)"
    by (simp add: unat_word_ariths)
  also have "\<dots> < 256 + unat ?r * 256" using unat_push_8 [OF r] Suc.prems g by simp
  also have "\<dots> \<le> 2 ^ (8 * n) * 256" using r by simp
  finally show ?case by (simp add: power_add)
qed simp

lemma unat_read_unit: "unat (ucast (read_le 2 p k) :: u16) = unat (read_le 2 p k)"
  using read_le_bound [of 2 p k] by (simp add: unsigned_ucast_eq take_bit_nat_eq_self)

lemma read_unit_zero: "(ucast (read_le 2 p k) :: u16) = 0 \<longleftrightarrow> read_le 2 p k = 0"
  by (metis unat_0 unat_eq_zero unat_read_unit)

lemma load_store_units: "2 * length us < 2 ^ 64 \<Longrightarrow> load_units (length us) p (store_units us p k) = us"
proof (induction us p k rule: store_units.induct)
  case (2 u us p k)
  then have "area p 2 \<inter> area (p + 2) (2 * length us) = {}" by (intro fresh_area_2) simp
  then have "read_le 2 p (store_units (u # us) p k) = read_le 2 p (write_le 2 p (ucast u) k)"
    by (auto intro!: read_le_area store_units_frame)
  with 2 show ?case by (simp add: read_unit)
qed simp

subsection \<open>Strings that end at a zero\<close>

definition wide_at :: "u16 list \<Rightarrow> u64 \<Rightarrow> kernel \<Rightarrow> bool" where
  "wide_at us p k \<longleftrightarrow> load_units (length us) p k = us \<and> 0 \<notin> set us \<and> read_le 2 (p + of_nat (2 * length us)) k = 0"

lemma nul_len_run:
  assumes "\<And>j. i \<le> j \<Longrightarrow> j < n \<Longrightarrow> read_le w (p + of_nat (w * j)) k \<noteq> 0"
    and "read_le w (p + of_nat (w * n)) k = 0" and "i \<le> n"
  shows "nul_len w p k i = Some n"
  using assms
proof (induction "n - i" arbitrary: i)
  case 0
  then show ?case by (subst nul_len.simps) simp
next
  case (Suc d)
  then have "nul_len w p k (Suc i) = Some n" by (intro Suc.hyps(1)) auto
  with Suc show ?case by (subst nul_len.simps) auto
qed

lemma load_units_nth: "j < n \<Longrightarrow> load_units n p k ! j = ucast (read_le 2 (p + of_nat (2 * j)) k)"
proof (induction n arbitrary: p j)
  case (Suc n)
  then show ?case by (cases j) (simp_all add: add.assoc)
qed simp

lemma wide_at_len: "wide_at us p k \<Longrightarrow> nul_len 2 p k 0 = Some (length us)"
proof (rule nul_len_run)
  fix j assume w: "wide_at us p k" "j < length us"
  then have "us ! j = ucast (read_le 2 (p + of_nat (2 * j)) k)"
    using load_units_nth [OF w(2), of p k] by (simp add: wide_at_def)
  moreover have "us ! j \<noteq> 0" using w by (auto simp: wide_at_def in_set_conv_nth)
  ultimately show "read_le 2 (p + of_nat (2 * j)) k \<noteq> 0" by auto
qed (simp_all add: wide_at_def)

lemma wide_at_string: "wide_at us p k \<Longrightarrow> p \<noteq> 0 \<Longrightarrow> utf16_to_string p k = Some (from_utf16_lossy us)"
  by (simp add: utf16_to_string_def wide_at_len) (simp add: wide_at_def)

text \<open>A string is still there when its bytes have not changed.\<close>

lemma wide_at_area:
  assumes "wide_at us p k" and "\<And>a. a \<in> area p (2 * length us + 2) \<Longrightarrow> guest k' a = guest k a"
  shows "wide_at us p k'"
proof -
  have "load_units (length us) p k' = load_units (length us) p k"
    using assms(2) area_add [of p "2 * length us" 2] by (intro load_units_area) auto
  moreover have "read_le 2 (p + of_nat (2 * length us)) k' = read_le 2 (p + of_nat (2 * length us)) k"
    using assms(2) area_add [of p "2 * length us" 2] by (intro read_le_area) auto
  ultimately show ?thesis using assms(1) by (simp add: wide_at_def)
qed

lemma wide_at_Nil: "wide_at [] p k \<longleftrightarrow> read_le 2 p k = 0"
  by (simp add: wide_at_def)

lemma wide_at_Cons:
  "wide_at (u # us) p k \<longleftrightarrow> ucast (read_le 2 p k) = u \<and> u \<noteq> 0 \<and> wide_at us (p + 2) k"
  by (auto simp: wide_at_def add.assoc)

lemma wide_at_append:
  "wide_at (as @ us) p k \<longleftrightarrow> load_units (length as) p k = as \<and> 0 \<notin> set as \<and> wide_at us (p + of_nat (2 * length as)) k"
  by (induction as arbitrary: p) (auto simp: wide_at_Cons add.assoc)

lemma wide_at_store:
  assumes "0 \<notin> set us" and "2 * length us + 2 < 2 ^ 64"
  shows "wide_at us p (store_units (us @ [0]) p k)"
proof -
  let ?k = "store_units (us @ [0]) p k"
  have u: "load_units (Suc (length us)) p ?k = us @ [0]" using load_store_units [of "us @ [0]" p k] assms(2) by simp
  have "load_units (length us) p ?k = us"
  proof (rule nth_equalityI)
    fix i assume "i < length (load_units (length us) p ?k)"
    then show "load_units (length us) p ?k ! i = us ! i"
      using arg_cong [OF u, of "\<lambda>xs. xs ! i"] by (simp add: load_units_nth nth_append del: load_units.simps)
  qed simp
  moreover have "(ucast (read_le 2 (p + of_nat (2 * length us)) ?k) :: u16) = 0"
    using arg_cong [OF u, of "\<lambda>xs. xs ! length us"] by (simp add: load_units_nth nth_append del: load_units.simps)
  ultimately show ?thesis using assms(1) by (simp add: wide_at_def read_unit_zero)
qed

end
