(* ===== verification/Process.thy ===== *)
theory Process
  imports SyncSpec Guest
begin

unbundle bit_operations_syntax

text \<open>
  Time, the last error, standard streams and synchronous file I/O, \<^verbatim>\<open>crates/ntapi/src/process.rs\<close>, and the console
  calls of \<^verbatim>\<open>crates/win32-kernel32/src/console.rs\<close>. The Linux calls \<open>read\<close>, \<open>write\<close> and \<open>open\<close> are
  parameters on a state of the host's: they give an error number (\<open>Inl\<close>) or what they did. The pointers of the guest are
  addresses of its memory, \<open>0\<close> is null.
\<close>

section \<open>State and host\<close>

record 'h posix =
  sys_write :: "fd \<Rightarrow> u8 list \<Rightarrow> 'h \<Rightarrow> (int + nat) \<times> 'h"
  sys_read :: "fd \<Rightarrow> nat \<Rightarrow> 'h \<Rightarrow> (int + u8 list) \<times> 'h"
  sys_open :: "string \<Rightarrow> int \<Rightarrow> u32 \<Rightarrow> 'h \<Rightarrow> (int + fd) \<times> 'h"

record 'h process =
  kern :: kernel
  last_error :: u32
  console_modes :: "handle \<rightharpoonup> u32"
  host :: 'h

abbreviation INVALID_HANDLE_VALUE :: handle where "INVALID_HANDLE_VALUE \<equiv> 0xFFFFFFFFFFFFFFFF"
abbreviation STATUS_INVALID_HANDLE :: u32 where "STATUS_INVALID_HANDLE \<equiv> 0xC0000008"
abbreviation STATUS_END_OF_FILE :: u32 where "STATUS_END_OF_FILE \<equiv> 0xC0000011"

definition upd_kern :: "(kernel \<Rightarrow> kernel) \<Rightarrow> 'h process \<Rightarrow> 'h process" where
  "upd_kern f s = s\<lparr>kern := f (kern s)\<rparr>"

text \<open>A write through an out-pointer that may be null.\<close>

definition out_le :: "nat \<Rightarrow> u64 \<Rightarrow> u64 \<Rightarrow> 'h process \<Rightarrow> 'h process" where
  "out_le n p v s = (if p = 0 then s else upd_kern (write_le n p v) s)"

section \<open>Time and last error\<close>

definition get_tick_count :: "'h process \<Rightarrow> u32" where
  "get_tick_count s = ucast ((clock (kern s) div 1000000) AND 0xFFFFFFFF)"

definition get_tick_count_64 :: "'h process \<Rightarrow> u64" where
  "get_tick_count_64 s = clock (kern s) div 1000000"

definition query_performance_counter :: "u64 \<Rightarrow> 'h process \<Rightarrow> 'h process" where
  "query_performance_counter p s = out_le 8 p (clock (kern s)) s"

definition query_performance_frequency :: "u64 \<Rightarrow> 'h process \<Rightarrow> 'h process" where
  "query_performance_frequency p s = out_le 8 p 1000000000 s"

definition get_last_error :: "'h process \<Rightarrow> u32" where
  "get_last_error s = last_error s"

definition set_last_error :: "u32 \<Rightarrow> 'h process \<Rightarrow> 'h process" where
  "set_last_error e s = s\<lparr>last_error := e\<rparr>"

text \<open>Error numbers of Linux.\<close>

definition errno_to_win :: "int \<Rightarrow> u32" where
  "errno_to_win e = (if e = 9 then 6 else if e = 22 then 87 else if e = 2 then 2 else if e = 13 then 5
     else if e = 17 then 80 else if e = 28 then 112 else 1597)"

definition errno_to_nt :: "int \<Rightarrow> u32" where
  "errno_to_nt e = (if e = 9 then 0xC0000008 else if e = 22 then 0xC000000D else if e = 2 then 0xC0000034
     else if e = 13 then 0xC0000022 else if e = 17 then 0xC0000035 else if e = 28 then 0xC0000079
     else 0xC0000001)"

section \<open>Handles of files\<close>

definition get_std_handle :: "u32 \<Rightarrow> handle" where
  "get_std_handle n =
     (if n = 0xFFFFFFFF - 8 then 0 else if n = 0xFFFFFFFF - 10 then 1 else if n = 0xFFFFFFFF - 9 then 2
      else INVALID_HANDLE_VALUE)"

definition file_fd :: "object \<Rightarrow> fd option" where
  "file_fd ob = (case ob of OFile f \<Rightarrow> Some f | _ \<Rightarrow> None)"

definition resolve_fd :: "handle \<Rightarrow> kernel \<Rightarrow> fd" where
  "resolve_fd h k =
     (if h \<le> 2 then uint h
      else case with_object h file_fd (table k) of Some (Some f) \<Rightarrow> f | _ \<Rightarrow> - 1)"

definition close_handle :: "handle \<Rightarrow> 'h process \<Rightarrow> bool \<times> 'h process" where
  "close_handle h s = (case close h (table (kern s)) of (ok, t, ds) \<Rightarrow>
     (ok, upd_kern (\<lambda>k. k\<lparr>table := t, closed := closed k @ ds\<rparr>) s))"

definition nt_close :: "handle \<Rightarrow> 'h process \<Rightarrow> u32 \<times> 'h process" where
  "nt_close h s = (case close_handle h s of (ok, s') \<Rightarrow> (if ok then 0 else STATUS_INVALID_HANDLE, s'))"

definition open_file_handle :: "'h posix \<Rightarrow> string \<Rightarrow> int \<Rightarrow> u32 \<Rightarrow> 'h process \<Rightarrow> handle \<times> 'h process" where
  "open_file_handle os path flags mode s =
     (case sys_open os path flags mode (host s) of
        (Inl e, h) \<Rightarrow> (INVALID_HANDLE_VALUE, s\<lparr>host := h\<rparr>)
      | (Inr f, h) \<Rightarrow>
          if f < 0 then (INVALID_HANDLE_VALUE, s\<lparr>host := h\<rparr>)
          else case create_handle (OFile f) (kern s) of (hn, k) \<Rightarrow> (hn, s\<lparr>host := h, kern := k\<rparr>))"

definition nt_create_file :: "u64 \<Rightarrow> 'h process \<Rightarrow> u32 \<times> 'h process" where
  "nt_create_file handle_out s = (0xC0000022, out_le 8 handle_out 0 s)"

section \<open>Reading and writing\<close>

definition write_file :: "'h posix \<Rightarrow> handle \<Rightarrow> u64 \<Rightarrow> u32 \<Rightarrow> u64 \<Rightarrow> 'h process \<Rightarrow> bool \<times> 'h process" where
  "write_file os h buf len written s =
     (let fd = resolve_fd h (kern s) in
      if fd < 0 \<or> buf = 0 then (False, set_last_error 6 s)
      else
        (case sys_write os fd (load_bytes (unat len) buf (kern s)) (host s) of
           (Inl e, h') \<Rightarrow> (False, set_last_error (errno_to_win e) (s\<lparr>host := h'\<rparr>))
         | (Inr n, h') \<Rightarrow> (True, out_le 4 written (of_nat n) (s\<lparr>host := h'\<rparr>))))"

definition read_file :: "'h posix \<Rightarrow> handle \<Rightarrow> u64 \<Rightarrow> u32 \<Rightarrow> u64 \<Rightarrow> 'h process \<Rightarrow> bool \<times> 'h process" where
  "read_file os h buf len read_out s =
     (let fd = resolve_fd h (kern s) in
      if fd < 0 \<or> buf = 0 then (False, set_last_error 6 s)
      else
        (case sys_read os fd (unat len) (host s) of
           (Inl e, h') \<Rightarrow> (False, set_last_error (errno_to_win e) (s\<lparr>host := h'\<rparr>))
         | (Inr bs, h') \<Rightarrow>
             (True, out_le 4 read_out (of_nat (length bs)) (upd_kern (store_bytes bs buf) (s\<lparr>host := h'\<rparr>)))))"

definition set_nt_status :: "u64 \<Rightarrow> u32 \<Rightarrow> 'h process \<Rightarrow> 'h process" where
  "set_nt_status io status s = out_le 4 io (ucast status) s"

definition set_io_status :: "u64 \<Rightarrow> u32 \<Rightarrow> u64 \<Rightarrow> 'h process \<Rightarrow> 'h process" where
  "set_io_status io status information s =
     (if io = 0 then s
      else upd_kern (\<lambda>k. write_le 8 (io + 8) information (write_le 4 io (ucast status) k)) s)"

definition nt_write_file :: "'h posix \<Rightarrow> handle \<Rightarrow> u64 \<Rightarrow> u64 \<Rightarrow> u32 \<Rightarrow> 'h process \<Rightarrow> u32 \<times> 'h process" where
  "nt_write_file os h io buf len s =
     (let fd = resolve_fd h (kern s) in
      if fd < 0 \<or> buf = 0 then (STATUS_INVALID_HANDLE, set_nt_status io STATUS_INVALID_HANDLE s)
      else
        (case sys_write os fd (load_bytes (unat len) buf (kern s)) (host s) of
           (Inl e, h') \<Rightarrow> (errno_to_nt e, set_nt_status io (errno_to_nt e) (s\<lparr>host := h'\<rparr>))
         | (Inr n, h') \<Rightarrow> (0, set_io_status io 0 (of_nat n) (s\<lparr>host := h'\<rparr>))))"

definition nt_read_file :: "'h posix \<Rightarrow> handle \<Rightarrow> u64 \<Rightarrow> u64 \<Rightarrow> u32 \<Rightarrow> 'h process \<Rightarrow> u32 \<times> 'h process" where
  "nt_read_file os h io buf len s =
     (let fd = resolve_fd h (kern s) in
      if fd < 0 \<or> buf = 0 then (STATUS_INVALID_HANDLE, set_nt_status io STATUS_INVALID_HANDLE s)
      else
        (case sys_read os fd (unat len) (host s) of
           (Inl e, h') \<Rightarrow> (errno_to_nt e, set_nt_status io (errno_to_nt e) (s\<lparr>host := h'\<rparr>))
         | (Inr bs, h') \<Rightarrow>
             (let s = upd_kern (store_bytes bs buf) (s\<lparr>host := h'\<rparr>) in
              if bs = [] then (STATUS_END_OF_FILE, set_io_status io STATUS_END_OF_FILE 0 s)
              else (0, set_io_status io 0 (of_nat (length bs)) s))))"

section \<open>The console\<close>

definition console_fd :: "handle \<Rightarrow> kernel \<Rightarrow> fd option" where
  "console_fd h k =
     (if h \<le> 2 then Some (uint h)
      else case with_object h file_fd (table k) of Some (Some f) \<Rightarrow> Some f | _ \<Rightarrow> None)"

definition write_console_w ::
  "'h posix \<Rightarrow> handle \<Rightarrow> u64 \<Rightarrow> u32 \<Rightarrow> u64 \<Rightarrow> 'h process \<Rightarrow> bool \<times> 'h process" where
  "write_console_w os h buf n_chars written s =
     (if buf = 0 \<or> n_chars = 0 then (True, out_le 4 written 0 s)
      else
        (case console_fd h (kern s) of
           None \<Rightarrow> (False, set_last_error 6 s)
         | Some fd \<Rightarrow>
             (case sys_write os fd (utf8 (from_utf16_lossy (load_units (unat n_chars) buf (kern s)))) (host s) of
                (Inl e, h') \<Rightarrow> (False, set_last_error 6 (s\<lparr>host := h'\<rparr>))
              | (Inr n, h') \<Rightarrow> (True, out_le 4 written (ucast n_chars) (s\<lparr>host := h'\<rparr>)))))"

definition write_console_a ::
  "'h posix \<Rightarrow> handle \<Rightarrow> u64 \<Rightarrow> u32 \<Rightarrow> u64 \<Rightarrow> 'h process \<Rightarrow> bool \<times> 'h process" where
  "write_console_a os h buf n_chars written s =
     (if buf = 0 \<or> n_chars = 0 then (True, out_le 4 written 0 s)
      else
        (case console_fd h (kern s) of
           None \<Rightarrow> (False, set_last_error 6 s)
         | Some fd \<Rightarrow>
             (case sys_write os fd (load_bytes (unat n_chars) buf (kern s)) (host s) of
                (Inl e, h') \<Rightarrow> (False, set_last_error 6 (s\<lparr>host := h'\<rparr>))
              | (Inr n, h') \<Rightarrow> (True, out_le 4 written (of_nat n) (s\<lparr>host := h'\<rparr>)))))"

definition initial_modes :: "handle \<rightharpoonup> u32" where
  "initial_modes = [0 \<mapsto> 0x1F3, 1 \<mapsto> 3, 2 \<mapsto> 3]"

definition get_console_mode :: "handle \<Rightarrow> u64 \<Rightarrow> 'h process \<Rightarrow> bool \<times> 'h process" where
  "get_console_mode h mode s =
     (case console_modes s h of
        Some m \<Rightarrow> (True, out_le 4 mode (ucast m) s)
      | None \<Rightarrow> (False, set_last_error 6 s))"

definition set_console_mode :: "handle \<Rightarrow> u32 \<Rightarrow> 'h process \<Rightarrow> bool \<times> 'h process" where
  "set_console_mode h mode s =
     (case console_modes s h of
        Some m \<Rightarrow> (True, s\<lparr>console_modes := (console_modes s)(h \<mapsto> mode)\<rparr>)
      | None \<Rightarrow>
          if h \<le> 2 then (True, s\<lparr>console_modes := (console_modes s)(h \<mapsto> mode)\<rparr>)
          else (False, set_last_error 6 s))"

section \<open>Properties\<close>


definition process_new :: "unit process" where
  "process_new = \<lparr>kern = kernel_new, last_error = 0, console_modes = initial_modes, host = ()\<rparr>"

text \<open>A host on which every open gives descriptor 5, writes take everything and reads find nothing.\<close>

definition demo_host :: "unit posix" where
  "demo_host = \<lparr>sys_write = (\<lambda>f bs h. (Inr (length bs), h)), sys_read = (\<lambda>f n h. (Inr [], h)),
     sys_open = (\<lambda>path flags mode h. (Inr 5, h))\<rparr>"


text \<open>C36. A file that is opened is reached through its handle: the handle resolves to the descriptor the host
  returned, is no stdio descriptor, and closing it passes exactly that descriptor to the host, once.\<close>

theorem open_resolve_close:
  assumes "table_inv (table (kern s))" and "table_room 1 (table (kern s))"
    and "sys_open os path flags mode (host s) = (Inr f, h')" and "0 \<le> f"
    and "open_file_handle os path flags mode s = (hn, s1)" and "close_handle hn s1 = (ok, s2)"
  shows "resolve_fd hn (kern s1) = f \<and> \<not> is_pseudo_handle hn \<and> ok \<and>
         closed (kern s2) = closed (kern s) @ [f] \<and> objects (table (kern s2)) = objects (table (kern s))"
proof -
  obtain t1 where cr: "create (OFile f) (table (kern s)) = (hn, t1)" and s1: "kern s1 = (kern s)\<lparr>table := t1\<rparr>"
    using assms(3-5) by (auto simp: open_file_handle_def create_handle_def split: prod.splits)
  have room: "table_room (Suc 0) (table (kern s))" using assms(2) by simp
  obtain t2 where cl: "close hn t1 = (True, t2, drop_object (OFile f))" "objects t2 = objects (table (kern s))"
    using ht.new_del [OF assms(1) room cr] by blast
  have np: "\<not> is_pseudo_handle hn" by (rule ht.new_real [OF assms(1) room cr])
  then have "\<not> hn \<le> 2" by (simp add: is_pseudo_handle_def)
  then have "resolve_fd hn (kern s1) = f"
    using s1 ht.new_lookup [OF cr] by (simp add: resolve_fd_def with_object_def file_fd_def)
  with np cl s1 assms(4,6) show ?thesis
    by (auto simp: close_handle_def upd_kern_def drop_object_def)
qed

theorem open_resolve_close_witness:
  "resolve_fd 0x10000 (kern (snd (open_file_handle demo_host ''a'' 0 0 process_new))) = 5"
proof -
  obtain hn s1 where o: "open_file_handle demo_host ''a'' 0 0 process_new = (hn, s1)" by fastforce
  obtain ok s2 where c: "close_handle hn s1 = (ok, s2)" by fastforce
  have hn: "hn = 0x10000" using o
    by (auto simp: open_file_handle_def demo_host_def create_handle_def table_defs process_new_def kernel_new_def
        HandleTable_new_def)
  have i: "table_inv (table (kern process_new))" "table_room 1 (table (kern process_new))"
    using table_inv_new by (simp_all add: process_new_def kernel_new_def table_room_def HandleTable_new_def)
  have "sys_open demo_host ''a'' 0 0 (host process_new) = (Inr 5, ())" by (simp add: demo_host_def)
  from open_resolve_close [OF i this _ o c] o hn show ?thesis by simp
qed

text \<open>A read of zero bytes through \<open>NtReadFile\<close> reports the end of the file: the host reads nothing, as
  asked, and the call takes an empty read for the end of the file whatever was requested.\<close>

theorem zero_read_is_eof:
  assumes "0 \<le> resolve_fd h (kern s)" and "buf \<noteq> 0"
    and "sys_read os (resolve_fd h (kern s)) 0 (host s) = (Inr [], h')"
  shows "fst (nt_read_file os h io buf 0 s) = STATUS_END_OF_FILE"
  using assms by (simp add: nt_read_file_def Let_def)

theorem zero_read_is_eof_witness: "fst (nt_read_file demo_host 0 0 0x500 0 process_new) = STATUS_END_OF_FILE"
  by (rule zero_read_is_eof) (simp_all add: resolve_fd_def demo_host_def)

text \<open>The constants of the standard streams are off by one from \<open>(DWORD)-10\<close>, \<open>-11\<close>, \<open>-12\<close>: asked for
  \<open>(DWORD)-10\<close>, standard input, \<open>GetStdHandle\<close> gives standard error, and asked for \<open>(DWORD)-12\<close>, standard error, it
  gives the invalid handle; only \<open>(DWORD)-11\<close>, standard output, is right.\<close>

theorem std_handle_constants:
  "get_std_handle (- 10) = 2 \<and> get_std_handle (- 11) = 1 \<and> get_std_handle (- 12) = INVALID_HANDLE_VALUE"
  by (simp add: get_std_handle_def)

text \<open>The status block: after a successful \<open>NtWriteFile\<close> the guest reads status zero at its start and, eight
  bytes further, the number of bytes the host wrote.\<close>

theorem write_status_block:
  assumes "0 \<le> resolve_fd h (kern s)" and "buf \<noteq> 0" and "io \<noteq> 0"
    and "sys_write os (resolve_fd h (kern s)) (load_bytes (unat len) buf (kern s)) (host s) = (Inr n, h')"
    and "nt_write_file os h io buf len s = (status, s')"
  shows "status = 0 \<and> read_le 4 io (kern s') = 0 \<and> read_le 8 (io + 8) (kern s') = of_nat n"
proof -
  let ?k = "write_le 4 io (ucast (0 :: u32)) (kern s)"
  have k': "status = 0" "kern s' = write_le 8 (io + 8) (of_nat n) ?k"
    using assms by (auto simp: nt_write_file_def set_io_status_def upd_kern_def Let_def)
  have "io + of_nat i \<noteq> io + 8 + of_nat j" if "i < 4" "j < 8" for i j
    using small_offset_neq [of i "8 + j" io] that by (simp add: add.assoc)
  then have "read_le 4 io (kern s') = read_le 4 io ?k"
    unfolding k'(2) by (intro read_le_cong guest_write_le) auto
  then show ?thesis using k' by (simp add: read_write_le take_bit_word_eq_self)
qed

theorem write_status_block_witness:
  "read_le 8 (0x700 + 8) (kern (snd (nt_write_file demo_host 1 0x700 0x500 3 process_new))) = of_nat 3"
proof -
  obtain st s' where w: "nt_write_file demo_host 1 0x700 0x500 3 process_new = (st, s')" by fastforce
  have "sys_write demo_host (resolve_fd 1 (kern process_new)) (load_bytes (unat (3 :: u32)) 0x500 (kern process_new))
      (host process_new) = (Inr 3, ())"
    by (simp add: demo_host_def)
  from write_status_block [OF _ _ _ this w] w show ?thesis by (simp add: resolve_fd_def)
qed

end
