(* ===== verification/Strings.thy ===== *)
theory Strings
  imports Process
begin

unbundle bit_operations_syntax

text \<open>
  Code-page conversion and the \<open>lstr\<close> functions, \<^verbatim>\<open>crates/win32-kernel32/src/string.rs\<close>. A call gives
  \<open>None\<close> when a string it scans has no terminating zero. An \<open>i32\<close> is an \<open>int\<close>; \<open>as_i32\<close> is the cast from a length.
\<close>

section \<open>Operations\<close>

definition as_i32 :: "nat \<Rightarrow> int" where
  "as_i32 n = sint (of_nat n :: u32)"

text \<open>The bytes of the input: \<open>Some None\<close> for an invalid parameter.\<close>

definition mb_input :: "u64 \<Rightarrow> int \<Rightarrow> kernel \<Rightarrow> u8 list option option" where
  "mb_input p cb k =
     (if cb = - 1 then
        (if p = 0 then Some None
         else case nul_len 1 p k 0 of None \<Rightarrow> None | Some n \<Rightarrow> Some (Some (load_bytes n p k)))
      else if cb \<le> 0 \<or> p = 0 then Some None
      else Some (Some (load_bytes (nat cb) p k)))"

definition mb_units :: "u32 \<Rightarrow> u8 list \<Rightarrow> u16 list" where
  "mb_units code_page bs =
     (if code_page = 65001 \<or> code_page = 0
      then case from_utf8 bs of Some t \<Rightarrow> encode_utf16 t | None \<Rightarrow> map ucast bs
      else map ucast bs)"

definition multi_byte_to_wide_char ::
  "u32 \<Rightarrow> u64 \<Rightarrow> int \<Rightarrow> u64 \<Rightarrow> int \<Rightarrow> 'h process \<Rightarrow> (int \<times> 'h process) option" where
  "multi_byte_to_wide_char code_page p cb dst cch s =
     (case mb_input p cb (kern s) of
        None \<Rightarrow> None
      | Some None \<Rightarrow> Some (0, set_last_error 87 s)
      | Some (Some bs) \<Rightarrow>
          let units = mb_units code_page bs;
              n = (if cb = - 1 then length units + 1 else length units) in
          Some (if dst = 0 \<or> cch \<le> 0 then (as_i32 n, s)
                else if as_i32 n > cch then (0, set_last_error 122 s)
                else
                  (as_i32 n,
                   upd_kern (\<lambda>k. let k = store_units units dst k in
                     if cb = - 1 then write_le 2 (dst + of_nat (2 * length units)) 0 k else k) s)))"

definition wc_input :: "u64 \<Rightarrow> int \<Rightarrow> kernel \<Rightarrow> u16 list option option" where
  "wc_input p cch k =
     (if cch = - 1 then
        (if p = 0 then Some None
         else case nul_len 2 p k 0 of None \<Rightarrow> None | Some n \<Rightarrow> Some (Some (load_units n p k)))
      else if cch \<le> 0 \<or> p = 0 then Some None
      else Some (Some (load_units (nat cch) p k)))"

definition wc_bytes :: "u32 \<Rightarrow> u16 list \<Rightarrow> u8 list" where
  "wc_bytes code_page us =
     (if code_page = 65001 \<or> code_page = 0 then utf8 (from_utf16_lossy us) else map ucast us)"

definition wide_char_to_multi_byte ::
  "u32 \<Rightarrow> u64 \<Rightarrow> int \<Rightarrow> u64 \<Rightarrow> int \<Rightarrow> 'h process \<Rightarrow> (int \<times> 'h process) option" where
  "wide_char_to_multi_byte code_page p cch dst cb s =
     (case wc_input p cch (kern s) of
        None \<Rightarrow> None
      | Some None \<Rightarrow> Some (0, set_last_error 87 s)
      | Some (Some us) \<Rightarrow>
          let bytes = wc_bytes code_page us in
          Some (if dst = 0 \<or> cb \<le> 0 then (as_i32 (length bytes), s)
                else if as_i32 (length bytes) > cb then (0, set_last_error 122 s)
                else (as_i32 (length bytes), upd_kern (store_bytes bytes dst) s)))"

definition lstrlen_w :: "u64 \<Rightarrow> 'h process \<Rightarrow> int option" where
  "lstrlen_w p s = (if p = 0 then Some 0 else map_option as_i32 (nul_len 2 p (kern s) 0))"

definition lstrlen_a :: "u64 \<Rightarrow> 'h process \<Rightarrow> int option" where
  "lstrlen_a p s = (if p = 0 then Some 0 else map_option as_i32 (nul_len 1 p (kern s) 0))"

text \<open>The copy loop, from the \<open>i\<close>th unit on: each unit is read after the earlier ones were written.\<close>

partial_function (option) copy_units :: "u64 \<Rightarrow> u64 \<Rightarrow> nat \<Rightarrow> kernel \<Rightarrow> kernel option" where
  "copy_units dst src i k =
     (let c = read_le 2 (src + of_nat (2 * i)) k;
          k' = write_le 2 (dst + of_nat (2 * i)) c k
      in if c = 0 then Some k' else copy_units dst src (Suc i) k')"

definition lstrcpy_w :: "u64 \<Rightarrow> u64 \<Rightarrow> 'h process \<Rightarrow> (u64 \<times> 'h process) option" where
  "lstrcpy_w dst src s =
     (if dst = 0 \<or> src = 0 then Some (dst, s)
      else map_option (\<lambda>k. (dst, s\<lparr>kern := k\<rparr>)) (copy_units dst src 0 (kern s)))"

definition lstrcat_w :: "u64 \<Rightarrow> u64 \<Rightarrow> 'h process \<Rightarrow> (u64 \<times> 'h process) option" where
  "lstrcat_w dst src s =
     (if dst = 0 \<or> src = 0 then Some (dst, s)
      else case nul_len 2 dst (kern s) 0 of
             None \<Rightarrow> None
           | Some d \<Rightarrow>
               map_option (\<lambda>k. (dst, s\<lparr>kern := k\<rparr>)) (copy_units (dst + of_nat (2 * d)) src 0 (kern s)))"

section \<open>Conversion\<close>

lemma as_i32_small: "n < 2 ^ 31 \<Longrightarrow> as_i32 n = int n"
  by (simp add: as_i32_def sint_uint uint_nat unat_of_nat signed_take_bit_int_eq_self take_bit_int_eq_self_iff)

lemma utf16_char_nonempty: "utf16_char c \<noteq> []"
  by (simp add: utf16_char_def)

lemma encode_utf16_nonempty: "s \<noteq> [] \<Longrightarrow> encode_utf16 s \<noteq> []"
  by (cases s) (simp_all add: encode_utf16_def utf16_char_nonempty)

lemma from_utf8_nonempty: "from_utf8 bs = Some t \<Longrightarrow> bs \<noteq> [] \<Longrightarrow> t \<noteq> []"
  using utf8_from_utf8 [of bs t] by (auto simp: utf8_def)

text \<open>C40. UTF-8 text converted to UTF-16 and back is the same text: for bytes that are valid UTF-8 and buffers large
  enough, \<open>MultiByteToWideChar\<close> returns the number of code units it wrote, \<open>WideCharToMultiByte\<close> on those units returns the
  number of the original bytes, and the second buffer holds them.\<close>

theorem text_round_trip:
  fixes s :: "'h process"
  assumes "code_page = 65001 \<or> code_page = 0"
    and "from_utf8 (load_bytes (nat n) p (kern s)) = Some t"
    and "0 < n" and "p \<noteq> 0" and "dst \<noteq> 0" and "out \<noteq> 0"
    and "int (length (encode_utf16 t)) \<le> cch" and "cch < 2 ^ 31" and "n \<le> cap" and "cap < 2 ^ 31"
  shows "\<exists>(s1 :: 'h process) s2. multi_byte_to_wide_char code_page p n dst cch s = Some (int (length (encode_utf16 t)), s1) \<and>
    wide_char_to_multi_byte code_page dst (int (length (encode_utf16 t))) out cap s1 = Some (n, s2) \<and>
    load_bytes (nat n) out (kern s2) = load_bytes (nat n) p (kern s)"
proof -
  let ?bs = "load_bytes (nat n) p (kern s)" and ?us = "encode_utf16 t"
  let ?s1 = "upd_kern (store_units ?us dst) s"
  have t: "utf8 t = ?bs" "\<forall>c \<in> set t. is_scalar c" using utf8_from_utf8 [OF assms(2)] by auto
  have "?bs \<noteq> []" using assms(3) by (metis length_load_bytes list.size(3) zero_less_nat_eq less_irrefl)
  then have pos: "0 < length ?us" using from_utf8_nonempty [OF assms(2)] encode_utf16_nonempty by simp
  have small: "length ?us < 2 ^ 31" using assms(7,8) by simp
  have cch: "0 < cch" using pos assms(7) by linarith
  have 1: "multi_byte_to_wide_char code_page p n dst cch s = Some (int (length ?us), ?s1)"
    using assms(1-5,7) pos cch as_i32_small [OF small]
    by (simp add: multi_byte_to_wide_char_def mb_input_def mb_units_def Let_def)
  have "load_units (length ?us) dst (kern ?s1) = ?us"
    unfolding upd_kern_def using load_store_units [of ?us] small by simp
  then have in2: "wc_input dst (int (length ?us)) (kern ?s1) = Some (Some ?us)"
    using pos assms(5) by (simp add: wc_input_def)
  have out2: "wc_bytes code_page ?us = ?bs" using assms(1) t from_encode_utf16 by (simp add: wc_bytes_def)
  have n: "as_i32 (length ?bs) = n" using as_i32_small [of "nat n"] assms(3,9,10) by simp
  have "wide_char_to_multi_byte code_page dst (int (length ?us)) out cap ?s1 =
      Some (n, upd_kern (store_bytes ?bs out) ?s1)"
    using assms(3,6,9) by (simp add: wide_char_to_multi_byte_def in2 out2 n [simplified] Let_def)
  moreover have "load_bytes (nat n) out (kern (upd_kern (store_bytes ?bs out) ?s1)) = ?bs"
    using load_store_bytes [of ?bs out] assms(9,10) by (simp add: upd_kern_def)
  ultimately show ?thesis using 1 by blast
qed

text \<open>A process whose memory holds the two bytes of U+00E9.\<close>

definition text_process :: "unit process" where
  "text_process = process_new\<lparr>kern := store_bytes [0xC3, 0xA9] 0x1000 kernel_new\<rparr>"

lemma text_process_bytes: "load_bytes 2 0x1000 (kern text_process) = [0xC3, 0xA9]"
  by (simp add: text_process_def numeral_2_eq_2)

theorem text_round_trip_witness:
  "\<exists>(s1 :: unit process) s2. multi_byte_to_wide_char 65001 0x1000 2 0x2000 8 text_process = Some (1, s1) \<and>
    wide_char_to_multi_byte 65001 0x2000 1 0x3000 8 s1 = Some (2, s2) \<and>
    load_bytes 2 0x3000 (kern s2) = [0xC3, 0xA9]"
proof -
  have "from_utf8 (load_bytes (nat 2) 0x1000 (kern text_process)) = Some [0xE9]"
    by (simp add: text_process_bytes cont_def cons_if_def)
  from text_round_trip [OF _ this, of 65001 "0x2000" "0x3000" 8 8] show ?thesis
    by (simp add: text_process_bytes encode_utf16_def utf16_char_def)
qed

text \<open>The length reported without a buffer is exactly what is needed: with that capacity or more the conversion
  returns the same length, with less it writes nothing, returns zero and sets \<open>ERROR_INSUFFICIENT_BUFFER\<close>.\<close>

theorem query_then_convert:
  assumes "multi_byte_to_wide_char code_page p cb 0 0 s = Some (n, s1)" and "0 < n" and "dst \<noteq> 0" and "0 < cch"
  shows "s1 = s \<and>
    (if cch < n then multi_byte_to_wide_char code_page p cb dst cch s = Some (0, set_last_error 122 s)
     else \<exists>k. multi_byte_to_wide_char code_page p cb dst cch s = Some (n, s\<lparr>kern := k\<rparr>))"
  using assms by (auto simp: multi_byte_to_wide_char_def Let_def upd_kern_def split: option.splits)

theorem query_then_convert_witness:
  "multi_byte_to_wide_char 1252 0x1000 2 0x2000 1 text_process = Some (0, set_last_error 122 text_process)"
proof -
  have "multi_byte_to_wide_char 1252 0x1000 2 0 0 text_process = Some (2, text_process)"
    by (simp add: multi_byte_to_wide_char_def mb_input_def mb_units_def text_process_bytes as_i32_def)
  from query_then_convert [OF this, of "0x2000" 1] show ?thesis by simp
qed

section \<open>Copying\<close>

lemma unit_written: "(ucast (read_le 2 p (write_le 2 p c k)) :: u16) = ucast c"
proof -
  have "(ucast (take_bit 16 c :: u64) :: u16) = ucast c" by (rule bit_word_eqI) (simp add: bit_simps)
  then show ?thesis using read_write_le [of 2 p c k] by simp
qed

text \<open>The loop copies the string, its zero included, and writes nowhere else.\<close>

lemma copy_units_spec:
  assumes "wide_at us (src + of_nat (2 * i)) k"
    and "area (dst + of_nat (2 * i)) (2 * length us + 2) \<inter> area (src + of_nat (2 * i)) (2 * length us + 2) = {}"
    and "2 * length us + 2 < 2 ^ 64"
  shows "\<exists>k'. copy_units dst src i k = Some k' \<and> wide_at us (dst + of_nat (2 * i)) k' \<and>
    (\<forall>a. a \<notin> area (dst + of_nat (2 * i)) (2 * length us + 2) \<longrightarrow> guest k' a = guest k a)"
  using assms
proof (induction us arbitrary: i k)
  case Nil
  then show ?case
    by (subst copy_units.simps) (simp add: wide_at_Nil Let_def read_write_le write_le_frame flip: numeral_2_eq_2)
next
  case (Cons u us)
  let ?d = "dst + of_nat (2 * i)" and ?s = "src + of_nat (2 * i)" and ?n = "2 * length us + 2"
  let ?c = "read_le 2 ?s k"
  let ?k = "write_le 2 ?d ?c k"
  have next_i: "dst + of_nat (2 * Suc i) = ?d + 2" "src + of_nat (2 * Suc i) = ?s + 2" by (simp_all add: add.assoc)
  have areas: "area ?d (2 * length (u # us) + 2) = area ?d 2 \<union> area (?d + 2) ?n"
    "area ?s (2 * length (u # us) + 2) = area ?s 2 \<union> area (?s + 2) ?n"
    using area_add [of ?d 2 ?n] area_add [of ?s 2 ?n] by simp_all
  have u: "ucast ?c = u" "u \<noteq> 0" and w: "wide_at us (?s + 2) k" using Cons.prems(1) by (auto simp: wide_at_Cons)
  then have c: "?c \<noteq> 0" by auto
  have "wide_at us (?s + 2) ?k"
    using Cons.prems(2) unfolding areas by (intro wide_at_area [OF w] write_le_frame) auto
  then obtain k' where k': "copy_units dst src (Suc i) ?k = Some k'" "wide_at us (?d + 2) k'"
      "\<forall>a. a \<notin> area (?d + 2) ?n \<longrightarrow> guest k' a = guest ?k a"
    using Cons.IH [of "Suc i" ?k] Cons.prems(2,3) unfolding areas next_i by auto
  have "area ?d 2 \<inter> area (?d + 2) ?n = {}" using Cons.prems(3) by (intro fresh_area_2) simp
  then have "read_le 2 ?d k' = read_le 2 ?d ?k" using k'(3) by (intro read_le_area) auto
  then have "wide_at (u # us) ?d k'" using k'(2) u by (simp add: wide_at_Cons unit_written)
  moreover have "copy_units dst src i k = Some k'" using c k'(1) by (subst copy_units.simps) (simp add: Let_def)
  moreover have "guest k' a = guest k a" if "a \<notin> area ?d (2 * length (u # us) + 2)" for a
    using that k'(3) unfolding areas by (simp add: write_le_frame)
  ultimately show ?case by blast
qed

text \<open>\<open>lstrcatW\<close> on two strings that end at a zero, the first with room for both and apart from the second: the
  call returns the first pointer, where the concatenation now stands, ended by a zero; the second string and all memory
  outside the room are as before.\<close>

theorem lstrcat_appends:
  fixes s :: "'h process"
  assumes "wide_at as dst (kern s)" and "wide_at us src (kern s)" and "dst \<noteq> 0" and "src \<noteq> 0"
    and "area dst (2 * (length as + length us) + 2) \<inter> area src (2 * length us + 2) = {}"
    and "2 * (length as + length us) + 2 < 2 ^ 64"
  shows "\<exists>s' :: 'h process. lstrcat_w dst src s = Some (dst, s') \<and> wide_at (as @ us) dst (kern s') \<and> wide_at us src (kern s') \<and>
    (\<forall>a. a \<notin> area dst (2 * (length as + length us) + 2) \<longrightarrow> guest (kern s') a = guest (kern s) a)"
proof -
  let ?k = "kern s" and ?d = "dst + of_nat (2 * length as)" and ?n = "2 * length us + 2"
  have room: "area dst (2 * (length as + length us) + 2) = area dst (2 * length as) \<union> area ?d ?n"
    using area_add [of dst "2 * length as" ?n] by (simp add: algebra_simps)
  obtain k' where k': "copy_units ?d src 0 ?k = Some k'" "wide_at us ?d k'"
      "\<forall>a. a \<notin> area ?d ?n \<longrightarrow> guest k' a = guest ?k a"
    using copy_units_spec [of us src 0 ?k ?d] assms(2,5,6) unfolding room by auto
  have "area dst (2 * length as) \<inter> area ?d ?n = {}"
  proof -
    have False if "i < 2 * length as" "j < ?n" "dst + of_nat i = ?d + of_nat j" for i j
      using small_offset_neq [of i "2 * length as + j" dst] that assms(6) by (simp add: add.assoc)
    then show ?thesis by (auto simp: area_def)
  qed
  then have "load_units (length as) dst k' = load_units (length as) dst ?k"
    using k'(3) by (intro load_units_area) auto
  then have "wide_at (as @ us) dst k'" using k'(2) assms(1) unfolding wide_at_append wide_at_def [of as] by simp
  moreover have "wide_at us src k'" using k'(3) assms(5) unfolding room by (intro wide_at_area [OF assms(2)]) auto
  moreover have "lstrcat_w dst src s = Some (dst, s\<lparr>kern := k'\<rparr>)"
    using assms(3,4) wide_at_len [OF assms(1)] k'(1) by (simp add: lstrcat_w_def)
  ultimately show ?thesis using k'(3) unfolding room by auto
qed

text \<open>A process with the string \<open>a\<close> at \<^verbatim>\<open>0x1000\<close> and \<open>b\<close> at \<^verbatim>\<open>0x2000\<close>.\<close>

definition wide_process :: "unit process" where
  "wide_process = process_new\<lparr>kern := store_units [98, 0] 0x2000 (store_units [97, 0] 0x1000 kernel_new)\<rparr>"

theorem lstrcat_appends_witness:
  "\<exists>s' :: unit process. lstrcat_w 0x1000 0x2000 wide_process = Some (0x1000, s') \<and> wide_at [97, 98] 0x1000 (kern s')"
proof -
  have "wide_at [98] 0x2000 (kern wide_process)"
    using wide_at_store [of "[98]" "0x2000"] by (simp add: wide_process_def)
  moreover have "wide_at [97] 0x1000 (kern wide_process)"
  proof -
    have "wide_at [97] 0x1000 (store_units [97, 0] 0x1000 kernel_new)"
      using wide_at_store [of "[97]" "0x1000"] by simp
    moreover have "guest (kern wide_process) a = guest (store_units [97, 0] 0x1000 kernel_new) a"
      if "a \<in> area 0x1000 (2 * length [97 :: u16] + 2)" for a
      using that area_apart [of "0x1000" 4 "0x2000" 4] unfolding wide_process_def
      by (auto simp del: store_units.simps intro!: store_units_frame)
    ultimately show ?thesis by (rule wide_at_area)
  qed
  moreover have "area 0x1000 6 \<inter> area 0x2000 4 = {}" by (rule area_apart) simp_all
  ultimately show ?thesis
    using lstrcat_appends [of "[97]" "0x1000" wide_process "[98]" "0x2000"] by auto
qed

end
