(* ===== verification/Registry.thy ===== *)
theory Registry
  imports Guest KeyMap
begin

text \<open>
  The in-memory registry, \<^verbatim>\<open>crates/win32-kernel32/src/registry.rs\<close>: keys by full path, values by name, and the
  table of open key handles. A call takes the registry and the guest's memory and gives a status, or \<open>None\<close> when a
  string it scans has no terminating zero; parameters the code ignores are left out. The abstract registry \<open>reg_abs\<close> is
  a map from path and name to a value.
\<close>

section \<open>State\<close>

record reg_value =
  reg_type :: u32
  data :: "u8 list"

record reg_key =
  vals :: "(rstring, reg_value) hashmap"

record registry =
  keys :: "(rstring, reg_key) hashmap"
  handles :: "(handle, rstring) hashmap"
  next_key :: handle

definition Registry_new :: registry where
  "Registry_new = \<lparr>keys = [], handles = [], next_key = 0x0002000000000001\<rparr>"

definition mint :: "rstring \<Rightarrow> registry \<Rightarrow> handle \<times> registry" where
  "mint path r = (next_key r, r\<lparr>next_key := next_key r + 1, handles := AList.update (next_key r) path (handles r)\<rparr>)"

abbreviation ERROR_SUCCESS :: u32 where "ERROR_SUCCESS \<equiv> 0"
abbreviation ERROR_FILE_NOT_FOUND :: u32 where "ERROR_FILE_NOT_FOUND \<equiv> 2"
abbreviation ERROR_INVALID_HANDLE :: u32 where "ERROR_INVALID_HANDLE \<equiv> 6"
abbreviation ERROR_CALL_NOT_IMPLEMENTED :: u32 where "ERROR_CALL_NOT_IMPLEMENTED \<equiv> 120"
abbreviation ERROR_MORE_DATA :: u32 where "ERROR_MORE_DATA \<equiv> 234"
abbreviation ERROR_NO_MORE_ITEMS :: u32 where "ERROR_NO_MORE_ITEMS \<equiv> 259"
abbreviation REG_CREATED_NEW_KEY :: u32 where "REG_CREATED_NEW_KEY \<equiv> 1"
abbreviation REG_OPENED_EXISTING_KEY :: u32 where "REG_OPENED_EXISTING_KEY \<equiv> 2"

section \<open>Paths\<close>

definition root_name :: "handle \<Rightarrow> rstring option" where
  "root_name h = map_option (map of_char)
     (if h = 0x80000000 then Some ''HKCR'' else if h = 0x80000001 then Some ''HKCU''
      else if h = 0x80000002 then Some ''HKLM'' else if h = 0x80000003 then Some ''HKU''
      else if h = 0x80000005 then Some ''HKCC'' else None)"

definition resolve_path :: "handle \<Rightarrow> registry \<Rightarrow> rstring option" where
  "resolve_path h r = (case root_name h of Some n \<Rightarrow> Some n | None \<Rightarrow> map_of (handles r) h)"

text \<open>The separator \<open>\\<close>.\<close>

abbreviation sep :: nat where "sep \<equiv> 92"

definition build_path :: "handle \<Rightarrow> u64 \<Rightarrow> registry \<Rightarrow> kernel \<Rightarrow> rstring option option" where
  "build_path parent subkey r k =
     (case (case root_name parent of Some n \<Rightarrow> Some n | None \<Rightarrow> map_of (handles r) parent) of
        None \<Rightarrow> Some None
      | Some parent_path \<Rightarrow>
          (case utf16_to_string subkey k of
             None \<Rightarrow> None
           | Some sub \<Rightarrow> Some (Some (if sub = [] then parent_path else parent_path @ sep # sub))))"

section \<open>Keys\<close>

type_synonym reg_result = "(u32 \<times> registry \<times> kernel) option"

definition empty_key :: reg_key where
  "empty_key = \<lparr>vals = []\<rparr>"

definition reg_open_key_w :: "handle \<Rightarrow> u64 \<Rightarrow> u64 \<Rightarrow> registry \<Rightarrow> kernel \<Rightarrow> reg_result" where
  "reg_open_key_w hkey subkey result r k =
     (case build_path hkey subkey r k of
        None \<Rightarrow> None
      | Some None \<Rightarrow> Some (ERROR_INVALID_HANDLE, r, k)
      | Some (Some path) \<Rightarrow>
          (case mint path (r\<lparr>keys := or_default path empty_key (keys r)\<rparr>) of (h, r) \<Rightarrow>
             Some (ERROR_SUCCESS, r, put_le 8 result h k)))"

definition reg_open_key_ex_w :: "handle \<Rightarrow> u64 \<Rightarrow> u32 \<Rightarrow> u32 \<Rightarrow> u64 \<Rightarrow> registry \<Rightarrow> kernel \<Rightarrow> reg_result" where
  "reg_open_key_ex_w hkey subkey reserved access result r k = reg_open_key_w hkey subkey result r k"

definition reg_create_key_ex_w :: "handle \<Rightarrow> u64 \<Rightarrow> u64 \<Rightarrow> u64 \<Rightarrow> registry \<Rightarrow> kernel \<Rightarrow> reg_result" where
  "reg_create_key_ex_w hkey subkey result disp r k =
     (case build_path hkey subkey r k of
        None \<Rightarrow> None
      | Some None \<Rightarrow> Some (ERROR_INVALID_HANDLE, r, k)
      | Some (Some path) \<Rightarrow>
          let created = (map_of (keys r) path = None) in
          (case mint path (r\<lparr>keys := or_default path empty_key (keys r)\<rparr>) of (h, r) \<Rightarrow>
             Some (ERROR_SUCCESS, r,
               put_le 4 disp (ucast (if created then REG_CREATED_NEW_KEY else REG_OPENED_EXISTING_KEY))
                 (put_le 8 result h k))))"

definition reg_close_key :: "handle \<Rightarrow> registry \<Rightarrow> u32 \<times> registry" where
  "reg_close_key hkey r =
     (if root_name hkey \<noteq> None then (ERROR_SUCCESS, r)
      else (ERROR_SUCCESS, r\<lparr>handles := AList.delete hkey (handles r)\<rparr>))"

definition reg_delete_key_w :: "handle \<Rightarrow> u64 \<Rightarrow> registry \<Rightarrow> kernel \<Rightarrow> (u32 \<times> registry) option" where
  "reg_delete_key_w hkey subkey r k =
     (case build_path hkey subkey r k of
        None \<Rightarrow> None
      | Some None \<Rightarrow> Some (ERROR_INVALID_HANDLE, r)
      | Some (Some path) \<Rightarrow>
          Some (if map_of (keys r) path \<noteq> None then ERROR_SUCCESS else ERROR_FILE_NOT_FOUND,
                r\<lparr>keys := AList.delete path (keys r)\<rparr>))"

definition starts_with :: "rstring \<Rightarrow> rstring \<Rightarrow> bool" where
  "starts_with p s \<longleftrightarrow> strip_prefix p s \<noteq> None"

definition reg_delete_tree_w :: "handle \<Rightarrow> u64 \<Rightarrow> registry \<Rightarrow> kernel \<Rightarrow> (u32 \<times> registry) option" where
  "reg_delete_tree_w hkey subkey r k =
     (case build_path hkey subkey r k of
        None \<Rightarrow> None
      | Some None \<Rightarrow> Some (ERROR_INVALID_HANDLE, r)
      | Some (Some base) \<Rightarrow>
          let existed = (map_of (keys r) base \<noteq> None);
              ks = AList.delete base (keys r);
              ks = retain (\<lambda>path. \<not> starts_with (base @ [sep]) path) ks
          in Some (if existed then ERROR_SUCCESS else ERROR_FILE_NOT_FOUND, r\<lparr>keys := ks\<rparr>))"

section \<open>Values\<close>

definition reg_query_value_ex_w ::
  "handle \<Rightarrow> u64 \<Rightarrow> u64 \<Rightarrow> u64 \<Rightarrow> u64 \<Rightarrow> registry \<Rightarrow> kernel \<Rightarrow> (u32 \<times> kernel) option" where
  "reg_query_value_ex_w hkey name type_out data_out len r k =
     (case resolve_path hkey r of
        None \<Rightarrow> Some (ERROR_INVALID_HANDLE, k)
      | Some path \<Rightarrow>
          (case utf16_to_string name k of
             None \<Rightarrow> None
           | Some n \<Rightarrow>
               (case map_of (keys r) path of
                  None \<Rightarrow> Some (ERROR_FILE_NOT_FOUND, k)
                | Some key \<Rightarrow>
                    (case map_of (vals key) n of
                       None \<Rightarrow> Some (ERROR_FILE_NOT_FOUND, k)
                     | Some v \<Rightarrow>
                         let needed = (of_nat (length (data v)) :: u32);
                             k = put_le 4 type_out (ucast (reg_type v)) k;
                             cap = (if len = 0 then 0 else ucast (read_le 4 len k) :: u32);
                             k = put_le 4 len (ucast needed) k
                         in Some (if data_out = 0 \<or> cap = 0 then (ERROR_SUCCESS, k)
                                  else if needed > cap then (ERROR_MORE_DATA, k)
                                  else (ERROR_SUCCESS, store_bytes (take (unat needed) (data v)) data_out k))))))"

definition put_value :: "rstring \<Rightarrow> rstring \<Rightarrow> u32 \<Rightarrow> u8 list \<Rightarrow> registry \<Rightarrow> registry" where
  "put_value path name ty bytes r =
     (let ks = or_default path empty_key (keys r);
          key = (case map_of ks path of Some key \<Rightarrow> key | None \<Rightarrow> empty_key);
          key = key\<lparr>vals := AList.update name \<lparr>reg_type = ty, data = bytes\<rparr> (vals key)\<rparr>
      in r\<lparr>keys := AList.update path key ks\<rparr>)"

definition reg_set_value_ex_w ::
  "handle \<Rightarrow> u64 \<Rightarrow> u32 \<Rightarrow> u64 \<Rightarrow> u32 \<Rightarrow> registry \<Rightarrow> kernel \<Rightarrow> (u32 \<times> registry) option" where
  "reg_set_value_ex_w hkey name ty data_in cb r k =
     (case resolve_path hkey r of
        None \<Rightarrow> Some (ERROR_INVALID_HANDLE, r)
      | Some path \<Rightarrow>
          (case utf16_to_string name k of
             None \<Rightarrow> None
           | Some n \<Rightarrow>
               let bytes = (if data_in = 0 \<or> cb = 0 then [] else load_bytes (unat cb) data_in k)
               in Some (ERROR_SUCCESS, put_value path n ty bytes r)))"

section \<open>Shape of a key and constant answers\<close>

text \<open>The path of a direct subkey of \<open>path\<close> below it, if \<open>key_path\<close> is one.\<close>

definition direct_subkey :: "rstring \<Rightarrow> rstring \<Rightarrow> rstring option" where
  "direct_subkey path key_path =
     (case strip_prefix (path @ [sep]) key_path of
        Some rest \<Rightarrow> if rest \<noteq> [] \<and> sep \<notin> set rest then Some rest else None
      | None \<Rightarrow> None)"

fun count_subkeys :: "rstring \<Rightarrow> rstring list \<Rightarrow> u32 \<times> nat \<Rightarrow> u32 \<times> nat" where
  "count_subkeys path [] acc = acc"
| "count_subkeys path (p # ps) (count, max_chars) =
     count_subkeys path ps
       (case direct_subkey path p of
          Some rest \<Rightarrow> (count + 1, max max_chars (length (encode_utf16 rest)))
        | None \<Rightarrow> (count, max_chars))"

definition reg_query_info_key_w ::
  "handle \<Rightarrow> u64 \<Rightarrow> u64 \<Rightarrow> u64 \<Rightarrow> u64 \<Rightarrow> u64 \<Rightarrow> u64 \<Rightarrow> u64 \<Rightarrow> u64 \<Rightarrow> u64 \<Rightarrow> u64 \<Rightarrow> registry \<Rightarrow> kernel \<Rightarrow> u32 \<times> kernel" where
  "reg_query_info_key_w hkey class class_len sub_keys max_subkey_len max_class_len n_values max_value_name_len
      max_value_len sa_len last_write r k =
     (case resolve_path hkey r of
        None \<Rightarrow> (ERROR_INVALID_HANDLE, k)
      | Some path \<Rightarrow>
          let (subkey_count, max_subkey_chars) = count_subkeys path (map fst (keys r)) (0, 0);
              (value_count, max_value_name_chars) =
                (case map_of (keys r) path of
                   Some key \<Rightarrow> (of_nat (length (vals key)) :: u32,
                                foldr max (map (\<lambda>(n, _). length (encode_utf16 n)) (vals key)) 0)
                 | None \<Rightarrow> (0, 0));
              k = put_le 2 class 0 k;
              k = put_le 4 class_len 0 k;
              k = put_le 4 sub_keys (ucast subkey_count) k;
              k = put_le 4 max_subkey_len (ucast (of_nat max_subkey_chars :: u32)) k;
              k = put_le 4 max_class_len 0 k;
              k = put_le 4 n_values (ucast value_count) k;
              k = put_le 4 max_value_name_len (ucast (of_nat max_value_name_chars :: u32)) k;
              k = put_le 4 max_value_len 0 k;
              k = put_le 4 sa_len 0 k;
              k = put_le 8 last_write 0 k
          in (ERROR_SUCCESS, k))"

definition reg_enum_key_w :: "handle \<Rightarrow> u32 \<Rightarrow> u32" where
  "reg_enum_key_w hkey index = ERROR_NO_MORE_ITEMS"

definition reg_enum_value_w :: "handle \<Rightarrow> u32 \<Rightarrow> u32" where
  "reg_enum_value_w hkey index = ERROR_NO_MORE_ITEMS"

definition reg_resolve_custom_key_handler :: "handle \<Rightarrow> u32" where
  "reg_resolve_custom_key_handler hkey = ERROR_CALL_NOT_IMPLEMENTED"

definition is_text_unicode :: "u64 \<Rightarrow> int \<Rightarrow> bool" where
  "is_text_unicode buffer len = False"

end
