(* ===== verification/RegistrySpec.thy ===== *)
theory RegistrySpec
  imports Registry SyncSpec
begin

text \<open>
  The registry against its abstract state, a map from path and value name to a value, and the handles of open keys,
  an interpretation of the same interface as the kernel's handle table. The invariant of every reachable registry is
  proved by rule induction over the calls.
\<close>

section \<open>Open keys are a handle store\<close>

abbreviation first_key :: handle where "first_key \<equiv> 0x0002000000000001"

definition keys_inv :: "registry \<Rightarrow> bool" where
  "keys_inv r \<longleftrightarrow> hm_inv (handles r) \<and> first_key \<le> next_key r \<and>
     (\<forall>h. map_of (handles r) h \<noteq> None \<longrightarrow> first_key \<le> h \<and> h < next_key r)"

definition keys_room :: "nat \<Rightarrow> registry \<Rightarrow> bool" where
  "keys_room n r \<longleftrightarrow> unat (next_key r) + n < 2 ^ 64"

definition minted :: "handle \<Rightarrow> registry \<Rightarrow> bool" where
  "minted h r \<longleftrightarrow> h < next_key r"

definition is_root :: "handle \<Rightarrow> bool" where
  "is_root h \<longleftrightarrow> root_name h \<noteq> None"

text \<open>\<open>RegCloseKey\<close> with the answer whether the handle was known, which the call itself does not give.\<close>

definition close_key :: "handle \<Rightarrow> registry \<Rightarrow> bool \<times> registry \<times> unit list" where
  "close_key h r = (is_root h \<or> map_of (handles r) h \<noteq> None, snd (reg_close_key h r), [])"

lemma root_small: "is_root h \<Longrightarrow> h < first_key"
  by (auto simp: is_root_def root_name_def split: if_splits)

lemma next_key_succ: "keys_room (Suc n) r \<Longrightarrow> unat (next_key r + 1) = unat (next_key r) + 1"
  by (rule unat_succ64) (simp add: keys_room_def)

interpretation rk: handle_store mint "\<lambda>r. map_of (handles r)" close_key "\<lambda>_. []" keys_inv keys_room minted is_root
proof (unfold_locales, goal_cases)
  case (1 t n ob h t')
  note nx = next_key_succ [OF 1(2)]
  from 1 nx show ?case
    by (auto simp: mint_def keys_inv_def keys_room_def hm.inv_ins update_conv'
        word_less_nat_alt word_le_nat_alt less_Suc_eq split: if_splits)
next
  case (4 t n ob h t' h')
  with next_key_succ [OF 4(2)] show ?case
    by (auto simp: mint_def minted_def word_less_nat_alt less_Suc_eq word_unat_eq_iff)
next
  case (5 t n ob h t')
  then show ?case using root_small [of h] by (auto simp: mint_def keys_inv_def not_less)
next
  case (2 ob t h t')
  then show ?case by (auto simp: mint_def update_conv')
next
  case (7 t h b t' ds)
  then show ?case
    by (auto simp: close_key_def reg_close_key_def keys_inv_def delete_conv' hm.inv_del split: if_splits)
next
  case (10 h t b t' ds)
  then show ?case
    by (auto simp: close_key_def reg_close_key_def is_root_def delete_conv' split: option.splits)
qed (auto simp: mint_def minted_def keys_inv_def keys_room_def close_key_def reg_close_key_def is_root_def
      split: if_splits)

section \<open>The abstract registry\<close>

definition store_inv :: "registry \<Rightarrow> bool" where
  "store_inv r \<longleftrightarrow> hm_inv (keys r) \<and> (\<forall>p key. map_of (keys r) p = Some key \<longrightarrow> hm_inv (vals key))"

definition reg_abs :: "registry \<Rightarrow> rstring \<times> rstring \<Rightarrow> reg_value option" where
  "reg_abs r = (\<lambda>(p, n). case map_of (keys r) p of None \<Rightarrow> None | Some key \<Rightarrow> map_of (vals key) n)"

lemma empty_key_vals [simp]: "vals empty_key = []"
  by (simp add: empty_key_def)

lemma put_value_keys:
  assumes "store_inv r"
  shows "map_of (keys (put_value p n ty bs r)) = (map_of (keys r))(p \<mapsto>
    (let key = (case map_of (keys r) p of None \<Rightarrow> empty_key | Some key \<Rightarrow> key)
     in key\<lparr>vals := AList.update n \<lparr>reg_type = ty, data = bs\<rparr> (vals key)\<rparr>))"
proof -
  have i: "hm_inv (keys r)" using assms by (simp add: store_inv_def)
  show ?thesis
    by (auto simp: put_value_def Let_def hm.get_ins [OF or_default_inv [OF i]] or_default_get [OF i] fun_eq_iff
        split: option.splits)
qed

lemma put_value_inv:
  assumes "store_inv r"
  shows "store_inv (put_value p n ty bs r)"
proof -
  have i: "hm_inv (keys r)" using assms by (simp add: store_inv_def)
  have "hm_inv (keys (put_value p n ty bs r))"
    by (simp add: put_value_def Let_def hm.inv_ins or_default_inv [OF i])
  moreover have "hm_inv (vals key)" if "map_of (keys (put_value p n ty bs r)) q = Some key" for q key
    using that assms
    by (auto simp: put_value_keys [OF assms] Let_def store_inv_def hm.inv_ins split: if_splits option.splits)
      (simp add: hm_inv_def)
  ultimately show ?thesis by (simp add: store_inv_def)
qed

lemma put_value_abs:
  assumes "store_inv r"
  shows "reg_abs (put_value p n ty bs r) = (reg_abs r)((p, n) \<mapsto> \<lparr>reg_type = ty, data = bs\<rparr>)"
proof
  fix q
  show "reg_abs (put_value p n ty bs r) q = ((reg_abs r)((p, n) \<mapsto> \<lparr>reg_type = ty, data = bs\<rparr>)) q"
    by (cases q) (auto simp: reg_abs_def put_value_keys [OF assms] Let_def update_conv' split: option.splits)
qed

lemma put_value_handles [simp]: "handles (put_value p n ty bs r) = handles r"
  "next_key (put_value p n ty bs r) = next_key r"
  by (simp_all add: put_value_def Let_def)

lemma put_value_resolve [simp]: "resolve_path h (put_value p n ty bs r) = resolve_path h r"
  unfolding resolve_path_def put_value_handles ..

text \<open>What a query finds is the value of the abstract registry.\<close>

lemma query_abs:
  assumes "resolve_path h r = Some path" and "utf16_to_string name k = Some n"
    and "reg_abs r (path, n) = Some v"
  shows "reg_query_value_ex_w h name type_out data_out len r k =
    (let needed = (of_nat (length (data v)) :: u32);
         k = put_le 4 type_out (ucast (reg_type v)) k;
         cap = (if len = 0 then 0 else ucast (read_le 4 len k) :: u32);
         k = put_le 4 len (ucast needed) k
     in Some (if data_out = 0 \<or> cap = 0 then (ERROR_SUCCESS, k)
              else if needed > cap then (ERROR_MORE_DATA, k)
              else (ERROR_SUCCESS, store_bytes (take (unat needed) (data v)) data_out k)))"
  using assms by (auto simp: reg_query_value_ex_w_def reg_abs_def split: option.splits)

section \<open>Setting and querying\<close>

lemma read_put_le: "n \<le> 8 \<Longrightarrow> p \<noteq> 0 \<Longrightarrow> read_le n p (put_le n p v k) = take_bit (8 * n) v"
  by (simp add: put_le_def read_write_le)

lemma take_bit_ucast_32 [simp]: "take_bit 32 (ucast (v :: u32) :: u64) = ucast v"
  by (rule bit_eqI) (auto simp: bit_simps dest: bit_imp_le_length)

lemma ucast_ucast_32 [simp]: "(ucast (ucast (v :: u32) :: u64) :: u32) = v"
  by (rule bit_eqI) (auto simp: bit_simps)

text \<open>C37. A value set under a name is what a query under the same path and name returns, through whatever handles the
  path was reached: with room in the buffer and the three out-areas apart, the query succeeds and the guest reads
  the type, the length and the bytes that were set; the type and length are reported also when the buffer is too small,
  with \<open>ERROR_MORE_DATA\<close> and nothing written to the buffer.\<close>

theorem set_query_round_trip:
  assumes "store_inv r" and "resolve_path h r = Some path" and "resolve_path h' r = Some path"
    and "utf16_to_string name k = Some n" and "utf16_to_string name' k' = Some n"
    and "data_in \<noteq> 0" and "reg_set_value_ex_w h name ty data_in cb r k = Some (status, r')"
    and "type_out \<noteq> 0" and "len \<noteq> 0" and "data_out \<noteq> 0"
    and "read_le 4 len k' = ucast (cap :: u32)" and "cap \<noteq> 0"
    and "area type_out 4 \<inter> area len 4 = {}" and "area type_out 4 \<inter> area data_out (unat cb) = {}"
    and "area len 4 \<inter> area data_out (unat cb) = {}"
  shows "status = ERROR_SUCCESS \<and> (\<exists>k''. reg_query_value_ex_w h' name' type_out data_out len r' k' =
      Some (if cb \<le> cap then ERROR_SUCCESS else ERROR_MORE_DATA, k'') \<and>
    read_le 4 type_out k'' = ucast ty \<and> read_le 4 len k'' = ucast cb \<and>
    load_bytes (unat cb) data_out k'' = load_bytes (unat cb) (if cb \<le> cap then data_in else data_out)
      (if cb \<le> cap then k else k'))"
proof -
  let ?bs = "load_bytes (unat cb) data_in k" and ?v = "\<lparr>reg_type = ty, data = load_bytes (unat cb) data_in k\<rparr>"
  let ?k1 = "put_le 4 type_out (ucast ty) k'"
  let ?k2 = "put_le 4 len (ucast cb) ?k1"
  let ?k3 = "if cb \<le> cap then store_bytes ?bs data_out ?k2 else ?k2"
  have r': "status = ERROR_SUCCESS" "r' = put_value path n ty ?bs r"
    using assms(2,4,6,7) by (auto simp: reg_set_value_ex_w_def Let_def)
  have "reg_abs r' (path, n) = Some ?v" "resolve_path h' r' = Some path"
    using r' assms(3) put_value_abs [OF assms(1)] by simp_all
  moreover have "read_le 4 len ?k1 = read_le 4 len k'"
    using assms(13) by (intro read_le_area put_le_frame) auto
  ultimately have q: "reg_query_value_ex_w h' name' type_out data_out len r' k' =
      Some (if cb \<le> cap then ERROR_SUCCESS else ERROR_MORE_DATA, ?k3)"
    using assms(9-12) by (simp add: query_abs [OF _ assms(5)] Let_def not_less)
  have f: "guest ?k3 a = guest ?k2 a" if "a \<notin> area data_out (unat cb)" for a
    using that by (simp add: store_bytes_frame)
  have "read_le 4 type_out ?k3 = read_le 4 type_out ?k1"
    using assms(13,14) by (intro read_le_area trans [OF f put_le_frame]) auto
  moreover have "read_le 4 len ?k3 = read_le 4 len ?k2"
    using assms(15) by (intro read_le_area f) auto
  moreover have "load_bytes (unat cb) data_out ?k2 = load_bytes (unat cb) data_out k'"
    using assms(14,15) by (intro load_bytes_area trans [OF put_le_frame put_le_frame]) auto
  moreover have "unat cb \<le> 2 ^ 64" using unsigned_less [of cb, where ?'a = nat] by simp
  ultimately show ?thesis using r'(1) q assms(8,9) load_store_bytes [of ?bs data_out ?k2]
    by (simp add: read_put_le)
qed

text \<open>A guest with the name \<open>V\<close> and four bytes of data in its memory, and a length of 16 for the answer.\<close>

definition reg_guest :: kernel where
  "reg_guest = write_le 4 0x3000 16 (store_bytes [1, 2, 3, 4] 0x2000 (store_units [86, 0] 0x1000 kernel_new))"

lemma reg_guest_name: "utf16_to_string 0x1000 reg_guest = Some [86]"
proof -
  have "wide_at [86] 0x1000 (store_units [86, 0] 0x1000 kernel_new)"
    using wide_at_store [of "[86]" "0x1000"] by simp
  moreover have "guest reg_guest a = guest (store_units [86, 0] 0x1000 kernel_new) a"
    if "a \<in> area 0x1000 (2 * length [86 :: u16] + 2)" for a
  proof -
    have "a \<notin> area 0x3000 4" "a \<notin> area 0x2000 (length [1, 2, 3, 4 :: u8])"
      using that area_apart [of "0x1000" 4 "0x2000" "length [1, 2, 3, 4 :: u8]"] area_apart [of "0x1000" 4 "0x3000" 4]
      by auto
    then show ?thesis unfolding reg_guest_def by (rule trans [OF write_le_frame store_bytes_frame])
  qed
  ultimately have "wide_at [86] 0x1000 reg_guest" by (rule wide_at_area)
  then show ?thesis by (simp add: wide_at_string)
qed

lemma reg_guest_len: "read_le 4 0x3000 reg_guest = ucast (16 :: u32)"
  by (simp add: reg_guest_def read_write_le)

lemma reg_guest_data: "load_bytes 4 0x2000 reg_guest = [1, 2, 3, 4]"
proof -
  let ?k = "store_bytes [1, 2, 3, 4] 0x2000 (store_units [86, 0] 0x1000 kernel_new)"
  have "load_bytes 4 0x2000 reg_guest = load_bytes 4 0x2000 ?k"
    unfolding reg_guest_def using area_apart [of "0x2000" 4 "0x3000" 4]
    by (intro load_bytes_area write_le_frame) auto
  also have "\<dots> = [1, 2, 3, 4]"
  proof -
    have "length [1, 2, 3, 4 :: u8] = 4" "length [1, 2, 3, 4 :: u8] \<le> 2 ^ 64" by simp_all
    then show ?thesis using load_store_bytes [of "[1, 2, 3, 4 :: u8]"] by metis
  qed
  finally show ?thesis .
qed

lemma store_inv_new: "store_inv Registry_new"
  by (simp add: store_inv_def Registry_new_def hm_inv_def)

theorem set_query_round_trip_witness:
  "\<exists>r' k''. reg_set_value_ex_w 0x80000002 0x1000 4 0x2000 4 Registry_new reg_guest = Some (ERROR_SUCCESS, r') \<and>
     reg_query_value_ex_w 0x80000002 0x1000 0x4000 0x5000 0x3000 r' reg_guest = Some (ERROR_SUCCESS, k'') \<and>
     load_bytes 4 0x5000 k'' = [1, 2, 3, 4]"
proof -
  have p: "resolve_path 0x80000002 Registry_new = Some (map of_char ''HKLM'')"
    by (simp add: resolve_path_def root_name_def)
  obtain status r' where s: "reg_set_value_ex_w 0x80000002 0x1000 4 0x2000 4 Registry_new reg_guest = Some (status, r')"
    by (simp add: reg_set_value_ex_w_def p reg_guest_name)
  have "area 0x4000 4 \<inter> area 0x3000 4 = {}" "area 0x4000 4 \<inter> area 0x5000 4 = {}" "area 0x3000 4 \<inter> area 0x5000 4 = {}"
    using area_apart [of "0x3000" 4 "0x4000" 4] area_apart [of "0x4000" 4 "0x5000" 4] area_apart [of "0x3000" 4 "0x5000" 4]
    by auto
  then show ?thesis
    using set_query_round_trip [OF store_inv_new p p reg_guest_name reg_guest_name _ s, of "0x4000" "0x3000" "0x5000" 16]
      s reg_guest_len reg_guest_data by auto
qed

section \<open>Deleting a subtree\<close>

definition below :: "rstring \<Rightarrow> rstring \<Rightarrow> bool" where
  "below base p \<longleftrightarrow> p = base \<or> (\<exists>rest. p = base @ sep # rest)"

lemma starts_with_sep: "starts_with (base @ [sep]) p \<longleftrightarrow> (\<exists>rest. p = base @ sep # rest)"
  by (auto simp: starts_with_def strip_prefix_Some)

lemma delete_tree_keys:
  assumes "store_inv r" and "build_path h sub r k = Some (Some base)"
  shows "\<exists>r'. reg_delete_tree_w h sub r k =
      Some (if map_of (keys r) base = None then ERROR_FILE_NOT_FOUND else ERROR_SUCCESS, r') \<and>
    map_of (keys r') = (\<lambda>p. if below base p then None else map_of (keys r) p) \<and>
    handles r' = handles r \<and> next_key r' = next_key r \<and> store_inv r'"
proof -
  have i: "hm_inv (keys r)" using assms(1) by (simp add: store_inv_def)
  let ?ks = "retain (\<lambda>path. \<not> starts_with (base @ [sep]) path) (AList.delete base (keys r))"
  have "map_of ?ks = (\<lambda>p. if below base p then None else map_of (keys r) p)"
    by (auto simp: retain_get delete_conv' starts_with_sep below_def fun_eq_iff)
  moreover have "hm_inv ?ks" by (rule retain_inv [OF hm.inv_del [OF i]])
  ultimately show ?thesis using assms
    by (auto simp: reg_delete_tree_w_def Let_def store_inv_def split: if_splits)
qed


text \<open>The registry with the key \<open>HKLM\V\W\<close> and no key \<open>HKLM\V\<close>.\<close>

definition child_only :: registry where
  "child_only = put_value (map of_char ''HKLM'' @ [sep, 86, sep, 87]) [] 4 [] Registry_new"

lemma child_only_inv: "store_inv child_only"
  unfolding child_only_def by (rule put_value_inv [OF store_inv_new])

lemma child_only_path: "build_path 0x80000002 0x1000 child_only reg_guest = Some (Some (map of_char ''HKLM'' @ [sep, 86]))"
  by (simp add: build_path_def root_name_def reg_guest_name)


text \<open>The status hides a removal: where the named key does not exist and a key below it does, the call
  deletes the latter and reports that nothing was found.\<close>

theorem delete_tree_hides_removal:
  "\<exists>r' v. reg_delete_tree_w 0x80000002 0x1000 child_only reg_guest = Some (ERROR_FILE_NOT_FOUND, r') \<and>
     reg_abs child_only (map of_char ''HKLM'' @ [sep, 86, sep, 87], []) = Some v \<and>
     reg_abs r' (map of_char ''HKLM'' @ [sep, 86, sep, 87], []) = None"
proof -
  have "map_of (keys child_only) (map of_char ''HKLM'' @ [sep, 86]) = None"
    unfolding child_only_def put_value_keys [OF store_inv_new] by (simp add: Registry_new_def)
  moreover have "reg_abs child_only (map of_char ''HKLM'' @ [sep, 86, sep, 87], []) = Some \<lparr>reg_type = 4, data = []\<rparr>"
    unfolding child_only_def put_value_abs [OF store_inv_new] by simp
  ultimately show ?thesis using delete_tree_keys [OF child_only_inv child_only_path]
    by (auto simp: below_def reg_abs_def)
qed

section \<open>Every reachable registry\<close>

inductive reg_step :: "registry \<Rightarrow> registry \<Rightarrow> bool" where
  step_open: "reg_open_key_w h sub out r k = Some (st, r', k') \<Longrightarrow> reg_step r r'"
| step_create: "reg_create_key_ex_w h sub out disp r k = Some (st, r', k') \<Longrightarrow> reg_step r r'"
| step_close: "reg_close_key h r = (st, r') \<Longrightarrow> reg_step r r'"
| step_set: "reg_set_value_ex_w h name ty data_in cb r k = Some (st, r') \<Longrightarrow> reg_step r r'"
| step_delete: "reg_delete_key_w h sub r k = Some (st, r') \<Longrightarrow> reg_step r r'"
| step_delete_tree: "reg_delete_tree_w h sub r k = Some (st, r') \<Longrightarrow> reg_step r r'"

inductive reg_run :: "nat \<Rightarrow> registry \<Rightarrow> bool" where
  run_new: "reg_run 0 Registry_new"
| run_step: "reg_run n r \<Longrightarrow> reg_step r r' \<Longrightarrow> reg_run (Suc n) r'"

definition rooted :: "rstring \<Rightarrow> bool" where
  "rooted p \<longleftrightarrow> (\<exists>h base. root_name h = Some base \<and> below base p)"

definition paths_ok :: "registry \<Rightarrow> bool" where
  "paths_ok r \<longleftrightarrow> (\<forall>h p. map_of (handles r) h = Some p \<longrightarrow> rooted p) \<and>
     (\<forall>p. map_of (keys r) p \<noteq> None \<longrightarrow> rooted p)"

lemma rooted_extend: "rooted p \<Longrightarrow> rooted (p @ sep # rest)"
  unfolding rooted_def below_def by (metis append.assoc append_Cons)

lemma resolve_rooted: "paths_ok r \<Longrightarrow> resolve_path h r = Some p \<Longrightarrow> rooted p"
  by (auto simp: resolve_path_def paths_ok_def rooted_def below_def split: option.splits)

lemma build_rooted: "paths_ok r \<Longrightarrow> build_path h sub r k = Some (Some p) \<Longrightarrow> rooted p"
  using resolve_rooted [of r h] rooted_extend
  by (auto simp: build_path_def resolve_path_def split: option.splits if_splits)

text \<open>Opening and creating change the registry alike.\<close>

definition opened :: "rstring \<Rightarrow> registry \<Rightarrow> registry" where
  "opened path r = snd (mint path (r\<lparr>keys := or_default path empty_key (keys r)\<rparr>))"

lemma open_effect:
  "reg_open_key_w h sub out r k = Some (st, r', k') \<Longrightarrow>
    r' = r \<or> (\<exists>path. build_path h sub r k = Some (Some path) \<and> r' = opened path r)"
  by (auto simp: reg_open_key_w_def opened_def mint_def split: option.splits)

lemma create_effect:
  "reg_create_key_ex_w h sub out disp r k = Some (st, r', k') \<Longrightarrow>
    r' = r \<or> (\<exists>path. build_path h sub r k = Some (Some path) \<and> r' = opened path r)"
  by (auto simp: reg_create_key_ex_w_def opened_def mint_def Let_def split: option.splits)

lemma set_effect:
  "reg_set_value_ex_w h name ty data_in cb r k = Some (st, r') \<Longrightarrow>
    r' = r \<or> (\<exists>path n bs. resolve_path h r = Some path \<and> r' = put_value path n ty bs r)"
  by (auto simp: reg_set_value_ex_w_def Let_def split: option.splits)

lemma delete_effect:
  "reg_delete_key_w h sub r k = Some (st, r') \<Longrightarrow>
    r' = r \<or> (\<exists>path. r' = r\<lparr>keys := AList.delete path (keys r)\<rparr>)"
  by (auto simp: reg_delete_key_w_def split: option.splits)

lemma delete_tree_effect:
  "reg_delete_tree_w h sub r k = Some (st, r') \<Longrightarrow> r' = r \<or> (\<exists>path. build_path h sub r k = Some (Some path))"
  by (auto simp: reg_delete_tree_w_def split: option.splits)

section \<open>The invariant\<close>

definition reg_inv :: "registry \<Rightarrow> bool" where
  "reg_inv r \<longleftrightarrow> store_inv r \<and> keys_inv r \<and> paths_ok r"

lemma opened_inv:
  assumes "reg_inv r" and "keys_room (Suc m) r" and "rooted path"
  shows "reg_inv (opened path r) \<and> keys_room m (opened path r)"
proof -
  let ?r = "r\<lparr>keys := or_default path empty_key (keys r)\<rparr>"
  have i: "hm_inv (keys r)" using assms(1) by (simp add: reg_inv_def store_inv_def)
  have k: "keys_inv ?r" "keys_room (Suc m) ?r" using assms by (simp_all add: reg_inv_def keys_inv_def keys_room_def)
  have o: "mint path ?r = (next_key r, opened path r)" by (simp add: opened_def mint_def)
  note rk.new_inv [OF k o]
  moreover have keys: "keys (opened path r) = or_default path empty_key (keys r)" by (simp add: opened_def mint_def)
  then have "store_inv (opened path r)"
    using assms(1) or_default_inv [OF i]
    by (auto simp: reg_inv_def store_inv_def or_default_get [OF i] hm_inv_def split: if_splits option.splits)
  moreover have "paths_ok (opened path r)"
    using assms(1,3) rk.new_lookup [OF o]
    by (auto simp: reg_inv_def paths_ok_def keys or_default_get [OF i] split: if_splits)
  ultimately show ?thesis by (simp add: reg_inv_def)
qed

lemma close_inv: "reg_inv r \<Longrightarrow> reg_inv (snd (reg_close_key h r)) \<and> next_key (snd (reg_close_key h r)) = next_key r"
  using rk.del_inv [of r h "fst (close_key h r)" "snd (reg_close_key h r)" "[]"]
  by (auto simp: close_key_def reg_inv_def reg_close_key_def store_inv_def paths_ok_def delete_conv' split: if_splits)

lemma put_value_reg_inv: "reg_inv r \<Longrightarrow> rooted path \<Longrightarrow> reg_inv (put_value path n ty bs r)"
  using put_value_inv [of r] put_value_keys [of r path n ty bs]
  by (auto simp: reg_inv_def keys_inv_def paths_ok_def split: if_splits)

lemma delete_inv: "reg_inv r \<Longrightarrow> reg_inv (r\<lparr>keys := AList.delete path (keys r)\<rparr>)"
  by (auto simp: reg_inv_def store_inv_def keys_inv_def paths_ok_def delete_conv' hm.inv_del split: if_splits)

lemma delete_tree_inv:
  assumes "reg_inv r" and "build_path h sub r k = Some (Some path)" and "reg_delete_tree_w h sub r k = Some (st, r')"
  shows "reg_inv r' \<and> next_key r' = next_key r"
proof -
  have "store_inv r" using assms(1) by (simp add: reg_inv_def)
  from delete_tree_keys [OF this assms(2)] assms(3)
  have "map_of (keys r') = (\<lambda>p. if below path p then None else map_of (keys r) p)"
    "handles r' = handles r" "next_key r' = next_key r" "store_inv r'" by auto
  with assms(1) show ?thesis by (auto simp: reg_inv_def keys_inv_def paths_ok_def split: if_splits)
qed

lemma keys_room_mono: "keys_room (Suc m) r \<Longrightarrow> next_key r' = next_key r \<Longrightarrow> keys_room m r'"
  by (simp add: keys_room_def)

lemma reg_step_inv:
  assumes "reg_step r r'" and "reg_inv r" and "keys_room (Suc m) r"
  shows "reg_inv r' \<and> keys_room m r'"
proof -
  have ok: "paths_ok r" using assms(2) by (simp add: reg_inv_def)
  have same: ?thesis if "r' = r" using that assms keys_room_mono by blast
  have op: ?thesis if "build_path h sub r k = Some (Some path)" "r' = opened path r" for h sub k path
    using opened_inv [OF assms(2,3) build_rooted [OF ok that(1)]] that(2) by simp
  from assms(1) show ?thesis
  proof cases
    case (step_open h sub out k st k')
    from open_effect [OF this] same op show ?thesis by blast
  next
    case (step_create h sub out disp k st k')
    from create_effect [OF this] same op show ?thesis by blast
  next
    case (step_close h st)
    then show ?thesis using close_inv [OF assms(2), of h] keys_room_mono [OF assms(3)] by simp
  next
    case (step_set h name ty data_in cb k st)
    from set_effect [OF this] show ?thesis
      using same put_value_reg_inv [OF assms(2) resolve_rooted [OF ok]] keys_room_mono [OF assms(3)]
        put_value_handles(2) by blast
  next
    case (step_delete h sub k st)
    from delete_effect [OF this] show ?thesis
      using same delete_inv [OF assms(2)] keys_room_mono [OF assms(3)] by auto
  next
    case (step_delete_tree h sub k st)
    from delete_tree_effect [OF this] show ?thesis
      using same delete_tree_inv [OF assms(2) _ step_delete_tree] keys_room_mono [OF assms(3)] by blast
  qed
qed

lemma reg_run_inv: "reg_run n r \<Longrightarrow> unat first_key + n + m < 2 ^ 64 \<Longrightarrow> reg_inv r \<and> keys_room m r"
proof (induction n r arbitrary: m rule: reg_run.induct)
  case run_new
  then show ?case
    using store_inv_new
    by (simp add: reg_inv_def keys_inv_def keys_room_def paths_ok_def Registry_new_def hm_inv_def)
next
  case (run_step n r r')
  from run_step.IH [of "Suc m"] run_step.prems have "reg_inv r" "keys_room (Suc m) r" by simp_all
  from reg_step_inv [OF run_step.hyps(2) this] show ?case .
qed

text \<open>C39. In every registry reached by fewer calls than there are handles (opening, creating, closing, setting and
  deleting, with any arguments and any memory), no open key's handle is a root or below the range of minted handles,
  every open handle and every key has a path under one of the five roots, and no key and no name occurs twice.\<close>

theorem registry_invariant:
  assumes "reg_run n r" and "n < 2 ^ 64 - 0x0002000000000001"
  shows "(\<forall>h p. map_of (handles r) h = Some p \<longrightarrow> first_key \<le> h \<and> root_name h = None \<and> rooted p) \<and>
    (\<forall>p key. map_of (keys r) p = Some key \<longrightarrow> rooted p \<and> distinct (map fst (vals key))) \<and>
    distinct (map fst (keys r)) \<and> distinct (map fst (handles r))"
proof -
  have "reg_inv r" using reg_run_inv [OF assms(1), of 0] assms(2) by simp
  moreover have "root_name h = None" if "first_key \<le> h" for h
    using root_small [of h] that unfolding is_root_def by (meson leD)
  ultimately show ?thesis
    by (fastforce simp: reg_inv_def store_inv_def keys_inv_def paths_ok_def hm_inv_def)
qed

theorem registry_invariant_witness:
  "\<exists>r. reg_run 1 r \<and> map_of (handles r) first_key = Some (map of_char ''HKLM'') \<and> rooted (map of_char ''HKLM'')"
proof -
  let ?r = "opened (map of_char ''HKLM'') Registry_new"
  have "reg_open_key_w 0x80000002 0 0 Registry_new kernel_new = Some (ERROR_SUCCESS, ?r, kernel_new)"
    by (simp add: reg_open_key_w_def build_path_def root_name_def utf16_to_string_def mint_def opened_def put_le_def)
  then have "reg_run (Suc 0) ?r" by (intro run_step [OF run_new step_open])
  then have run: "reg_run 1 ?r" by simp
  moreover have h: "map_of (handles ?r) first_key = Some (map of_char ''HKLM'')"
    by (simp add: opened_def mint_def Registry_new_def)
  moreover have "rooted (map of_char ''HKLM'')" using registry_invariant [OF run] h by simp
  ultimately show ?thesis by blast
qed

section \<open>The shape of a key\<close>

lemma count_subkeys_count:
  "fst (count_subkeys path ps (c, m)) = c + of_nat (length (filter (\<lambda>p. direct_subkey path p \<noteq> None) ps))"
  by (induction ps arbitrary: c m) (auto split: option.splits)

lemma direct_subkey_iff:
  "direct_subkey path p = Some rest \<longleftrightarrow> p = path @ sep # rest \<and> rest \<noteq> [] \<and> sep \<notin> set rest"
proof -
  have "strip_prefix (path @ [sep]) p = Some rest \<longleftrightarrow> p = path @ sep # rest" by (simp add: strip_prefix_Some)
  then show ?thesis by (auto simp: direct_subkey_def split: option.splits if_splits)
qed

text \<open>Asked for the numbers of subkeys and of values, \<open>RegQueryInfoKeyW\<close> tells the guest how many keys have a path one
  component below the key's, whatever the order in which the map is iterated, and how many names have a value there
  (both modulo \<open>2 ^ 32\<close>).\<close>

theorem query_info_counts:
  assumes "store_inv r" and "resolve_path h r = Some path" and "sub \<noteq> 0" and "nv \<noteq> 0" and "area sub 4 \<inter> area nv 4 = {}"
  shows "\<exists>k'. reg_query_info_key_w h 0 0 sub 0 0 nv 0 0 0 0 r k = (ERROR_SUCCESS, k') \<and>
    read_le 4 sub k' = ucast (of_nat (card {rest. rest \<noteq> [] \<and> sep \<notin> set rest \<and> map_of (keys r) (path @ sep # rest) \<noteq> None}) :: u32) \<and>
    read_le 4 nv k' = ucast (of_nat (card {n. reg_abs r (path, n) \<noteq> None}) :: u32)"
proof -
  obtain sc mc where c: "count_subkeys path (map fst (keys r)) (0, 0) = (sc, mc)" by fastforce
  let ?vc = "case map_of (keys r) path of None \<Rightarrow> 0 | Some key \<Rightarrow> (of_nat (length (vals key)) :: u32)"
  let ?k' = "put_le 4 nv (ucast ?vc) (put_le 4 sub (ucast sc) k)"
  have q: "reg_query_info_key_w h 0 0 sub 0 0 nv 0 0 0 0 r k = (ERROR_SUCCESS, ?k')"
    using assms(2-4) c by (cases "map_of (keys r) path") (simp_all add: reg_query_info_key_w_def put_le_def)
  have "hm_inv (keys r)" using assms(1) by (simp add: store_inv_def)
  then have "sc = of_nat (card {p. direct_subkey path p \<noteq> None \<and> map_of (keys r) p \<noteq> None})"
    using c count_subkeys_count [of path "map fst (keys r)" 0 0]
      keys_count [of "keys r" "\<lambda>p. direct_subkey path p \<noteq> None"] by simp
  also have "{p. direct_subkey path p \<noteq> None \<and> map_of (keys r) p \<noteq> None} =
      (\<lambda>rest. path @ sep # rest) ` {rest. rest \<noteq> [] \<and> sep \<notin> set rest \<and> map_of (keys r) (path @ sep # rest) \<noteq> None}"
    by (auto simp: direct_subkey_iff)
  also have "card \<dots> = card {rest. rest \<noteq> [] \<and> sep \<notin> set rest \<and> map_of (keys r) (path @ sep # rest) \<noteq> None}"
    by (intro card_image inj_onI) simp
  finally have sc: "sc = of_nat (card {rest. rest \<noteq> [] \<and> sep \<notin> set rest \<and> map_of (keys r) (path @ sep # rest) \<noteq> None})" .
  have vc: "?vc = of_nat (card {n. reg_abs r (path, n) \<noteq> None})"
  proof (cases "map_of (keys r) path")
    case (Some key)
    then have "hm_inv (vals key)" using assms(1) by (simp add: store_inv_def)
    from keys_count [OF this, of "\<lambda>_. True"] Some show ?thesis by (simp add: reg_abs_def)
  qed (simp add: reg_abs_def)
  have "read_le 4 sub ?k' = read_le 4 sub (put_le 4 sub (ucast sc) k)"
    using assms(5) by (intro read_le_area put_le_frame) auto
  then show ?thesis using q assms(3,4) sc vc by (simp add: read_put_le)
qed

theorem query_info_counts_witness:
  "\<exists>k'. reg_query_info_key_w 0x80000002 0 0 0x4000 0 0 0x5000 0 0 0 0 Registry_new reg_guest = (ERROR_SUCCESS, k') \<and>
     read_le 4 0x4000 k' = 0 \<and> read_le 4 0x5000 k' = 0"
proof -
  have "resolve_path 0x80000002 Registry_new = Some (map of_char ''HKLM'')" by (simp add: resolve_path_def root_name_def)
  from query_info_counts [OF store_inv_new this, of "0x4000" "0x5000" reg_guest] area_apart [of "0x4000" 4 "0x5000" 4]
  show ?thesis by (auto simp: Registry_new_def reg_abs_def)
qed

end
