(* ===== verification/X86.thy ===== *)
theory X86
  imports Guest
begin

unbundle bit_operations_syntax

text \<open>
  The fragment of the x86-64 instruction set that the trampolines of \<^verbatim>\<open>crates/pe-loader/src/thunk.rs\<close> consist of: a decoder
  of its encodings and the execution of straight-line code. A machine is its general registers, its vector registers and
  the process it runs in, whose \<open>guest\<close> field is the memory. A call of the host's code is the parameter \<open>callee\<close>: the
  machine at the return from the address called, or \<open>None\<close> if it does not return.
\<close>

section \<open>Machine\<close>

datatype reg = RAX | RCX | RDX | RBX | RSP | RBP | RSI | RDI
  | R8 | R9 | R10 | R11 | R12 | R13 | R14 | R15

record machine =
  regs :: "reg \<Rightarrow> u64"
  xmm :: "nat \<Rightarrow> 128 word"
  proc :: kernel

type_synonym callee = "u64 \<Rightarrow> machine \<Rightarrow> machine option"

datatype instr = IPush reg | IPop reg | ISub reg u32 | IAdd reg u32 | IMov reg reg
  | ILoad reg u32 | IStore u32 reg | IMovImm reg u64 | ICall reg | IJmp reg | IRet

definition reg_of :: "nat \<Rightarrow> reg" where
  "reg_of n = [RAX, RCX, RDX, RBX, RSP, RBP, RSI, RDI, R8, R9, R10, R11, R12, R13, R14, R15] ! n"

section \<open>Decoder\<close>

fun le_val :: "u8 list \<Rightarrow> u64" where
  "le_val [] = 0"
| "le_val (b # bs) = ucast b + push_bit 8 (le_val bs)"

text \<open>The value of \<open>n\<close> bytes, low byte first, and what follows them.\<close>

definition imm :: "nat \<Rightarrow> u8 list \<Rightarrow> (u64 \<times> u8 list) option" where
  "imm n bs = (if n \<le> length bs then Some (le_val (take n bs), drop n bs) else None)"

text \<open>The ModRM byte: mode, register field, memory field, with the bits of the REX prefix on top.\<close>

definition modrm_mod :: "u8 \<Rightarrow> nat" where
  "modrm_mod b = unat (drop_bit 6 b)"

definition modrm_reg :: "u8 \<Rightarrow> u8 \<Rightarrow> nat" where
  "modrm_reg rex b = unat (drop_bit 3 b AND 7) + (if bit rex 2 then 8 else 0)"

definition modrm_rm :: "u8 \<Rightarrow> u8 \<Rightarrow> nat" where
  "modrm_rm rex b = unat (b AND 7) + (if bit rex 0 then 8 else 0)"

text \<open>After the prefix \<open>REX.W\<close>: register moves, loads and stores relative to \<open>RSP\<close> with a 32-bit displacement,
  subtraction and addition of a 32-bit immediate, and the 64-bit immediate move.\<close>

definition decode_rex :: "u8 \<Rightarrow> u8 \<Rightarrow> u8 \<Rightarrow> u8 list \<Rightarrow> (instr \<times> u8 list) option" where
  "decode_rex rex opcode m bs =
     (if opcode = 0x89 \<and> modrm_mod m = 3 then
        Some (IMov (reg_of (modrm_rm rex m)) (reg_of (modrm_reg rex m)), bs)
      else if (opcode = 0x89 \<or> opcode = 0x8B) \<and> modrm_mod m = 2 \<and> m AND 7 = 4 \<and> \<not> bit rex 0 then
        (case bs of
           sib # bs \<Rightarrow>
             if sib = 0x24 then
               map_option (\<lambda>(d, bs). (if opcode = 0x89 then IStore (ucast d) (reg_of (modrm_reg rex m))
                                      else ILoad (reg_of (modrm_reg rex m)) (ucast d), bs)) (imm 4 bs)
             else None
         | [] \<Rightarrow> None)
      else if opcode = 0x81 \<and> modrm_mod m = 3 \<and> drop_bit 3 m AND 7 = 5 then
        map_option (\<lambda>(d, bs). (ISub (reg_of (modrm_rm rex m)) (ucast d), bs)) (imm 4 bs)
      else if opcode = 0x81 \<and> modrm_mod m = 3 \<and> drop_bit 3 m AND 7 = 0 then
        map_option (\<lambda>(d, bs). (IAdd (reg_of (modrm_rm rex m)) (ucast d), bs)) (imm 4 bs)
      else if opcode AND 0xF8 = 0xB8 then
        map_option (\<lambda>(v, bs). (IMovImm (reg_of (modrm_rm rex opcode)) v, bs)) (imm 8 (m # bs))
      else None)"

definition decode :: "u8 list \<Rightarrow> (instr \<times> u8 list) option" where
  "decode bs =
     (case bs of
        [] \<Rightarrow> None
      | b # bs \<Rightarrow>
          if b AND 0xF8 = 0x50 then Some (IPush (reg_of (unat (b AND 7))), bs)
          else if b AND 0xF8 = 0x58 then Some (IPop (reg_of (unat (b AND 7))), bs)
          else if b = 0xC3 then Some (IRet, bs)
          else if b = 0xFF then
            (case bs of
               m # bs \<Rightarrow>
                 if m AND 0xF8 = 0xD0 then Some (ICall (reg_of (unat (m AND 7))), bs)
                 else if m AND 0xF8 = 0xE0 then Some (IJmp (reg_of (unat (m AND 7))), bs)
                 else None
             | [] \<Rightarrow> None)
          else if b AND 0xF8 = 0x48 then
            (case bs of opcode # m # bs \<Rightarrow> decode_rex b opcode m bs | _ \<Rightarrow> None)
          else None)"

lemma imm_shorter: "imm n bs = Some (v, r) \<Longrightarrow> length r \<le> length bs"
  by (auto simp: imm_def split: if_splits)

lemma decode_rex_shorter: "decode_rex rex opcode m bs = Some (i, r) \<Longrightarrow> length r \<le> Suc (length bs)"
  by (auto simp: decode_rex_def dest!: imm_shorter split: if_splits list.splits)

lemma decode_shorter: "decode bs = Some (i, r) \<Longrightarrow> length r < length bs"
  by (auto simp: decode_def dest!: decode_rex_shorter split: if_splits list.splits)

text \<open>Disassembly, each instruction with its length; it stops where the bytes end or are no instruction.\<close>

function disasm :: "u8 list \<Rightarrow> (instr \<times> nat) list" where
  "disasm bs = (case decode bs of None \<Rightarrow> [] | Some (i, r) \<Rightarrow> (i, length bs - length r) # disasm r)"
  by pat_completeness auto
termination
  by (relation "measure length") (auto dest: decode_shorter)

declare disasm.simps [simp del]

section \<open>Execution\<close>

definition set_reg :: "reg \<Rightarrow> u64 \<Rightarrow> machine \<Rightarrow> machine" where
  "set_reg r v m = m\<lparr>regs := (regs m)(r := v)\<rparr>"

definition load64 :: "u64 \<Rightarrow> machine \<Rightarrow> u64" where
  "load64 a m = read_le 8 a (proc m)"

definition store64 :: "u64 \<Rightarrow> u64 \<Rightarrow> machine \<Rightarrow> machine" where
  "store64 a v m = m\<lparr>proc := write_le 8 a v (proc m)\<rparr>"

definition push64 :: "u64 \<Rightarrow> machine \<Rightarrow> machine" where
  "push64 v m = (let sp = regs m RSP - 8 in store64 sp v (set_reg RSP sp m))"

text \<open>Immediates and displacements of 32 bits are sign-extended.\<close>

definition simple :: "instr \<Rightarrow> machine \<Rightarrow> machine" where
  "simple i m =
     (case i of
        IPush r \<Rightarrow> push64 (regs m r) m
      | IPop r \<Rightarrow> (let sp = regs m RSP in set_reg r (load64 sp m) (set_reg RSP (sp + 8) m))
      | ISub r v \<Rightarrow> set_reg r (regs m r - scast v) m
      | IAdd r v \<Rightarrow> set_reg r (regs m r + scast v) m
      | IMov d s \<Rightarrow> set_reg d (regs m s) m
      | ILoad r d \<Rightarrow> set_reg r (load64 (regs m RSP + scast d) m) m
      | IStore d r \<Rightarrow> store64 (regs m RSP + scast d) (regs m r) m
      | IMovImm r v \<Rightarrow> set_reg r v m
      | _ \<Rightarrow> m)"

datatype leave_kind = Returned u64 | Jumped u64 | Fell u64

fun exec :: "callee \<Rightarrow> u64 \<Rightarrow> (instr \<times> nat) list \<Rightarrow> machine \<Rightarrow> (leave_kind \<times> machine) option" where
  "exec f pc [] m = Some (Fell pc, m)"
| "exec f pc ((i, n) # is) m =
     (case i of
        IRet \<Rightarrow> Some (Returned (load64 (regs m RSP) m), set_reg RSP (regs m RSP + 8) m)
      | IJmp r \<Rightarrow> Some (Jumped (regs m r), m)
      | ICall r \<Rightarrow>
          (case f (regs m r) (push64 (pc + of_nat n) m) of
             None \<Rightarrow> None
           | Some m' \<Rightarrow> exec f (pc + of_nat n) is m')
      | _ \<Rightarrow> exec f (pc + of_nat n) is (simple i m))"

section \<open>Little-endian bytes\<close>

fun le_bytes :: "nat \<Rightarrow> u64 \<Rightarrow> u8 list" where
  "le_bytes 0 v = []"
| "le_bytes (Suc n) v = ucast v # le_bytes n (drop_bit 8 v)"

lemma length_le_bytes [simp]: "length (le_bytes n v) = n"
  by (induction n arbitrary: v) simp_all

lemma le_val_le_bytes: "n \<le> 8 \<Longrightarrow> le_val (le_bytes n v) = take_bit (8 * n) v"
proof (induction n arbitrary: v)
  case (Suc n)
  have "(ucast (ucast v :: u8) :: u64) = take_bit 8 v"
    by (rule bit_eqI) (auto simp: bit_simps)
  with Suc show ?case by (simp add: take_bit_split)
qed simp

lemma imm_le_bytes: "n \<le> 8 \<Longrightarrow> imm n (le_bytes n v @ r) = Some (take_bit (8 * n) v, r)"
  by (simp add: imm_def le_val_le_bytes)

end
