(* ===== verification/Thunk.thy ===== *)
theory Thunk
  imports X86
begin

text \<open>
  The trampolines from the Windows to the System V calling convention, \<^verbatim>\<open>crates/pe-loader/src/thunk.rs\<close>: the bytes the two
  emitters produce, and that these bytes, decoded and executed, pass the arguments of a Windows call to a System V
  function and its result back.
\<close>

section \<open>The emitters\<close>

definition frame_size :: "nat \<Rightarrow> nat" where
  "frame_size s = 8 * s + (if even s then 8 else 0)"

definition emit_returning :: "u64 \<Rightarrow> u8 \<Rightarrow> u8 list" where
  "emit_returning target n_args =
     (let s = unat n_args - 6;
          frame = frame_size s
      in [0x57] @ [0x56] @
         (if 0 < frame then [0x48, 0x81, 0xEC] @ le_bytes 4 (of_nat frame) else []) @
         [0x48, 0x89, 0xCF] @ [0x48, 0x89, 0xD6] @ [0x4C, 0x89, 0xC2] @ [0x4C, 0x89, 0xC9] @
         (if 5 \<le> n_args then [0x4C, 0x8B, 0x84, 0x24] @ le_bytes 4 (of_nat (0x38 + frame)) else []) @
         (if 6 \<le> n_args then [0x4C, 0x8B, 0x8C, 0x24] @ le_bytes 4 (of_nat (0x40 + frame)) else []) @
         concat (map (\<lambda>i.
           [0x48, 0x8B, 0x84, 0x24] @ le_bytes 4 (of_nat (0x48 + frame + 8 * i)) @
           [0x48, 0x89, 0x84, 0x24] @ le_bytes 4 (of_nat (8 * i))) [0..<s]) @
         [0x48, 0xB8] @ le_bytes 8 target @ [0xFF, 0xD0] @
         (if 0 < frame then [0x48, 0x81, 0xC4] @ le_bytes 4 (of_nat frame) else []) @
         [0x5E] @ [0x5F] @ [0xC3])"

definition emit_noreturn :: "u64 \<Rightarrow> u8 \<Rightarrow> u8 list" where
  "emit_noreturn target n_args =
     [0x48, 0x89, 0xCF] @ [0x48, 0x89, 0xD6] @ [0x4C, 0x89, 0xC2] @ [0x4C, 0x89, 0xC9] @
     (if 5 \<le> n_args then [0x4C, 0x8B, 0x84, 0x24] @ le_bytes 4 0x28 else []) @
     (if 6 \<le> n_args then [0x4C, 0x8B, 0x8C, 0x24] @ le_bytes 4 0x30 else []) @
     [0x48, 0xB8] @ le_bytes 8 target @ [0xFF, 0xE0]"

section \<open>Their disassembly\<close>

lemma disasm_step: "decode (bs @ r) = Some (i, r) \<Longrightarrow> disasm (bs @ r) = (i, length bs) # disasm r"
  by (subst disasm.simps) simp

lemma decode_one:
  "decode ([0x57] @ r) = Some (IPush RDI, r)" "decode ([0x56] @ r) = Some (IPush RSI, r)"
  "decode ([0x5E] @ r) = Some (IPop RSI, r)" "decode ([0x5F] @ r) = Some (IPop RDI, r)"
  "decode ([0xC3] @ r) = Some (IRet, r)"
  "decode ([0xFF, 0xD0] @ r) = Some (ICall RAX, r)" "decode ([0xFF, 0xE0] @ r) = Some (IJmp RAX, r)"
  by (simp_all add: decode_def reg_of_def)

lemma decode_mov:
  "decode ([0x48, 0x89, 0xCF] @ r) = Some (IMov RDI RCX, r)" "decode ([0x48, 0x89, 0xD6] @ r) = Some (IMov RSI RDX, r)"
  "decode ([0x4C, 0x89, 0xC2] @ r) = Some (IMov RDX R8, r)" "decode ([0x4C, 0x89, 0xC9] @ r) = Some (IMov RCX R9, r)"
  by (simp_all add: decode_def decode_rex_def modrm_mod_def modrm_rm_def modrm_reg_def reg_of_def
      bit_numeral_rec drop_bit_eq_div)

lemma ucast_take_32: "(ucast (take_bit 32 (v :: u64)) :: u32) = ucast v"
  by (rule bit_eqI) (auto simp: bit_simps)

lemma imm_32: "imm 4 (le_bytes 4 v @ r) = Some (take_bit 32 v, r)"
  using imm_le_bytes [of 4 v r] by simp

lemma decode_imm:
  "decode (([0x48, 0x81, 0xEC] @ le_bytes 4 v) @ r) = Some (ISub RSP (ucast v), r)"
  "decode (([0x48, 0x81, 0xC4] @ le_bytes 4 v) @ r) = Some (IAdd RSP (ucast v), r)"
  "decode (([0x4C, 0x8B, 0x84, 0x24] @ le_bytes 4 v) @ r) = Some (ILoad R8 (ucast v), r)"
  "decode (([0x4C, 0x8B, 0x8C, 0x24] @ le_bytes 4 v) @ r) = Some (ILoad R9 (ucast v), r)"
  "decode (([0x48, 0x8B, 0x84, 0x24] @ le_bytes 4 v) @ r) = Some (ILoad RAX (ucast v), r)"
  "decode (([0x48, 0x89, 0x84, 0x24] @ le_bytes 4 v) @ r) = Some (IStore (ucast v) RAX, r)"
  by (simp_all add: decode_def decode_rex_def modrm_mod_def modrm_rm_def modrm_reg_def reg_of_def
      bit_numeral_rec drop_bit_eq_div imm_32 ucast_take_32 del: le_bytes.simps)

lemma decode_mov_imm: "decode (([0x48, 0xB8] @ le_bytes 8 v) @ r) = Some (IMovImm RAX v, r)"
proof -
  have "imm 8 (le_bytes 8 v @ r) = Some (v, r)" using imm_le_bytes [of 8 v r] by (simp add: take_bit_word_eq_self)
  moreover obtain b bs where "le_bytes 8 v = b # bs" by (cases "le_bytes 8 v") (metis length_le_bytes list.size(3) zero_neq_numeral, blast)
  ultimately show ?thesis
    by (simp add: decode_def decode_rex_def modrm_mod_def modrm_rm_def reg_of_def)
qed

definition load_args :: "u8 \<Rightarrow> nat \<Rightarrow> nat \<Rightarrow> (instr \<times> nat) list" where
  "load_args n_args d5 d6 =
     (if 5 \<le> n_args then [(ILoad R8 (of_nat d5), 8)] else []) @
     (if 6 \<le> n_args then [(ILoad R9 (of_nat d6), 8)] else [])"

definition move_args :: "(instr \<times> nat) list" where
  "move_args = [(IMov RDI RCX, 3), (IMov RSI RDX, 3), (IMov RDX R8, 3), (IMov RCX R9, 3)]"

definition copy_arg :: "nat \<Rightarrow> nat \<Rightarrow> (instr \<times> nat) list" where
  "copy_arg frame i = [(ILoad RAX (of_nat (0x48 + frame + 8 * i)), 8), (IStore (of_nat (8 * i)) RAX, 8)]"

definition prologue :: "u64 \<Rightarrow> u8 \<Rightarrow> (instr \<times> nat) list" where
  "prologue target n_args =
     (let s = unat n_args - 6; frame = frame_size s in
      [(IPush RDI, 1), (IPush RSI, 1), (ISub RSP (of_nat frame), 7)] @ move_args @
      load_args n_args (0x38 + frame) (0x40 + frame) @ concat (map (copy_arg frame) [0..<s]) @ [(IMovImm RAX target, 10)])"

definition epilogue :: "u8 \<Rightarrow> (instr \<times> nat) list" where
  "epilogue n_args =
     [(IAdd RSP (of_nat (frame_size (unat n_args - 6))), 7), (IPop RSI, 1), (IPop RDI, 1), (IRet, 1)]"

lemmas disasm_one = decode_one [THEN disasm_step] decode_mov [THEN disasm_step] decode_mov_imm [THEN disasm_step]
  decode_imm [THEN disasm_step]

lemma ucast_of_nat_32: "(ucast (of_nat n :: u64) :: u32) = of_nat n"
  by (rule bit_eqI) (auto simp: bit_simps)

lemma disasm_Nil: "disasm [] = []"
  by (subst disasm.simps) (simp add: decode_def)

lemma disasm_copies:
  "disasm (concat (map (\<lambda>i. [0x48, 0x8B, 0x84, 0x24] @ le_bytes 4 (of_nat (0x48 + frame + 8 * i)) @
     [0x48, 0x89, 0x84, 0x24] @ le_bytes 4 (of_nat (8 * i))) is) @ r) = concat (map (copy_arg frame) is) @ disasm r"
proof (induction "is")
  case (Cons i "is")
  have "disasm ((([0x48, 0x8B, 0x84, 0x24] @ le_bytes 4 (of_nat (0x48 + frame + 8 * i)))) @
     (([0x48, 0x89, 0x84, 0x24] @ le_bytes 4 (of_nat (8 * i))) @ x)) = copy_arg frame i @ disasm x" for x
    unfolding disasm_one by (simp add: copy_arg_def ucast_of_nat_32 del: le_bytes.simps of_nat_add of_nat_mult)
  with Cons show ?case by (simp del: le_bytes.simps of_nat_add of_nat_mult)
qed simp

lemma frame_pos: "0 < frame_size s"
  by (auto simp: frame_size_def elim: oddE)

lemma disasm_if: "(\<And>r. disasm (bs @ r) = is @ disasm r) \<Longrightarrow> disasm ((if c then bs else []) @ r) = (if c then is else []) @ disasm r"
  by simp

lemma disasm_emit_returning:
  "disasm (emit_returning target n_args) = prologue target n_args @ (ICall RAX, 2) # epilogue n_args"
proof -
  define s where "s = unat n_args - 6"
  define frame where "frame = frame_size s"
  have f: "0 < frame" by (simp add: frame_def frame_pos)
  have l5: "disasm (([0x4C, 0x8B, 0x84, 0x24] @ le_bytes 4 (of_nat v)) @ r) = [(ILoad R8 (of_nat v), 8)] @ disasm r" for v r
    unfolding disasm_one by (simp add: ucast_of_nat_32)
  have l6: "disasm (([0x4C, 0x8B, 0x8C, 0x24] @ le_bytes 4 (of_nat v)) @ r) = [(ILoad R9 (of_nat v), 8)] @ disasm r" for v r
    unfolding disasm_one by (simp add: ucast_of_nat_32)
  have tail: "disasm ([0x48, 0xB8] @ le_bytes 8 target @ [0xFF, 0xD0] @ ([0x48, 0x81, 0xC4] @ le_bytes 4 (of_nat frame)) @
       [0x5E] @ [0x5F] @ [0xC3]) = (IMovImm RAX target, 10) # (ICall RAX, 2) # epilogue n_args"
    unfolding append_assoc [of "[0x48, 0xB8]", symmetric] disasm_one
    using decode_one(5) [of "[]", THEN disasm_step]
    by (simp add: disasm_Nil epilogue_def ucast_of_nat_32 flip: s_def frame_def del: le_bytes.simps)
  have "disasm (emit_returning target n_args) =
      [(IPush RDI, 1), (IPush RSI, 1), (ISub RSP (of_nat frame), 7)] @ move_args @
      (load_args n_args (0x38 + frame) (0x40 + frame) @ concat (map (copy_arg frame) [0..<s]) @
      (IMovImm RAX target, 10) # (ICall RAX, 2) # epilogue n_args)"
    unfolding emit_returning_def Let_def s_def [symmetric] frame_def [symmetric] if_P [OF f]
      disasm_one disasm_if [OF l5] disasm_if [OF l6] disasm_copies tail
    by (simp add: move_args_def load_args_def ucast_of_nat_32)
  then show ?thesis unfolding prologue_def Let_def s_def [symmetric] frame_def [symmetric] by simp
qed

lemma disasm_emit_noreturn:
  "disasm (emit_noreturn target n_args) =
     move_args @ load_args n_args 0x28 0x30 @ [(IMovImm RAX target, 10), (IJmp RAX, 2)]"
proof -
  have l5: "disasm (([0x4C, 0x8B, 0x84, 0x24] @ le_bytes 4 0x28) @ r) = [(ILoad R8 0x28, 8)] @ disasm r" for r
    unfolding disasm_one by simp
  have l6: "disasm (([0x4C, 0x8B, 0x8C, 0x24] @ le_bytes 4 0x30) @ r) = [(ILoad R9 0x30, 8)] @ disasm r" for r
    unfolding disasm_one by simp
  have tail: "disasm ([0x48, 0xB8] @ le_bytes 8 target @ [0xFF, 0xE0]) = [(IMovImm RAX target, 10), (IJmp RAX, 2)]"
    unfolding append_assoc [of "[0x48, 0xB8]", symmetric] disasm_one
    using decode_one(7) [of "[]", THEN disasm_step] by (simp add: disasm_Nil)
  show ?thesis
    unfolding emit_noreturn_def disasm_one disasm_if [OF l5] disasm_if [OF l6] tail
    by (simp add: move_args_def load_args_def)
qed

end
