(* ===== verification/ThunkSpec.thy ===== *)
theory ThunkSpec
  imports Thunk SyncSpec
begin

unbundle bit_operations_syntax

text \<open>
  The trampolines translate between the calling conventions: what the arguments are on either side, what a System V
  function promises its caller, and the theorems that the emitted code, decoded and executed, meets both. All
  addresses are relative to the stack pointer at the entry, so nothing is assumed about where the stack lies.
\<close>

section \<open>The two conventions\<close>

definition win_arg :: "machine \<Rightarrow> nat \<Rightarrow> u64" where
  "win_arg m i =
     (if i = 0 then regs m RCX else if i = 1 then regs m RDX else if i = 2 then regs m R8 else if i = 3 then regs m R9
      else load64 (regs m RSP + of_nat (0x28 + 8 * (i - 4))) m)"

definition sysv_arg :: "machine \<Rightarrow> nat \<Rightarrow> u64" where
  "sysv_arg m i =
     (if i = 0 then regs m RDI else if i = 1 then regs m RSI else if i = 2 then regs m RDX else if i = 3 then regs m RCX
      else if i = 4 then regs m R8 else if i = 5 then regs m R9
      else load64 (regs m RSP + of_nat (8 + 8 * (i - 6))) m)"

text \<open>What a System V function with \<open>s\<close> arguments on the stack keeps of its caller: the stack pointer is back above the
  return address, the registers it must save have their values, and the caller's stack above the arguments is as it was
  (for the \<open>n\<close> bytes that matter). The vector registers are its own.\<close>

definition sysv_returns :: "callee \<Rightarrow> u64 \<Rightarrow> nat \<Rightarrow> nat \<Rightarrow> bool" where
  "sysv_returns f target s n \<longleftrightarrow> (\<forall>m m'. f target m = Some m' \<longrightarrow>
     regs m' RSP = regs m RSP + 8 \<and>
     (\<forall>r. r \<in> {RBX, RBP, R12, R13, R14, R15} \<longrightarrow> regs m' r = regs m r) \<and>
     (\<forall>a. a \<in> area (regs m RSP + of_nat (8 + 8 * s)) n \<longrightarrow> guest (proc m') a = guest (proc m) a))"

section \<open>Straight-line code\<close>

definition straight :: "instr \<Rightarrow> bool" where
  "straight i = (case i of ICall _ \<Rightarrow> False | IJmp _ \<Rightarrow> False | IRet \<Rightarrow> False | _ \<Rightarrow> True)"

definition run :: "(instr \<times> nat) list \<Rightarrow> machine \<Rightarrow> machine" where
  "run is m = fold (simple \<circ> fst) is m"

lemma run_simps [simp]: "run [] m = m" "run ((i, n) # is) m = run is (simple i m)" "run (is @ js) m = run js (run is m)"
  by (simp_all add: run_def)

lemma exec_straight:
  "\<forall>x \<in> set is. straight (fst x) \<Longrightarrow>
    exec f pc (is @ js) m = exec f (pc + of_nat (sum_list (map snd is))) js (run is m)"
proof (induction "is" arbitrary: pc m)
  case (Cons x "is")
  obtain i n where x: "x = (i, n)" by fastforce
  with Cons.prems have "exec f pc ((i, n) # is @ js) m = exec f (pc + of_nat n) (is @ js) (simple i m)"
    by (cases i) (auto simp: straight_def)
  then show ?case using Cons x by (simp add: add.assoc)
qed simp

section \<open>Memory at offsets\<close>

lemma area_offsets: "i + 8 \<le> j \<Longrightarrow> j + 8 \<le> 2 ^ 64 \<Longrightarrow> area (b + of_nat i) 8 \<inter> area (b + of_nat j) 8 = {}"
proof -
  assume ij: "i + 8 \<le> j" "j + 8 \<le> 2 ^ 64"
  have False if "k < 8" "l < 8" "b + of_nat i + of_nat k = b + of_nat j + of_nat l" for k l
    using small_offset_neq [of "i + k" "j + l" b] that ij by (simp add: add.assoc)
  then show ?thesis by (auto simp: area_def)
qed

lemma load_store_same [simp]: "load64 a (store64 a v m) = v"
  using read_write_le [of 8 a v "proc m"] by (simp add: load64_def store64_def take_bit_word_eq_self)

lemma load_store_apart: "area a 8 \<inter> area a' 8 = {} \<Longrightarrow> load64 a (store64 a' v m) = load64 a m"
  unfolding load64_def store64_def by (auto intro!: read_le_area write_le_frame)

lemma load_store_offset:
  assumes "i + 8 \<le> j \<or> j + 8 \<le> i" and "i + 8 \<le> 2 ^ 64" and "j + 8 \<le> 2 ^ 64"
  shows "load64 (b + of_nat i) (store64 (b + of_nat j) v m) = load64 (b + of_nat i) m"
  using assms area_offsets [of i j b] area_offsets [of j i b] by (intro load_store_apart) auto

lemma reg_upd [simp]:
  "regs (set_reg r v m) = (regs m)(r := v)" "regs (store64 a v m) = regs m"
  "xmm (set_reg r v m) = xmm m" "xmm (store64 a v m) = xmm m" "proc (set_reg r v m) = proc m"
  "load64 a (set_reg r v m) = load64 a m"
  by (simp_all add: set_reg_def store64_def load64_def)

lemma scast_small: "n < 2 ^ 31 \<Longrightarrow> (scast (of_nat n :: u32) :: u64) = of_nat n"
proof -
  assume n: "n < 2 ^ 31"
  have "sint (of_nat n :: u32) = int n"
    using n by (simp add: sint_uint uint_nat unat_of_nat signed_take_bit_int_eq_self take_bit_int_eq_self_iff)
  then show ?thesis by (simp add: scast_eq)
qed

section \<open>The blocks of the returning trampoline\<close>

text \<open>\<open>b\<close> is the address the return address of the host call is pushed to; the stack pointer at the entry is
  \<open>frame + 24\<close> bytes above it.\<close>

lemma save_block:
  assumes sp: "regs m RSP = b + of_nat (frame + 24)" and f: "frame < 2 ^ 31"
    and m': "m' = run [(IPush RDI, 1), (IPush RSI, 1), (ISub RSP (of_nat frame), 7)] m"
  shows "regs m' = (regs m)(RSP := b + 8)" and "xmm m' = xmm m"
    and "load64 (b + of_nat (frame + 16)) m' = regs m RDI" and "load64 (b + of_nat (frame + 8)) m' = regs m RSI"
    and "frame + 24 \<le> k \<Longrightarrow> k + 8 \<le> 2 ^ 64 \<Longrightarrow> load64 (b + of_nat k) m' = load64 (b + of_nat k) m"
proof -
  let ?m1 = "store64 (b + of_nat (frame + 16)) (regs m RDI) (set_reg RSP (b + of_nat (frame + 16)) m)"
  have 1: "simple (IPush RDI) m = ?m1" using sp by (simp add: simple_def push64_def Let_def algebra_simps)
  have 2: "m' = set_reg RSP (b + 8) (store64 (b + of_nat (frame + 8)) (regs m RSI) (set_reg RSP (b + of_nat (frame + 8)) ?m1))"
    unfolding m' run_simps 1 by (simp add: simple_def push64_def Let_def scast_small [OF f] algebra_simps)
  show "regs m' = (regs m)(RSP := b + 8)" "xmm m' = xmm m" unfolding 2 by (simp_all add: fun_eq_iff)
  show "load64 (b + of_nat (frame + 16)) m' = regs m RDI"
    unfolding 2 reg_upd using f by (subst load_store_offset) simp_all
  show "load64 (b + of_nat (frame + 8)) m' = regs m RSI" unfolding 2 reg_upd load_store_same ..
  assume k: "frame + 24 \<le> k" "k + 8 \<le> 2 ^ 64"
  then show "load64 (b + of_nat k) m' = load64 (b + of_nat k) m"
    unfolding 2 reg_upd
    using load_store_offset [of k "frame + 8" b] load_store_offset [of k "frame + 16" b] f
    by (simp del: of_nat_add)
qed

lemma move_block:
  "run move_args m =
     set_reg RCX (regs m R9) (set_reg RDX (regs m R8) (set_reg RSI (regs m RDX) (set_reg RDI (regs m RCX) m)))"
  by (simp add: move_args_def simple_def)

lemma load_block:
  assumes "d5 < 2 ^ 31" "d6 < 2 ^ 31" and m': "m' = run (load_args n_args d5 d6) m"
  shows "proc m' = proc m" and "xmm m' = xmm m" and "r \<noteq> R8 \<Longrightarrow> r \<noteq> R9 \<Longrightarrow> regs m' r = regs m r"
    and "5 \<le> n_args \<Longrightarrow> regs m' R8 = load64 (regs m RSP + of_nat d5) m"
    and "6 \<le> n_args \<Longrightarrow> regs m' R9 = load64 (regs m RSP + of_nat d6) m"
  unfolding m' load_args_def
  by (auto simp: simple_def scast_small [OF assms(1)] scast_small [OF assms(2)])

lemma copy_block:
  assumes "regs m RSP = b + 8" and "frame < 2 ^ 10" and "8 * s \<le> frame" and "s' \<le> s"
    and m': "m' = run (concat (map (copy_arg frame) [0..<s'])) m"
  shows "(\<forall>r. r \<noteq> RAX \<longrightarrow> regs m' r = regs m r) \<and> xmm m' = xmm m \<and>
    (\<forall>i < s'. load64 (b + of_nat (8 + 8 * i)) m' = load64 (b + of_nat (frame + 0x50 + 8 * i)) m) \<and>
    (\<forall>k. 8 + 8 * s' \<le> k \<longrightarrow> k + 8 \<le> 2 ^ 64 \<longrightarrow> load64 (b + of_nat k) m' = load64 (b + of_nat k) m)"
  using assms(4) m'
proof (induction s' arbitrary: m')
  case (Suc s')
  let ?n = "run (concat (map (copy_arg frame) [0..<s'])) m"
  have ih: "\<And>r. r \<noteq> RAX \<Longrightarrow> regs ?n r = regs m r" "xmm ?n = xmm m"
      "\<And>i. i < s' \<Longrightarrow> load64 (b + of_nat (8 + 8 * i)) ?n = load64 (b + of_nat (frame + 0x50 + 8 * i)) m"
      "\<And>k. 8 + 8 * s' \<le> k \<Longrightarrow> k + 8 \<le> 2 ^ 64 \<Longrightarrow> load64 (b + of_nat k) ?n = load64 (b + of_nat k) m"
    using Suc.IH [OF _ refl] Suc.prems(1) by auto
  have small: "8 * s' + 8 \<le> frame" "0x48 + frame + 8 * s' < 2 ^ 31" "8 * s' < 2 ^ 31"
    using assms(2,3) Suc.prems(1) by auto
  let ?v = "load64 (b + of_nat (frame + 0x50 + 8 * s')) m"
  have v: "load64 (b + 8 + of_nat (0x48 + frame + 8 * s')) ?n = ?v"
    using ih(4) [of "frame + 0x50 + 8 * s'"] small assms(2) by (simp add: algebra_simps)
  have m': "m' = store64 (b + of_nat (8 + 8 * s')) ?v (set_reg RAX ?v ?n)"
    unfolding Suc.prems(2) using v ih(1) [of RSP] assms(1)
    by (simp add: copy_arg_def simple_def scast_small [OF small(2)] scast_small [OF small(3)]
        del: of_nat_add of_nat_mult) (simp add: algebra_simps)
  have "load64 (b + of_nat (8 + 8 * i)) m' = load64 (b + of_nat (frame + 0x50 + 8 * i)) m" if "i < Suc s'" for i
  proof (cases "i = s'")
    case True
    then show ?thesis unfolding m' by simp
  next
    case False
    with that have "i < s'" by simp
    then show ?thesis unfolding m' using ih(3) small assms(2)
      by (subst load_store_offset) (simp_all del: of_nat_add of_nat_mult)
  qed
  moreover have "load64 (b + of_nat k) m' = load64 (b + of_nat k) m" if "8 + 8 * Suc s' \<le> k" "k + 8 \<le> 2 ^ 64" for k
    unfolding m' using that ih(4) [of k] small assms(2) by (subst load_store_offset) auto
  ultimately show ?case unfolding m' using ih(1,2) by (simp add: m')
qed simp

lemma u8_le_unat: "(5 :: u8) \<le> n \<longleftrightarrow> 5 \<le> unat n" "(6 :: u8) \<le> n \<longleftrightarrow> 6 \<le> unat n" "n \<le> (32 :: u8) \<longleftrightarrow> unat n \<le> 32"
  by (simp_all add: word_le_nat_alt)

lemma frame_bounds: "s \<le> 26 \<Longrightarrow> frame_size s < 2 ^ 10 \<and> 8 * s \<le> frame_size s"
  by (simp add: frame_size_def)

text \<open>The machine when control reaches the host's function.\<close>

lemma prologue_effect:
  assumes "n_args \<le> 32" and "m1 = push64 ra (run (prologue target n_args) m)" and "s = unat n_args - 6"
    and "frame = frame_size s" and b: "b = regs m RSP - of_nat (frame + 24)"
  shows "regs m1 RSP = b" and "regs m1 RAX = target" and "xmm m1 = xmm m"
    and "i < unat n_args \<Longrightarrow> sysv_arg m1 i = win_arg m i"
    and "r \<in> {RBX, RBP, R12, R13, R14, R15} \<Longrightarrow> regs m1 r = regs m r"
    and "load64 (b + of_nat (frame + 16)) m1 = regs m RDI" and "load64 (b + of_nat (frame + 8)) m1 = regs m RSI"
    and "load64 (b + of_nat (frame + 24)) m1 = load64 (regs m RSP) m"
proof -
  have s: "s \<le> 26" using assms(1,3) by (simp add: u8_le_unat)
  note fb = frame_bounds [OF s, folded assms(4)]
  have f: "frame < 2 ^ 31" using fb by simp
  have sp: "regs m RSP = b + of_nat (frame + 24)" using b by simp
  define mA where "mA = run [(IPush RDI, 1), (IPush RSI, 1), (ISub RSP (of_nat frame), 7)] m"
  note A = save_block [OF sp f mA_def]
  define mB where "mB = run move_args mA"
  note B = mB_def [unfolded move_block]
  define mC where "mC = run (load_args n_args (0x38 + frame) (0x40 + frame)) mB"
  have d: "0x38 + frame < 2 ^ 31" "0x40 + frame < 2 ^ 31" using fb by simp_all
  note C = load_block [OF d mC_def]
  define mD where "mD = run (concat (map (copy_arg frame) [0..<s])) mC"
  have rspC: "regs mC RSP = b + 8" using A(1) by (simp add: C(3) B)
  note D = copy_block [OF rspC conjunct1 [OF fb] conjunct2 [OF fb] order_refl mD_def]
  have m1: "m1 = store64 b ra (set_reg RSP b (set_reg RAX target mD))"
  proof -
    have "run (prologue target n_args) m = simple (IMovImm RAX target) mD"
      unfolding prologue_def Let_def assms(3) [symmetric] assms(4) [symmetric] mD_def mC_def mB_def mA_def
      by (simp only: run_simps append.simps)
    moreover have "regs mD RSP = b + 8" using D rspC by simp
    ultimately show ?thesis unfolding assms(2) by (simp add: simple_def push64_def Let_def)
  qed
  have load1: "load64 (b + of_nat k) m1 = load64 (b + of_nat k) mD" if "8 \<le> k" "k + 8 \<le> 2 ^ 64" for k
    unfolding m1 using load_store_offset [of k 0 b] that by simp
  have loadD: "load64 (b + of_nat k) m1 = load64 (b + of_nat k) mA" if "8 + 8 * s \<le> k" "k + 8 \<le> 2 ^ 64" for k
    using load1 [of k] D that by (simp add: load64_def C(1) B)
  have loadA: "load64 (b + of_nat k) m1 = load64 (b + of_nat k) m" if "frame + 24 \<le> k" "k + 8 \<le> 2 ^ 64" for k
    using loadD [of k] A(5) [of k] that fb by simp
  show "regs m1 RSP = b" "regs m1 RAX = target" unfolding m1 by simp_all
  show "xmm m1 = xmm m" unfolding m1 using D by (simp add: C(2) B A(2))
  show "load64 (b + of_nat (frame + 16)) m1 = regs m RDI" using loadD [of "frame + 16"] A(3) fb by simp
  show "load64 (b + of_nat (frame + 8)) m1 = regs m RSI" using loadD [of "frame + 8"] A(4) fb by simp
  show "load64 (b + of_nat (frame + 24)) m1 = load64 (regs m RSP) m"
    using loadA [of "frame + 24"] fb sp by simp
  show "regs m1 r = regs m r" if "r \<in> {RBX, RBP, R12, R13, R14, R15}"
    using that D unfolding m1 by (auto simp: C(3) B A(1))
  show "sysv_arg m1 i = win_arg m i" if i: "i < unat n_args"
  proof -
    have reg: "regs m1 r = regs mC r" if "r \<noteq> RAX" "r \<noteq> RSP" for r using that D unfolding m1 by simp
    have spB: "regs mB RSP = b + 8" using A(1) by (simp add: B)
    have win: "win_arg m i = load64 (b + of_nat (frame + 24 + 0x28 + 8 * (i - 4))) m" if "4 \<le> i"
      using that sp by (simp add: win_arg_def algebra_simps)
    consider "i < 4" | "i = 4" | "i = 5" | "6 \<le> i" by linarith
    then show ?thesis
    proof cases
      case 1
      then consider "i = 0" | "i = 1" | "i = 2" | "i = 3" by linarith
      then show ?thesis by cases (simp_all add: sysv_arg_def win_arg_def reg C(3) B A(1))
    next
      case 2
      with i have "5 \<le> n_args" by (simp add: u8_le_unat)
      then have "regs mC R8 = load64 (b + of_nat (frame + 64)) mB"
        using C(4) spB by (simp add: algebra_simps)
      also have "\<dots> = load64 (b + of_nat (frame + 64)) m" using A(5) [of "frame + 64"] fb by (simp add: B)
      finally show ?thesis using 2 win by (simp add: sysv_arg_def reg add.commute)
    next
      case 3
      with i have "6 \<le> n_args" by (simp add: u8_le_unat)
      then have "regs mC R9 = load64 (b + of_nat (frame + 72)) mB"
        using C(5) spB by (simp add: algebra_simps)
      also have "\<dots> = load64 (b + of_nat (frame + 72)) m" using A(5) [of "frame + 72"] fb by (simp add: B)
      finally show ?thesis using 3 win by (simp add: sysv_arg_def reg add.commute)
    next
      case 4
      define j where "j = i - 6"
      have j: "i = j + 6" "j < s" using 4 i assms(3) by (auto simp: j_def)
      have "sysv_arg m1 i = load64 (b + of_nat (8 + 8 * j)) m1"
        using j by (simp add: sysv_arg_def m1)
      also have "\<dots> = load64 (b + of_nat (8 + 8 * j)) mD" using load1 [of "8 + 8 * j"] j s by simp
      also have "\<dots> = load64 (b + of_nat (frame + 0x50 + 8 * j)) mC" using D j by simp
      also have "\<dots> = load64 (b + of_nat (frame + 0x50 + 8 * j)) mA" by (simp add: load64_def C(1) B)
      also have "\<dots> = load64 (b + of_nat (frame + 0x50 + 8 * j)) m"
        using A(5) [of "frame + 0x50 + 8 * j"] fb j s by simp
      finally show ?thesis using win [OF order_trans [OF _ 4]] j by (simp add: algebra_simps)
    qed
  qed
qed


lemma epilogue_effect:
  assumes "n_args \<le> 32" and "frame = frame_size (unat n_args - 6)" and "regs m RSP = b + 8"
  shows "exec f pc (epilogue n_args) m =
    Some (Returned (load64 (b + of_nat (frame + 24)) m),
      m\<lparr>regs := (regs m)(RSI := load64 (b + of_nat (frame + 8)) m, RDI := load64 (b + of_nat (frame + 16)) m,
                    RSP := b + of_nat (frame + 32))\<rparr>)"
proof -
  have "unat n_args - 6 \<le> 26" using assms(1) by (simp add: u8_le_unat)
  then have "frame < 2 ^ 31" using frame_bounds assms(2) by fastforce
  note add = scast_small [OF this]
  have "b + of_nat (frame + 32) = b + of_nat frame + 8 + 8 + 8 + 8" by simp
  then show ?thesis
    unfolding epilogue_def assms(2) [symmetric]
    by (simp add: simple_def add assms(3) Let_def set_reg_def load64_def fun_eq_iff algebra_simps)
qed

lemma straight_prologue: "\<forall>x \<in> set (prologue target n_args). straight (fst x)"
  by (auto simp: prologue_def straight_def move_args_def load_args_def copy_arg_def Let_def)

lemma frame_aligned: "uint (v - of_nat (frame_size s + 24) :: u64) mod 16 = uint v mod 16"
proof -
  have "16 dvd frame_size s + 24"
    by (cases "even s") (auto simp: frame_size_def elim!: evenE oddE)
  then obtain k where k: "frame_size s + 24 = 16 * k" ..
  have "v - of_nat (16 * k) = word_of_int (uint v - int (16 * k))" by simp
  then have "uint (v - of_nat (16 * k)) = (uint v - int (16 * k)) mod 2 ^ 64" by (simp only: uint_word_of_int len_num1 len_bit0 len_num0) simp
  also have "\<dots> mod 16 = (uint v - int (16 * k)) mod 16"
    by (rule mod_mod_cancel) simp
  also have "\<dots> = uint v mod 16" by (simp add: mod_diff_eq [symmetric])
  finally show ?thesis unfolding k .
qed

lemma read_8_kept: "\<forall>x. x \<in> area a 8 \<longrightarrow> guest (proc m') x = guest (proc m) x \<Longrightarrow> load64 a m' = load64 a m"
  unfolding load64_def by (rule read_le_area) simp

lemma area_within: "k + 8 \<le> n \<Longrightarrow> x \<in> area (a + of_nat k) 8 \<Longrightarrow> x \<in> area a n"
proof -
  assume "k + 8 \<le> n" "x \<in> area (a + of_nat k) 8"
  then obtain j where "j < 8" "x = a + of_nat (k + j)" by (auto simp: area_def)
  then show ?thesis using \<open>k + 8 \<le> n\<close> unfolding area_def by (intro image_eqI [of _ _ "k + j"]) simp_all
qed

text \<open>C1. The trampoline of a function that returns, entered the Windows way: there is a machine \<open>m1\<close>, the one the host's
  function is entered in, that has all the arguments where System V passes them and the alignment the caller's stack has;
  whatever System V function is called, if it does not return the trampoline does not, and if it does, the trampoline returns
  to the caller's return address with the function's result, the stack pointer above the return address, and every general
  register that Windows functions keep as the caller had it. The vector registers are as the host's function left them.\<close>

theorem thunk_translates_call:
  assumes "n_args \<le> 32"
  shows "\<exists>m1. (\<forall>i < unat n_args. sysv_arg m1 i = win_arg m i) \<and>
    uint (regs m1 RSP) mod 16 = uint (regs m RSP) mod 16 \<and>
    (\<forall>f. sysv_returns f target (unat n_args - 6) (frame_size (unat n_args - 6) - 8 * (unat n_args - 6) + 24) \<longrightarrow>
      (case f target m1 of
         None \<Rightarrow> exec f pc (disasm (emit_returning target n_args)) m = None
       | Some m2 \<Rightarrow> \<exists>m3. exec f pc (disasm (emit_returning target n_args)) m = Some (Returned (load64 (regs m RSP) m), m3) \<and>
           regs m3 RAX = regs m2 RAX \<and> regs m3 RSP = regs m RSP + 8 \<and> xmm m3 = xmm m2 \<and> proc m3 = proc m2 \<and>
           (\<forall>r \<in> {RBX, RBP, RDI, RSI, R12, R13, R14, R15}. regs m3 r = regs m r)))"
proof -
  define s where "s = unat n_args - 6"
  define frame where "frame = frame_size s"
  define pc' where "pc' = pc + of_nat (sum_list (map snd (prologue target n_args)))"
  define m1 where "m1 = push64 (pc' + of_nat 2) (run (prologue target n_args) m)"
  define b where "b = regs m RSP - of_nat (frame + 24)"
  note P = prologue_effect [OF assms m1_def s_def frame_def b_def]
  have s: "s \<le> 26" using assms by (simp add: u8_le_unat s_def)
  note fb = frame_bounds [OF s, folded frame_def]
  have rax: "regs (run (prologue target n_args) m) RAX = target"
    using P(2) by (simp add: m1_def push64_def Let_def)
  have ex: "exec f pc (disasm (emit_returning target n_args)) m =
      (case f target m1 of None \<Rightarrow> None | Some m2 \<Rightarrow> exec f (pc' + of_nat 2) (epilogue n_args) m2)" for f
    unfolding disasm_emit_returning exec_straight [OF straight_prologue] m1_def pc'_def by (simp add: rax)
  have "\<exists>m3. exec f (pc' + of_nat 2) (epilogue n_args) m2 = Some (Returned (load64 (regs m RSP) m), m3) \<and>
           regs m3 RAX = regs m2 RAX \<and> regs m3 RSP = regs m RSP + 8 \<and> xmm m3 = xmm m2 \<and> proc m3 = proc m2 \<and>
           (\<forall>r \<in> {RBX, RBP, RDI, RSI, R12, R13, R14, R15}. regs m3 r = regs m r)"
    if f: "sysv_returns f target s (frame - 8 * s + 24)" and m2: "f target m1 = Some m2" for f m2
  proof -
    have sp: "regs m2 RSP = b + 8" and kept: "\<And>r. r \<in> {RBX, RBP, R12, R13, R14, R15} \<Longrightarrow> regs m2 r = regs m r"
      and mem: "\<forall>a. a \<in> area (b + of_nat (8 + 8 * s)) (frame - 8 * s + 24) \<longrightarrow> guest (proc m2) a = guest (proc m1) a"
      using f m2 P(1,5) unfolding sysv_returns_def by auto
    have same: "load64 (b + of_nat k) m2 = load64 (b + of_nat k) m1" if k: "8 + 8 * s \<le> k" "k \<le> frame + 24" for k
    proof (rule read_8_kept, intro allI impI)
      fix x assume x: "x \<in> area (b + of_nat k) 8"
      have off: "b + of_nat k = b + of_nat (8 + 8 * s) + of_nat (k - (8 + 8 * s))"
        using k(1) by (simp add: of_nat_diff)
      have "k - (8 + 8 * s) + 8 \<le> frame - 8 * s + 24" using k fb by linarith
      from area_within [OF this x [unfolded off]]
      have "x \<in> area (b + of_nat (8 + 8 * s)) (frame - 8 * s + 24)" .
      then show "guest (proc m2) x = guest (proc m1) x" using mem by blast
    qed
    have "regs m RSP = b + of_nat (frame + 24)" by (simp add: b_def)
    then have "regs m RSP + 8 = b + of_nat (frame + 32)" by simp
    then show ?thesis
      unfolding epilogue_effect [OF assms frame_def [unfolded s_def] sp]
      using P(6,7,8) same [of "frame + 8"] same [of "frame + 16"] same [of "frame + 24"] fb kept
      by (auto simp del: of_nat_add)
  qed
  moreover have "uint (regs m1 RSP) mod 16 = uint (regs m RSP) mod 16"
    unfolding P(1) b_def frame_def by (rule frame_aligned)
  ultimately show ?thesis
    unfolding ex s_def [symmetric] frame_def [symmetric] using P(4) by (intro exI [of _ m1]) (auto split: option.split)
qed


text \<open>A host function of two arguments that returns 42, and the machine of a call from the guest.\<close>

definition demo_callee :: callee where
  "demo_callee a m = Some (set_reg RAX 42 (set_reg RSP (regs m RSP + 8) m))"

definition demo_call :: machine where
  "demo_call = \<lparr>regs = (\<lambda>r. 0)(RCX := 5, RDX := 6, RDI := 7, RSP := 0x8008), xmm = (\<lambda>i. 0), proc = kernel_new\<rparr>"

lemma demo_callee_returns: "sysv_returns demo_callee target s n"
  by (auto simp: sysv_returns_def demo_callee_def)

theorem thunk_translates_call_witness:
  "(\<exists>m1. sysv_arg m1 0 = 5 \<and> sysv_arg m1 1 = 6 \<and> uint (regs m1 RSP) mod 16 = 8) \<and>
   (\<exists>ra m3. exec demo_callee 0 (disasm (emit_returning 0x1234 2)) demo_call = Some (Returned ra, m3) \<and>
      regs m3 RAX = 42 \<and> regs m3 RDI = 7 \<and> regs m3 RSP = 0x8010)"
proof -
  obtain m1 where m1: "\<forall>i < unat (2 :: u8). sysv_arg m1 i = win_arg demo_call i"
      "uint (regs m1 RSP) mod 16 = uint (regs demo_call RSP) mod 16"
    and ret: "case demo_callee 0x1234 m1 of
         None \<Rightarrow> exec demo_callee 0 (disasm (emit_returning 0x1234 2)) demo_call = None
       | Some m2 \<Rightarrow> \<exists>m3. exec demo_callee 0 (disasm (emit_returning 0x1234 2)) demo_call =
             Some (Returned (load64 (regs demo_call RSP) demo_call), m3) \<and>
           regs m3 RAX = regs m2 RAX \<and> regs m3 RSP = regs demo_call RSP + 8 \<and> xmm m3 = xmm m2 \<and> proc m3 = proc m2 \<and>
           (\<forall>r \<in> {RBX, RBP, RDI, RSI, R12, R13, R14, R15}. regs m3 r = regs demo_call r)"
    using thunk_translates_call [of 2 demo_call "0x1234" 0] demo_callee_returns by auto
  have "sysv_arg m1 0 = 5" "sysv_arg m1 1 = 6" "uint (regs m1 RSP) mod 16 = 8"
    using m1 by (simp_all add: win_arg_def demo_call_def)
  moreover obtain m3 where "exec demo_callee 0 (disasm (emit_returning 0x1234 2)) demo_call =
        Some (Returned (load64 (regs demo_call RSP) demo_call), m3)"
      "regs m3 RAX = 42" "regs m3 RSP = regs demo_call RSP + 8" "regs m3 RDI = regs demo_call RDI"
    using ret by (auto simp: demo_callee_def)
  ultimately show ?thesis by (auto simp: demo_call_def)
qed

text \<open>The trampoline of a function that does not return jumps to it with the stack as it was and all its arguments, at most
  six, where System V passes them.\<close>

theorem thunk_noreturn_jumps:
  assumes "n_args \<le> 6"
  shows "\<exists>m1. exec f pc (disasm (emit_noreturn target n_args)) m = Some (Jumped target, m1) \<and>
    (\<forall>i < unat n_args. sysv_arg m1 i = win_arg m i) \<and> regs m1 RSP = regs m RSP \<and> proc m1 = proc m"
proof -
  define mB where "mB = run move_args m"
  note B = mB_def [unfolded move_block]
  define mC where "mC = run (load_args n_args 0x28 0x30) mB"
  note C = load_block [of "0x28" "0x30", OF _ _ mC_def, simplified]
  let ?is = "move_args @ load_args n_args 0x28 0x30 @ [(IMovImm RAX target, 10)]"
  have "\<forall>x \<in> set ?is. straight (fst x)" by (auto simp: move_args_def load_args_def straight_def)
  from exec_straight [OF this, of f pc "[(IJmp RAX, 2)]" m]
  have ex: "exec f pc (disasm (emit_noreturn target n_args)) m = Some (Jumped target, set_reg RAX target mC)"
    by (simp add: disasm_emit_noreturn simple_def mC_def mB_def)
  have sp: "regs mB RSP = regs m RSP" by (simp add: B)
  have "sysv_arg (set_reg RAX target mC) i = win_arg m i" if i: "i < unat n_args" for i
  proof -
    have "unat n_args \<le> 6" using assms by (simp add: word_le_nat_alt)
    with i consider "i = 0" | "i = 1" | "i = 2" | "i = 3" | "i = 4" "5 \<le> n_args" | "i = 5" "6 \<le> n_args"
      by (fastforce simp: u8_le_unat)
    then show ?thesis
    proof cases
      case 5
      then show ?thesis using C(4) sp by (simp add: sysv_arg_def win_arg_def) (simp add: B)
    next
      case 6
      then show ?thesis using C(5) sp by (simp add: sysv_arg_def win_arg_def) (simp add: B)
    qed (simp_all add: sysv_arg_def win_arg_def C(3) B)
  qed
  then show ?thesis using ex by (simp add: C(1,3) B)
qed

theorem thunk_noreturn_jumps_witness:
  "\<exists>m1. exec demo_callee 0 (disasm (emit_noreturn 0x1234 1)) demo_call = Some (Jumped 0x1234, m1) \<and> sysv_arg m1 0 = 5"
proof -
  have "(1 :: u8) \<le> 6" "win_arg demo_call 0 = 5" by (simp_all add: win_arg_def demo_call_def)
  with thunk_noreturn_jumps [of 1 demo_callee 0 "0x1234" demo_call] show ?thesis by auto
qed

end
