(* ===== verification/Seh.thy ===== *)
theory Seh
  imports Guest
begin

unbundle bit_operations_syntax

text \<open>
  Structured exception handling, \<^verbatim>\<open>crates/pe-loader/src/seh.rs\<close>: the table of function entries of the main image, the
  lookup of the entry that covers a program counter, and the virtual unwind that takes a register context from the body of
  a function to its caller. The tables and the stack are read from the guest's memory. The register context is a value the
  caller owns, \<open>None\<close> for the null pointer; addresses wrap as in a release build, where a debug build would panic.
\<close>

section \<open>Function entries\<close>

record runtime_function =
  begin_address :: u32
  end_address :: u32
  unwind_data :: u32

definition rf_at :: "u64 \<Rightarrow> kernel \<Rightarrow> runtime_function" where
  "rf_at p k = \<lparr>begin_address = ucast (read_le 4 p k), end_address = ucast (read_le 4 (p + 4) k),
     unwind_data = ucast (read_le 4 (p + 8) k)\<rparr>"

record exception_table =
  tbl_base :: u64
  tbl_count :: nat
  tbl_image_base :: u64
  tbl_image_size :: u64

text \<open>The global table is an optional value: publishing it, and the image base for the unwinder.\<close>

definition seh_install :: "u64 \<Rightarrow> nat \<Rightarrow> u64 \<Rightarrow> u64 \<Rightarrow> exception_table option \<Rightarrow> exception_table option" where
  "seh_install base count image_base image_size t =
     Some \<lparr>tbl_base = base, tbl_count = count, tbl_image_base = image_base, tbl_image_size = image_size\<rparr>"

definition get_image_base :: "exception_table option \<Rightarrow> u64 option" where
  "get_image_base t = map_option tbl_image_base t"

definition entry_addr :: "exception_table \<Rightarrow> nat \<Rightarrow> u64" where
  "entry_addr t i = tbl_base t + of_nat (12 * i)"

text \<open>The last entry whose first address is not above \<open>rva\<close> is at index \<open>search t rva k 0 count - 1\<close>.\<close>

function search :: "exception_table \<Rightarrow> u32 \<Rightarrow> kernel \<Rightarrow> nat \<Rightarrow> nat \<Rightarrow> nat" where
  "search t rva k lo hi =
     (if lo < hi then
        (let mid = lo + (hi - lo) div 2 in
         if begin_address (rf_at (entry_addr t mid) k) \<le> rva then search t rva k (mid + 1) hi
         else search t rva k lo mid)
      else lo)"
  by pat_completeness auto
termination by (relation "measure (\<lambda>(t, rva, k, lo, hi). hi - lo)") auto

declare search.simps [simp del]

definition lookup_function_entry :: "exception_table option \<Rightarrow> u64 \<Rightarrow> kernel \<Rightarrow> u64" where
  "lookup_function_entry tbl pc k =
     (case tbl of
        None \<Rightarrow> 0
      | Some t \<Rightarrow>
          if tbl_count t = 0 \<or> tbl_base t = 0 then 0
          else if pc < tbl_image_base t \<or> tbl_image_base t + tbl_image_size t \<le> pc then 0
          else
            (let rva = ucast (pc - tbl_image_base t);
                 lo = search t rva k 0 (tbl_count t)
             in if lo = 0 then 0
                else if rva < end_address (rf_at (entry_addr t (lo - 1)) k) then entry_addr t (lo - 1)
                else 0))"

section \<open>The register context\<close>

record cpu_context =
  c_rax :: u64
  c_rcx :: u64
  c_rdx :: u64
  c_rbx :: u64
  c_rsp :: u64
  c_rbp :: u64
  c_rsi :: u64
  c_rdi :: u64
  c_r8 :: u64
  c_r9 :: u64
  c_r10 :: u64
  c_r11 :: u64
  c_r12 :: u64
  c_r13 :: u64
  c_r14 :: u64
  c_r15 :: u64
  c_rip :: u64

definition read_reg_by_num :: "cpu_context \<Rightarrow> u8 \<Rightarrow> u64" where
  "read_reg_by_num c reg =
     (if reg = 0 then c_rax c else if reg = 1 then c_rcx c else if reg = 2 then c_rdx c else if reg = 3 then c_rbx c
      else if reg = 4 then c_rsp c else if reg = 5 then c_rbp c else if reg = 6 then c_rsi c else if reg = 7 then c_rdi c
      else if reg = 8 then c_r8 c else if reg = 9 then c_r9 c else if reg = 10 then c_r10 c else if reg = 11 then c_r11 c
      else if reg = 12 then c_r12 c else if reg = 13 then c_r13 c else if reg = 14 then c_r14 c
      else if reg = 15 then c_r15 c else 0)"

definition nonvolatile_offset :: "u8 \<Rightarrow> nat option" where
  "nonvolatile_offset reg =
     (if reg = 3 then Some 0x90 else if reg = 5 then Some 0xA0 else if reg = 6 then Some 0xA8 else if reg = 7 then Some 0xB0
      else if reg = 8 then Some 0xB8 else if reg = 9 then Some 0xC0 else if reg = 10 then Some 0xC8
      else if reg = 11 then Some 0xD0 else if reg = 12 then Some 0xD8 else if reg = 13 then Some 0xE0
      else if reg = 14 then Some 0xE8 else if reg = 15 then Some 0xF0 else None)"

text \<open>The fields lie 8 bytes apart from offset \<open>0x78\<close> in the order of the record.\<close>

definition write_reg_by_offset :: "cpu_context \<Rightarrow> nat \<Rightarrow> u64 \<Rightarrow> cpu_context" where
  "write_reg_by_offset c off v =
     (if off = 0x78 then c\<lparr>c_rax := v\<rparr> else if off = 0x80 then c\<lparr>c_rcx := v\<rparr> else if off = 0x88 then c\<lparr>c_rdx := v\<rparr>
      else if off = 0x90 then c\<lparr>c_rbx := v\<rparr> else if off = 0x98 then c\<lparr>c_rsp := v\<rparr> else if off = 0xA0 then c\<lparr>c_rbp := v\<rparr>
      else if off = 0xA8 then c\<lparr>c_rsi := v\<rparr> else if off = 0xB0 then c\<lparr>c_rdi := v\<rparr> else if off = 0xB8 then c\<lparr>c_r8 := v\<rparr>
      else if off = 0xC0 then c\<lparr>c_r9 := v\<rparr> else if off = 0xC8 then c\<lparr>c_r10 := v\<rparr> else if off = 0xD0 then c\<lparr>c_r11 := v\<rparr>
      else if off = 0xD8 then c\<lparr>c_r12 := v\<rparr> else if off = 0xE0 then c\<lparr>c_r13 := v\<rparr> else if off = 0xE8 then c\<lparr>c_r14 := v\<rparr>
      else if off = 0xF0 then c\<lparr>c_r15 := v\<rparr> else if off = 0xF8 then c\<lparr>c_rip := v\<rparr> else c)"

section \<open>Virtual unwind\<close>

definition code_at :: "u64 \<Rightarrow> nat \<Rightarrow> kernel \<Rightarrow> u16" where
  "code_at codes i k = ucast (read_le 2 (codes + of_nat (2 * i)) k)"

definition restore_reg :: "u8 \<Rightarrow> u64 \<Rightarrow> kernel \<Rightarrow> cpu_context \<Rightarrow> cpu_context" where
  "restore_reg reg a k c =
     (case nonvolatile_offset reg of None \<Rightarrow> c | Some off \<Rightarrow> write_reg_by_offset c off (read_le 8 a k))"

definition wide_slots :: "u16 \<Rightarrow> u16 \<Rightarrow> u64" where
  "wide_slots hi lo = push_bit 16 (ucast hi) OR ucast lo"

text \<open>The codes below index \<open>n\<close>, the last one first.\<close>

function unwind_codes :: "u64 \<Rightarrow> kernel \<Rightarrow> nat \<Rightarrow> cpu_context \<Rightarrow> cpu_context" where
  "unwind_codes codes k 0 c = c"
| "unwind_codes codes k (Suc n) c =
     (let code = code_at codes n k;
          opcode = code AND 0x0F;
          op_info = ucast (drop_bit 4 code AND 0x0F) :: u8
      in if opcode = 0 then
           unwind_codes codes k n ((restore_reg op_info (c_rsp c) k c)\<lparr>c_rsp := c_rsp c + 8\<rparr>)
         else if opcode = 2 then unwind_codes codes k n (c\<lparr>c_rsp := c_rsp c + (ucast op_info * 8 + 8)\<rparr>)
         else if opcode = 1 then
           (if op_info = 0 then
              (if n = 0 then c
               else unwind_codes codes k (n - 1) (c\<lparr>c_rsp := c_rsp c + ucast (code_at codes (n - 1) k) * 8\<rparr>))
            else if n < 2 then c
            else unwind_codes codes k (n - 2)
                   (c\<lparr>c_rsp := c_rsp c + wide_slots (code_at codes (n - 2) k) (code_at codes (n - 1) k)\<rparr>))
         else if opcode = 3 then unwind_codes codes k n c
         else if opcode = 4 then
           (if n = 0 then c
            else unwind_codes codes k (n - 1)
                   (restore_reg op_info (c_rsp c + ucast (code_at codes (n - 1) k) * 8) k c))
         else if opcode = 5 then
           (if n < 2 then c
            else unwind_codes codes k (n - 2)
                   (restore_reg op_info (c_rsp c + wide_slots (code_at codes (n - 2) k) (code_at codes (n - 1) k) * 8) k c))
         else if opcode = 7 then (if n = 0 then c else unwind_codes codes k (n - 1) c)
         else if opcode = 8 then (if n < 2 then c else unwind_codes codes k (n - 2) c)
         else unwind_codes codes k n c)"
  by pat_completeness auto
termination by (relation "measure (\<lambda>(codes, k, n, c). n)") auto

declare unwind_codes.simps(2) [simp del]

definition virtual_unwind ::
  "u64 \<Rightarrow> u64 \<Rightarrow> cpu_context option \<Rightarrow> u64 \<Rightarrow> kernel \<Rightarrow> u32 \<times> cpu_context option \<times> kernel" where
  "virtual_unwind function_entry image_base ctx establisher_frame k =
     (case ctx of
        None \<Rightarrow> (0, None, k)
      | Some c \<Rightarrow>
          if function_entry = 0 then (0, Some c, k)
          else
            (let unwind_rva = ucast (unwind_data (rf_at function_entry k)) :: u64 in
             if unwind_rva = 0 then (0, Some c, k)
             else
               (let p = image_base + unwind_rva;
                    version_flags = guest k p;
                    version = version_flags AND 0x07;
                    flags = drop_bit 3 version_flags AND 0x1F;
                    count = unat (guest k (p + 2));
                    frame_reg = guest k (p + 3) AND 0x0F;
                    frame_offset = ucast (drop_bit 4 (guest k (p + 3))) :: u64
                in if version \<noteq> 1 \<and> version \<noteq> 2 then (0, Some c, k)
                   else
                     (let c = (if frame_reg \<noteq> 0 then c\<lparr>c_rsp := read_reg_by_num c frame_reg - frame_offset * 16\<rparr> else c);
                          c = unwind_codes (p + 4) k count c;
                          c = c\<lparr>c_rip := read_le 8 (c_rsp c) k, c_rsp := c_rsp c + 8\<rparr>;
                          k = put_le 8 establisher_frame (c_rsp c) k
                      in (if flags AND 3 \<noteq> 0 then ucast (read_le 4 (p + of_nat (4 + count * 2)) k) else 0, Some c, k)))))"

text \<open>The call the exception bridge of kernel32 makes: it takes the image base from the table.\<close>

definition virtual_unwind_proxy ::
  "exception_table option \<Rightarrow> u64 \<Rightarrow> cpu_context option \<Rightarrow> u64 \<Rightarrow> kernel \<Rightarrow> u32 \<times> cpu_context option \<times> kernel" where
  "virtual_unwind_proxy tbl function_entry ctx establisher_frame k =
     virtual_unwind function_entry (case get_image_base tbl of None \<Rightarrow> 0 | Some b \<Rightarrow> b) ctx establisher_frame k"

end
