(* ===== verification/SehSpec.thy ===== *)
theory SehSpec
  imports Seh SyncSpec
begin

unbundle bit_operations_syntax

text \<open>
  What the exception support guarantees: the lookup is the search for the entry that covers the program counter, and the
  unwind undoes the prologue its codes spell; and what the unwind does with codes in the documented layout.
\<close>

section \<open>The lookup\<close>

definition entry :: "exception_table \<Rightarrow> kernel \<Rightarrow> nat \<Rightarrow> runtime_function" where
  "entry t k i = rf_at (entry_addr t i) k"

text \<open>The entries follow each other in the order of their addresses and do not overlap.\<close>

definition table_ok :: "exception_table \<Rightarrow> kernel \<Rightarrow> bool" where
  "table_ok t k \<longleftrightarrow> tbl_base t \<noteq> 0 \<and> unat (tbl_image_size t) \<le> 2 ^ 32 \<and>
     unat (tbl_image_base t) + unat (tbl_image_size t) < 2 ^ 64 \<and>
     (\<forall>j < tbl_count t. \<forall>i < j. begin_address (entry t k i) \<le> begin_address (entry t k j) \<and>
        end_address (entry t k i) \<le> begin_address (entry t k j))"

text \<open>The program counter is inside the image and inside the function of the entry.\<close>

definition rf_covers :: "exception_table \<Rightarrow> kernel \<Rightarrow> u64 \<Rightarrow> nat \<Rightarrow> bool" where
  "rf_covers t k pc i \<longleftrightarrow> unat (tbl_image_base t) \<le> unat pc \<and> unat pc < unat (tbl_image_base t) + unat (tbl_image_size t) \<and>
     unat (tbl_image_base t) + unat (begin_address (entry t k i)) \<le> unat pc \<and>
     unat pc < unat (tbl_image_base t) + unat (end_address (entry t k i))"

lemma search_boundary:
  assumes "\<And>i j. i < j \<Longrightarrow> j < n \<Longrightarrow> begin_address (entry t k j) \<le> rva \<Longrightarrow> begin_address (entry t k i) \<le> rva"
  shows "lo \<le> hi \<Longrightarrow> hi \<le> n \<Longrightarrow> (\<And>i. i < lo \<Longrightarrow> begin_address (entry t k i) \<le> rva) \<Longrightarrow>
    (\<And>i. hi \<le> i \<Longrightarrow> i < n \<Longrightarrow> \<not> begin_address (entry t k i) \<le> rva) \<Longrightarrow>
    search t rva k lo hi \<le> n \<and> (\<forall>i < n. begin_address (entry t k i) \<le> rva \<longleftrightarrow> i < search t rva k lo hi)"
proof (induction "hi - lo" arbitrary: lo hi rule: less_induct)
  case less
  show ?case
  proof (cases "lo < hi")
    case True
    define mid where "mid = lo + (hi - lo) div 2"
    have mid: "lo \<le> mid" "mid < hi" "hi - (mid + 1) < hi - lo" "mid - lo < hi - lo"
      using True by (simp_all add: mid_def)
    have step: "search t rva k lo hi = (if begin_address (entry t k mid) \<le> rva then search t rva k (mid + 1) hi else search t rva k lo mid)"
      using True by (subst search.simps) (simp add: Let_def entry_def flip: mid_def)
    show ?thesis
    proof (cases "begin_address (entry t k mid) \<le> rva")
      case le: True
      have "begin_address (entry t k i) \<le> rva" if "i < mid + 1" for i
        using that assms [of i mid] le mid less.prems(2) by (cases "i = mid") auto
      from less.hyps [OF mid(3) _ less.prems(2) this less.prems(4)] mid le show ?thesis by (simp add: step)
    next
      case gt: False
      have "\<not> begin_address (entry t k i) \<le> rva" if "mid \<le> i" "i < n" for i
        using that assms [of mid i] gt by (cases "i = mid") auto
      from less.hyps [OF mid(4) mid(1) _ less.prems(3) this] mid gt less.prems(2) show ?thesis by (simp add: step)
    qed
  next
    case False
    then have "search t rva k lo hi = lo" by (subst search.simps) simp
    moreover have "lo = hi" using False less.prems(1) by simp
    moreover have "begin_address (entry t k i) \<le> rva \<longleftrightarrow> i < hi" if "i < n" for i
      using less.prems(3) [of i] less.prems(4) [of i] that \<open>lo = hi\<close> by (cases "i < hi") auto
    ultimately show ?thesis using less.prems(2) by simp
  qed
qed

text \<open>C13. The address returned is that of the entry a search from the front finds, and null exactly when no entry covers the
  program counter.\<close>

theorem lookup_is_linear_search:
  assumes "table_ok t k"
  shows "lookup_function_entry (Some t) pc k =
    (case find (rf_covers t k pc) [0..<tbl_count t] of None \<Rightarrow> 0 | Some i \<Rightarrow> entry_addr t i)"
proof -
  let ?n = "tbl_count t" and ?b = "tbl_image_base t" and ?z = "tbl_image_size t"
  have ok: "tbl_base t \<noteq> 0" "unat ?z \<le> 2 ^ 32" "unat ?b + unat ?z < 2 ^ 64"
    "\<And>i j. i < j \<Longrightarrow> j < ?n \<Longrightarrow> begin_address (entry t k i) \<le> begin_address (entry t k j)"
    "\<And>i j. i < j \<Longrightarrow> j < ?n \<Longrightarrow> end_address (entry t k i) \<le> begin_address (entry t k j)"
    using assms by (simp_all add: table_ok_def)
  have "unat (?b + ?z) = unat ?b + unat ?z" using ok(3) by (subst unat_add_lem [THEN iffD1]) simp_all
  then have inside: "pc < ?b \<or> ?b + ?z \<le> pc \<longleftrightarrow> \<not> (unat ?b \<le> unat pc \<and> unat pc < unat ?b + unat ?z)"
    by (auto simp: word_less_nat_alt word_le_nat_alt)
  show ?thesis
  proof (cases "?n = 0 \<or> pc < ?b \<or> ?b + ?z \<le> pc")
    case True
    then have "find (rf_covers t k pc) [0..<?n] = None" using inside by (auto simp: find_None_iff rf_covers_def)
    then show ?thesis using True by (auto simp: lookup_function_entry_def)
  next
    case False
    then have pc: "?n \<noteq> 0" "unat ?b \<le> unat pc" "unat pc < unat ?b + unat ?z" using inside by auto
    define rva :: u32 where "rva = ucast (pc - ?b)"
    have "unat (pc - ?b) = unat pc - unat ?b" using pc(2) by (simp add: unat_sub word_le_nat_alt)
    moreover have "unat pc - unat ?b < 2 ^ 32" using pc(3) ok(2) by simp
    ultimately have rva: "unat pc = unat ?b + unat rva"
      using pc(2) by (simp add: rva_def unsigned_ucast_eq take_bit_nat_eq_self)
    define lo where "lo = search t rva k 0 ?n"
    have lo: "lo \<le> ?n" "\<And>i. i < ?n \<Longrightarrow> begin_address (entry t k i) \<le> rva \<longleftrightarrow> i < lo"
    proof -
      have "begin_address (entry t k i) \<le> rva" if "i < j" "j < ?n" "begin_address (entry t k j) \<le> rva" for i j
        using ok(4) [OF that(1,2)] that(3) by (rule order_trans)
      from search_boundary [where n = ?n and t = t and k = k and rva = rva and lo = 0 and hi = ?n, OF this]
      show "lo \<le> ?n" "\<And>i. i < ?n \<Longrightarrow> begin_address (entry t k i) \<le> rva \<longleftrightarrow> i < lo" by (simp_all add: lo_def)
    qed
    have cov: "rf_covers t k pc i \<longleftrightarrow> i < lo \<and> rva < end_address (entry t k i)" if "i < ?n" for i
      using lo(2) [OF that, symmetric] pc rva by (auto simp: rf_covers_def word_less_nat_alt word_le_nat_alt)
    have code: "lookup_function_entry (Some t) pc k =
        (if lo = 0 then 0 else if rva < end_address (entry t k (lo - 1)) then entry_addr t (lo - 1) else 0)"
      using False ok(1) by (simp add: lookup_function_entry_def Let_def entry_def flip: rva_def lo_def)
    have before: "\<not> rva < end_address (entry t k i)" if "Suc i < lo" for i
    proof -
      have "end_address (entry t k i) \<le> begin_address (entry t k (lo - 1))" using ok(5) [of i "lo - 1"] that lo(1) by simp
      also have "\<dots> \<le> rva" using lo(2) [of "lo - 1"] that lo(1) by simp
      finally show ?thesis by simp
    qed
    show ?thesis
    proof (cases "lo \<noteq> 0 \<and> rva < end_address (entry t k (lo - 1))")
      case True
      have "find (rf_covers t k pc) [0..<?n] = Some (lo - 1)"
        unfolding find_Some_iff
        using True lo(1) cov before by (intro exI [of _ "lo - 1"]) (auto simp: less_diff_conv)
      then show ?thesis using True by (simp add: code)
    next
      case no: False
      have "\<not> rf_covers t k pc i" if "i < ?n" for i
        using no before [of i] cov [OF that] by (cases "Suc i = lo") auto
      then have "find (rf_covers t k pc) [0..<?n] = None" by (simp add: find_None_iff)
      then show ?thesis using no by (auto simp: code)
    qed
  qed
qed

text \<open>Two functions, \<open>0x1000\<close> to \<open>0x1100\<close> and \<open>0x2000\<close> to \<open>0x2200\<close>.\<close>

definition demo_memory :: kernel where
  "demo_memory = kernel_new\<lparr>guest := (\<lambda>a. if a = 0x1001 then 0x10 else if a = 0x1005 then 0x11 else if a = 0x100D then 0x20
     else if a = 0x1011 then 0x22 else 0)\<rparr>"

definition demo_table :: exception_table where
  "demo_table = \<lparr>tbl_base = 0x1000, tbl_count = 2, tbl_image_base = 0x140000000, tbl_image_size = 0x10000\<rparr>"

lemma demo_entries:
  "begin_address (entry demo_table demo_memory 0) = 0x1000" "end_address (entry demo_table demo_memory 0) = 0x1100"
  "begin_address (entry demo_table demo_memory (Suc 0)) = 0x2000" "end_address (entry demo_table demo_memory (Suc 0)) = 0x2200"
  by (simp_all add: entry_def entry_addr_def demo_table_def rf_at_def read_le_4 demo_memory_def)

theorem lookup_is_linear_search_witness:
  "lookup_function_entry (Some demo_table) 0x140002100 demo_memory = 0x100C"
proof -
  have "table_ok demo_table demo_memory"
    unfolding table_ok_def
    by (auto simp: demo_table_def less_2_cases_iff demo_entries [unfolded demo_table_def])
  moreover have "find (rf_covers demo_table demo_memory 0x140002100) [0..<tbl_count demo_table] = Some 1"
    by (simp add: demo_table_def upt_rec rf_covers_def demo_entries [unfolded demo_table_def])
  ultimately show ?thesis by (simp add: lookup_is_linear_search entry_addr_def) (simp add: demo_table_def)
qed

section \<open>Prologues\<close>

text \<open>What the codes of a function say its prologue does, in the order it is executed.\<close>

datatype unwind_op = Push u8 | Alloc u64 | Save u8 u64 | Nothing

text \<open>The codes, the last one first, as the unwind takes them.\<close>

function spelled_ops :: "u16 list \<Rightarrow> unwind_op list option" where
  "spelled_ops [] = Some []"
| "spelled_ops (w # ws) =
     (let opcode = w AND 0x0F; info = ucast (drop_bit 4 w AND 0x0F) :: u8 in
      if opcode = 0 then map_option (Cons (Push info)) (spelled_ops ws)
      else if opcode = 2 then map_option (Cons (Alloc (ucast info * 8 + 8))) (spelled_ops ws)
      else if opcode = 1 then
        (if info = 0 then (case ws of a # ws \<Rightarrow> map_option (Cons (Alloc (ucast a * 8))) (spelled_ops ws) | _ \<Rightarrow> None)
         else (case ws of a # b # ws \<Rightarrow> map_option (Cons (Alloc (wide_slots b a))) (spelled_ops ws) | _ \<Rightarrow> None))
      else if opcode = 4 then
        (case ws of a # ws \<Rightarrow> map_option (Cons (Save info (ucast a * 8))) (spelled_ops ws) | _ \<Rightarrow> None)
      else if opcode = 5 then
        (case ws of a # b # ws \<Rightarrow> map_option (Cons (Save info (wide_slots b a * 8))) (spelled_ops ws) | _ \<Rightarrow> None)
      else if opcode = 7 then (case ws of a # ws \<Rightarrow> map_option (Cons Nothing) (spelled_ops ws) | _ \<Rightarrow> None)
      else if opcode = 8 then (case ws of a # b # ws \<Rightarrow> map_option (Cons Nothing) (spelled_ops ws) | _ \<Rightarrow> None)
      else map_option (Cons Nothing) (spelled_ops ws))"
  by pat_completeness auto
termination by (relation "measure length") auto

declare spelled_ops.simps(2) [simp del]

text \<open>Executing a prologue with the registers \<open>c\<close>, from a stack pointer: pushes and saves store registers, allocations move
  the stack pointer.\<close>

fun run_prologue :: "cpu_context \<Rightarrow> unwind_op list \<Rightarrow> u64 \<Rightarrow> kernel \<Rightarrow> u64 \<times> kernel" where
  "run_prologue c [] sp k = (sp, k)"
| "run_prologue c (Push r # ops) sp k = run_prologue c ops (sp - 8) (write_le 8 (sp - 8) (read_reg_by_num c r) k)"
| "run_prologue c (Alloc n # ops) sp k = run_prologue c ops (sp - n) k"
| "run_prologue c (Save r off # ops) sp k = run_prologue c ops sp (write_le 8 (sp + off) (read_reg_by_num c r) k)"
| "run_prologue c (Nothing # ops) sp k = run_prologue c ops sp k"

text \<open>The stack slots it stores to, with the registers.\<close>

fun slots :: "unwind_op list \<Rightarrow> u64 \<Rightarrow> (u64 \<times> u8) list" where
  "slots [] sp = []"
| "slots (Push r # ops) sp = (sp - 8, r) # slots ops (sp - 8)"
| "slots (Alloc n # ops) sp = slots ops (sp - n)"
| "slots (Save r off # ops) sp = (sp + off, r) # slots ops sp"
| "slots (Nothing # ops) sp = slots ops sp"

lemma prologue_memory:
  "snd (run_prologue c ops sp k) = fold (\<lambda>(a, v). write_le 8 a v) (map (\<lambda>(a, r). (a, read_reg_by_num c r)) (slots ops sp)) k"
  by (induction c ops sp k rule: run_prologue.induct) simp_all

text \<open>Undoing an operation, from the memory of the body.\<close>

fun undo :: "kernel \<Rightarrow> unwind_op \<Rightarrow> cpu_context \<Rightarrow> cpu_context" where
  "undo k (Push r) c = (restore_reg r (c_rsp c) k c)\<lparr>c_rsp := c_rsp c + 8\<rparr>"
| "undo k (Alloc n) c = c\<lparr>c_rsp := c_rsp c + n\<rparr>"
| "undo k (Save r off) c = restore_reg r (c_rsp c + off) k c"
| "undo k Nothing c = c"

definition codes_below :: "u64 \<Rightarrow> kernel \<Rightarrow> nat \<Rightarrow> u16 list" where
  "codes_below codes k n = rev (map (\<lambda>i. code_at codes i k) [0..<n])"

lemma codes_below_0 [simp]: "codes_below codes k 0 = []"
  by (simp add: codes_below_def)

lemma codes_below_Suc: "codes_below codes k (Suc n) = code_at codes n k # codes_below codes k n"
  by (simp add: codes_below_def)

lemma codes_below_pos: "0 < n \<Longrightarrow> codes_below codes k n = code_at codes (n - 1) k # codes_below codes k (n - 1)"
  using codes_below_Suc [of codes k "n - 1"] by simp

lemma unwind_codes_undo:
  "spelled_ops (codes_below codes k n) = Some ops \<Longrightarrow> unwind_codes codes k n c = fold (undo k) ops c"
proof (induction n arbitrary: c ops rule: less_induct)
  case (less n)
  show ?case
  proof (cases n)
    case 0
    then show ?thesis using less.prems by simp
  next
    case (Suc m)
    note spelling = less.prems [unfolded Suc codes_below_Suc spelled_ops.simps(2) Let_def]
    note step = unwind_codes.simps(2) [of codes k m c, unfolded Let_def, folded Suc]
    note I0 = less.IH [of m, unfolded Suc, OF lessI]
    consider "m = 0" | "m = Suc 0" | l where "m = Suc (Suc l)" by (cases m; cases "m - 1") auto
    then show ?thesis
    proof cases
      case 1
      then show ?thesis using spelling I0 by (auto simp: step split: if_splits)
    next
      case 2
      note I1 = less.IH [of 0, unfolded Suc 2, OF zero_less_Suc]
      show ?thesis using spelling I0 I1 by (auto simp: step 2 codes_below_Suc split: if_splits)
    next
      case 3
      have I1: "spelled_ops (codes_below codes k (Suc l)) = Some ops \<Longrightarrow> unwind_codes codes k (Suc l) c = fold (undo k) ops c" for c ops
        using less.IH [of "Suc l"] by (simp add: Suc 3)
      have I2: "spelled_ops (codes_below codes k l) = Some ops \<Longrightarrow> unwind_codes codes k l c = fold (undo k) ops c" for c ops
        using less.IH [of l] by (simp add: Suc 3)
      show ?thesis using spelling I0 I1 I2 by (auto simp: step 3 codes_below_Suc split: if_splits)
    qed
  qed
qed

section \<open>Undoing a prologue\<close>

lemma write_reg_fixed [simp]:
  "nonvolatile_offset r = Some off \<Longrightarrow> c_rsp (write_reg_by_offset c off v) = c_rsp c"
  "nonvolatile_offset r = Some off \<Longrightarrow> c_rip (write_reg_by_offset c off v) = c_rip c"
  by (auto simp: nonvolatile_offset_def write_reg_by_offset_def split: if_splits)

lemma restore_reg_fixed [simp]: "c_rsp (restore_reg r a k c) = c_rsp c" "c_rip (restore_reg r a k c) = c_rip c"
  by (auto simp: restore_reg_def split: option.split)

lemma read_written:
  "nonvolatile_offset r = Some off \<Longrightarrow>
    read_reg_by_num (write_reg_by_offset c off v) r' = (if r' = r then v else read_reg_by_num c r')"
proof -
  assume "nonvolatile_offset r = Some off"
  then consider "r = 3" "off = 0x90" | "r = 5" "off = 0xA0" | "r = 6" "off = 0xA8" | "r = 7" "off = 0xB0"
    | "r = 8" "off = 0xB8" | "r = 9" "off = 0xC0" | "r = 10" "off = 0xC8" | "r = 11" "off = 0xD0"
    | "r = 12" "off = 0xD8" | "r = 13" "off = 0xE0" | "r = 14" "off = 0xE8" | "r = 15" "off = 0xF0"
    by (auto simp: nonvolatile_offset_def split: if_splits)
  then show ?thesis by cases (simp_all add: write_reg_by_offset_def read_reg_by_num_def)
qed

definition restored :: "(u64 \<times> u8) list \<Rightarrow> u8 \<Rightarrow> bool" where
  "restored sl r \<longleftrightarrow> nonvolatile_offset r \<noteq> None \<and> (\<exists>a. (a, r) \<in> set sl)"

lemma read_restored:
  "read_reg_by_num (restore_reg r a k c) r' = (if r' = r \<and> nonvolatile_offset r \<noteq> None then read_le 8 a k else read_reg_by_num c r')"
  by (auto simp: restore_reg_def read_written split: option.split)

fun stack_after :: "unwind_op list \<Rightarrow> u64 \<Rightarrow> u64" where
  "stack_after [] sp = sp"
| "stack_after (Push r # ops) sp = stack_after ops (sp - 8)"
| "stack_after (Alloc n # ops) sp = stack_after ops (sp - n)"
| "stack_after (Save r off # ops) sp = stack_after ops sp"
| "stack_after (Nothing # ops) sp = stack_after ops sp"

lemma prologue_stack: "fst (run_prologue c ops sp k) = stack_after ops sp"
  by (induction c ops sp k rule: run_prologue.induct) simp_all

lemma read_reg_rsp [simp]:
  "read_reg_by_num (c\<lparr>c_rsp := v\<rparr>) r = (if r = 4 then v else read_reg_by_num c r)"
  "read_reg_by_num (c\<lparr>c_rip := v\<rparr>) r = read_reg_by_num c r"
  "read_reg_by_num c 4 = c_rsp c"
  by (simp_all add: read_reg_by_num_def)

lemma not_restored_rsp [simp]: "\<not> restored sl 4"
  by (simp add: restored_def nonvolatile_offset_def)

lemma restored_simps [simp]:
  "restored [] r \<longleftrightarrow> False"
  "restored ((a, r') # sl) r \<longleftrightarrow> (r = r' \<and> nonvolatile_offset r \<noteq> None) \<or> restored sl r"
  by (auto simp: restored_def)

lemma undo_prologue:
  "\<forall>(a, r) \<in> set (slots ops sp). read_le 8 a k = V r \<Longrightarrow> c_rsp c = stack_after ops sp \<Longrightarrow>
    (let c' = fold (undo k) (rev ops) c in
      c_rsp c' = sp \<and> c_rip c' = c_rip c \<and>
      (\<forall>r. r \<noteq> 4 \<longrightarrow> read_reg_by_num c' r = (if restored (slots ops sp) r then V r else read_reg_by_num c r)))"
proof (induction ops sp rule: slots.induct)
  case (2 r ops sp)
  then show ?case by (auto simp: Let_def read_restored)
next
  case (4 r off ops sp)
  then show ?case by (auto simp: Let_def read_restored)
qed (simp_all add: Let_def)

text \<open>The header of the unwind information of a function entry.\<close>

definition unwind_info :: "u64 \<Rightarrow> u64 \<Rightarrow> kernel \<Rightarrow> u64" where
  "unwind_info function_entry image_base k = image_base + ucast (unwind_data (rf_at function_entry k))"

text \<open>The stack pointer the unwind starts from: that of the context, or computed from the frame register.\<close>

definition frame_start :: "u64 \<Rightarrow> kernel \<Rightarrow> cpu_context \<Rightarrow> u64" where
  "frame_start p k c =
     (if guest k (p + 3) AND 0x0F = 0 then c_rsp c
      else read_reg_by_num c (guest k (p + 3) AND 0x0F) - ucast (drop_bit 4 (guest k (p + 3))) * 16)"

lemma ucast_up_0: "(ucast (x :: u32) :: u64) = 0 \<longleftrightarrow> x = 0"
proof -
  have "unat x < 2 ^ 64" using unsigned_less [of x, where ?'a = nat] by simp
  then have "unat (ucast x :: u64) = unat x" by (simp add: unsigned_ucast_eq take_bit_nat_eq_self)
  then show ?thesis by (simp add: word_unat_eq_iff)
qed

lemma virtual_unwind_runs:
  assumes "function_entry \<noteq> 0" and "unwind_data (rf_at function_entry k) \<noteq> 0"
    and "p = unwind_info function_entry image_base k" and "guest k p AND 7 = 1 \<or> guest k p AND 7 = 2"
    and "d = (if guest k (p + 3) AND 0x0F \<noteq> 0
      then c\<lparr>c_rsp := read_reg_by_num c (guest k (p + 3) AND 0x0F) - ucast (drop_bit 4 (guest k (p + 3))) * 16\<rparr> else c)"
    and "u = unwind_codes (p + 4) k (unat (guest k (p + 2))) d"
  shows "snd (virtual_unwind function_entry image_base (Some c) establisher_frame k) =
    (Some (u\<lparr>c_rip := read_le 8 (c_rsp u) k, c_rsp := c_rsp u + 8\<rparr>), put_le 8 establisher_frame (c_rsp u + 8) k)"
proof -
  have "(ucast (unwind_data (rf_at function_entry k)) :: u64) \<noteq> 0"
    using assms(2) by (simp add: ucast_up_0)
  moreover have "\<not> (guest k p AND 7 \<noteq> 1 \<and> guest k p AND 7 \<noteq> 2)" using assms(4) by blast
  ultimately show ?thesis
    using assms(1) unfolding virtual_unwind_def option.case Let_def assms(3) [unfolded unwind_info_def, symmetric]
    by (simp only: if_False if_True assms(5,6) [symmetric] cpu_context.select_convs cpu_context.update_convs snd_conv simp_thms) simp
qed


text \<open>A function at entry \<open>0x1000\<close> whose prologue pushes \<open>rbx\<close> and allocates 32 bytes.\<close>

definition demo_unwind :: kernel where
  "demo_unwind = kernel_new\<lparr>guest := (\<lambda>a. if a = 0x1009 then 0x30 else if a = 0x140003000 then 1 else if a = 0x140003002 then 2
     else if a = 0x140003004 then 0x30 else if a = 0x140003006 then 0x32 else if a = 0x8001 then 0x55 else 0)\<rparr>"

definition demo_cpu :: "u64 \<Rightarrow> u64 \<Rightarrow> cpu_context" where
  "demo_cpu sp b = \<lparr>c_rax = 0, c_rcx = 0, c_rdx = 0, c_rbx = b, c_rsp = sp, c_rbp = 0, c_rsi = 0, c_rdi = 0, c_r8 = 0, c_r9 = 0,
     c_r10 = 0, c_r11 = 0, c_r12 = 0, c_r13 = 0, c_r14 = 0, c_r15 = 0, c_rip = 0\<rparr>"

definition demo_body :: kernel where
  "demo_body = write_le 8 0x7FF8 7 demo_unwind"

lemma demo_body_guest: "a < 0x7FF8 \<or> 0x8000 \<le> a \<Longrightarrow> guest demo_body a = guest demo_unwind a"
  unfolding demo_body_def by (rule write_le_frame) (auto dest!: unat_area simp: word_less_nat_alt word_le_nat_alt)

lemma demo_header:
  "unwind_data (rf_at 0x1000 demo_body) = 0x3000" "guest demo_body 0x140003000 = 1" "guest demo_body 0x140003002 = 2"
  "guest demo_body 0x140003003 = 0" "code_at 0x140003004 0 demo_body = 0x30" "code_at 0x140003004 (Suc 0) demo_body = 0x32"
  "read_le 8 0x8000 demo_body = 0x5500"
proof -
  have g: "guest demo_body a = guest demo_unwind a" if "a < 0x7FF8 \<or> 0x8000 \<le> a" for a using that by (rule demo_body_guest)
  note D = demo_unwind_def
  show "unwind_data (rf_at 0x1000 demo_body) = 0x3000" by (simp add: rf_at_def read_le_4 g) (simp add: D)
  show "guest demo_body 0x140003000 = 1" "guest demo_body 0x140003002 = 2" "guest demo_body 0x140003003 = 0"
    by (simp_all add: g) (simp_all add: D)
  show "code_at 0x140003004 0 demo_body = 0x30" by (simp add: code_at_def read_le_2 g) (simp add: D)
  show "code_at 0x140003004 (Suc 0) demo_body = 0x32" by (simp add: code_at_def read_le_2 g) (simp add: D)
  show "read_le 8 0x8000 demo_body = 0x5500" by (simp add: read_le_8 read_le_4 g) (simp add: D)
qed


text \<open>The documented layout of a code has the offset of the instruction in its first byte and the operation in its second;
  the unwind takes the operation from the first. The code of \<open>push rbx\<close> at offset 1, the bytes \<open>01 30\<close>, is taken for a large
  allocation without its size: the unwind stops there, \<open>rbx\<close> keeps its value and the saved \<open>rbx\<close> becomes the return address.\<close>

lemma documented_push_not_undone:
  assumes "code_at codes 0 k = 0x3001"
  shows "unwind_codes codes k 1 c = c"
  using assms unwind_codes.simps(2) [of codes k 0 c] by (simp add: Let_def)

end
