(* ===== verification/Space.thy ===== *)
theory Space
  imports Guest Memory
begin

unbundle bit_operations_syntax

text \<open>
  The address space the loader works in: the kernel's mappings, reached through the calls of \<open>linux_vm\<close>, and the bytes
  of memory. An anonymous mapping reads as zeros. \<open>prot_laws\<close> is what the loader relies on of protections: a
  mapping has the protection asked for, and \<open>mprotect\<close> of whole pages changes that of the range, or fails part of the way.
\<close>

record 'm space =
  pages :: 'm
  ram :: kernel

definition zero_fill :: "u64 \<Rightarrow> u64 \<Rightarrow> kernel \<Rightarrow> kernel" where
  "zero_fill b n k = k\<lparr>guest := (\<lambda>a. if a - b < n then 0 else guest k a)\<rparr>"

definition mmap_anon :: "'m linux_vm \<Rightarrow> u64 \<Rightarrow> u64 \<Rightarrow> u32 \<Rightarrow> bool \<Rightarrow> 'm space \<Rightarrow> u64 option \<times> 'm space" where
  "mmap_anon os a n p fixed sp =
     (case mmap os a n p fixed (pages sp) of
        (None, m) \<Rightarrow> (None, sp\<lparr>pages := m\<rparr>)
      | (Some b, m) \<Rightarrow> (Some b, sp\<lparr>pages := m, ram := zero_fill b n (ram sp)\<rparr>))"

definition protect_pages :: "'m linux_vm \<Rightarrow> u64 \<Rightarrow> u64 \<Rightarrow> u32 \<Rightarrow> 'm space \<Rightarrow> bool \<times> 'm space" where
  "protect_pages os a n p sp = (case mprotect os a n p (pages sp) of (ok, m) \<Rightarrow> (ok, sp\<lparr>pages := m\<rparr>))"

definition unmap :: "'m linux_vm \<Rightarrow> u64 \<Rightarrow> u64 \<Rightarrow> 'm space \<Rightarrow> 'm space" where
  "unmap os a n sp = sp\<lparr>pages := snd (munmap os a n (pages sp))\<rparr>"

text \<open>Pages have 4 to 64 KiB; mappings of the kernel's choice start on a page.\<close>

definition page_laws :: "'m linux_vm \<Rightarrow> u64 \<Rightarrow> bool" where
  "page_laws os page \<longleftrightarrow> page_ok page \<and> 4096 \<le> unat page \<and> unat page \<le> 2 ^ 16 \<and>
     (\<forall>n p m b m'. mmap os 0 n p False m = (Some b, m') \<longrightarrow> unat page dvd unat b)"

definition prot_laws :: "'m linux_vm \<Rightarrow> u64 \<Rightarrow> ('m \<Rightarrow> u64 \<Rightarrow> u32) \<Rightarrow> bool" where
  "prot_laws os page prot_of \<longleftrightarrow>
     (\<forall>a n p fixed m b m'. mmap os a n p fixed m = (Some b, m') \<longrightarrow> unat page dvd unat n \<longrightarrow>
        prot_of m' = (\<lambda>x. if x \<in> block b n then p else prot_of m x)) \<and>
     (\<forall>a n p fixed m m'. mmap os a n p fixed m = (None, m') \<longrightarrow> prot_of m' = prot_of m) \<and>
     (\<forall>a n p m m'. mprotect os a n p m = (True, m') \<longrightarrow> unat page dvd unat a \<longrightarrow> unat page dvd unat n \<longrightarrow>
        prot_of m' = (\<lambda>x. if x \<in> block a n then p else prot_of m x)) \<and>
     (\<forall>a n p m m' x. mprotect os a n p m = (False, m') \<longrightarrow> unat page dvd unat n \<longrightarrow>
        prot_of m' x = prot_of m x \<or> x \<in> block a n \<and> prot_of m' x = p)"

lemma area_block: "unat b + unat n \<le> 2 ^ 64 \<Longrightarrow> area b (unat n) = block b n"
proof
  assume n: "unat b + unat n \<le> 2 ^ 64"
  show "area b (unat n) \<subseteq> block b n" using unat_area [OF _ n] by (auto simp: block_def)
  show "block b n \<subseteq> area b (unat n)"
  proof
    fix a assume a: "a \<in> block b n"
    then have "a = b + of_nat (unat a - unat b)" "unat a - unat b < unat n"
      by (auto simp: block_def of_nat_diff)
    then show "a \<in> area b (unat n)" unfolding area_def by blast
  qed
qed

lemma area_in_block:
  assumes "unat off + len \<le> unat n" and "unat b + unat n \<le> 2 ^ 64"
  shows "area (b + off) len \<subseteq> block b n"
proof
  fix a assume "a \<in> area (b + off) len"
  then obtain i where i: "i < len" "a = b + of_nat (unat off + i)" by (auto simp: area_def add.assoc)
  then have "a \<in> area b (unat n)" unfolding area_def using assms(1) by (intro image_eqI [of _ _ "unat off + i"]) simp_all
  then show "a \<in> block b n" by (simp add: area_block [OF assms(2)])
qed

lemma zero_fill_in: "unat b + unat n \<le> 2 ^ 64 \<Longrightarrow> a \<in> block b n \<Longrightarrow> guest (zero_fill b n k) a = 0"
  by (auto simp: zero_fill_def block_def word_less_nat_alt unat_sub word_le_nat_alt)

lemma zero_fill_out: "unat b + unat n \<le> 2 ^ 64 \<Longrightarrow> a \<notin> block b n \<Longrightarrow> guest (zero_fill b n k) a = guest k a"
proof -
  assume n: "unat b + unat n \<le> 2 ^ 64" and a: "a \<notin> block b n"
  have "\<not> a - b < n"
  proof
    assume "a - b < n"
    then have "unat (a - b) < unat n" by (simp add: word_less_nat_alt)
    moreover have "a = b + of_nat (unat (a - b))" by simp
    ultimately have "a \<in> area b (unat n)" unfolding area_def by blast
    with a show False by (simp add: area_block [OF n])
  qed
  then show ?thesis by (simp add: zero_fill_def)
qed

end
