(* ===== verification/ImageMap.thy ===== *)
theory ImageMap
  imports Space
begin

unbundle bit_operations_syntax

text \<open>
  Mapping an image, \<^verbatim>\<open>crates/pe-loader/src/mapping.rs\<close>: the reservation of the address space, the copy of the headers
  and sections, the protections of the sections. The parsed view of the file that goblin gives is the record
  \<open>pe\<close>; its optional header is there, since both callers reject a file without one before they map it. Offsets into the
  image and the file are sums of at most three 32-bit values and are natural numbers; the sizes the code passes to
  the kernel are 64-bit words. The bytes of the file are a list, and errors keep what they carry except
  the message of the kernel. The logging is left out.
\<close>

section \<open>Data\<close>

record pe_section =
  sec_name :: string
  virtual_size :: u32
  virtual_address :: u32
  size_of_raw_data :: u32
  pointer_to_raw_data :: u32
  characteristics :: u32

record pe =
  size_of_image :: u32
  image_base :: u64
  size_of_headers :: u32
  sections :: "pe_section list"

record mapped_image =
  ibase :: u64
  isize :: u64
  preferred_base :: u64

datatype map_error = MmapFailed u64 | MprotectFailed string u64 u64
  | RelocRvaOutOfRange u32 | RelocBlockOverflow | RelocDirOutOfRange u32

text \<open>\<open>mmap\<close> with \<open>MAP_FIXED_NOREPLACE\<close>: at the address, at another one (kernels that do not know the flag), or failed.\<close>

record 'm loader_vm = "'m linux_vm" +
  mmap_noreplace :: "u64 \<Rightarrow> u64 \<Rightarrow> u32 \<Rightarrow> 'm \<Rightarrow> u64 option \<times> 'm"

section \<open>Addresses and protections\<close>

definition rva_to_ptr :: "mapped_image \<Rightarrow> u32 \<Rightarrow> u64 option" where
  "rva_to_ptr img rva = (if unat rva < unat (isize img) then Some (ibase img + of_nat (unat rva)) else None)"

definition unmap_image :: "'m loader_vm \<Rightarrow> mapped_image \<Rightarrow> 'm space \<Rightarrow> 'm space" where
  "unmap_image os img sp = unmap (linux_vm.truncate os) (ibase img) (isize img) sp"

definition section_prot :: "string \<Rightarrow> u32 \<Rightarrow> u32" where
  "section_prot name ch =
     (let executable = ch AND 0x20000000 \<noteq> 0;
          readable = ch AND 0x40000000 \<noteq> 0;
          writable = ch AND 0x80000000 \<noteq> 0;
          p = 0;
          p = (if executable then p OR PROT_EXEC else p);
          p = (if readable \<or> p = 0 then p OR PROT_READ else p);
          p = (if writable \<and> \<not> executable then p OR PROT_WRITE else p)
      in if take 6 name = ''.debug'' then p AND NOT PROT_EXEC else p)"

section \<open>Reserving the address space\<close>

definition mmap_fixed_noreplace :: "'m loader_vm \<Rightarrow> u64 \<Rightarrow> u64 \<Rightarrow> u32 \<Rightarrow> 'm space \<Rightarrow> u64 option \<times> 'm space" where
  "mmap_fixed_noreplace os a n p sp =
     (case mmap_noreplace os a n p (pages sp) of
        (None, m) \<Rightarrow> (None, sp\<lparr>pages := m\<rparr>)
      | (Some b, m) \<Rightarrow> (Some b, sp\<lparr>pages := m, ram := zero_fill b n (ram sp)\<rparr>))"

definition map_anywhere :: "'m loader_vm \<Rightarrow> u64 \<Rightarrow> 'm space \<Rightarrow> (map_error + u64) \<times> 'm space" where
  "map_anywhere os n sp =
     (case mmap_anon (linux_vm.truncate os) 0 n (PROT_READ OR PROT_WRITE) False sp of
        (None, sp) \<Rightarrow> (Inl (MmapFailed n), sp)
      | (Some b, sp) \<Rightarrow> (Inr b, sp))"

definition try_map_at :: "'m loader_vm \<Rightarrow> u64 \<Rightarrow> u64 \<Rightarrow> 'm space \<Rightarrow> u64 option \<times> 'm space" where
  "try_map_at os preferred n sp =
     (if preferred = 0 then (None, sp)
      else
        (case mmap_fixed_noreplace os preferred n (PROT_READ OR PROT_WRITE) sp of
           (None, sp) \<Rightarrow> (None, sp)
         | (Some p, sp) \<Rightarrow>
             if p \<noteq> preferred then (None, unmap (linux_vm.truncate os) p n sp) else (Some p, sp)))"

section \<open>Copying and protecting\<close>

definition copy_section :: "u64 \<Rightarrow> nat \<Rightarrow> u8 list \<Rightarrow> pe_section \<Rightarrow> kernel \<Rightarrow> kernel" where
  "copy_section b msize bytes sec k =
     (let virt_size = unat (virtual_size sec); rva = unat (virtual_address sec) in
      if virt_size = 0 then k
      else if msize \<le> rva then k
      else
        (let dst = b + of_nat rva;
             section_end = min (rva + virt_size) msize;
             copy_len = section_end - rva;
             k = zero_fill dst (of_nat copy_len) k;
             raw_size = unat (size_of_raw_data sec);
             raw_off = unat (pointer_to_raw_data sec)
         in if 0 < raw_size \<and> raw_off < length bytes then
              (let src_len = min (min raw_size (length bytes - raw_off)) copy_len
               in store_bytes (take src_len (drop raw_off bytes)) dst k)
            else k))"

definition copy_image :: "u64 \<Rightarrow> u64 \<Rightarrow> u8 list \<Rightarrow> pe \<Rightarrow> kernel \<Rightarrow> kernel" where
  "copy_image b msize bytes pe k =
     (let k = zero_fill b msize k;
          header_len = min (min (unat (size_of_headers pe)) (length bytes)) (unat msize);
          k = store_bytes (take header_len bytes) b k
      in fold (copy_section b (unat msize) bytes) (sections pe) k)"

fun protect_sections ::
  "'m loader_vm \<Rightarrow> u64 \<Rightarrow> u64 \<Rightarrow> u64 \<Rightarrow> pe_section list \<Rightarrow> 'm space \<Rightarrow> (map_error + unit) \<times> 'm space" where
  "protect_sections os page b msize [] sp = (Inr (), sp)"
| "protect_sections os page b msize (sec # secs) sp =
     (let rva = unat (virtual_address sec); virt_size = unat (virtual_size sec) in
      if virt_size = 0 \<or> unat msize \<le> rva then protect_sections os page b msize secs sp
      else
        (let p = section_prot (sec_name sec) (characteristics sec) in
         if p = PROT_READ OR PROT_WRITE then protect_sections os page b msize secs sp
         else
           (let start = round_down (of_nat rva) page;
                fin = round_up (of_nat (min (rva + virt_size) (unat msize))) page;
                len = fin - start
            in case protect_pages (linux_vm.truncate os) (b + start) len p sp of
                 (False, sp) \<Rightarrow> (Inl (MprotectFailed (sec_name sec) (b + start) len), sp)
               | (True, sp) \<Rightarrow> protect_sections os page b msize secs sp)))"

definition map_image_with_preferred_base ::
  "'m loader_vm \<Rightarrow> u64 \<Rightarrow> u8 list \<Rightarrow> pe \<Rightarrow> bool \<Rightarrow> 'm space \<Rightarrow> (map_error + mapped_image) \<times> 'm space" where
  "map_image_with_preferred_base os page bytes pe try_preferred sp =
     (let mapped_size = round_up (ucast (size_of_image pe)) page in
      if mapped_size = 0 then (Inl (MmapFailed 0), sp)
      else
        (case (if try_preferred then
                 (case try_map_at os (image_base pe) mapped_size sp of
                    (Some b, sp) \<Rightarrow> (Inr b, sp)
                  | (None, sp) \<Rightarrow> map_anywhere os mapped_size sp)
               else map_anywhere os mapped_size sp) of
           (Inl e, sp) \<Rightarrow> (Inl e, sp)
         | (Inr b, sp) \<Rightarrow>
             (case protect_sections os page b mapped_size (sections pe)
                     (sp\<lparr>ram := copy_image b mapped_size bytes pe (ram sp)\<rparr>) of
                (Inl e, sp) \<Rightarrow> (Inl e, sp)
              | (Inr _, sp) \<Rightarrow>
                  (Inr \<lparr>ibase = b, isize = mapped_size, preferred_base = image_base pe\<rparr>, sp))))"

definition map_image :: "'m loader_vm \<Rightarrow> u64 \<Rightarrow> u8 list \<Rightarrow> pe \<Rightarrow> 'm space \<Rightarrow> (map_error + mapped_image) \<times> 'm space" where
  "map_image os page bytes pe sp = map_image_with_preferred_base os page bytes pe True sp"

definition map_image_anywhere ::
  "'m loader_vm \<Rightarrow> u64 \<Rightarrow> u8 list \<Rightarrow> pe \<Rightarrow> 'm space \<Rightarrow> (map_error + mapped_image) \<times> 'm space" where
  "map_image_anywhere os page bytes pe sp = map_image_with_preferred_base os page bytes pe False sp"

end
