(* ===== verification/Arena.thy ===== *)
theory Arena
  imports Thunk Space SyncSpec
begin

unbundle bit_operations_syntax

text \<open>
  The arena the trampolines live in, \<open>ThunkArena\<close> of \<^verbatim>\<open>crates/pe-loader/src/thunk.rs\<close>: an anonymous mapping that is
  written while trampolines are emitted and made executable by \<open>finalize\<close>; a full block is retired, not
  unmapped. The messages of errors are not modelled.
\<close>

section \<open>Operations\<close>

datatype thunk_error = TooManyArgs u8 | AllocFailed u64 | ExecFailed u64

record arena =
  arena_base :: u64
  arena_len :: u64
  cursor :: u64
  sealed :: bool
  retired :: "(u64 \<times> u64) list"

definition with_capacity :: "'m linux_vm \<Rightarrow> u64 \<Rightarrow> u64 \<Rightarrow> 'm space \<Rightarrow> (thunk_error + arena) \<times> 'm space" where
  "with_capacity os page capacity sp =
     (let len = round_up (max capacity page) page in
      case mmap_anon os 0 len (PROT_READ OR PROT_WRITE) False sp of
        (None, sp) \<Rightarrow> (Inl (AllocFailed len), sp)
      | (Some b, sp) \<Rightarrow>
          (Inr \<lparr>arena_base = b, arena_len = len, cursor = 0, sealed = False, retired = []\<rparr>, sp))"

definition arena_new :: "'m linux_vm \<Rightarrow> u64 \<Rightarrow> 'm space \<Rightarrow> (thunk_error + arena) \<times> 'm space" where
  "arena_new os page = with_capacity os page 4096"

definition grow :: "'m linux_vm \<Rightarrow> u64 \<Rightarrow> u64 \<Rightarrow> arena \<Rightarrow> 'm space \<Rightarrow> (thunk_error + unit) \<times> arena \<times> 'm space" where
  "grow os page need a sp =
     (let new_len = round_up (max need (arena_len a * 2)) page in
      case mmap_anon os 0 new_len (PROT_READ OR PROT_WRITE) False sp of
        (None, sp) \<Rightarrow> (Inl (AllocFailed new_len), a, sp)
      | (Some new_base, sp) \<Rightarrow>
          (Inr (), a\<lparr>retired := retired a @ [(arena_base a, arena_len a)], arena_base := new_base, arena_len := new_len,
                     cursor := 0, sealed := False\<rparr>, sp))"

definition arena_alloc :: "'m linux_vm \<Rightarrow> u64 \<Rightarrow> u64 \<Rightarrow> arena \<Rightarrow> 'm space \<Rightarrow> (thunk_error + u64) \<times> arena \<times> 'm space" where
  "arena_alloc os page n a sp =
     (if sealed a then (Inl (AllocFailed n), a, sp)
      else
        (let aligned = round_up (cursor a) 16 in
         if arena_len a < aligned + n then
           (case grow os page (aligned + n) a sp of
              (Inl e, a, sp) \<Rightarrow> (Inl e, a, sp)
            | (Inr _, a, sp) \<Rightarrow>
                (let aligned = round_up (cursor a) 16 in (Inr aligned, a\<lparr>cursor := aligned + n\<rparr>, sp)))
         else (Inr aligned, a\<lparr>cursor := aligned + n\<rparr>, sp)))"

definition place :: "'m linux_vm \<Rightarrow> u64 \<Rightarrow> u8 list \<Rightarrow> arena \<Rightarrow> 'm space \<Rightarrow> (thunk_error + u64) \<times> arena \<times> 'm space" where
  "place os page bs a sp =
     (case arena_alloc os page (of_nat (length bs)) a sp of
        (Inl e, a, sp) \<Rightarrow> (Inl e, a, sp)
      | (Inr off, a, sp) \<Rightarrow>
          (Inr (arena_base a + off), a, sp\<lparr>ram := store_bytes bs (arena_base a + off) (ram sp)\<rparr>))"

definition make_thunk ::
  "'m linux_vm \<Rightarrow> u64 \<Rightarrow> u64 \<Rightarrow> u8 \<Rightarrow> arena \<Rightarrow> 'm space \<Rightarrow> (thunk_error + u64) \<times> arena \<times> 'm space" where
  "make_thunk os page target n_args a sp =
     (if 32 < n_args then (Inl (TooManyArgs n_args), a, sp) else place os page (emit_returning target n_args) a sp)"

definition make_thunk_noreturn ::
  "'m linux_vm \<Rightarrow> u64 \<Rightarrow> u64 \<Rightarrow> u8 \<Rightarrow> arena \<Rightarrow> 'm space \<Rightarrow> (thunk_error + u64) \<times> arena \<times> 'm space" where
  "make_thunk_noreturn os page target n_args a sp =
     (if 6 < n_args then (Inl (TooManyArgs n_args), a, sp) else place os page (emit_noreturn target n_args) a sp)"

definition blocks :: "arena \<Rightarrow> (u64 \<times> u64) list" where
  "blocks a = retired a @ [(arena_base a, arena_len a)]"

fun seal_blocks :: "'m linux_vm \<Rightarrow> (u64 \<times> u64) list \<Rightarrow> 'm space \<Rightarrow> (thunk_error + unit) \<times> 'm space" where
  "seal_blocks os [] sp = (Inr (), sp)"
| "seal_blocks os ((b, len) # bs) sp =
     (case protect_pages os b len (PROT_READ OR PROT_EXEC) sp of
        (False, sp) \<Rightarrow> (Inl (ExecFailed len), sp)
      | (True, sp) \<Rightarrow> seal_blocks os bs sp)"

definition finalize :: "'m linux_vm \<Rightarrow> arena \<Rightarrow> 'm space \<Rightarrow> (thunk_error + unit) \<times> arena \<times> 'm space" where
  "finalize os a sp =
     (if sealed a then (Inr (), a, sp)
      else
        (case seal_blocks os (blocks a) sp of
           (Inl e, sp) \<Rightarrow> (Inl e, a, sp)
         | (Inr _, sp) \<Rightarrow> (Inr (), a\<lparr>sealed := True\<rparr>, sp)))"

fun unmap_blocks :: "'m linux_vm \<Rightarrow> (u64 \<times> u64) list \<Rightarrow> 'm space \<Rightarrow> 'm space" where
  "unmap_blocks os [] sp = sp"
| "unmap_blocks os ((b, len) # bs) sp = unmap_blocks os bs (if b = 0 then sp else unmap os b len sp)"

definition arena_drop :: "'m linux_vm \<Rightarrow> arena \<Rightarrow> 'm space \<Rightarrow> 'm space" where
  "arena_drop os a sp = unmap_blocks os (blocks a) sp"

section \<open>Reachable arenas\<close>

text \<open>\<open>issued\<close> lists the addresses handed out with the code emitted there. Between the operations the rest of the
  process may map, unmap and write what it likes outside the blocks of the arena.\<close>

definition arena_kept :: "('m \<Rightarrow> u64 set) \<Rightarrow> ('m \<Rightarrow> u64 \<Rightarrow> u32) \<Rightarrow> arena \<Rightarrow> 'm space \<Rightarrow> 'm space \<Rightarrow> bool" where
  "arena_kept mapped prot_of a sp sp' \<longleftrightarrow> (\<forall>(b, n) \<in> set (blocks a). \<forall>x \<in> block b n.
     guest (ram sp') x = guest (ram sp) x \<and> x \<in> mapped (pages sp') \<and> prot_of (pages sp') x = prot_of (pages sp) x)"

inductive arena_reach ::
  "'m linux_vm \<Rightarrow> u64 \<Rightarrow> ('m \<Rightarrow> u64 set) \<Rightarrow> ('m \<Rightarrow> u64 \<Rightarrow> u32) \<Rightarrow> arena \<Rightarrow> 'm space \<Rightarrow> (u64 \<times> u8 list) list \<Rightarrow> bool"
  for os page mapped prot_of where
  start: "with_capacity os page capacity sp = (Inr a, sp') \<Longrightarrow> arena_reach os page mapped prot_of a sp' []"
| returning: "arena_reach os page mapped prot_of a sp is \<Longrightarrow> make_thunk os page target n_args a sp = (Inr p, a', sp') \<Longrightarrow>
    arena_reach os page mapped prot_of a' sp' ((p, emit_returning target n_args) # is)"
| noreturn: "arena_reach os page mapped prot_of a sp is \<Longrightarrow> make_thunk_noreturn os page target n_args a sp = (Inr p, a', sp') \<Longrightarrow>
    arena_reach os page mapped prot_of a' sp' ((p, emit_noreturn target n_args) # is)"
| returning_fails: "arena_reach os page mapped prot_of a sp is \<Longrightarrow> make_thunk os page target n_args a sp = (Inl e, a', sp') \<Longrightarrow>
    arena_reach os page mapped prot_of a' sp' is"
| noreturn_fails: "arena_reach os page mapped prot_of a sp is \<Longrightarrow>
    make_thunk_noreturn os page target n_args a sp = (Inl e, a', sp') \<Longrightarrow> arena_reach os page mapped prot_of a' sp' is"
| finalized: "arena_reach os page mapped prot_of a sp is \<Longrightarrow> finalize os a sp = (r, a', sp') \<Longrightarrow>
    arena_reach os page mapped prot_of a' sp' is"
| other: "arena_reach os page mapped prot_of a sp is \<Longrightarrow> arena_kept mapped prot_of a sp sp' \<Longrightarrow>
    arena_reach os page mapped prot_of a sp' is"

text \<open>The blocks are mapped, page-aligned and apart, and never writable and executable at once; a sealed arena is
  executable throughout. Every address handed out starts on a multiple of 16, still holds its code, and its code lies in
  a retired block or below the cursor.\<close>

definition blocks_ok :: "u64 \<Rightarrow> u64 set \<Rightarrow> (u64 \<times> u64) list \<Rightarrow> bool" where
  "blocks_ok page M bs \<longleftrightarrow> sorted_wrt (\<lambda>(b, n) (b', n'). block b n \<inter> block b' n' = {}) bs \<and>
     (\<forall>(b, n) \<in> set bs. b \<noteq> 0 \<and> unat page dvd unat b \<and> unat page dvd unat n \<and> unat b + unat n < 2 ^ 64 \<and> block b n \<subseteq> M)"

definition prots_ok :: "(u64 \<Rightarrow> u32) \<Rightarrow> arena \<Rightarrow> bool" where
  "prots_ok pr a \<longleftrightarrow> (\<forall>(b, n) \<in> set (blocks a). \<forall>x \<in> block b n.
     pr x = PROT_READ OR PROT_EXEC \<or> pr x = PROT_READ OR PROT_WRITE \<and> \<not> sealed a)"

definition used :: "arena \<Rightarrow> u64 set" where
  "used a = (\<Union>(b, n) \<in> set (retired a). block b n) \<union> block (arena_base a) (cursor a)"

definition code_ok :: "kernel \<Rightarrow> arena \<Rightarrow> (u64 \<times> u8 list) list \<Rightarrow> bool" where
  "code_ok k a is \<longleftrightarrow> sorted_wrt (\<lambda>(p, c) (p', c'). area p (length c) \<inter> area p' (length c') = {}) is \<and>
     (\<forall>(p, c) \<in> set is. 16 dvd unat p \<and> load_bytes (length c) p k = c \<and> area p (length c) \<subseteq> used a)"

definition arena_inv ::
  "u64 \<Rightarrow> ('m \<Rightarrow> u64 set) \<Rightarrow> ('m \<Rightarrow> u64 \<Rightarrow> u32) \<Rightarrow> arena \<Rightarrow> 'm space \<Rightarrow> (u64 \<times> u8 list) list \<Rightarrow> bool" where
  "arena_inv page mapped prot_of a sp is \<longleftrightarrow>
     blocks_ok page (mapped (pages sp)) (blocks a) \<and> prots_ok (prot_of (pages sp)) a \<and> cursor a \<le> arena_len a \<and>
     code_ok (ram sp) a is"

section \<open>Preservation\<close>

lemma round_up_dvd: "page_ok page \<Longrightarrow> unat page dvd unat (round_up n page)"
  unfolding round_up_def page_ok_def by (auto simp: unat_and_not_mask unat_page)

lemma round_up_pos:
  assumes "page_ok page" and "0 < unat (round_up n page)"
  shows "unat n \<le> unat (round_up n page)"
proof (rule ccontr)
  assume a: "\<not> ?thesis"
  then have over: "2 ^ 64 < unat n + unat page" using round_up_props(2) [OF assms(1), of n] by fastforce
  from assms(1) obtain k where k: "k < 64" "page = 2 ^ k" by (auto simp: page_ok_def)
  have pos: "1 \<le> unat page" using k by (simp add: unat_page)
  have "unat n < 2 ^ 64" "unat page < 2 ^ 64"
    using unsigned_less [of n, where ?'a = nat] unsigned_less [of page, where ?'a = nat] by simp_all
  have one: "unat (page - 1) = unat page - 1" using pos by (intro unat_minus_one) auto
  have "unat (n + (page - 1)) = (unat n + (unat page - 1)) mod 2 ^ 64" by (simp add: unat_word_ariths one)
  also have "\<dots> = unat n + (unat page - 1) - 2 ^ 64"
    using over \<open>unat n < 2 ^ 64\<close> \<open>unat page < 2 ^ 64\<close> by (simp add: le_mod_geq)
  also have "\<dots> < unat page" using \<open>unat n < 2 ^ 64\<close> pos by linarith
  finally have "unat (n + page - 1) < 2 ^ k" using k by (simp add: unat_page add_diff_eq)
  then have "unat (round_up n page) = 0" unfolding round_up_def k(2) unat_and_not_mask [OF k(1)] by simp
  with assms(2) show False by simp
qed

lemma mmap_anon_new:
  assumes "mmap_anon os 0 n p False sp = (Some b, sp')" and "vm_laws os mapped" and "page_laws os page"
    and "prot_laws os page prot_of" and "unat page dvd unat n"
  shows "b \<noteq> 0" and "unat page dvd unat b" and "0 < unat n" and "unat b + unat n < 2 ^ 64"
    and "block b n \<inter> mapped (pages sp) = {}" and "mapped (pages sp') = mapped (pages sp) \<union> block b n"
    and "prot_of (pages sp') = (\<lambda>x. if x \<in> block b n then p else prot_of (pages sp) x)"
    and "x \<notin> block b n \<Longrightarrow> guest (ram sp') x = guest (ram sp) x"
    and "x \<in> block b n \<Longrightarrow> guest (ram sp') x = 0"
proof -
  obtain m where m: "mmap os 0 n p False (pages sp) = (Some b, m)" and sp': "sp' = sp\<lparr>pages := m, ram := zero_fill b n (ram sp)\<rparr>"
    using assms(1) by (auto simp: mmap_anon_def split: prod.splits option.splits)
  note laws = vm_lawsD(1) [OF assms(2) m]
  show "b \<noteq> 0" "0 < unat n" "unat b + unat n < 2 ^ 64" "block b n \<inter> mapped (pages sp) = {}"
    "mapped (pages sp') = mapped (pages sp) \<union> block b n"
    using laws by (simp_all add: sp')
  show "unat page dvd unat b" using assms(3) m unfolding page_laws_def by blast
  show "prot_of (pages sp') = (\<lambda>x. if x \<in> block b n then p else prot_of (pages sp) x)"
    using assms(4,5) m unfolding prot_laws_def sp' by auto
  show "guest (ram sp') x = guest (ram sp) x" if "x \<notin> block b n" using laws that by (simp add: sp' zero_fill_out)
  show "guest (ram sp') x = 0" if "x \<in> block b n" using laws that by (simp add: sp' zero_fill_in)
qed

lemma mmap_anon_none:
  assumes "mmap_anon os 0 n p False sp = (None, sp')" and "vm_laws os mapped" and "prot_laws os page prot_of"
  shows "mapped (pages sp') = mapped (pages sp)" and "prot_of (pages sp') = prot_of (pages sp)" and "ram sp' = ram sp"
  using assms vm_lawsD(3) [OF assms(2)]
  by (auto simp: mmap_anon_def prot_laws_def split: prod.splits option.splits)

lemma used_in_blocks: "cursor a \<le> arena_len a \<Longrightarrow> used a \<subseteq> (\<Union>(b, n) \<in> set (blocks a). block b n)"
  by (auto simp: used_def blocks_def block_def word_le_nat_alt)

lemma used_mapped: "arena_inv page mapped prot_of a sp is \<Longrightarrow> used a \<subseteq> mapped (pages sp)"
  using used_in_blocks [of a] unfolding arena_inv_def blocks_ok_def by fastforce

lemma code_ok_kept:
  assumes "code_ok k a is" and "used a \<subseteq> used a'" and "\<And>x. x \<in> used a \<Longrightarrow> guest k' x = guest k x"
  shows "code_ok k' a' is"
proof -
  have "load_bytes (length c) p k' = c" if "(p, c) \<in> set is" for p c
  proof -
    have "load_bytes (length c) p k' = load_bytes (length c) p k"
      using assms(1,3) that unfolding code_ok_def by (intro load_bytes_area) blast
    also have "\<dots> = c" using assms(1) that unfolding code_ok_def by blast
    finally show ?thesis .
  qed
  then show ?thesis using assms(1,2) unfolding code_ok_def by fastforce
qed

lemma grow_inv:
  assumes laws: "vm_laws os mapped" "page_laws os page" "prot_laws os page prot_of"
    and inv: "arena_inv page mapped prot_of a sp is" and ns: "\<not> sealed a"
    and g: "grow os page need a sp = (r, a', sp')"
  shows "arena_inv page mapped prot_of a' sp' is"
    and "r = Inr () \<Longrightarrow> cursor a' = 0 \<and> \<not> sealed a' \<and> need \<le> arena_len a' \<and> used a \<subseteq> used a' \<and>
      block (arena_base a') (arena_len a') \<inter> used a = {}"
proof -
  let ?n = "round_up (max need (arena_len a * 2)) page"
  have page: "page_ok page" using laws(2) by (simp add: page_laws_def)
  have "arena_inv page mapped prot_of a' sp' is \<and> (r = Inr () \<longrightarrow> cursor a' = 0 \<and> \<not> sealed a' \<and> need \<le> arena_len a' \<and>
      used a \<subseteq> used a' \<and> block (arena_base a') (arena_len a') \<inter> used a = {})"
  proof (cases "mmap_anon os 0 ?n (PROT_READ OR PROT_WRITE) False sp")
    case (Pair q sp1)
    show ?thesis
    proof (cases q)
      case None
      with Pair mmap_anon_none [OF _ laws(1,3)] g inv show ?thesis
        by (auto simp: grow_def Let_def arena_inv_def)
    next
      case (Some b)
      with Pair have mm: "mmap_anon os 0 ?n (PROT_READ OR PROT_WRITE) False sp = (Some b, sp1)" by simp
      note N = mmap_anon_new [OF mm laws round_up_dvd [OF page]]
      have a': "a' = a\<lparr>retired := blocks a, arena_base := b, arena_len := ?n, cursor := 0, sealed := False\<rparr>"
        and r: "r = Inr ()" and sp': "sp' = sp1"
        using g mm by (auto simp: grow_def Let_def blocks_def)
      have bl: "blocks a' = blocks a @ [(b, ?n)]" by (simp add: a' blocks_def)
      have u: "used a' = (\<Union>(b, n) \<in> set (blocks a). block b n)" by (auto simp: used_def a' block_def)
      have cur: "cursor a \<le> arena_len a" using inv by (simp add: arena_inv_def)
      have old: "blocks_ok page (mapped (pages sp)) (blocks a)" using inv by (simp add: arena_inv_def)
      then have inM: "block c n \<subseteq> mapped (pages sp)" if "(c, n) \<in> set (blocks a)" for c n
        using that unfolding blocks_ok_def by blast
      have "blocks_ok page (mapped (pages sp')) (blocks a')"
        using old N(1-6) inM round_up_dvd [OF page] unfolding bl sp' blocks_ok_def
        by (fastforce simp: sorted_wrt_append disjoint_iff)
      moreover have "prots_ok (prot_of (pages sp')) a'"
      proof -
        have "prot_of (pages sp) x = prot_of (pages sp') x" if "(c, n) \<in> set (blocks a)" "x \<in> block c n" for c n x
          using inM [OF that(1)] that(2) N(5,7) by (auto simp: sp')
        then show ?thesis using inv ns N(7) unfolding arena_inv_def prots_ok_def bl sp' by (fastforce simp: a')
      qed
      moreover have "code_ok (ram sp') a' is"
      proof (rule code_ok_kept)
        show "code_ok (ram sp) a is" using inv by (simp add: arena_inv_def)
        show "used a \<subseteq> used a'" unfolding u by (rule used_in_blocks [OF cur])
        show "guest (ram sp') x = guest (ram sp) x" if "x \<in> used a" for x
          using used_mapped [OF inv] that N(5,8) unfolding sp' by blast
      qed
      moreover have "need \<le> ?n"
        by (rule order_trans [OF max.cobounded1 [of need "arena_len a * 2"]])
          (simp only: word_le_nat_alt round_up_pos [OF page N(3)])
      moreover have "block b ?n \<inter> used a = {}" using used_mapped [OF inv] N(5) by blast
      ultimately show ?thesis using used_in_blocks [OF cur] u
        by (simp add: arena_inv_def a')
    qed
  qed
  then show "arena_inv page mapped prot_of a' sp' is"
    and "r = Inr () \<Longrightarrow> cursor a' = 0 \<and> \<not> sealed a' \<and> need \<le> arena_len a' \<and> used a \<subseteq> used a' \<and>
      block (arena_base a') (arena_len a') \<inter> used a = {}" by simp_all
qed

text \<open>Reserving below the end of the current block.\<close>

lemma reserve_inv:
  assumes laws: "page_laws os page" and inv: "arena_inv page mapped prot_of a sp is"
    and off: "off = round_up (cursor a) 16" and n: "unat n < 1000" and fits: "\<not> arena_len a < off + n"
  shows "arena_inv page mapped prot_of (a\<lparr>cursor := off + n\<rparr>) sp is" and "used a \<subseteq> used (a\<lparr>cursor := off + n\<rparr>)"
    and "16 dvd unat (arena_base a + off)"
    and "area (arena_base a + off) (unat n) \<subseteq> used (a\<lparr>cursor := off + n\<rparr>)"
    and "area (arena_base a + off) (unat n) \<inter> used a = {}"
    and "unat (arena_base a + off) + unat n \<le> 2 ^ 64"
proof -
  let ?b = "arena_base a" and ?a = "a\<lparr>cursor := off + n\<rparr>"
  have page: "page_ok page" "4096 \<le> unat page" using laws by (simp_all add: page_laws_def)
  have b: "?b \<noteq> 0" "unat page dvd unat ?b" "unat ?b + unat (arena_len a) < 2 ^ 64"
    using inv unfolding arena_inv_def blocks_ok_def blocks_def by auto
  have cur: "cursor a \<le> arena_len a" using inv by (simp add: arena_inv_def)
  have "0 < unat ?b" using b(1) by (simp add: unat_gt_0)
  with b(2) page(2) have low: "4096 \<le> unat ?b" using dvd_imp_le order_trans by blast
  have "page_ok 16" unfolding page_ok_def by (intro exI [of _ 4]) simp
  from round_up_props [OF this, of "cursor a"]
  have o: "16 dvd unat off" "unat (cursor a) \<le> unat off" "unat off < unat (cursor a) + 16"
    using cur low b(3) unfolding off by (auto simp: word_le_nat_alt)
  have no_wrap: "unat (off + n) = unat off + unat n"
    using o(3) n cur low b(3) by (subst unat_add_lem [THEN iffD1]) (auto simp: word_le_nat_alt)
  have le: "unat off + unat n \<le> unat (arena_len a)" using fits no_wrap by (simp add: word_less_nat_alt)
  have boff: "unat (?b + off) = unat ?b + unat off"
    using le b(3) by (subst unat_add_lem [THEN iffD1]) auto
  have "16 dvd unat page"
  proof -
    obtain k where k: "k < 64" "page = 2 ^ k" using page(1) by (auto simp: page_ok_def)
    have "4 \<le> k" proof (rule ccontr)
      assume "\<not> 4 \<le> k"
      then have "(2 :: nat) ^ k \<le> 2 ^ 4" by (intro power_increasing) simp_all
      with k page(2) show False by (simp add: unat_page)
    qed
    then show ?thesis using le_imp_power_dvd [of 4 k "2 :: nat"] k by (simp add: unat_page)
  qed
  then show "16 dvd unat (?b + off)" unfolding boff using o(1) b(2) by (auto intro: dvd_trans)
  show "unat (?b + off) + unat n \<le> 2 ^ 64" unfolding boff using le b(3) by linarith
  have us: "used ?a = (\<Union>(b, n) \<in> set (retired a). block b n) \<union> block ?b (off + n)" by (simp add: used_def)
  show sub: "used a \<subseteq> used ?a" unfolding us used_def using o(2) no_wrap by (auto simp: block_def)
  show "area (?b + off) (unat n) \<subseteq> used ?a"
    unfolding us using area_in_block [of off "unat n" "off + n" ?b] no_wrap le b(3) by auto
  have "area (?b + off) (unat n) \<inter> block c m = {}" if "(c, m) \<in> set (retired a)" for c m
    using inv that area_in_block [of off "unat n" "arena_len a" ?b] le b(3)
    unfolding arena_inv_def blocks_ok_def blocks_def by (fastforce simp: sorted_wrt_append)
  moreover have "area (?b + off) (unat n) \<inter> block ?b (cursor a) = {}"
    using unat_area [of _ "?b + off" "unat n"] boff le b(3) o(2) by (fastforce simp: block_def)
  ultimately show "area (?b + off) (unat n) \<inter> used a = {}" unfolding used_def by blast
  have "code_ok (ram sp) a is" using inv by (simp add: arena_inv_def)
  from code_ok_kept [OF this sub refl] have "code_ok (ram sp) ?a is" .
  with inv fits show "arena_inv page mapped prot_of ?a sp is"
    by (simp add: arena_inv_def blocks_def prots_ok_def not_less)
qed

lemma place_code:
  assumes inv: "arena_inv page mapped prot_of a sp is" and p: "16 dvd unat p" "unat p + length bs \<le> 2 ^ 64"
    "area p (length bs) \<subseteq> used a" and old: "\<forall>(q, c) \<in> set is. area q (length c) \<subseteq> U" and apart: "area p (length bs) \<inter> U = {}"
  shows "arena_inv page mapped prot_of a (sp\<lparr>ram := store_bytes bs p (ram sp)\<rparr>) ((p, bs) # is)"
proof -
  have "load_bytes (length c) q (store_bytes bs p (ram sp)) = c" if q: "(q, c) \<in> set is" for q c
  proof -
    have "load_bytes (length c) q (store_bytes bs p (ram sp)) = load_bytes (length c) q (ram sp)"
      using old apart q by (intro load_bytes_area store_bytes_frame) blast
    also have "\<dots> = c" using inv q unfolding arena_inv_def code_ok_def by blast
    finally show ?thesis .
  qed
  moreover have "load_bytes (length bs) p (store_bytes bs p (ram sp)) = bs"
    using p(2) by (intro load_store_bytes) simp
  moreover have "area p (length bs) \<inter> area q (length c) = {}" if "(q, c) \<in> set is" for q c
    using old apart that by blast
  ultimately show ?thesis using inv p unfolding arena_inv_def code_ok_def by (auto simp: disjoint_iff)
qed

lemma place_inv:
  assumes laws: "vm_laws os mapped" "page_laws os page" "prot_laws os page prot_of"
    and inv: "arena_inv page mapped prot_of a sp is" and len: "length bs < 1000"
    and pl: "place os page bs a sp = (r, a', sp')"
  shows "arena_inv page mapped prot_of a' sp' (case r of Inl _ \<Rightarrow> is | Inr p \<Rightarrow> (p, bs) # is)"
proof (cases "sealed a")
  case True
  with pl inv show ?thesis by (auto simp: place_def arena_alloc_def)
next
  case False
  define n where "n = (of_nat (length bs) :: u64)"
  have n: "unat n = length bs" "unat n < 1000" using len by (simp_all add: n_def unat_of_nat)
  have codes: "\<forall>(q, c) \<in> set is. area q (length c) \<subseteq> used a"
    using inv unfolding arena_inv_def code_ok_def by blast
  have fits: "arena_inv page mapped prot_of (a1\<lparr>cursor := off + n\<rparr>)
      (sp1\<lparr>ram := store_bytes bs (arena_base a1 + off) (ram sp1)\<rparr>) ((arena_base a1 + off, bs) # is)"
    if i: "arena_inv page mapped prot_of a1 sp1 is" and o: "off = round_up (cursor a1) 16" "\<not> arena_len a1 < off + n"
      and ap: "area (arena_base a1 + off) (length bs) \<inter> used a = {}" for a1 sp1 off
    using reserve_inv [OF laws(2) i o(1) n(2) o(2), unfolded n(1)] codes ap by (intro place_code [of _ _ _ _ _ _ _ _ "used a"]) auto
  let ?off = "round_up (cursor a) 16"
  show ?thesis
  proof (cases "arena_len a < ?off + n")
    case fit: False
    from reserve_inv(5) [OF laws(2) inv refl n(2) fit] fits [OF inv refl fit] pl False fit show ?thesis
      by (auto simp: place_def arena_alloc_def Let_def n(1) simp flip: n_def)
  next
    case over: True
    obtain q a1 sp1 where g: "grow os page (?off + n) a sp = (q, a1, sp1)" by (metis prod_cases3)
    note G = grow_inv [OF laws inv False g]
    show ?thesis
    proof (cases q)
      case (Inl e)
      with G(1) g pl False over show ?thesis by (auto simp: place_def arena_alloc_def Let_def simp flip: n_def)
    next
      case (Inr u)
      then have u: "q = Inr ()" by simp
      note H = G(2) [OF u]
      have z: "round_up (cursor a1) 16 = 0" using H by (simp add: round_up_def)
      have "unat (?off + n) \<ge> unat n"
      proof -
        obtain b0: "unat page dvd unat (arena_base a)" "arena_base a \<noteq> 0" "unat (arena_base a) + unat (arena_len a) < 2 ^ 64"
          "cursor a \<le> arena_len a" using inv unfolding arena_inv_def blocks_ok_def blocks_def by auto
        have "4096 \<le> unat (arena_base a)"
          using b0(1,2) laws(2) dvd_imp_le [of "unat page" "unat (arena_base a)"] by (auto simp: page_laws_def unat_gt_0)
        moreover have "page_ok 16" unfolding page_ok_def by (intro exI [of _ 4]) simp
        ultimately have "unat ?off < unat (cursor a) + 16"
          using b0 round_up_props(3) [of 16 "cursor a"] by (simp add: word_le_nat_alt)
        then have "unat (?off + n) = unat ?off + unat n"
          using n b0 \<open>4096 \<le> _\<close> by (subst unat_add_lem [THEN iffD1]) (auto simp: word_le_nat_alt)
        then show ?thesis by simp
      qed
      then have fit: "\<not> arena_len a1 < 0 + n" using H by (simp add: word_less_nat_alt word_le_nat_alt)
      have "arena_base a1 + 0 = arena_base a1" by simp
      have "area (arena_base a1 + 0) (length bs) \<subseteq> block (arena_base a1) (arena_len a1)"
        using fit n G(1) unfolding arena_inv_def blocks_ok_def blocks_def
        by (intro area_in_block) (auto simp: word_less_nat_alt)
      then have "area (arena_base a1 + 0) (length bs) \<inter> used a = {}" using H by blast
      from fits [OF G(1) z [symmetric] fit this] g u z pl False over show ?thesis
        by (auto simp: place_def arena_alloc_def Let_def simp flip: n_def)
    qed
  qed
qed

lemma seal_blocks_effect:
  assumes "vm_laws os mapped" and "prot_laws os page prot_of"
  shows "seal_blocks os bs sp = (r, sp') \<Longrightarrow> \<forall>(b, n) \<in> set bs. unat page dvd unat b \<and> unat page dvd unat n \<Longrightarrow>
    ram sp' = ram sp \<and> mapped (pages sp') = mapped (pages sp) \<and>
    (\<forall>x. prot_of (pages sp') x = prot_of (pages sp) x \<or> prot_of (pages sp') x = PROT_READ OR PROT_EXEC) \<and>
    (r = Inr () \<longrightarrow> (\<forall>(b, n) \<in> set bs. \<forall>x \<in> block b n. prot_of (pages sp') x = PROT_READ OR PROT_EXEC))"
proof (induction bs arbitrary: sp)
  case (Cons bn bs)
  obtain b len where bn: "bn = (b, len)" by fastforce
  obtain ok m where m: "mprotect os b len (PROT_READ OR PROT_EXEC) (pages sp) = (ok, m)" by fastforce
  have map: "mapped m = mapped (pages sp)"
    using vm_lawsD(4) [OF assms(1), of b len "PROT_READ OR PROT_EXEC" "pages sp"] unfolding m by simp
  have al: "unat page dvd unat b" "unat page dvd unat len" and rest: "\<forall>(b, n) \<in> set bs. unat page dvd unat b \<and> unat page dvd unat n"
    using Cons.prems(2) by (simp_all add: bn)
  show ?case
  proof (cases ok)
    case False
    have "\<forall>x. prot_of m x = prot_of (pages sp) x \<or> prot_of m x = PROT_READ OR PROT_EXEC"
      using assms(2) m [unfolded eq_False [THEN iffD2, OF False]] al(2) unfolding prot_laws_def by blast
    with m False Cons.prems(1) map show ?thesis by (auto simp: protect_pages_def bn)
  next
    case True
    have pr: "prot_of m = (\<lambda>x. if x \<in> block b len then PROT_READ OR PROT_EXEC else prot_of (pages sp) x)"
      using assms(2) m [unfolded eq_True [THEN iffD2, OF True]] al unfolding prot_laws_def by blast
    have "seal_blocks os bs (sp\<lparr>pages := m\<rparr>) = (r, sp')" using Cons.prems(1) m True by (simp add: protect_pages_def bn)
    note ih = Cons.IH [OF this rest]
    then have ih': "prot_of (pages sp') x = prot_of m x \<or> prot_of (pages sp') x = PROT_READ OR PROT_EXEC" for x by simp
    have "prot_of (pages sp') x = PROT_READ OR PROT_EXEC" if "x \<in> block b len" for x
      using ih' [of x] that by (simp add: pr)
    moreover have "prot_of (pages sp') x = prot_of (pages sp) x \<or> prot_of (pages sp') x = PROT_READ OR PROT_EXEC" for x
      using ih' [of x] by (auto simp: pr split: if_splits)
    ultimately show ?thesis using ih by (simp add: map bn)
  qed
qed simp

lemma finalize_inv:
  assumes "vm_laws os mapped" and "prot_laws os page prot_of" and inv: "arena_inv page mapped prot_of a sp is"
    and f: "finalize os a sp = (r, a', sp')"
  shows "arena_inv page mapped prot_of a' sp' is" and "r = Inr () \<Longrightarrow> sealed a'"
proof -
  have "arena_inv page mapped prot_of a' sp' is \<and> (r = Inr () \<longrightarrow> sealed a')"
  proof (cases "sealed a")
    case False
    obtain q sp1 where q: "seal_blocks os (blocks a) sp = (q, sp1)" by fastforce
    have "\<forall>(b, n) \<in> set (blocks a). unat page dvd unat b \<and> unat page dvd unat n"
      using inv unfolding arena_inv_def blocks_ok_def by blast
    note S = seal_blocks_effect [OF assms(1,2) q this]
    have p: "prots_ok (prot_of (pages sp1)) a"
    proof -
      have "prot_of (pages sp1) x = PROT_READ OR PROT_EXEC \<or> prot_of (pages sp1) x = PROT_READ OR PROT_WRITE \<and> \<not> sealed a"
        if x: "(b, n) \<in> set (blocks a)" "x \<in> block b n" for b n x
      proof -
        have "prot_of (pages sp1) x = prot_of (pages sp) x \<or> prot_of (pages sp1) x = PROT_READ OR PROT_EXEC" using S by blast
        moreover have "prot_of (pages sp) x = PROT_READ OR PROT_EXEC \<or> prot_of (pages sp) x = PROT_READ OR PROT_WRITE \<and> \<not> sealed a"
          using inv x unfolding arena_inv_def prots_ok_def by blast
        ultimately show ?thesis by argo
      qed
      then show ?thesis unfolding prots_ok_def by blast
    qed
    have "blocks (a\<lparr>sealed := s\<rparr>) = blocks a" "code_ok k (a\<lparr>sealed := s\<rparr>) is = code_ok k a is" for s k
      by (simp_all add: blocks_def used_def code_ok_def)
    note [simp] = this
    show ?thesis
    proof (cases q)
      case (Inl e)
      then show ?thesis using f q S inv p False by (auto simp: finalize_def arena_inv_def)
    next
      case (Inr u)
      then have "prots_ok (prot_of (pages sp1)) (a\<lparr>sealed := True\<rparr>)" using S by (auto simp: prots_ok_def)
      then show ?thesis using f q S inv Inr False by (auto simp: finalize_def arena_inv_def)
    qed
  qed (use f inv in \<open>auto simp: finalize_def\<close>)
  then show "arena_inv page mapped prot_of a' sp' is" and "r = Inr () \<Longrightarrow> sealed a'" by simp_all
qed

lemma start_inv:
  assumes laws: "vm_laws os mapped" "page_laws os page" "prot_laws os page prot_of"
    and "with_capacity os page capacity sp = (Inr a, sp')"
  shows "arena_inv page mapped prot_of a sp' []"
proof -
  let ?n = "round_up (max capacity page) page"
  have page: "page_ok page" using laws(2) by (simp add: page_laws_def)
  obtain b where mm: "mmap_anon os 0 ?n (PROT_READ OR PROT_WRITE) False sp = (Some b, sp')"
      and a: "a = \<lparr>arena_base = b, arena_len = ?n, cursor = 0, sealed = False, retired = []\<rparr>"
    using assms(4) by (auto simp: with_capacity_def Let_def split: prod.splits option.splits)
  note N = mmap_anon_new [OF mm laws round_up_dvd [OF page]]
  show ?thesis
    using N(1,2,4,6,7) round_up_dvd [OF page] by (auto simp: a arena_inv_def blocks_ok_def blocks_def prots_ok_def code_ok_def)
qed

lemma emit_lengths:
  "n_args \<le> 32 \<Longrightarrow> length (emit_returning target n_args) < 1000" "length (emit_noreturn target n_args) < 1000"
proof -
  assume "n_args \<le> 32"
  then have s: "unat n_args - 6 \<le> 26" by (simp add: word_le_nat_alt)
  have "length (concat (map (\<lambda>i. f i @ g i) [0..<s])) = 16 * s"
    if "\<And>i. length (f i) = 8" "\<And>i. length (g i) = 8" for f g :: "nat \<Rightarrow> u8 list" and s
    by (induction s) (simp_all add: that)
  from this [of "\<lambda>i. [0x48, 0x8B, 0x84, 0x24] @ le_bytes 4 (of_nat (0x48 + frame_size (unat n_args - 6) + 8 * i))"
      "\<lambda>i. [0x48, 0x89, 0x84, 0x24] @ le_bytes 4 (of_nat (8 * i))" "unat n_args - 6"] s
  show "length (emit_returning target n_args) < 1000" by (simp add: emit_returning_def Let_def)
qed (simp add: emit_noreturn_def)

lemma kept_inv:
  assumes inv: "arena_inv page mapped prot_of a sp is" and k: "arena_kept mapped prot_of a sp sp'"
  shows "arena_inv page mapped prot_of a sp' is"
proof -
  have same: "guest (ram sp') x = guest (ram sp) x" "x \<in> mapped (pages sp')" "prot_of (pages sp') x = prot_of (pages sp) x"
    if "(b, n) \<in> set (blocks a)" "x \<in> block b n" for b n x
    using k that unfolding arena_kept_def by blast+
  have "blocks_ok page (mapped (pages sp')) (blocks a)"
    using inv same(2) unfolding arena_inv_def blocks_ok_def by blast
  moreover have "prots_ok (prot_of (pages sp')) a"
  proof -
    have "prots_ok (prot_of (pages sp)) a" using inv by (simp add: arena_inv_def)
    then show ?thesis unfolding prots_ok_def using same(3) by fastforce
  qed
  moreover have cur: "cursor a \<le> arena_len a" using inv by (simp add: arena_inv_def)
  moreover have "code_ok (ram sp') a is"
  proof (rule code_ok_kept)
    show "code_ok (ram sp) a is" using inv by (simp add: arena_inv_def)
    show "guest (ram sp') x = guest (ram sp) x" if "x \<in> used a" for x
      using used_in_blocks [OF cur] that same(1) by fastforce
  qed simp
  ultimately show ?thesis by (simp add: arena_inv_def)
qed

lemma arena_reach_inv:
  assumes laws: "vm_laws os mapped" "page_laws os page" "prot_laws os page prot_of"
  shows "arena_reach os page mapped prot_of a sp is \<Longrightarrow> arena_inv page mapped prot_of a sp is"
proof (induction rule: arena_reach.induct)
  case (start capacity sp a sp')
  then show ?case by (rule start_inv [OF laws])
next
  case (returning a sp "is" target n_args p a' sp')
  then have "n_args \<le> 32" "place os page (emit_returning target n_args) a sp = (Inr p, a', sp')"
    by (auto simp: make_thunk_def split: if_splits)
  from place_inv [OF laws returning.IH emit_lengths(1) this(2)] this(1) show ?case by simp
next
  case (noreturn a sp "is" target n_args p a' sp')
  then have "place os page (emit_noreturn target n_args) a sp = (Inr p, a', sp')"
    by (auto simp: make_thunk_noreturn_def split: if_splits)
  from place_inv [OF laws noreturn.IH emit_lengths(2) this] show ?case by simp
next
  case (returning_fails a sp "is" target n_args e a' sp')
  show ?case
  proof (cases "32 < n_args")
    case False
    then have "place os page (emit_returning target n_args) a sp = (Inl e, a', sp')" "n_args \<le> 32"
      using returning_fails.hyps by (auto simp: make_thunk_def)
    from place_inv [OF laws returning_fails.IH emit_lengths(1) this(1)] this(2) show ?thesis by simp
  qed (use returning_fails in \<open>simp add: make_thunk_def\<close>)
next
  case (noreturn_fails a sp "is" target n_args e a' sp')
  show ?case
  proof (cases "6 < n_args")
    case False
    then have "place os page (emit_noreturn target n_args) a sp = (Inl e, a', sp')"
      using noreturn_fails.hyps by (auto simp: make_thunk_noreturn_def)
    from place_inv [OF laws noreturn_fails.IH emit_lengths(2) this] show ?thesis by simp
  qed (use noreturn_fails in \<open>simp add: make_thunk_noreturn_def\<close>)
next
  case (finalized a sp "is" r a' sp')
  show ?case by (rule finalize_inv(1) [OF laws(1,3) finalized.IH finalized.hyps(2)])
next
  case (other a sp "is" sp')
  show ?case by (rule kept_inv [OF other.IH other.hyps(2)])
qed

section \<open>What the arena guarantees\<close>

lemma issued_ok:
  assumes inv: "arena_inv page mapped prot_of a sp is" and "(p, c) \<in> set is"
  shows "load_bytes (length c) p (ram sp) = c" and "16 dvd unat p"
    and "x \<in> area p (length c) \<Longrightarrow> x \<in> mapped (pages sp)"
    and "x \<in> area p (length c) \<Longrightarrow>
      prot_of (pages sp) x = PROT_READ OR PROT_EXEC \<or> prot_of (pages sp) x = PROT_READ OR PROT_WRITE \<and> \<not> sealed a"
proof -
  show "load_bytes (length c) p (ram sp) = c" "16 dvd unat p" using assms unfolding arena_inv_def code_ok_def by blast+
  assume "x \<in> area p (length c)"
  then obtain b n where b: "(b, n) \<in> set (blocks a)" "x \<in> block b n"
    using assms used_in_blocks [of a] unfolding arena_inv_def code_ok_def by blast
  then show "x \<in> mapped (pages sp)" using inv unfolding arena_inv_def blocks_ok_def by blast
  show "prot_of (pages sp) x = PROT_READ OR PROT_EXEC \<or> prot_of (pages sp) x = PROT_READ OR PROT_WRITE \<and> \<not> sealed a"
    using b inv unfolding arena_inv_def prots_ok_def by blast
qed

text \<open>C2. A trampoline that was handed out stays: however many are emitted after it, however often the arena grows or is
  sealed, and whatever the rest of the process does elsewhere, the code at its address is the code emitted for it, on a
  multiple of 16, apart from every other trampoline, never writable and executable at once; and once \<open>finalize\<close>
  has succeeded every one of them is readable and executable and no more can be emitted.\<close>

theorem thunks_stay:
  assumes "vm_laws os mapped" and "page_laws os page" and "prot_laws os page prot_of"
    and "arena_reach os page mapped prot_of a sp is" and "finalize os a sp = (r, a', sp')"
  shows "(\<forall>(p, c) \<in> set is. load_bytes (length c) p (ram sp) = c \<and> 16 dvd unat p \<and>
      (\<forall>x \<in> area p (length c). x \<in> mapped (pages sp) \<and>
        (prot_of (pages sp) x = PROT_READ OR PROT_WRITE \<or> prot_of (pages sp) x = PROT_READ OR PROT_EXEC))) \<and>
    sorted_wrt (\<lambda>(p, c) (p', c'). area p (length c) \<inter> area p' (length c') = {}) is \<and>
    (r = Inr () \<longrightarrow> (\<forall>(p, c) \<in> set is. load_bytes (length c) p (ram sp') = c \<and>
      (\<forall>x \<in> area p (length c). prot_of (pages sp') x = PROT_READ OR PROT_EXEC)) \<and>
      (\<forall>target n_args. isl (fst (make_thunk os page target n_args a' sp'))))"
proof -
  have inv: "arena_inv page mapped prot_of a sp is" by (rule arena_reach_inv [OF assms(1-4)])
  note F = finalize_inv [OF assms(1,3) inv assms(5)]
  have "isl (fst (make_thunk os page target n_args a' sp'))" if "r = Inr ()" for target n_args
    using F(2) [OF that] by (simp add: make_thunk_def place_def arena_alloc_def)
  then have last: "r = Inr () \<longrightarrow> (\<forall>(p, c) \<in> set is. load_bytes (length c) p (ram sp') = c \<and>
      (\<forall>x \<in> area p (length c). prot_of (pages sp') x = PROT_READ OR PROT_EXEC)) \<and>
      (\<forall>target n_args. isl (fst (make_thunk os page target n_args a' sp')))"
    using issued_ok(1,4) [OF F(1)] F(2) by blast
  have first: "\<forall>(p, c) \<in> set is. load_bytes (length c) p (ram sp) = c \<and> 16 dvd unat p \<and>
      (\<forall>x \<in> area p (length c). x \<in> mapped (pages sp) \<and>
        (prot_of (pages sp) x = PROT_READ OR PROT_WRITE \<or> prot_of (pages sp) x = PROT_READ OR PROT_EXEC))"
    using issued_ok [OF inv] by blast
  have "sorted_wrt (\<lambda>(p, c) (p', c'). area p (length c) \<inter> area p' (length c') = {}) is"
    using inv unfolding arena_inv_def code_ok_def by blast
  with first last show ?thesis by blast
qed

text \<open>A kernel with protections that maps at one address, for the witness.\<close>

definition demo_pvm :: "(u64 set \<times> (u64 \<Rightarrow> u32)) linux_vm" where
  "demo_pvm = \<lparr>
     mmap = (\<lambda>a n p fixed (M, P).
       if fixed then (Some a, M \<union> block a n, \<lambda>x. if x \<in> block a n then p else P x)
       else if 0 < unat n \<and> unat n \<le> 0x100000 \<and> block 0x10000 n \<inter> M = {}
       then (Some 0x10000, M \<union> block 0x10000 n, \<lambda>x. if x \<in> block 0x10000 n then p else P x)
       else (None, M, P)),
     mprotect = (\<lambda>a n p (M, P). (True, M, \<lambda>x. if x \<in> block a n then p else P x)),
     munmap = (\<lambda>a n (M, P). (True, M - block a n, P))\<rparr>"

lemma page_ok_4096: "page_ok 4096"
  unfolding page_ok_def by (intro exI [of _ 12]) simp

lemma demo_pvm_laws: "vm_laws demo_pvm fst" "page_laws demo_pvm 4096" "prot_laws demo_pvm 4096 snd"
  by (auto simp: vm_laws_def page_laws_def prot_laws_def demo_pvm_def page_ok_4096 fun_eq_iff split: if_splits)

definition demo_space :: "(u64 set \<times> (u64 \<Rightarrow> u32)) space" where
  "demo_space = \<lparr>pages = ({}, \<lambda>x. 0), ram = kernel_new\<rparr>"

lemma demo_seals: "\<exists>sp'. seal_blocks demo_pvm bs sp = (Inr (), sp')"
  by (induction bs arbitrary: sp) (auto simp: protect_pages_def demo_pvm_def split: prod.split)

lemma demo_arena:
  "\<exists>a sp. arena_reach demo_pvm 4096 fst snd a sp [(0x10000, emit_noreturn 0x1234 1)] \<and> \<not> sealed a"
proof -
  define sp1 where "sp1 = snd (mmap_anon demo_pvm 0 4096 (PROT_READ OR PROT_WRITE) False demo_space)"
  define a1 where "a1 = \<lparr>arena_base = 0x10000, arena_len = 4096, cursor = 0, sealed = False, retired = []\<rparr>"
  have "with_capacity demo_pvm 4096 0 demo_space = (Inr a1, sp1)"
    by (simp add: with_capacity_def round_up_def mmap_anon_def demo_pvm_def demo_space_def a1_def sp1_def)
  then have 1: "arena_reach demo_pvm 4096 fst snd a1 sp1 []" by (rule arena_reach.start)
  have "length (emit_noreturn 0x1234 1) = 24" by (simp add: emit_noreturn_def word_le_nat_alt)
  then have "make_thunk_noreturn demo_pvm 4096 0x1234 1 a1 sp1 =
      (Inr 0x10000, a1\<lparr>cursor := 24\<rparr>, sp1\<lparr>ram := store_bytes (emit_noreturn 0x1234 1) 0x10000 (ram sp1)\<rparr>)"
    by (simp add: make_thunk_noreturn_def place_def arena_alloc_def a1_def round_up_def)
  from arena_reach.noreturn [OF 1 this] show ?thesis by (auto simp: a1_def)
qed

theorem thunks_stay_witness:
  "\<exists>a sp sp'. arena_reach demo_pvm 4096 fst snd a sp [(0x10000, emit_noreturn 0x1234 1)] \<and>
     finalize demo_pvm a sp = (Inr (), a\<lparr>sealed := True\<rparr>, sp') \<and>
     load_bytes (length (emit_noreturn 0x1234 1)) 0x10000 (ram sp') = emit_noreturn 0x1234 1"
proof -
  obtain a sp where r: "arena_reach demo_pvm 4096 fst snd a sp [(0x10000, emit_noreturn 0x1234 1)]" "\<not> sealed a"
    using demo_arena by blast
  obtain sp' where "seal_blocks demo_pvm (blocks a) sp = (Inr (), sp')" using demo_seals by blast
  then have f: "finalize demo_pvm a sp = (Inr (), a\<lparr>sealed := True\<rparr>, sp')" using r(2) by (simp add: finalize_def)
  from thunks_stay [OF demo_pvm_laws r(1) f] have "load_bytes (length (emit_noreturn 0x1234 1)) 0x10000 (ram sp') = emit_noreturn 0x1234 1"
    by auto
  with r f show ?thesis by blast
qed

end
