(* ===== verification/MappingSpec.thy ===== *)
theory MappingSpec
  imports ImageMap Arena
begin

unbundle bit_operations_syntax

text \<open>
  What a mapped image is: every byte and every protection of it given by a definition that looks the section up, and the
  theorem that the loader's copying and protecting computes that, and touches nothing else.
\<close>

section \<open>The image by lookup\<close>

text \<open>The last section of the table that covers an offset decides the byte there: the file's, while there is
  raw data, and zero after it. What no section covers has the header's bytes, then zeros.\<close>

definition sec_covers :: "nat \<Rightarrow> pe_section \<Rightarrow> nat \<Rightarrow> bool" where
  "sec_covers msize s r \<longleftrightarrow> unat (virtual_address s) \<le> r \<and> r < unat (virtual_address s) + unat (virtual_size s) \<and> r < msize"

definition section_byte :: "u8 list \<Rightarrow> pe_section \<Rightarrow> nat \<Rightarrow> u8" where
  "section_byte bytes s r =
     (let i = r - unat (virtual_address s) in
      if i < unat (size_of_raw_data s) \<and> unat (pointer_to_raw_data s) + i < length bytes
      then bytes ! (unat (pointer_to_raw_data s) + i) else 0)"

definition image_byte :: "u8 list \<Rightarrow> pe \<Rightarrow> nat \<Rightarrow> nat \<Rightarrow> u8" where
  "image_byte bytes pe msize r =
     (case find (\<lambda>s. sec_covers msize s r) (rev (sections pe)) of
        Some s \<Rightarrow> section_byte bytes s r
      | None \<Rightarrow> if r < unat (size_of_headers pe) \<and> r < length bytes then bytes ! r else 0)"

text \<open>The last section, of those that are not plain data, with a byte on the page of an offset decides its protection.\<close>

definition page_covers :: "nat \<Rightarrow> nat \<Rightarrow> pe_section \<Rightarrow> nat \<Rightarrow> bool" where
  "page_covers page msize s r \<longleftrightarrow>
     (\<exists>q \<in> {unat (virtual_address s)..<min (unat (virtual_address s) + unat (virtual_size s)) msize}. q div page = r div page) \<and>
     section_prot (sec_name s) (characteristics s) \<noteq> PROT_READ OR PROT_WRITE"

definition image_prot :: "nat \<Rightarrow> pe \<Rightarrow> nat \<Rightarrow> nat \<Rightarrow> u32" where
  "image_prot page pe msize r =
     (case find (\<lambda>s. page_covers page msize s r) (rev (sections pe)) of
        Some s \<Rightarrow> section_prot (sec_name s) (characteristics s)
      | None \<Rightarrow> PROT_READ OR PROT_WRITE)"

section \<open>Bytes at offsets\<close>

abbreviation byte_at :: "kernel \<Rightarrow> u64 \<Rightarrow> nat \<Rightarrow> u8" where
  "byte_at k b r \<equiv> guest k (b + of_nat r)"

lemma nth_load_bytes: "i < n \<Longrightarrow> load_bytes n p k ! i = byte_at k p i"
  by (induction n arbitrary: i p) (auto simp: nth_Cons add.assoc split: nat.split)

lemma byte_store:
  assumes "d + length bs \<le> 2 ^ 64" and "r < 2 ^ 64"
  shows "byte_at (store_bytes bs (b + of_nat d) k) b r = (if d \<le> r \<and> r < d + length bs then bs ! (r - d) else byte_at k b r)"
proof (cases "d \<le> r \<and> r < d + length bs")
  case True
  then have "b + of_nat r = b + of_nat d + of_nat (r - d)" by (simp add: of_nat_diff)
  then have "byte_at (store_bytes bs (b + of_nat d) k) b r = load_bytes (length bs) (b + of_nat d) (store_bytes bs (b + of_nat d) k) ! (r - d)"
    using True by (subst nth_load_bytes) auto
  also have "\<dots> = bs ! (r - d)" using assms(1) by (subst load_store_bytes) simp_all
  finally show ?thesis using True by simp
next
  case False
  have "b + of_nat r \<notin> area (b + of_nat d) (length bs)"
  proof
    assume "b + of_nat r \<in> area (b + of_nat d) (length bs)"
    then obtain i where i: "i < length bs" "b + of_nat r = b + of_nat (d + i)" by (auto simp: area_def add.assoc)
    then have "r = d + i" using small_offset_neq [of r "d + i" b] assms by auto
    with i False show False by simp
  qed
  from store_bytes_frame [OF this] False show ?thesis by auto
qed

lemma byte_zero:
  assumes "d + n < 2 ^ 64" and "r < 2 ^ 64"
  shows "byte_at (zero_fill (b + of_nat d) (of_nat n) k) b r = (if d \<le> r \<and> r < d + n then 0 else byte_at k b r)"
proof -
  have n: "unat (of_nat n :: u64) = n" using assms(1) by (simp add: unat_of_nat)
  have "b + of_nat r - (b + of_nat d) < (of_nat n :: u64) \<longleftrightarrow> d \<le> r \<and> r < d + n"
  proof (cases "d \<le> r")
    case True
    then have e: "b + of_nat r - (b + of_nat d) = (of_nat (r - d) :: u64)" by (simp add: of_nat_diff)
    have "unat (of_nat (r - d) :: u64) = r - d" using assms(2) by (simp add: unat_of_nat)
    then show ?thesis unfolding e word_less_nat_alt n using True by auto
  next
    case False
    have "(of_nat (2 ^ 64 + r - d) :: u64) = of_nat (2 ^ 64) + of_nat r - of_nat d"
      using assms(1) by (subst of_nat_diff) simp_all
    then have e: "b + of_nat r - (b + of_nat d) = (of_nat (2 ^ 64 + r - d) :: u64)" by simp
    have "unat (of_nat (2 ^ 64 + r - d) :: u64) = 2 ^ 64 + r - d"
      using False by (simp add: unat_of_nat)
    then show ?thesis unfolding e word_less_nat_alt n using False assms(1) by simp
  qed
  then show ?thesis by (simp add: zero_fill_def)
qed

section \<open>Copying computes the bytes\<close>

lemma u32_bound: "unat (v :: u32) < 2 ^ 32"
  using unsigned_less [of v, where ?'a = nat] by simp

lemma copy_section_byte:
  assumes "msize < 2 ^ 63" and "length bytes < 2 ^ 63" and "r < 2 ^ 64"
  shows "byte_at (copy_section b msize bytes s k) b r = (if sec_covers msize s r then section_byte bytes s r else byte_at k b r)"
proof (cases "unat (virtual_size s) = 0 \<or> msize \<le> unat (virtual_address s)")
  case True
  then have "copy_section b msize bytes s k = k" "\<not> sec_covers msize s r"
    by (auto simp: copy_section_def sec_covers_def Let_def)
  then show ?thesis by simp
next
  case False
  define va where "va = unat (virtual_address s)"
  define len where "len = min (va + unat (virtual_size s)) msize - va"
  define raw where "raw = unat (size_of_raw_data s)"
  define off where "off = unat (pointer_to_raw_data s)"
  define src where "src = min (min raw (length bytes - off)) len"
  have va: "va < msize" "0 < len" "va + len \<le> msize" using False by (auto simp: va_def len_def)
  have cov: "sec_covers msize s r \<longleftrightarrow> va \<le> r \<and> r < va + len" using va by (auto simp: sec_covers_def va_def len_def)
  have byte: "section_byte bytes s r = (if r - va < raw \<and> off + (r - va) < length bytes then bytes ! (off + (r - va)) else 0)"
    by (simp add: section_byte_def va_def raw_def off_def Let_def)
  let ?z = "zero_fill (b + of_nat va) (of_nat len) k"
  have z: "byte_at ?z b r = (if va \<le> r \<and> r < va + len then 0 else byte_at k b r)"
    using va assms by (intro byte_zero) simp_all
  have cs: "copy_section b msize bytes s k =
      (if 0 < raw \<and> off < length bytes then store_bytes (take src (drop off bytes)) (b + of_nat va) ?z else ?z)"
    using False unfolding copy_section_def Let_def va_def [symmetric] len_def [symmetric] raw_def [symmetric]
      off_def [symmetric] src_def [symmetric] by simp
  have l: "length (take src (drop off bytes)) = src" by (simp add: src_def)
  have "va + src \<le> 2 ^ 64" using va assms(1) by (simp add: src_def)
  note st = byte_store [of va "take src (drop off bytes)" r b ?z, unfolded l, OF this assms(3)]
  show ?thesis
  proof (cases "0 < raw \<and> off < length bytes")
    case active: True
    have "take src (drop off bytes) ! (r - va) = bytes ! (off + (r - va))" if "va \<le> r" "r < va + src"
      using that active by (subst nth_take) (auto simp: src_def)
    moreover have "r - va < src \<longleftrightarrow> r - va < raw \<and> off + (r - va) < length bytes" if "va \<le> r" "r < va + len"
      using that active unfolding src_def by linarith
    moreover have "src \<le> len" by (simp add: src_def)
    ultimately show ?thesis unfolding cs cov byte if_P [OF active] st z by force
  next
    case False
    then have n: "\<not> (r - va < raw \<and> off + (r - va) < length bytes)" by auto
    show ?thesis unfolding cs cov byte if_not_P [OF False] if_not_P [OF n] z ..
  qed
qed

lemma copy_image_byte:
  assumes "unat msize < 2 ^ 63" and "length bytes < 2 ^ 63" and "r < 2 ^ 64"
  shows "byte_at (copy_image b msize bytes pe k) b r =
    (if r < unat msize then image_byte bytes pe (unat msize) r else byte_at k b r)"
proof -
  define h where "h = min (min (unat (size_of_headers pe)) (length bytes)) (unat msize)"
  define k0 where "k0 = store_bytes (take h bytes) b (zero_fill b msize k)"
  have "byte_at (zero_fill (b + of_nat 0) (of_nat (unat msize)) k) b r = (if r < unat msize then 0 else byte_at k b r)"
    using byte_zero [of 0 "unat msize" r b k] assms by simp
  moreover have "length (take h bytes) = h" by (simp add: h_def)
  moreover have "0 + h \<le> 2 ^ 64" using assms(1) by (simp add: h_def)
  ultimately have k0: "byte_at k0 b r =
      (if r < h then bytes ! r else if r < unat msize then 0 else byte_at k b r)"
    using byte_store [of 0 "take h bytes" r b "zero_fill b msize k"] assms(3) by (simp add: k0_def)
  have "byte_at (fold (copy_section b (unat msize) bytes) secs k0) b r =
      (case find (\<lambda>s. sec_covers (unat msize) s r) (rev secs) of Some s \<Rightarrow> section_byte bytes s r | None \<Rightarrow> byte_at k0 b r)" for secs
    by (induction secs rule: rev_induct) (simp_all add: copy_section_byte [OF assms])
  moreover have "find (\<lambda>s. sec_covers (unat msize) s r) xs = None" if "\<not> r < unat msize" for xs
    using that by (auto simp: find_None_iff sec_covers_def)
  ultimately show ?thesis
    unfolding copy_image_def Let_def h_def [symmetric] k0_def [symmetric] image_byte_def
    using k0 by (auto simp: h_def split: option.split)
qed

section \<open>Protecting computes the protections\<close>

lemma find_append: "find P (xs @ ys) = (case find P xs of Some x \<Rightarrow> Some x | None \<Rightarrow> find P ys)"
  by (induction xs) simp_all

lemma page_interval:
  fixes P va e r :: nat
  assumes "0 < P" and "va < e"
  shows "(\<exists>q \<in> {va..<e}. q div P = r div P) \<longleftrightarrow> va div P * P \<le> r \<and> r < (e + P - 1) div P * P" (is "?l \<longleftrightarrow> ?r")
proof -
  have "e + P - 1 = (e - 1) + P" using assms by simp
  then have up: "(e + P - 1) div P = (e - 1) div P + 1" using assms(1) by (simp only: div_add_self2)
  have r1: "va div P * P \<le> r \<longleftrightarrow> va div P \<le> r div P"
    using less_eq_div_iff_mult_less_eq [OF assms(1), of "va div P" r] by (rule sym)
  have r2: "r < ((e - 1) div P + 1) * P \<longleftrightarrow> r div P \<le> (e - 1) div P"
    unfolding div_less_iff_less_mult [OF assms(1), symmetric] by (simp add: less_Suc_eq_le)
  show ?thesis
  proof
    assume ?l
    then obtain q where "va \<le> q" "q \<le> e - 1" "q div P = r div P" by fastforce
    then show ?r unfolding up r1 r2 using div_le_mono by metis
  next
    assume ?r
    then have "va div P \<le> r div P" "r div P \<le> (e - 1) div P" unfolding up r1 r2 by simp_all
    then have "max va (r div P * P) \<le> e - 1" using assms
      by (auto intro: order_trans [OF mult_le_mono1 div_times_less_eq_dividend])
    moreover have "max va (r div P * P) div P = r div P"
      using \<open>va div P \<le> r div P\<close> assms(1)
      by (metis div_mult_self_is_m div_le_mono le_antisym max.cobounded2 max_def)
    ultimately show ?l using assms(2) by (intro bexI [of _ "max va (r div P * P)"]) auto
  qed
qed

definition loader_laws :: "'m loader_vm \<Rightarrow> u64 \<Rightarrow> ('m \<Rightarrow> u64 set) \<Rightarrow> ('m \<Rightarrow> u64 \<Rightarrow> u32) \<Rightarrow> bool" where
  "loader_laws os page mapped prot_of \<longleftrightarrow>
     vm_laws (linux_vm.truncate os) mapped \<and> page_laws (linux_vm.truncate os) page \<and>
     prot_laws (linux_vm.truncate os) page prot_of \<and>
     (\<forall>a n p m b m'. mmap_noreplace os a n p m = (Some b, m') \<longrightarrow>
        b \<noteq> 0 \<and> unat page dvd unat b \<and> 0 < unat n \<and> unat b + unat n < 2 ^ 64 \<and> block b n \<inter> mapped m = {} \<and>
        mapped m' = mapped m \<union> block b n \<and>
        (unat page dvd unat n \<longrightarrow> prot_of m' = (\<lambda>x. if x \<in> block b n then p else prot_of m x))) \<and>
     (\<forall>a n p m m'. mmap_noreplace os a n p m = (None, m') \<longrightarrow> mapped m' = mapped m \<and> prot_of m' = prot_of m) \<and>
     (\<forall>a n m m' x. munmap os a n m = (True, m') \<longrightarrow> x \<notin> block a n \<longrightarrow> prot_of m' x = prot_of m x) \<and>
     (\<forall>a n m. unat page dvd unat a \<longrightarrow> unat page dvd unat n \<longrightarrow> 0 < unat n \<longrightarrow> fst (munmap os a n m))"

lemma loader_lawsD:
  assumes "loader_laws os page mapped prot_of"
  shows "vm_laws (linux_vm.truncate os) mapped" and "page_laws (linux_vm.truncate os) page"
    and "prot_laws (linux_vm.truncate os) page prot_of"
    and "mmap_noreplace os a n p m = (Some b, m') \<Longrightarrow>
        b \<noteq> 0 \<and> unat page dvd unat b \<and> 0 < unat n \<and> unat b + unat n < 2 ^ 64 \<and> block b n \<inter> mapped m = {} \<and>
        mapped m' = mapped m \<union> block b n \<and>
        (unat page dvd unat n \<longrightarrow> prot_of m' = (\<lambda>x. if x \<in> block b n then p else prot_of m x))"
    and "mmap_noreplace os a n p m = (None, m') \<Longrightarrow> mapped m' = mapped m \<and> prot_of m' = prot_of m"
    and "munmap os a n m = (True, m') \<Longrightarrow> x \<notin> block a n \<Longrightarrow> prot_of m' x = prot_of m x"
    and "unat page dvd unat a \<Longrightarrow> unat page dvd unat n \<Longrightarrow> 0 < unat n \<Longrightarrow> fst (munmap os a n m)"
  using assms by (simp_all add: loader_laws_def)

lemma protect_sections_effect:
  assumes laws: "loader_laws os page mapped prot_of"
    and b: "unat page dvd unat b" "unat page dvd unat msize" "unat b + unat msize < 2 ^ 64" "unat msize < 2 ^ 63"
  shows "protect_sections os page b msize secs sp = (res, sp') \<Longrightarrow>
    ram sp' = ram sp \<and> mapped (pages sp') = mapped (pages sp) \<and>
    (\<forall>x. x \<notin> block b msize \<longrightarrow> prot_of (pages sp') x = prot_of (pages sp) x) \<and>
    (res = Inr () \<longrightarrow> (\<forall>r < unat msize. prot_of (pages sp') (b + of_nat r) =
      (case find (\<lambda>s. page_covers (unat page) (unat msize) s r) (rev secs) of
         Some s \<Rightarrow> section_prot (sec_name s) (characteristics s)
       | None \<Rightarrow> prot_of (pages sp) (b + of_nat r))))"
proof (induction secs arbitrary: sp)
  case (Cons sec secs)
  let ?os = "linux_vm.truncate os"
  note vl = loader_lawsD(1-3) [OF laws]
  have page: "page_ok page" "4096 \<le> unat page" using vl(2) by (simp_all add: page_laws_def)
  define va where "va = unat (virtual_address sec)"
  define e where "e = min (va + unat (virtual_size sec)) (unat msize)"
  define p where "p = section_prot (sec_name sec) (characteristics sec)"
  let ?cov = "\<lambda>r. page_covers (unat page) (unat msize) sec r"
  show ?case
  proof (cases "unat (virtual_size sec) = 0 \<or> unat msize \<le> va \<or> p = PROT_READ OR PROT_WRITE")
    case True
    then have "protect_sections os page b msize (sec # secs) sp = protect_sections os page b msize secs sp"
      by (auto simp: Let_def va_def p_def)
    moreover have "\<not> ?cov r" for r using True by (auto simp: page_covers_def va_def p_def)
    ultimately show ?thesis using Cons by (auto simp: find_append split: option.split)
  next
    case False
    define start where "start = round_down (of_nat va) page"
    define fin where "fin = round_up (of_nat e) page"
    have e: "va < e" "e \<le> unat msize" using False by (auto simp: e_def)
    have small: "unat (of_nat va :: u64) = va" "unat (of_nat e :: u64) = e"
      using e b(4) by (simp_all add: unat_of_nat)
    have psize: "unat page \<le> unat msize" using b(2) e by (intro dvd_imp_le) auto
    have st: "unat start = va div unat page * unat page"
      using round_down_unat [OF page(1), of "of_nat va"] by (simp add: start_def small)
    have room: "unat (of_nat e :: u64) + unat page \<le> 2 ^ 64" using small e psize b(4) by simp
    have fi: "unat fin = (e + unat page - 1) div unat page * unat page"
      unfolding fin_def round_up_unat [OF page(1) room] small ..
    have fin_le: "unat fin \<le> unat msize"
    proof -
      obtain k where k: "unat msize = unat page * k" using b(2) by blast
      have "(e + unat page - 1) div unat page \<le> (unat page * k + unat page - 1) div unat page"
        using e k by (intro div_le_mono) linarith
      also have "unat page * k + unat page - 1 = (unat page - 1) + k * unat page" using page(2) by (simp add: mult.commute)
      also have "\<dots> div unat page = k" using page(2) by (subst div_mult_self1) auto
      finally show ?thesis unfolding fi k by simp
    qed
    have st_le: "unat start \<le> va" unfolding st by simp
    have "e \<le> unat fin" using round_up_props(2) [OF page(1) room] unfolding fin_def small .
    then have sf: "unat start < unat fin" using st_le e by linarith
    have len: "unat (fin - start) = unat fin - unat start" using sf by (intro unat_sub) (simp add: word_le_nat_alt)
    have bs: "unat (b + start) = unat b + unat start"
      using sf fin_le b(3) by (subst unat_add_lem [THEN iffD1]) auto
    have al: "unat page dvd unat (b + start)" "unat page dvd unat (fin - start)"
      using b(1) unfolding bs len st fi by auto
    have inb: "b + of_nat r \<in> block (b + start) (fin - start) \<longleftrightarrow> unat start \<le> r \<and> r < unat fin" if "r < unat msize" for r
    proof -
      have "unat (b + of_nat r) = unat b + r" using that b(3,4)
        by (subst unat_add_lem [THEN iffD1]) (simp_all add: unat_of_nat)
      then show ?thesis using sf by (auto simp: block_def bs len)
    qed
    have cov: "?cov r \<longleftrightarrow> unat start \<le> r \<and> r < unat fin" for r
      using page_interval [of "unat page" va e r] e page(2) False
      unfolding page_covers_def st fi va_def [symmetric] e_def [symmetric] p_def [symmetric] by auto
    have sub: "block (b + start) (fin - start) \<subseteq> block b msize"
      using sf fin_le by (auto simp: block_def bs len)
    obtain ok m where m: "mprotect ?os (b + start) (fin - start) p (pages sp) = (ok, m)" by fastforce
    have map: "mapped m = mapped (pages sp)"
      using vm_lawsD(4) [OF vl(1), of "b + start" "fin - start" p "pages sp"] unfolding m by simp
    have ps: "protect_sections os page b msize (sec # secs) sp =
        (if ok then protect_sections os page b msize secs (sp\<lparr>pages := m\<rparr>)
         else (Inl (MprotectFailed (sec_name sec) (b + start) (fin - start)), sp\<lparr>pages := m\<rparr>))"
      using False m unfolding va_def p_def e_def start_def fin_def
      by (simp add: Let_def protect_pages_def split: bool.split)
    show ?thesis
    proof (cases ok)
      case ok: True
      have pr: "prot_of m = (\<lambda>x. if x \<in> block (b + start) (fin - start) then p else prot_of (pages sp) x)"
        using vl(3) m [unfolded eq_True [THEN iffD2, OF ok]] al unfolding prot_laws_def by blast
      have "protect_sections os page b msize secs (sp\<lparr>pages := m\<rparr>) = (res, sp')" using Cons.prems ps ok by simp
      from Cons.IH [OF this] show ?thesis using sub inb cov
        by (auto simp: pr map find_append p_def split: option.split)
    next
      case nok: False
      have "\<forall>x. prot_of m x = prot_of (pages sp) x \<or> x \<in> block (b + start) (fin - start)"
        using vl(3) m [unfolded eq_False [THEN iffD2, OF nok]] al unfolding prot_laws_def by blast
      then show ?thesis using Cons.prems ps nok map sub by auto
    qed
  qed
qed simp

section \<open>Reserving\<close>

definition reserve :: "'m loader_vm \<Rightarrow> u64 \<Rightarrow> bool \<Rightarrow> u64 \<Rightarrow> 'm space \<Rightarrow> (map_error + u64) \<times> 'm space" where
  "reserve os preferred try_preferred n sp =
     (if try_preferred then
        (case try_map_at os preferred n sp of (Some b, sp) \<Rightarrow> (Inr b, sp) | (None, sp) \<Rightarrow> map_anywhere os n sp)
      else map_anywhere os n sp)"

definition untouched :: "('m \<Rightarrow> u64 set) \<Rightarrow> ('m \<Rightarrow> u64 \<Rightarrow> u32) \<Rightarrow> 'm space \<Rightarrow> 'm space \<Rightarrow> bool" where
  "untouched mapped prot_of sp sp' \<longleftrightarrow> (\<forall>x \<in> mapped (pages sp).
     guest (ram sp') x = guest (ram sp) x \<and> prot_of (pages sp') x = prot_of (pages sp) x)"

lemma untouched_refl [simp]: "untouched mapped prot_of sp sp"
  by (simp add: untouched_def)

lemma untouched_trans:
  "untouched mapped prot_of sp sp1 \<Longrightarrow> mapped (pages sp) \<subseteq> mapped (pages sp1) \<Longrightarrow> untouched mapped prot_of sp1 sp2 \<Longrightarrow>
    untouched mapped prot_of sp sp2"
  by (auto simp: untouched_def)

definition reserved :: "u64 \<Rightarrow> ('m \<Rightarrow> u64 set) \<Rightarrow> ('m \<Rightarrow> u64 \<Rightarrow> u32) \<Rightarrow> u64 \<Rightarrow> u64 \<Rightarrow> 'm space \<Rightarrow> 'm space \<Rightarrow> bool" where
  "reserved page mapped prot_of b n sp sp' \<longleftrightarrow> b \<noteq> 0 \<and> unat page dvd unat b \<and> 0 < unat n \<and> unat b + unat n < 2 ^ 64 \<and>
     block b n \<inter> mapped (pages sp) = {} \<and> mapped (pages sp') = mapped (pages sp) \<union> block b n \<and>
     (\<forall>x \<in> block b n. prot_of (pages sp') x = PROT_READ OR PROT_WRITE) \<and> untouched mapped prot_of sp sp'"

lemma map_anywhere_reserved:
  assumes laws: "loader_laws os page mapped prot_of" and n: "unat page dvd unat n" and m: "map_anywhere os n sp = (res, sp')"
  shows "case res of Inr b \<Rightarrow> reserved page mapped prot_of b n sp sp'
    | Inl e \<Rightarrow> e = MmapFailed n \<and> mapped (pages sp') = mapped (pages sp) \<and> untouched mapped prot_of sp sp'"
proof -
  note vl = loader_lawsD(1-3) [OF laws]
  show ?thesis
  proof (cases res)
    case (Inl e)
    then have "mmap_anon (linux_vm.truncate os) 0 n (PROT_READ OR PROT_WRITE) False sp = (None, sp')"
      using m by (auto simp: map_anywhere_def split: prod.splits option.splits)
    moreover have "e = MmapFailed n" using m Inl by (auto simp: map_anywhere_def split: prod.splits option.splits)
    ultimately show ?thesis using mmap_anon_none [OF _ vl(1,3)] by (simp add: Inl untouched_def)
  next
    case (Inr b)
    then have mm: "mmap_anon (linux_vm.truncate os) 0 n (PROT_READ OR PROT_WRITE) False sp = (Some b, sp')"
      using m by (auto simp: map_anywhere_def split: prod.splits option.splits)
    note N = mmap_anon_new [OF mm vl n]
    have "x \<notin> block b n" if "x \<in> mapped (pages sp)" for x using that N(5) by blast
    then show ?thesis using N by (simp add: Inr reserved_def untouched_def)
  qed
qed

lemma try_map_at_reserved:
  assumes laws: "loader_laws os page mapped prot_of" and n: "unat page dvd unat n" and t: "try_map_at os a n sp = (res, sp')"
  shows "case res of Some b \<Rightarrow> b = a \<and> reserved page mapped prot_of b n sp sp'
    | None \<Rightarrow> mapped (pages sp') = mapped (pages sp) \<and> untouched mapped prot_of sp sp'"
proof (cases "a = 0")
  case True
  then show ?thesis using t by (auto simp: try_map_at_def)
next
  case False
  obtain q m where q: "mmap_noreplace os a n (PROT_READ OR PROT_WRITE) (pages sp) = (q, m)" by fastforce
  show ?thesis
  proof (cases q)
    case None
    have "mapped m = mapped (pages sp)" "prot_of m = prot_of (pages sp)"
      using loader_lawsD(5) [OF laws q [unfolded None]] by simp_all
    moreover have "sp' = sp\<lparr>pages := m\<rparr>" "res = None"
      using t False q None by (simp_all add: try_map_at_def mmap_fixed_noreplace_def)
    ultimately show ?thesis by (simp add: untouched_def)
  next
    case (Some b)
    have bl: "b \<noteq> 0" "unat page dvd unat b" "0 < unat n" "unat b + unat n < 2 ^ 64" "block b n \<inter> mapped (pages sp) = {}"
        "mapped m = mapped (pages sp) \<union> block b n"
        "prot_of m = (\<lambda>x. if x \<in> block b n then PROT_READ OR PROT_WRITE else prot_of (pages sp) x)"
      using loader_lawsD(4) [OF laws q [unfolded Some]] n by blast+
    show ?thesis
    proof (cases "b = a")
      case True
      have "sp' = sp\<lparr>pages := m, ram := zero_fill b n (ram sp)\<rparr>" "res = Some b"
        using t False q Some True by (simp_all add: try_map_at_def mmap_fixed_noreplace_def)
      moreover have "guest (zero_fill b n (ram sp)) x = guest (ram sp) x" if "x \<in> mapped (pages sp)" for x
        using that bl(4,5) by (intro zero_fill_out) auto
      moreover have "x \<notin> block b n" if "x \<in> mapped (pages sp)" for x using that bl(5) by blast
      ultimately show ?thesis using bl True by (simp add: reserved_def untouched_def)
    next
      case other: False
      obtain m' where m': "munmap os b n m = (True, m')"
        using loader_lawsD(7) [OF laws bl(2) n bl(3), of m] by (cases "munmap os b n m") simp
      then have "munmap (linux_vm.truncate os) b n m = (True, m')" by (simp add: linux_vm.defs)
      then have mapd: "mapped m' = mapped m - block b n" using vm_lawsD(5) [OF loader_lawsD(1) [OF laws]] by blast
      have sp': "sp' = sp\<lparr>pages := m', ram := zero_fill b n (ram sp)\<rparr>" "res = None"
        using t False q Some other m' by (auto simp: try_map_at_def mmap_fixed_noreplace_def unmap_def linux_vm.defs)
      have "guest (zero_fill b n (ram sp)) x = guest (ram sp) x \<and> prot_of m' x = prot_of (pages sp) x"
        if "x \<in> mapped (pages sp)" for x
      proof -
        have "x \<notin> block b n" using that bl(5) by blast
        then have "prot_of m' x = prot_of m x" using loader_lawsD(6) [OF laws m'] by blast
        then show ?thesis using \<open>x \<notin> block b n\<close> bl(4,7) zero_fill_out [of b n x] by simp
      qed
      then show ?thesis using bl(5,6) mapd by (auto simp: sp' untouched_def)
    qed
  qed
qed

lemma reserve_reserved:
  assumes laws: "loader_laws os page mapped prot_of" and n: "unat page dvd unat n" and r: "reserve os a tp n sp = (res, sp')"
  shows "case res of Inr b \<Rightarrow> reserved page mapped prot_of b n sp sp'
    | Inl e \<Rightarrow> e = MmapFailed n \<and> mapped (pages sp') = mapped (pages sp) \<and> untouched mapped prot_of sp sp'"
proof (cases tp)
  case False
  then show ?thesis using r map_anywhere_reserved [OF laws n] by (simp add: reserve_def)
next
  case True
  obtain q sp1 where q: "try_map_at os a n sp = (q, sp1)" by fastforce
  note T = try_map_at_reserved [OF laws n q]
  show ?thesis
  proof (cases q)
    case (Some b)
    then show ?thesis using r T True q by (auto simp: reserve_def)
  next
    case None
    then have m: "map_anywhere os n sp1 = (res, sp')" using r True q by (simp add: reserve_def)
    have T': "mapped (pages sp1) = mapped (pages sp)" "untouched mapped prot_of sp sp1" using T None by simp_all
    from map_anywhere_reserved [OF laws n m] T' show ?thesis
      by (auto simp: reserved_def split: sum.splits intro: untouched_trans)
  qed
qed

section \<open>The mapped image\<close>

lemma map_image_split:
  assumes "map_image_with_preferred_base os page bytes pe tp sp = (res, sp')"
    and "n = round_up (ucast (size_of_image pe)) page" and "n \<noteq> 0"
    and "reserve os (image_base pe) tp n sp = (r, sp1)"
  shows "(res, sp') = (case r of Inl e \<Rightarrow> (Inl e, sp1) | Inr b \<Rightarrow>
     (case protect_sections os page b n (sections pe) (sp1\<lparr>ram := copy_image b n bytes pe (ram sp1)\<rparr>) of
        (Inl e, sp) \<Rightarrow> (Inl e, sp)
      | (Inr _, sp) \<Rightarrow> (Inr \<lparr>ibase = b, isize = n, preferred_base = image_base pe\<rparr>, sp)))"
  using assms unfolding map_image_with_preferred_base_def Let_def assms(2) [symmetric] reserve_def [symmetric]
  by (simp split: sum.split)

lemma in_block_offset:
  assumes "unat b + unat n < 2 ^ 64"
  shows "x \<in> block b n \<longleftrightarrow> (\<exists>r < unat n. x = b + of_nat r)"
  using area_block [of b n] assms by (auto simp: area_def)

lemma copy_image_outside:
  assumes "unat n < 2 ^ 63" and "length bytes < 2 ^ 63" and "unat b + unat n < 2 ^ 64" and "x \<notin> block b n"
  shows "guest (copy_image b n bytes pe k) x = guest k x"
proof -
  have x: "x = b + of_nat (unat (x - b))" by simp
  have "\<not> unat (x - b) < unat n" using assms(4) x unfolding in_block_offset [OF assms(3)] by blast
  moreover have "unat (x - b) < 2 ^ 64" using unsigned_less [of "x - b", where ?'a = nat] by simp
  ultimately have "byte_at (copy_image b n bytes pe k) b (unat (x - b)) = byte_at k b (unat (x - b))"
    using copy_image_byte [OF assms(1,2), of "unat (x - b)" b pe k] by simp
  then show ?thesis by simp
qed

text \<open>What mapping an image does to the address space, in both outcomes.\<close>

lemma map_image_effect:
  assumes laws: "loader_laws os page mapped prot_of" and len: "length bytes < 2 ^ 63"
    and m: "map_image_with_preferred_base os page bytes pe tp sp = (res, sp')"
    and n: "n = round_up (ucast (size_of_image pe)) page"
  shows "(mapped (pages sp') = mapped (pages sp) \<and> untouched mapped prot_of sp sp' \<and> res = Inl (MmapFailed n)) \<or>
    (\<exists>b sp1 q. reserved page mapped prot_of b n sp sp1 \<and> mapped (pages sp') = mapped (pages sp1) \<and>
       ram sp' = copy_image b n bytes pe (ram sp1) \<and> untouched mapped prot_of sp sp' \<and>
       protect_sections os page b n (sections pe) (sp1\<lparr>ram := ram sp'\<rparr>) = (q, sp') \<and> unat n < 2 ^ 63 \<and>
       (case q of Inl e \<Rightarrow> res = Inl e | Inr _ \<Rightarrow>
          res = Inr \<lparr>ibase = b, isize = n, preferred_base = image_base pe\<rparr> \<and>
          (\<forall>r < unat n. prot_of (pages sp') (b + of_nat r) = image_prot (unat page) pe (unat n) r)))"
proof (cases "n = 0")
  case True
  with m n show ?thesis by (auto simp: map_image_with_preferred_base_def)
next
  case False
  note vl = loader_lawsD(2) [OF laws, unfolded page_laws_def]
  have page: "page_ok page" "4096 \<le> unat page" "unat page \<le> 2 ^ 16" using vl by blast+
  have pn: "unat page dvd unat n" unfolding n by (rule round_up_dvd [OF page(1)])
  have u: "unat (ucast (size_of_image pe) :: u64) < 2 ^ 32"
    using u32_bound [of "size_of_image pe"] by (simp add: unsigned_ucast_eq take_bit_nat_eq_self)
  then have "unat (ucast (size_of_image pe) :: u64) + unat page \<le> 2 ^ 64" using page(3) by simp
  from round_up_props(3) [OF page(1) this] u page(3) have small: "unat n < 2 ^ 63" unfolding n by simp
  obtain r sp1 where r: "reserve os (image_base pe) tp n sp = (r, sp1)" by fastforce
  note R = reserve_reserved [OF laws pn r]
  note S = map_image_split [OF m n False r]
  show ?thesis
  proof (cases r)
    case (Inl e)
    then show ?thesis using R S by auto
  next
    case (Inr b)
    let ?sp = "sp1\<lparr>ram := copy_image b n bytes pe (ram sp1)\<rparr>"
    have res: "reserved page mapped prot_of b n sp sp1" using R Inr by simp
    then have b: "unat page dvd unat b" "unat b + unat n < 2 ^ 64" "block b n \<inter> mapped (pages sp) = {}"
        "\<forall>x \<in> block b n. prot_of (pages sp1) x = PROT_READ OR PROT_WRITE" "untouched mapped prot_of sp sp1"
      by (simp_all add: reserved_def)
    obtain q sp2 where q: "protect_sections os page b n (sections pe) ?sp = (q, sp2)" by fastforce
    note P = protect_sections_effect [OF laws b(1) pn b(2) small q]
    have sp': "sp' = sp2" using S Inr q by (auto split: sum.splits)
    have ram: "ram sp' = copy_image b n bytes pe (ram sp1)" using P sp' by simp
    have "untouched mapped prot_of sp sp'"
      unfolding untouched_def
    proof
      fix x assume x: "x \<in> mapped (pages sp)"
      then have nb: "x \<notin> block b n" using b(3) by blast
      have "guest (ram sp') x = guest (ram sp1) x" unfolding ram by (rule copy_image_outside [OF small len b(2) nb])
      moreover have "prot_of (pages sp') x = prot_of (pages sp1) x" using P nb sp' by simp
      ultimately show "guest (ram sp') x = guest (ram sp) x \<and> prot_of (pages sp') x = prot_of (pages sp) x"
        using b(5) x by (simp add: untouched_def)
    qed
    moreover have "prot_of (pages sp') (b + of_nat i) = image_prot (unat page) pe (unat n) i" if "i < unat n" "q = Inr ()" for i
    proof -
      have "b + of_nat i \<in> block b n" using that(1) in_block_offset [OF b(2)] by blast
      then show ?thesis using P that b(4) sp' by (simp add: image_prot_def split: option.split)
    qed
    moreover have "sp1\<lparr>ram := ram sp'\<rparr> = ?sp" using ram by simp
    ultimately show ?thesis
      using res P q S Inr sp' ram small
      by (intro disjI2 exI [of _ b] exI [of _ sp1] exI [of _ q]) (auto split: sum.splits)
  qed
qed

lemma section_prot_wx: "section_prot name ch AND (PROT_WRITE OR PROT_EXEC) \<noteq> PROT_WRITE OR PROT_EXEC"
  by (simp add: section_prot_def Let_def)

lemma image_prot_wx: "image_prot page pe n r AND (PROT_WRITE OR PROT_EXEC) \<noteq> PROT_WRITE OR PROT_EXEC"
  using section_prot_wx by (simp add: image_prot_def split: option.split)

lemma map_image_Inr:
  assumes "loader_laws os page mapped prot_of" and "length bytes < 2 ^ 63"
    and "map_image_with_preferred_base os page bytes pe tp sp = (Inr img, sp')"
    and n: "n = round_up (ucast (size_of_image pe)) page"
  obtains b sp1 where "reserved page mapped prot_of b n sp sp1" and "mapped (pages sp') = mapped (pages sp1)"
    and "ram sp' = copy_image b n bytes pe (ram sp1)" and "untouched mapped prot_of sp sp'" and "unat n < 2 ^ 63"
    and "img = \<lparr>ibase = b, isize = n, preferred_base = image_base pe\<rparr>"
    and "\<forall>r < unat n. prot_of (pages sp') (b + of_nat r) = image_prot (unat page) pe (unat n) r"
proof (rule disjE [OF map_image_effect [OF assms]])
  assume "mapped (pages sp') = mapped (pages sp) \<and> untouched mapped prot_of sp sp' \<and>
    (Inr img :: map_error + mapped_image) = Inl (MmapFailed n)"
  then show ?thesis by simp
next
  assume "\<exists>b sp1 q. reserved page mapped prot_of b n sp sp1 \<and> mapped (pages sp') = mapped (pages sp1) \<and>
     ram sp' = copy_image b n bytes pe (ram sp1) \<and> untouched mapped prot_of sp sp' \<and>
     protect_sections os page b n (sections pe) (sp1\<lparr>ram := ram sp'\<rparr>) = (q, sp') \<and> unat n < 2 ^ 63 \<and>
     (case q of Inl e \<Rightarrow> Inr img = Inl e | Inr _ \<Rightarrow>
        Inr img = (Inr \<lparr>ibase = b, isize = n, preferred_base = image_base pe\<rparr> :: map_error + mapped_image) \<and>
        (\<forall>r < unat n. prot_of (pages sp') (b + of_nat r) = image_prot (unat page) pe (unat n) r))"
  then show ?thesis by (elim exE conjE) (rule that; (simp; fail)?; simp split: sum.splits)
qed


text \<open>Where a protection fails the reservation is not released: the memory of the failed load stays mapped.\<close>

lemma failed_map_leaks:
  assumes "loader_laws os page mapped prot_of" and "length bytes < 2 ^ 63"
    and "map_image_with_preferred_base os page bytes pe tp sp = (Inl (MprotectFailed nm a len), sp')"
    and "n = round_up (ucast (size_of_image pe)) page"
  shows "\<exists>b. block b n \<inter> mapped (pages sp) = {} \<and> 0 < unat n \<and> mapped (pages sp') = mapped (pages sp) \<union> block b n"
  using map_image_effect [OF assms] by (fastforce simp: reserved_def)

text \<open>A kernel, and an image with one code section, for the witnesses.\<close>

definition demo_loader :: "(u64 set \<times> (u64 \<Rightarrow> u32)) loader_vm" where
  "demo_loader = linux_vm.extend demo_pvm \<lparr>mmap_noreplace = (\<lambda>a n p m. (None, m))\<rparr>"

lemma demo_loader_pvm [simp]: "linux_vm.truncate demo_loader = demo_pvm"
  by (simp add: demo_loader_def linux_vm.defs)

lemma demo_loader_laws: "loader_laws demo_loader 4096 fst snd"
proof -
  have "mmap_noreplace demo_loader a n p m = (None, m)" "munmap demo_loader = munmap demo_pvm" for a n p m
    by (simp_all add: demo_loader_def linux_vm.defs)
  then show ?thesis using demo_pvm_laws
    by (auto simp: loader_laws_def demo_pvm_def)
qed

definition demo_text :: pe_section where
  "demo_text = \<lparr>sec_name = ''.text'', virtual_size = 0x10, virtual_address = 0x1000, size_of_raw_data = 2,
     pointer_to_raw_data = 2, characteristics = 0xE0000020\<rparr>"

definition demo_pe :: pe where
  "demo_pe = \<lparr>size_of_image = 0x2000, image_base = 0x140000000, size_of_headers = 2, sections = [demo_text]\<rparr>"

definition demo_file :: "u8 list" where
  "demo_file = [0x4D, 0x5A, 0xC3, 0x90]"

lemma demo_protect_pages: "protect_pages demo_pvm a n p sp = (True, snd (protect_pages demo_pvm a n p sp))"
  by (simp add: protect_pages_def demo_pvm_def split: prod.split)

lemma demo_pvm_protect: "\<exists>sp'. protect_sections demo_loader page b n secs sp = (Inr (), sp')"
proof (induction secs arbitrary: sp)
  case (Cons s secs)
  then show ?case
    by (simp add: Let_def) (subst demo_protect_pages, simp)
qed simp

lemma demo_mapped:
  "\<exists>sp'. map_image_anywhere demo_loader 4096 demo_file demo_pe demo_space =
     (Inr \<lparr>ibase = 0x10000, isize = 0x2000, preferred_base = 0x140000000\<rparr>, sp')"
proof -
  define sp1 where "sp1 = snd (map_anywhere demo_loader 0x2000 demo_space)"
  have a: "map_anywhere demo_loader 0x2000 demo_space = (Inr 0x10000, sp1)"
    unfolding sp1_def by (simp add: map_anywhere_def mmap_anon_def demo_pvm_def demo_space_def)
  obtain sp' where p: "protect_sections demo_loader 4096 0x10000 0x2000 (sections demo_pe)
      (sp1\<lparr>ram := copy_image 0x10000 0x2000 demo_file demo_pe (ram sp1)\<rparr>) = (Inr (), sp')"
    using demo_pvm_protect by blast
  have "round_up (ucast (size_of_image demo_pe)) 4096 = (0x2000 :: u64)" "image_base demo_pe = 0x140000000"
    by (simp_all add: round_up_def demo_pe_def)
  then show ?thesis
    unfolding map_image_anywhere_def map_image_with_preferred_base_def Let_def by (simp add: a p)
qed


end
