(* ===== verification/Exports.thy ===== *)
theory Exports
  imports MappingSpec
begin

unbundle bit_operations_syntax

text \<open>
  The export directory of a mapped image, in \<^verbatim>\<open>crates/pe-loader/src/dllmod.rs\<close>: the bounded readers, the walk from the
  DOS header to the directory, the table of names and functions, and the address an entry stands for. A table is
  read once, when the module is loaded. Names are byte strings; the hash map from names is a partial map.
\<close>

section \<open>Readers\<close>

definition sat_add :: "u32 \<Rightarrow> u32 \<Rightarrow> u32" where
  "sat_add a b = (if unat a + unat b < 2 ^ 32 then a + b else - 1)"

definition sat_mul :: "u32 \<Rightarrow> u32 \<Rightarrow> u32" where
  "sat_mul a b = (if unat a * unat b < 2 ^ 32 then a * b else - 1)"

definition checked_add :: "u32 \<Rightarrow> u32 \<Rightarrow> u32 option" where
  "checked_add a b = (if unat a + unat b < 2 ^ 32 then Some (a + b) else None)"

text \<open>Only the first byte is checked to lie in the image.\<close>

definition read_u16 :: "mapped_image \<Rightarrow> u32 \<Rightarrow> kernel \<Rightarrow> u16 option" where
  "read_u16 img rva k = (case rva_to_ptr img rva of None \<Rightarrow> None | Some p \<Rightarrow> Some (ucast (read_le 2 p k)))"

definition read_u32 :: "mapped_image \<Rightarrow> u32 \<Rightarrow> kernel \<Rightarrow> u32 option" where
  "read_u32 img rva k = (case rva_to_ptr img rva of None \<Rightarrow> None | Some p \<Rightarrow> Some (ucast (read_le 4 p k)))"

definition MAX_NAME_LEN :: nat where
  "MAX_NAME_LEN = 4096"

text \<open>At most \<open>n\<close> more bytes.\<close>

fun read_nul :: "nat \<Rightarrow> mapped_image \<Rightarrow> u32 \<Rightarrow> kernel \<Rightarrow> u8 list option" where
  "read_nul 0 img off k = None"
| "read_nul (Suc n) img off k =
     (case rva_to_ptr img off of
        None \<Rightarrow> None
      | Some p \<Rightarrow>
          if guest k p = 0 then Some []
          else (case checked_add off 1 of
                  None \<Rightarrow> None
                | Some off' \<Rightarrow> map_option (Cons (guest k p)) (read_nul n img off' k)))"

definition read_bytes_nul :: "mapped_image \<Rightarrow> u32 \<Rightarrow> kernel \<Rightarrow> u8 list option" where
  "read_bytes_nul img rva k = read_nul MAX_NAME_LEN img rva k"

text \<open>The name argument of the guest, cut at the limit.\<close>

fun read_cstring :: "nat \<Rightarrow> u64 \<Rightarrow> kernel \<Rightarrow> u8 list" where
  "read_cstring 0 p k = []"
| "read_cstring (Suc n) p k = (if guest k p = 0 then [] else guest k p # read_cstring n (p + 1) k)"

definition read_guest_cstring :: "u64 \<Rightarrow> kernel \<Rightarrow> u8 list option" where
  "read_guest_cstring name k = (if name = 0 then None else Some (read_cstring MAX_NAME_LEN name k))"

section \<open>The directory\<close>

record export_dir_span =
  dir_rva :: u32
  dir_size :: u32

record export_table =
  names :: "u8 list \<Rightarrow> u32 option"
  function_rvas :: "u32 list"
  ordinal_base :: u32
  export_dir :: export_dir_span

definition read_export_dir_at :: "mapped_image \<Rightarrow> u32 \<Rightarrow> kernel \<Rightarrow> export_dir_span option" where
  "read_export_dir_at img dd_offset k =
     Option.bind (read_u32 img dd_offset k) (\<lambda>rva.
     Option.bind (checked_add dd_offset 4) (\<lambda>o4.
     Option.bind (read_u32 img o4 k) (\<lambda>size.
       if rva = 0 then None else Some \<lparr>dir_rva = rva, dir_size = size\<rparr>)))"

definition locate_export_dir :: "mapped_image \<Rightarrow> kernel \<Rightarrow> export_dir_span option" where
  "locate_export_dir img k =
     Option.bind (read_u16 img 0 k) (\<lambda>magic_dos.
       if magic_dos \<noteq> 0x5A4D then None
       else
         Option.bind (read_u32 img 0x3C k) (\<lambda>e_lfanew.
         Option.bind (checked_add e_lfanew 4) (\<lambda>coff.
         Option.bind (checked_add coff 20) (\<lambda>opt.
         Option.bind (read_u16 img opt k) (\<lambda>magic.
           if magic = 0x20B then Option.bind (checked_add opt 112) (\<lambda>dd. read_export_dir_at img dd k)
           else if magic = 0x10B then Option.bind (checked_add opt 96) (\<lambda>dd. read_export_dir_at img dd k)
           else None)))))"

definition elem_rva :: "u32 \<Rightarrow> u32 \<Rightarrow> u32 \<Rightarrow> u32" where
  "elem_rva array_rva index elem_size = sat_add array_rva (sat_mul index elem_size)"

text \<open>The name and the function of an entry, or \<open>None\<close> where the walk stops.\<close>

definition named_export :: "mapped_image \<Rightarrow> u32 \<Rightarrow> u32 \<Rightarrow> u32 \<Rightarrow> kernel \<Rightarrow> nat \<Rightarrow> (u8 list \<times> u32) option" where
  "named_export img addr_functions addr_names addr_ordinals k i =
     Option.bind (read_u32 img (elem_rva addr_names (of_nat i) 4) k) (\<lambda>name_rva.
     Option.bind (read_u16 img (elem_rva addr_ordinals (of_nat i) 2) k) (\<lambda>ord_idx.
     Option.bind (read_u32 img (elem_rva addr_functions (ucast ord_idx) 4) k) (\<lambda>func_rva.
     Option.bind (read_bytes_nul img name_rva k) (\<lambda>name. Some (name, func_rva)))))"

fun collect_names :: "(nat \<Rightarrow> ('n \<times> 'f) option) \<Rightarrow> nat list \<Rightarrow> ('n \<Rightarrow> 'f option) \<Rightarrow> 'n \<Rightarrow> 'f option" where
  "collect_names ex [] m = m"
| "collect_names ex (i # is) m = (case ex i of None \<Rightarrow> m | Some (n, f) \<Rightarrow> collect_names ex is (m(n \<mapsto> f)))"

definition parse_export_table :: "mapped_image \<Rightarrow> kernel \<Rightarrow> export_table" where
  "parse_export_table img k =
     (let out = \<lparr>names = Map.empty, function_rvas = [], ordinal_base = 1, export_dir = \<lparr>dir_rva = 0, dir_size = 0\<rparr>\<rparr> in
      case locate_export_dir img k of
        None \<Rightarrow> out
      | Some dir \<Rightarrow>
          (let out = out\<lparr>export_dir := dir\<rparr>; field = (\<lambda>off. read_u32 img (sat_add (dir_rva dir) off) k) in
           case (field 16, field 20, field 24, field 28, field 32, field 36) of
             (Some first, Some n_functions, Some n_names, Some addr_functions, Some addr_names, Some addr_ordinals) \<Rightarrow>
               out\<lparr>ordinal_base := first,
                 names := collect_names (named_export img addr_functions addr_names addr_ordinals k) [0..<unat n_names] Map.empty,
                 function_rvas := List.map_filter (\<lambda>i. read_u32 img (elem_rva addr_functions (of_nat i) 4) k) [0..<unat n_functions]\<rparr>
           | _ \<Rightarrow> out))"

definition function_rva_by_ordinal :: "export_table \<Rightarrow> u32 \<Rightarrow> u32 option" where
  "function_rva_by_ordinal t ordinal =
     (if ordinal < ordinal_base t then None
      else let i = unat (ordinal - ordinal_base t) in
           if i < length (function_rvas t) then Some (function_rvas t ! i) else None)"

text \<open>A forwarder, and an entry outside the image, stand for null.\<close>

definition export_addr :: "mapped_image \<Rightarrow> export_table \<Rightarrow> u32 \<Rightarrow> u64" where
  "export_addr img t rva =
     (let dir = export_dir t in
      if rva = 0 \<or> dir_rva dir \<le> rva \<and> rva < sat_add (dir_rva dir) (dir_size dir) then 0
      else (case rva_to_ptr img rva of None \<Rightarrow> 0 | Some addr \<Rightarrow> addr))"

text \<open>The lookup in one module: below \<open>0x10000\<close> the name argument is an ordinal.\<close>

definition module_proc :: "mapped_image \<Rightarrow> export_table \<Rightarrow> u64 \<Rightarrow> kernel \<Rightarrow> u64" where
  "module_proc img t name k =
     (if name < 0x10000 then
        (case function_rva_by_ordinal t (ucast name) of None \<Rightarrow> 0 | Some rva \<Rightarrow> export_addr img t rva)
      else
        (case read_guest_cstring name k of
           None \<Rightarrow> 0
         | Some symb \<Rightarrow> (case names t symb of None \<Rightarrow> 0 | Some rva \<Rightarrow> export_addr img t rva)))"

end
