(* ===== verification/ExportsSpec.thy ===== *)
theory ExportsSpec
  imports Exports
begin

unbundle bit_operations_syntax

text \<open>
  What an export directory means: a description of the directory in the bytes of the image, and the theorem that
  the table read from it answers every name and every ordinal as the directory says.
\<close>

section \<open>A directory in the bytes of an image\<close>

definition at16 :: "mapped_image \<Rightarrow> kernel \<Rightarrow> nat \<Rightarrow> u16 \<Rightarrow> bool" where
  "at16 img k r v \<longleftrightarrow> r + 2 \<le> unat (isize img) \<and> read_le 2 (ibase img + of_nat r) k = ucast v"

definition at32 :: "mapped_image \<Rightarrow> kernel \<Rightarrow> nat \<Rightarrow> u32 \<Rightarrow> bool" where
  "at32 img k r v \<longleftrightarrow> r + 4 \<le> unat (isize img) \<and> read_le 4 (ibase img + of_nat r) k = ucast v"

definition name_at :: "mapped_image \<Rightarrow> kernel \<Rightarrow> nat \<Rightarrow> u8 list \<Rightarrow> bool" where
  "name_at img k r n \<longleftrightarrow> length n < MAX_NAME_LEN \<and> r + length n < unat (isize img) \<and> 0 \<notin> set n \<and>
     (\<forall>i < length n. byte_at k (ibase img) (r + i) = n ! i) \<and> byte_at k (ibase img) (r + length n) = 0"

text \<open>The headers lead to the directory \<open>dir\<close>, for either size of the optional header.\<close>

definition header_points_to :: "mapped_image \<Rightarrow> kernel \<Rightarrow> export_dir_span \<Rightarrow> bool" where
  "header_points_to img k dir \<longleftrightarrow>
     (\<exists>l magic. at16 img k 0 0x5A4D \<and> at32 img k 0x3C l \<and> at16 img k (unat l + 24) magic \<and>
        (magic = 0x20B \<and> at32 img k (unat l + 136) (dir_rva dir) \<and> at32 img k (unat l + 140) (dir_size dir) \<or>
         magic = 0x10B \<and> at32 img k (unat l + 120) (dir_rva dir) \<and> at32 img k (unat l + 124) (dir_size dir))) \<and>
     dir_rva dir \<noteq> 0"

text \<open>A directory with the functions \<open>fs\<close> from the ordinal \<open>b\<close>, and the names with their indices \<open>es\<close>.\<close>

definition export_directory :: "mapped_image \<Rightarrow> kernel \<Rightarrow> export_dir_span \<Rightarrow> u32 \<Rightarrow> u32 list \<Rightarrow> (u8 list \<times> u16) list \<Rightarrow> bool" where
  "export_directory img k dir b fs es \<longleftrightarrow> header_points_to img k dir \<and>
     (\<exists>af an ao d. d = unat (dir_rva dir) \<and> at32 img k (d + 16) b \<and>
        (\<exists>nf nn. unat nf = length fs \<and> unat nn = length es \<and> at32 img k (d + 20) nf \<and> at32 img k (d + 24) nn) \<and>
        at32 img k (d + 28) af \<and> at32 img k (d + 32) an \<and> at32 img k (d + 36) ao \<and>
        (\<forall>i < length fs. at32 img k (unat af + 4 * i) (fs ! i)) \<and>
        (\<forall>i < length es. unat (snd (es ! i)) < length fs \<and> at16 img k (unat ao + 2 * i) (snd (es ! i)) \<and>
           (\<exists>r. at32 img k (unat an + 4 * i) r \<and> name_at img k (unat r) (fst (es ! i)))))"

text \<open>What a function of the directory stands for: nothing when it is zero, a forwarder or outside the image.\<close>

definition callable :: "mapped_image \<Rightarrow> export_dir_span \<Rightarrow> u32 \<Rightarrow> u64" where
  "callable img dir rva =
     (if rva = 0 \<or> unat (dir_rva dir) \<le> unat rva \<and> unat rva < unat (dir_rva dir) + unat (dir_size dir) \<or>
         unat (isize img) \<le> unat rva
      then 0 else ibase img + of_nat (unat rva))"

section \<open>The readers on a directory\<close>

lemma of_nat_rva: "n < 2 ^ 32 \<Longrightarrow> unat (of_nat n :: u32) = n"
  by (simp add: unat_of_nat take_bit_nat_eq_self)

lemma ucast_back: "ucast (ucast (v :: u32) :: u64) = v" "ucast (ucast (w :: u16) :: u64) = w"
  by (rule bit_word_eqI; simp add: bit_simps)+

lemma read_at32: "at32 img k (unat r) v \<Longrightarrow> read_u32 img r k = Some v"
  by (simp add: at32_def read_u32_def rva_to_ptr_def ucast_back)

lemma read_at16: "at16 img k (unat r) v \<Longrightarrow> read_u16 img r k = Some v"
  by (simp add: at16_def read_u16_def rva_to_ptr_def ucast_back)

lemma at_bound:
  "at32 img k r v \<Longrightarrow> unat (isize img) < 2 ^ 32 \<Longrightarrow> r + 4 < 2 ^ 32"
  "at16 img k r w \<Longrightarrow> unat (isize img) < 2 ^ 32 \<Longrightarrow> r + 2 < 2 ^ 32"
  by (simp_all add: at32_def at16_def)

lemma unat_sat_add: "unat a + n < 2 ^ 32 \<Longrightarrow> unat (sat_add a (of_nat n)) = unat a + n"
  by (simp add: sat_add_def of_nat_rva unat_word_ariths take_bit_nat_eq_self)

lemma checked_add_Some: "unat a + n < 2 ^ 32 \<Longrightarrow> checked_add a (of_nat n) = Some (a + of_nat n)"
  by (simp add: checked_add_def of_nat_rva)

lemma unat_plus: "unat a + n < 2 ^ 32 \<Longrightarrow> unat ((a :: u32) + of_nat n) = unat a + n"
  by (simp add: of_nat_rva unat_word_ariths take_bit_nat_eq_self)

lemma unat_elem:
  assumes "unat a + m * i < 2 ^ 32" and "i < 2 ^ 32" and "m < 2 ^ 32"
  shows "unat (elem_rva a (of_nat i) (of_nat m)) = unat a + m * i"
proof -
  have "i * m < 2 ^ 32" using assms(1) by (simp add: mult.commute)
  then have "sat_mul (of_nat i) (of_nat m) = of_nat (m * i)"
    using assms(2,3) by (simp add: sat_mul_def of_nat_rva mult.commute)
  then show ?thesis using unat_sat_add [OF assms(1)] by (simp add: elem_rva_def)
qed

lemma read_nul_name:
  "r + length n < unat (isize img) \<Longrightarrow> unat (isize img) < 2 ^ 32 \<Longrightarrow> 0 \<notin> set n \<Longrightarrow>
    (\<forall>i < length n. byte_at k (ibase img) (r + i) = n ! i) \<Longrightarrow> byte_at k (ibase img) (r + length n) = 0 \<Longrightarrow>
    length n < m \<Longrightarrow> read_nul m img (of_nat r) k = Some n"
proof (induction n arbitrary: r m)
  case Nil
  then obtain m' where "m = Suc m'" by (cases m) auto
  then show ?case using Nil by (simp add: rva_to_ptr_def of_nat_rva)
next
  case (Cons x n)
  then obtain m' where m: "m = Suc m'" by (cases m) auto
  have r: "r + 1 < 2 ^ 32" "unat (of_nat r :: u32) = r" using Cons.prems(1,2) by (simp_all add: of_nat_rva)
  have x: "byte_at k (ibase img) r = x" using Cons.prems(4) by (metis add_0_right length_greater_0_conv list.distinct(1) nth_Cons_0)
  have "read_nul m' img (of_nat (Suc r)) k = Some n"
  proof (rule Cons.IH)
    show "\<forall>i < length n. byte_at k (ibase img) (Suc r + i) = n ! i" using Cons.prems(4) by fastforce
  qed (use Cons.prems m in auto)
  moreover have "checked_add (of_nat r) 1 = Some (of_nat (Suc r))"
    using checked_add_Some [of "of_nat r" 1] r by (simp add: add.commute)
  ultimately show ?case using x r Cons.prems(1,3) by (simp add: m rva_to_ptr_def)
qed

lemma read_name: "name_at img k (unat r) n \<Longrightarrow> unat (isize img) < 2 ^ 32 \<Longrightarrow> read_bytes_nul img r k = Some n"
  using read_nul_name [of "unat r" n img k MAX_NAME_LEN] by (simp add: name_at_def read_bytes_nul_def)

lemma locate_header:
  assumes "header_points_to img k dir" and "unat (isize img) < 2 ^ 32"
  shows "locate_export_dir img k = Some dir"
proof -
  obtain l magic where h: "at16 img k 0 0x5A4D" "at32 img k 0x3C l" "at16 img k (unat l + 24) magic"
    and m: "magic = 0x20B \<and> at32 img k (unat l + 136) (dir_rva dir) \<and> at32 img k (unat l + 140) (dir_size dir) \<or>
         magic = 0x10B \<and> at32 img k (unat l + 120) (dir_rva dir) \<and> at32 img k (unat l + 124) (dir_size dir)"
    and nz: "dir_rva dir \<noteq> 0"
    using assms(1) unfolding header_points_to_def by blast
  have l: "unat l + 124 < 2 ^ 32" using m at_bound(1) [OF _ assms(2)] by fastforce
  have 0: "read_u16 img 0 k = Some 0x5A4D" "read_u32 img 0x3C k = Some l"
    using read_at16 [of img k 0] read_at32 [of img k "0x3C"] h(1,2) by simp_all
  have plus: "checked_add (l + of_nat m) (of_nat n) = Some (l + of_nat (m + n))" "unat (l + of_nat (m + n)) = unat l + (m + n)"
    if "unat l + (m + n) < 2 ^ 32" for m n
  proof -
    have "unat (l + of_nat m) = unat l + m" using that by (intro unat_plus) simp
    then show "checked_add (l + of_nat m) (of_nat n) = Some (l + of_nat (m + n))"
      using checked_add_Some [of "l + of_nat m" n] that by (simp add: add.assoc)
    show "unat (l + of_nat (m + n)) = unat l + (m + n)" by (rule unat_plus [OF that])
  qed
  have 1: "checked_add l 4 = Some (l + 4)" "checked_add (l + 4) 20 = Some (l + 24)" "unat (l + 24) = unat l + 24"
    using plus [of 0 4] plus [of 4 20] l by simp_all
  have 2: "read_u16 img (l + 24) k = Some magic" using read_at16 [of img k "l + 24"] h(3) 1(3) by simp
  have 3: "read_export_dir_at img (l + of_nat n) k = Some dir"
    if "at32 img k (unat l + n) (dir_rva dir)" "at32 img k (unat l + (n + 4)) (dir_size dir)" for n
  proof -
    have b: "unat l + (n + 4) < 2 ^ 32" using at_bound(1) [OF that(2) assms(2)] by simp
    have "unat (l + of_nat n) = unat l + n" using b by (intro unat_plus) simp
    then have "read_u32 img (l + of_nat n) k = Some (dir_rva dir)" "read_u32 img (l + of_nat (n + 4)) k = Some (dir_size dir)"
      using that plus(2) [OF b] by (auto intro!: read_at32 simp del: of_nat_add)
    then show ?thesis using plus(1) [OF b] nz by (simp add: read_export_dir_at_def)
  qed
  from m show ?thesis
  proof (elim disjE conjE)
    assume a: "magic = 0x20B" "at32 img k (unat l + 136) (dir_rva dir)" "at32 img k (unat l + 140) (dir_size dir)"
    then have "checked_add (l + 24) 112 = Some (l + 136)" using plus(1) [of 24 112] at_bound(1) [OF a(2) assms(2)] by simp
    then show ?thesis using 0 1 2 a 3 [of 136] by (simp add: locate_export_dir_def)
  next
    assume a: "magic = 0x10B" "at32 img k (unat l + 120) (dir_rva dir)" "at32 img k (unat l + 124) (dir_size dir)"
    then have "checked_add (l + 24) 96 = Some (l + 120)" using plus(1) [of 24 96] at_bound(1) [OF a(2) assms(2)] by simp
    then show ?thesis using 0 1 2 a 3 [of 120] by (simp add: locate_export_dir_def)
  qed
qed

section \<open>The table\<close>

lemma collect_names_map:
  assumes "\<And>i. i < length xs \<Longrightarrow> ex i = Some (xs ! i)" and "distinct (map fst xs)"
  shows "collect_names ex [0..<length xs] Map.empty = map_of xs"
proof -
  have run: "collect_names ex is m = fold (\<lambda>(n, f) m. m(n \<mapsto> f)) (map (nth xs) is) m" if "set is \<subseteq> {..<length xs}" for "is" m
    using that by (induction "is" arbitrary: m) (auto simp: assms(1) split: prod.split)
  have upd: "distinct (map fst ys) \<Longrightarrow> fold (\<lambda>(n, f) m. m(n \<mapsto> f)) ys m = m ++ map_of ys" for ys :: "('a \<times> 'b) list" and m
  proof (induction ys arbitrary: m)
    case (Cons y ys)
    obtain n f where y: "y = (n, f)" by fastforce
    have "map_of ys n = None" using Cons.prems by (simp add: y map_of_eq_None_iff)
    then have "m(n \<mapsto> f) ++ map_of ys = m ++ map_of (y # ys)"
      by (auto simp: y map_add_def fun_eq_iff split: option.split)
    moreover have "fold (\<lambda>(n, f) m. m(n \<mapsto> f)) (y # ys) m = m(n \<mapsto> f) ++ map_of ys"
      using Cons.IH [of "m(n \<mapsto> f)"] Cons.prems by (simp only: y fold_simps prod.case list.map distinct.simps simp_thms)
    ultimately show ?case by (rule trans [rotated])
  qed simp
  have "map (nth xs) [0..<length xs] = xs" by (rule map_nth)
  then show ?thesis using run [of "[0..<length xs]" Map.empty] upd [OF assms(2), of Map.empty] by (simp add: atLeast_upt)
qed

lemma map_filter_all: "(\<And>i. i < length xs \<Longrightarrow> f i = Some (xs ! i)) \<Longrightarrow> List.map_filter f [0..<length xs] = xs"
proof -
  assume f: "\<And>i. i < length xs \<Longrightarrow> f i = Some (xs ! i)"
  have "List.map_filter f is = map (nth xs) is" if "set is \<subseteq> {..<length xs}" for "is"
    using that by (induction "is") (simp_all add: f map_filter_simps)
  from this [of "[0..<length xs]"] show ?thesis by (simp add: atLeast_upt map_nth)
qed

lemma parse_directory:
  assumes "export_directory img k dir b fs es" and "distinct (map fst es)" and "unat (isize img) < 2 ^ 32"
  shows "parse_export_table img k = \<lparr>names = map_of (map (\<lambda>(n, i). (n, fs ! unat i)) es), function_rvas = fs, ordinal_base = b,
    export_dir = dir\<rparr>"
proof -
  let ?d = "unat (dir_rva dir)" and ?es = "map (\<lambda>(n, i). (n, fs ! unat i)) es"
  obtain af an ao nf nn where E: "at32 img k (?d + 16) b" "unat nf = length fs" "unat nn = length es" "at32 img k (?d + 20) nf"
    "at32 img k (?d + 24) nn" "at32 img k (?d + 28) af" "at32 img k (?d + 32) an" "at32 img k (?d + 36) ao"
    and F: "\<And>i. i < length fs \<Longrightarrow> at32 img k (unat af + 4 * i) (fs ! i)"
    and N: "\<And>i. i < length es \<Longrightarrow> unat (snd (es ! i)) < length fs \<and> at16 img k (unat ao + 2 * i) (snd (es ! i)) \<and>
      (\<exists>r. at32 img k (unat an + 4 * i) r \<and> name_at img k (unat r) (fst (es ! i)))"
    using assms(1) unfolding export_directory_def by blast
  have field: "read_u32 img (sat_add (dir_rva dir) (of_nat n)) k = Some v" if "at32 img k (?d + n) v" for n v
    using at_bound(1) [OF that assms(3)] that by (intro read_at32) (simp add: unat_sat_add)
  have small: "length fs < 2 ^ 32" "length es < 2 ^ 32"
    using E(2,3) unsigned_less [of nf, where ?'a = nat] unsigned_less [of nn, where ?'a = nat] by simp_all
  have func: "read_u32 img (elem_rva af (of_nat i) 4) k = Some (fs ! i)" if "i < length fs" for i
    using F [OF that] at_bound(1) [OF F [OF that] assms(3)] small(1) that unat_elem [of af 4 i] by (intro read_at32) simp
  have named: "named_export img af an ao k i = Some (?es ! i)" if i: "i < length es" for i
  proof -
    obtain r where n: "unat (snd (es ! i)) < length fs" "at16 img k (unat ao + 2 * i) (snd (es ! i))"
      "at32 img k (unat an + 4 * i) r" "name_at img k (unat r) (fst (es ! i))" using N [OF i] by blast
    have "read_u32 img (elem_rva an (of_nat i) 4) k = Some r"
      using n(3) at_bound(1) [OF n(3) assms(3)] small(2) i unat_elem [of an 4 i] by (intro read_at32) simp
    moreover have "read_u16 img (elem_rva ao (of_nat i) 2) k = Some (snd (es ! i))"
      using n(2) at_bound(2) [OF n(2) assms(3)] small(2) i unat_elem [of ao 2 i] by (intro read_at16) simp
    moreover have "(ucast (snd (es ! i)) :: u32) = of_nat (unat (snd (es ! i)))" by simp
    ultimately show ?thesis using func [OF n(1)] read_name [OF n(4) assms(3)] i
      by (simp add: named_export_def case_prod_beta)
  qed
  have hdr: "locate_export_dir img k = Some dir"
    using locate_header [OF _ assms(3)] assms(1) unfolding export_directory_def by blast
  have "distinct (map fst ?es)" using assms(2) by (simp add: case_prod_unfold comp_def)
  then have names: "collect_names (named_export img af an ao k) [0..<unat nn] Map.empty = map_of ?es"
    using collect_names_map [of ?es "named_export img af an ao k"] named E(3) by simp
  have funcs: "List.map_filter (\<lambda>i. read_u32 img (elem_rva af (of_nat i) 4) k) [0..<unat nf] = fs"
    using map_filter_all [of fs "\<lambda>i. read_u32 img (elem_rva af (of_nat i) 4) k"] func E(2) by simp
  have fields: "read_u32 img (sat_add (dir_rva dir) 16) k = Some b" "read_u32 img (sat_add (dir_rva dir) 20) k = Some nf"
    "read_u32 img (sat_add (dir_rva dir) 24) k = Some nn" "read_u32 img (sat_add (dir_rva dir) 28) k = Some af"
    "read_u32 img (sat_add (dir_rva dir) 32) k = Some an" "read_u32 img (sat_add (dir_rva dir) 36) k = Some ao"
    using field [OF E(1)] field [OF E(4)] field [OF E(5)] field [OF E(6)] field [OF E(7)] field [OF E(8)] by simp_all
  show ?thesis by (simp add: parse_export_table_def hdr fields names funcs Let_def)
qed

lemma directory_names:
  assumes "export_directory img k dir b fs es" and "(m, i) \<in> set es"
  shows "length m < MAX_NAME_LEN"
proof -
  obtain j where j: "j < length es" "es ! j = (m, i)" using assms(2) by (auto simp: in_set_conv_nth)
  have "\<exists>r. name_at img k r (fst (es ! j))"
    using assms(1) j(1) unfolding export_directory_def by (elim conjE exE) blast
  then show ?thesis unfolding name_at_def j(2) fst_conv by (elim exE conjE)
qed

lemma export_addr_callable: "export_dir t = dir \<Longrightarrow> unat (dir_rva dir) + unat (dir_size dir) < 2 ^ 32 \<Longrightarrow> export_addr img t rva = callable img dir rva"
  using unat_sat_add [of "dir_rva dir" "unat (dir_size dir)"]
  by (auto simp: export_addr_def callable_def rva_to_ptr_def Let_def word_le_nat_alt word_less_nat_alt)

text \<open>The zero-terminated name of the guest.\<close>

definition cstring_at :: "kernel \<Rightarrow> u64 \<Rightarrow> u8 list \<Rightarrow> bool" where
  "cstring_at k p n \<longleftrightarrow> 0 \<notin> set n \<and> (\<forall>i < length n. byte_at k p i = n ! i) \<and> byte_at k p (length n) = 0"

lemma read_cstring_at: "cstring_at k p n \<Longrightarrow> read_cstring m p k = take m n"
proof (induction m p k arbitrary: n rule: read_cstring.induct)
  case (2 m p k)
  show ?case
  proof (cases n)
    case Nil
    then show ?thesis using "2.prems" by (simp add: cstring_at_def)
  next
    case (Cons x n')
    have x: "guest k p = x" "x \<noteq> 0" using "2.prems" by (auto simp: cstring_at_def Cons)
    have "cstring_at k (p + 1) n'"
      using "2.prems" by (fastforce simp: cstring_at_def Cons add.assoc)
    then show ?thesis using "2.IH" x by (simp add: Cons)
  qed
qed simp

text \<open>C11. Asked for a name, a module loaded with the directory gives the address of the function the directory lists under it,
  and asked for an ordinal the address of the function at its place; the address is null when there is none, when the
  entry forwards to another module and when it is outside the image.\<close>

theorem exports_exact:
  assumes "export_directory img k dir b fs es" and "distinct (map fst es)"
    and "unat (isize img) < 2 ^ 32" and "unat (dir_rva dir) + unat (dir_size dir) < 2 ^ 32"
  defines "t \<equiv> parse_export_table img k"
  shows "(\<forall>p n k'. 0x10000 \<le> p \<longrightarrow> cstring_at k' p n \<longrightarrow>
      module_proc img t p k' = (case map_of es n of None \<Rightarrow> 0 | Some i \<Rightarrow> callable img dir (fs ! unat i))) \<and>
    (\<forall>ord k'. ord < 0x10000 \<longrightarrow> module_proc img t ord k' =
      (if unat b \<le> unat ord \<and> unat ord - unat b < length fs then callable img dir (fs ! (unat ord - unat b)) else 0))"
proof -
  note T = parse_directory [OF assms(1-3), folded t_def]
  have addr: "export_addr img t rva = callable img dir rva" for rva by (rule export_addr_callable [OF _ assms(4)]) (simp add: T)
  note long = directory_names [OF assms(1)]
  have by_name: "module_proc img t p k' = (case map_of es n of None \<Rightarrow> 0 | Some i \<Rightarrow> callable img dir (fs ! unat i))"
    if p: "0x10000 \<le> p" "cstring_at k' p n" for p n k'
  proof -
    have "p \<noteq> 0" "\<not> p < 0x10000" using p(1) by auto
    then have code: "module_proc img t p k' = (case names t (take MAX_NAME_LEN n) of None \<Rightarrow> 0 | Some rva \<Rightarrow> callable img dir rva)"
      using read_cstring_at [OF p(2)] by (simp add: module_proc_def read_guest_cstring_def addr split: option.split)
    have "map_of es (take MAX_NAME_LEN n) = map_of es n"
    proof (cases "length n < MAX_NAME_LEN")
      case False
      have "map_of es m = None" if "\<not> length m < MAX_NAME_LEN" for m using long that by (fastforce simp: map_of_eq_None_iff)
      from this [of n] this [of "take MAX_NAME_LEN n"] False show ?thesis by simp
    qed simp
    moreover have "names t m = map_option (\<lambda>i. fs ! unat i) (map_of es m)" for m
      using map_of_map [of "\<lambda>i. fs ! unat i" es] by (simp add: T)
    ultimately show ?thesis by (simp add: code split: option.split)
  qed
  have by_ord: "module_proc img t ord k' =
      (if unat b \<le> unat ord \<and> unat ord - unat b < length fs then callable img dir (fs ! (unat ord - unat b)) else 0)"
    if o: "ord < 0x10000" for ord k'
  proof -
    have "unat ord < 0x10000" using o by (simp add: word_less_nat_alt)
    then have u: "unat (ucast ord :: u32) = unat ord" by (simp add: unsigned_ucast_eq take_bit_nat_eq_self)
    show ?thesis using o u by (auto simp: module_proc_def function_rva_by_ordinal_def T addr [unfolded T] word_less_nat_alt word_le_nat_alt unat_sub)
  qed
  show ?thesis using by_name by_ord by blast
qed

lemma directoryI:
  assumes "header_points_to img k dir" and "unat nf = length fs" and "unat nn = length es"
    and "at32 img k (unat (dir_rva dir) + 16) b" and "at32 img k (unat (dir_rva dir) + 20) nf"
    and "at32 img k (unat (dir_rva dir) + 24) nn" and "at32 img k (unat (dir_rva dir) + 28) af"
    and "at32 img k (unat (dir_rva dir) + 32) an" and "at32 img k (unat (dir_rva dir) + 36) ao"
    and "\<And>i. i < length fs \<Longrightarrow> at32 img k (unat af + 4 * i) (fs ! i)"
    and "\<And>i. i < length es \<Longrightarrow> unat (snd (es ! i)) < length fs"
    and "\<And>i. i < length es \<Longrightarrow> at16 img k (unat ao + 2 * i) (snd (es ! i))"
    and "\<And>i. i < length es \<Longrightarrow> at32 img k (unat an + 4 * i) (r i)"
    and "\<And>i. i < length es \<Longrightarrow> name_at img k (unat (r i)) (fst (es ! i))"
  shows "export_directory img k dir b fs es"
  unfolding export_directory_def using assms by blast

text \<open>An image at \<open>0x10000\<close> with one function, at \<open>0x200\<close>, exported as \<open>f\<close> and by the ordinal 1.\<close>

definition demo_exports :: "(u64 \<times> u8) list" where
  "demo_exports =
    [(0x10000, 0x4D), (0x10001, 0x5A), (0x1003C, 0x40), (0x10058, 0x0B), (0x10059, 2), (0x100C9, 1), (0x100CC, 0x40),
     (0x10110, 1), (0x10114, 1), (0x10118, 1), (0x1011C, 0x28), (0x1011D, 1), (0x10120, 0x2C), (0x10121, 1),
     (0x10124, 0x30), (0x10125, 1), (0x10129, 2), (0x1012C, 0x34), (0x1012D, 1), (0x10134, 0x66), (0x20000, 0x66)]"

definition demo_module :: kernel where
  "demo_module = kernel_new\<lparr>guest := (\<lambda>a. case map_of demo_exports a of None \<Rightarrow> 0 | Some b \<Rightarrow> b)\<rparr>"

definition demo_image :: mapped_image where
  "demo_image = \<lparr>ibase = 0x10000, isize = 0x400, preferred_base = 0x10000\<rparr>"

lemma demo_directory: "export_directory demo_image demo_module \<lparr>dir_rva = 0x100, dir_size = 0x40\<rparr> 1 [0x200] [([0x66], 0)]"
proof -
  have bytes: "guest demo_module = (\<lambda>a. case map_of demo_exports a of None \<Rightarrow> 0 | Some b \<Rightarrow> b)" by (simp add: demo_module_def)
  have u16: "at16 demo_image demo_module 0 0x5A4D" "at16 demo_image demo_module 0x58 0x20B" "at16 demo_image demo_module 0x130 0"
    by (simp_all add: at16_def demo_image_def read_le_2 bytes demo_exports_def)
  have u32: "at32 demo_image demo_module 0x3C 0x40" "at32 demo_image demo_module 0xC8 0x100" "at32 demo_image demo_module 0xCC 0x40"
    "at32 demo_image demo_module 0x110 1" "at32 demo_image demo_module 0x114 1" "at32 demo_image demo_module 0x118 1"
    "at32 demo_image demo_module 0x11C 0x128" "at32 demo_image demo_module 0x120 0x12C" "at32 demo_image demo_module 0x124 0x130"
    "at32 demo_image demo_module 0x128 0x200" "at32 demo_image demo_module 0x12C 0x134"
    by (simp_all add: at32_def demo_image_def read_le_4 bytes demo_exports_def)
  have name: "name_at demo_image demo_module 0x134 [0x66]"
    by (simp add: name_at_def demo_image_def MAX_NAME_LEN_def bytes demo_exports_def)
  have "header_points_to demo_image demo_module \<lparr>dir_rva = 0x100, dir_size = 0x40\<rparr>"
    unfolding header_points_to_def using u16(1,2) u32(1-3) by (intro conjI exI [of _ "0x40"] exI [of _ "0x20B :: u16"]) simp_all
  moreover have "at32 demo_image demo_module (unat (0x128 :: u32) + 4 * i) ([0x200] ! i)" if "i < length [0x200 :: u32]" for i
    using u32(10) that by simp
  moreover have "unat (snd ([([0x66 :: u8], 0 :: u16)] ! i)) < length [0x200 :: u32]"
    "at16 demo_image demo_module (unat (0x130 :: u32) + 2 * i) (snd ([([0x66 :: u8], 0 :: u16)] ! i))"
    "at32 demo_image demo_module (unat (0x12C :: u32) + 4 * i) 0x134"
    "name_at demo_image demo_module (unat (0x134 :: u32)) (fst ([([0x66 :: u8], 0 :: u16)] ! i))"
    if "i < length [([0x66 :: u8], 0 :: u16)]" for i
    using u16(3) u32(11) name that by simp_all
  ultimately show ?thesis using u32(4-9)
    by (intro directoryI [where af = "0x128" and an = "0x12C" and ao = "0x130" and nf = 1 and nn = 1 and r = "\<lambda>_. 0x134"]) simp_all
qed

theorem exports_exact_witness:
  "module_proc demo_image (parse_export_table demo_image demo_module) 0x20000 demo_module = 0x10200 \<and>
   module_proc demo_image (parse_export_table demo_image demo_module) 1 demo_module = 0x10200 \<and>
   module_proc demo_image (parse_export_table demo_image demo_module) 2 demo_module = 0"
proof -
  have P: "distinct (map fst [([0x66 :: u8], 0 :: u16)])" "unat (isize demo_image) < 2 ^ 32"
    "unat (dir_rva \<lparr>dir_rva = 0x100, dir_size = 0x40\<rparr>) + unat (dir_size \<lparr>dir_rva = 0x100, dir_size = 0x40\<rparr>) < 2 ^ 32"
    by (simp_all add: demo_image_def)
  note X = exports_exact [OF demo_directory P]
  have "cstring_at demo_module 0x20000 [0x66]"
    by (simp add: cstring_at_def demo_module_def demo_exports_def)
  then have "module_proc demo_image (parse_export_table demo_image demo_module) 0x20000 demo_module = 0x10200"
    using X [THEN conjunct1, rule_format, of "0x20000" demo_module "[0x66]"] by (simp add: callable_def demo_image_def)
  moreover have "module_proc demo_image (parse_export_table demo_image demo_module) 1 demo_module = 0x10200"
    using X [THEN conjunct2, rule_format, of 1 demo_module] by (simp add: callable_def demo_image_def)
  moreover have "module_proc demo_image (parse_export_table demo_image demo_module) 2 demo_module = 0"
    using X [THEN conjunct2, rule_format, of 2 demo_module] by simp
  ultimately show ?thesis by blast
qed

end
