(* ===== verification/DllLoad.thy ===== *)
theory DllLoad
  imports Guest
begin

text \<open>
  The module calls of kernel32, \<^verbatim>\<open>crates/win32-kernel32/src/dllload.rs\<close>, and the module handles of
  \<^verbatim>\<open>crates/win32-kernel32/src/process.rs\<close>. The functions of the loader that are registered at start are the
  record \<open>bridge\<close>, on a state of the loader's; an unregistered one is \<open>None\<close>, and a call that panics gives \<open>None\<close>. The
  case mapping of the standard library is the argument \<open>lower\<close>. Paths and names are strings of Unicode code points.
\<close>

section \<open>Strings of the guest\<close>

text \<open>The decoder of the standard library: an ill-formed sequence, as far as it is the start of a well-formed one, becomes
  one replacement character.\<close>

abbreviation replacement :: nat where "replacement \<equiv> 0xFFFD"

definition second_ok :: "u8 \<Rightarrow> u8 \<Rightarrow> bool" where
  "second_ok a b \<longleftrightarrow>
     (if a = 0xE0 then 0xA0 \<le> b \<and> b \<le> 0xBF
      else if a = 0xED then 0x80 \<le> b \<and> b \<le> 0x9F
      else if a = 0xF0 then 0x90 \<le> b \<and> b \<le> 0xBF
      else if a = 0xF4 then 0x80 \<le> b \<and> b \<le> 0x8F
      else 0x80 \<le> b \<and> b \<le> 0xBF)"

fun from_utf8_lossy :: "u8 list \<Rightarrow> rstring" where
  "from_utf8_lossy [] = []"
| "from_utf8_lossy (a # bs) =
     (if unat a < 0x80 then unat a # from_utf8_lossy bs
      else if 0xC2 \<le> unat a \<and> unat a < 0xE0 then
        (case bs of
           b # r \<Rightarrow>
             if second_ok a b then ((unat a - 0xC0) * 0x40 + (unat b - 0x80)) # from_utf8_lossy r
             else replacement # from_utf8_lossy bs
         | [] \<Rightarrow> [replacement])
      else if 0xE0 \<le> unat a \<and> unat a < 0xF0 then
        (case bs of
           b # bs1 \<Rightarrow>
             if second_ok a b then
               (case bs1 of
                  c # r \<Rightarrow>
                    if cont c \<noteq> None
                    then ((unat a - 0xE0) * 0x1000 + (unat b - 0x80) * 0x40 + (unat c - 0x80)) # from_utf8_lossy r
                    else replacement # from_utf8_lossy bs1
                | [] \<Rightarrow> [replacement])
             else replacement # from_utf8_lossy bs
         | [] \<Rightarrow> [replacement])
      else if 0xF0 \<le> unat a \<and> unat a < 0xF5 then
        (case bs of
           b # bs1 \<Rightarrow>
             if second_ok a b then
               (case bs1 of
                  c # bs2 \<Rightarrow>
                    if cont c \<noteq> None then
                      (case bs2 of
                         d # r \<Rightarrow>
                           if cont d \<noteq> None
                           then ((unat a - 0xF0) * 0x40000 + (unat b - 0x80) * 0x1000 + (unat c - 0x80) * 0x40 + (unat d - 0x80))
                             # from_utf8_lossy r
                           else replacement # from_utf8_lossy bs2
                       | [] \<Rightarrow> [replacement])
                    else replacement # from_utf8_lossy bs1
                | [] \<Rightarrow> [replacement])
             else replacement # from_utf8_lossy bs
         | [] \<Rightarrow> [replacement])
      else replacement # from_utf8_lossy bs)"

abbreviation MAX_GUEST_STR :: nat where "MAX_GUEST_STR \<equiv> 32768"

text \<open>At most \<open>n\<close> more elements of \<open>stride\<close> bytes.\<close>

fun guest_elems :: "nat \<Rightarrow> nat \<Rightarrow> u64 \<Rightarrow> kernel \<Rightarrow> u8 list" where
  "guest_elems 0 stride p k = []"
| "guest_elems (Suc n) stride p k =
     (let b0 = guest k p; b1 = (if stride = 2 then guest k (p + 1) else 0) in
      if b0 = 0 \<and> b1 = 0 then []
      else b0 # (if stride = 2 then [b1] else []) @ guest_elems n stride (p + of_nat stride) k)"

definition guest_cstring :: "u64 \<Rightarrow> nat \<Rightarrow> kernel \<Rightarrow> u8 list option" where
  "guest_cstring name stride k = (if name = 0 then None else Some (guest_elems (MAX_GUEST_STR div stride) stride name k))"

fun units_of :: "u8 list \<Rightarrow> u16 list" where
  "units_of (a # b # bs) = (ucast a + push_bit 8 (ucast b)) # units_of bs"
| "units_of bs = []"

definition read_guest_str_a :: "u64 \<Rightarrow> kernel \<Rightarrow> rstring option" where
  "read_guest_str_a name k = map_option from_utf8_lossy (guest_cstring name 1 k)"

definition read_guest_str_w :: "u64 \<Rightarrow> kernel \<Rightarrow> rstring option" where
  "read_guest_str_w name k = map_option (\<lambda>bs. from_utf16_lossy (units_of bs)) (guest_cstring name 2 k)"

section \<open>The search path\<close>

abbreviation slash :: nat where "slash \<equiv> 0x2F"

definition path_join :: "rstring \<Rightarrow> rstring \<Rightarrow> rstring" where
  "path_join dir name =
     (if name \<noteq> [] \<and> hd name = slash then name
      else if dir = [] \<or> last dir = slash then dir @ name
      else dir @ [slash] @ name)"

text \<open>The string from a byte index on; an index inside a character is a panic.\<close>

fun str_from :: "nat \<Rightarrow> rstring \<Rightarrow> rstring option" where
  "str_from n [] = (if n = 0 then Some [] else None)"
| "str_from n (c # s) =
     (if n = 0 then Some (c # s)
      else let w = length (utf8_char c) in if w \<le> n then str_from (n - w) s else None)"

definition ascii_lower :: "nat \<Rightarrow> nat" where
  "ascii_lower c = (if 0x41 \<le> c \<and> c \<le> 0x5A then c + 0x20 else c)"

definition eq_ignore_ascii_case :: "rstring \<Rightarrow> rstring \<Rightarrow> bool" where
  "eq_ignore_ascii_case a b \<longleftrightarrow> map ascii_lower a = map ascii_lower b"

abbreviation dot_dll :: rstring where "dot_dll \<equiv> map of_char ''.dll''"

definition push_candidates :: "rstring \<Rightarrow> rstring list \<Rightarrow> rstring list option" where
  "push_candidates b out =
     (let n = length (utf8 b) in
      if 4 \<le> n then
        (case str_from (n - 4) b of
           None \<Rightarrow> None
         | Some ext \<Rightarrow> Some (out @ [b] @ (if eq_ignore_ascii_case ext dot_dll then [] else [b @ dot_dll])))
      else Some (out @ [b, b @ dot_dll]))"

fun split_list :: "rstring \<Rightarrow> rstring list" where
  "split_list [] = [[]]"
| "split_list (c # s) =
     (if c = 0x3A \<or> c = 0x3B then [] # split_list s
      else (case split_list s of p # ps \<Rightarrow> (c # p) # ps | [] \<Rightarrow> [[c]]))"

definition search_dirs :: "rstring option \<Rightarrow> rstring option \<Rightarrow> rstring list" where
  "search_dirs exe_dir dll_path =
     (case exe_dir of None \<Rightarrow> [] | Some d \<Rightarrow> [d]) @
     (case dll_path of None \<Rightarrow> [] | Some l \<Rightarrow> filter (\<lambda>s. s \<noteq> []) (split_list l)) @ [[0x2E]]"

text \<open>The candidates for a name, with the list of the search directories; \<open>None\<close> for the panic.\<close>

definition candidate_paths :: "rstring list \<Rightarrow> rstring \<Rightarrow> rstring list option" where
  "candidate_paths dirs name =
     (let normalized = map (\<lambda>c. if c = 0x5C then slash else c) name in
      if slash \<in> set normalized then push_candidates normalized []
      else fold (\<lambda>dir acc. Option.bind acc (push_candidates (path_join dir normalized))) dirs (Some []))"

section \<open>Module handles\<close>

definition exe_base :: "u64 option \<Rightarrow> u64" where
  "exe_base registered = (case registered of None \<Rightarrow> 0x140000000 | Some b \<Rightarrow> b)"

definition register_exe_base :: "u64 \<Rightarrow> u64 option \<Rightarrow> u64 option" where
  "register_exe_base b registered = (case registered of None \<Rightarrow> Some b | Some b' \<Rightarrow> Some b')"

definition is_one_of :: "string list \<Rightarrow> rstring \<Rightarrow> bool" where
  "is_one_of names n \<longleftrightarrow> n \<in> map of_char ` set names"

definition api_set_prefix :: "rstring \<Rightarrow> bool" where
  "api_set_prefix n \<longleftrightarrow> take 11 n = map of_char ''api-ms-win-''"

definition resolve_module_handle :: "u64 option \<Rightarrow> (rstring \<Rightarrow> rstring) \<Rightarrow> rstring \<Rightarrow> u64" where
  "resolve_module_handle registered lower name =
     (let exe = exe_base registered; n = lower name in
      if name = [] then exe
      else if is_one_of [''kernel32.dll'', ''kernel32''] n then exe + 0x1000
      else if is_one_of [''ntdll.dll'', ''ntdll''] n then exe + 0x2000
      else if is_one_of [''kernelbase.dll'', ''kernelbase''] n then exe + 0x3000
      else if api_set_prefix n then exe + 0x1000
      else if is_one_of [''user32.dll'', ''user32''] n then exe + 0x4000
      else if is_one_of [''gdi32.dll'', ''gdi32''] n then exe + 0x5000
      else if is_one_of [''advapi32.dll'', ''advapi32''] n then exe + 0x6000
      else 0)"

definition bytes_to_string :: "u64 \<Rightarrow> kernel \<Rightarrow> rstring option" where
  "bytes_to_string p k =
     (if p = 0 then Some [] else map_option (\<lambda>n. from_utf8_lossy (load_bytes n p k)) (nul_len 1 p k 0))"

definition get_module_handle_w :: "u64 option \<Rightarrow> (rstring \<Rightarrow> rstring) \<Rightarrow> u64 \<Rightarrow> kernel \<Rightarrow> u64 option" where
  "get_module_handle_w registered lower p k = map_option (resolve_module_handle registered lower) (utf16_to_string p k)"

definition get_module_handle_a :: "u64 option \<Rightarrow> (rstring \<Rightarrow> rstring) \<Rightarrow> u64 \<Rightarrow> kernel \<Rightarrow> u64 option" where
  "get_module_handle_a registered lower p k = map_option (resolve_module_handle registered lower) (bytes_to_string p k)"

text \<open>The arguments of the host, quoted where they hold a blank.\<close>

definition quote_arg :: "rstring \<Rightarrow> rstring" where
  "quote_arg a = (if 0x20 \<in> set a \<or> 0x09 \<in> set a then [0x22] @ a @ [0x22] else a)"

fun join_args :: "rstring list \<Rightarrow> rstring" where
  "join_args [] = []"
| "join_args [a] = a"
| "join_args (a # as) = a @ [0x20] @ join_args as"

definition build_command_line :: "rstring list \<Rightarrow> rstring" where
  "build_command_line args = (if args = [] then [] else join_args (map quote_arg args))"

section \<open>The calls\<close>

record 's bridge =
  load_dll_fn :: "(rstring \<Rightarrow> bool \<Rightarrow> 's \<Rightarrow> (u64 \<times> 's) option) option"
  get_proc_address_fn :: "(u64 \<Rightarrow> u64 \<Rightarrow> 's \<Rightarrow> (u64 \<times> 's) option) option"
  free_library_fn :: "(u64 \<Rightarrow> 's \<Rightarrow> (bool \<times> 's) option) option"
  set_error :: "u32 \<Rightarrow> 's \<Rightarrow> 's"

definition register_fns :: "'s bridge \<Rightarrow> 's bridge \<Rightarrow> 's bridge" where
  "register_fns new old = old\<lparr>
     load_dll_fn := (case load_dll_fn old of None \<Rightarrow> load_dll_fn new | f \<Rightarrow> f),
     get_proc_address_fn := (case get_proc_address_fn old of None \<Rightarrow> get_proc_address_fn new | f \<Rightarrow> f),
     free_library_fn := (case free_library_fn old of None \<Rightarrow> free_library_fn new | f \<Rightarrow> f)\<rparr>"

abbreviation ERROR_MOD_NOT_FOUND :: u32 where "ERROR_MOD_NOT_FOUND \<equiv> 126"
abbreviation ERROR_PROC_NOT_FOUND :: u32 where "ERROR_PROC_NOT_FOUND \<equiv> 127"
abbreviation ERROR_INVALID_NAME :: u32 where "ERROR_INVALID_NAME \<equiv> 123"

text \<open>The candidates in turn, until the loader takes one.\<close>

fun first_loaded :: "(rstring \<Rightarrow> bool \<Rightarrow> 's \<Rightarrow> (u64 \<times> 's) option) \<Rightarrow> bool \<Rightarrow> rstring list \<Rightarrow> 's \<Rightarrow> (u64 \<times> 's) option" where
  "first_loaded loader run [] s = Some (0, s)"
| "first_loaded loader run (p # ps) s =
     (case loader p run s of
        None \<Rightarrow> None
      | Some (h, s) \<Rightarrow> if h \<noteq> 0 then Some (h, s) else first_loaded loader run ps s)"

definition load_with_search ::
  "'s bridge \<Rightarrow> (rstring \<Rightarrow> rstring) \<Rightarrow> u64 option \<Rightarrow> rstring list \<Rightarrow> rstring \<Rightarrow> bool \<Rightarrow> 's \<Rightarrow> (u64 \<times> 's) option" where
  "load_with_search br lower registered dirs name run s =
     (if name = [] then Some (0, set_error br ERROR_INVALID_NAME s)
      else if api_set_prefix (lower name) then Some (exe_base registered + 0x1000, s)
      else if is_one_of [''kernel32.dll'', ''kernel32'', ''kernelbase.dll'', ''kernelbase''] (lower name)
        then Some (exe_base registered + 0x1000, s)
      else if is_one_of [''ntdll.dll'', ''ntdll''] (lower name) then Some (exe_base registered + 0x2000, s)
      else
        (case load_dll_fn br of
           None \<Rightarrow> Some (0, set_error br ERROR_MOD_NOT_FOUND s)
         | Some loader \<Rightarrow>
             (case candidate_paths dirs name of
                None \<Rightarrow> None
              | Some ps \<Rightarrow>
                  (case first_loaded loader run ps s of
                     None \<Rightarrow> None
                   | Some (h, s) \<Rightarrow> if h \<noteq> 0 then Some (h, s) else Some (0, set_error br ERROR_MOD_NOT_FOUND s)))))"

definition load_named ::
  "'s bridge \<Rightarrow> (rstring \<Rightarrow> rstring) \<Rightarrow> u64 option \<Rightarrow> rstring list \<Rightarrow> rstring option \<Rightarrow> bool \<Rightarrow> 's \<Rightarrow> (u64 \<times> 's) option" where
  "load_named br lower registered dirs name run s =
     (case name of
        None \<Rightarrow> Some (0, set_error br ERROR_INVALID_NAME s)
      | Some n \<Rightarrow> load_with_search br lower registered dirs n run s)"

definition load_library_a where
  "load_library_a br lower registered dirs name k s =
     load_named br lower registered dirs (read_guest_str_a name k) True s"

definition load_library_w where
  "load_library_w br lower registered dirs name k s =
     load_named br lower registered dirs (read_guest_str_w name k) True s"

definition load_library_ex_a where
  "load_library_ex_a br lower registered dirs name h_file flags k s =
     load_named br lower registered dirs (read_guest_str_a name k) ((flags :: u32) AND 1 = 0) s"

definition load_library_ex_w where
  "load_library_ex_w br lower registered dirs name h_file flags k s =
     load_named br lower registered dirs (read_guest_str_w name k) ((flags :: u32) AND 1 = 0) s"

definition dll_get_proc_address :: "'s bridge \<Rightarrow> u64 \<Rightarrow> u64 \<Rightarrow> 's \<Rightarrow> (u64 \<times> 's) option" where
  "dll_get_proc_address br h name s =
     (if h = 0 then Some (0, set_error br ERROR_PROC_NOT_FOUND s)
      else
        (case get_proc_address_fn br of
           None \<Rightarrow> Some (0, set_error br ERROR_PROC_NOT_FOUND s)
         | Some f \<Rightarrow>
             (case f h name s of
                None \<Rightarrow> None
              | Some (r, s) \<Rightarrow> Some (r, if r = 0 then set_error br ERROR_PROC_NOT_FOUND s else s))))"

definition dll_free_library :: "'s bridge \<Rightarrow> u64 \<Rightarrow> 's \<Rightarrow> (bool \<times> 's) option" where
  "dll_free_library br h s = (case free_library_fn br of None \<Rightarrow> Some (False, s) | Some f \<Rightarrow> f h s)"

definition disable_thread_library_calls :: "u64 \<Rightarrow> int" where
  "disable_thread_library_calls h = 1"

end
