(* ===== verification/DllLoadSpec.thy ===== *)
theory DllLoadSpec
  imports DllLoad ExportsSpec
begin

unbundle bit_operations_syntax

text \<open>
  What the module calls guarantee: the two spellings of a name, in bytes and in UTF-16, are read as the same text, the lossy
  decoder agrees with the strict one on well-formed bytes, and a name of ASCII characters is searched in the
  directories in order; and the panic on names whose last four bytes do not start at a character.
\<close>

section \<open>Decoding\<close>

lemma cont_word: "cont b = Some x \<Longrightarrow> unat b = 0x80 + x \<and> x < 0x40"
  using cont_Some by blast

lemma second_ok_nat:
  "second_ok a b \<longleftrightarrow>
     (if unat a = 0xE0 then 0xA0 \<le> unat b \<and> unat b \<le> 0xBF
      else if unat a = 0xED then 0x80 \<le> unat b \<and> unat b \<le> 0x9F
      else if unat a = 0xF0 then 0x90 \<le> unat b \<and> unat b \<le> 0xBF
      else if unat a = 0xF4 then 0x80 \<le> unat b \<and> unat b \<le> 0x8F
      else 0x80 \<le> unat b \<and> unat b \<le> 0xBF)"
proof -
  have "(a = of_nat n) \<longleftrightarrow> unat a = n" if "n < 256" for n
    using that unat_of_nat_8 [of n] by (metis unsigned_word_eqI)
  from this [of "0xE0"] this [of "0xED"] this [of "0xF0"] this [of "0xF4"]
  show ?thesis by (simp add: second_ok_def word_le_nat_alt)
qed

lemma cons_if_Some: "cons_if ok c r = Some s \<longleftrightarrow> ok \<and> (\<exists>s'. r = Some s' \<and> s = c # s')"
  by (auto simp: cons_if_def)

lemma lossy_valid: "from_utf8 bs = Some s \<Longrightarrow> from_utf8_lossy bs = s"
proof (induction bs arbitrary: s rule: length_induct)
  case (1 bs0)
  show ?case
  proof (cases bs0)
    case Nil
    then show ?thesis using "1.prems" by simp
  next
  case (Cons a bs)
  note prems = "1.prems" [unfolded Cons]
  have IH: "from_utf8_lossy r = s'" if "from_utf8 r = Some s'" "length r \<le> length bs" for r s'
    using 1(1) that by (simp add: Cons)
  consider "unat a < 0x80" | "0xC0 \<le> unat a" "unat a < 0xE0" | "0xE0 \<le> unat a" "unat a < 0xF0" | "0xF0 \<le> unat a" "unat a < 0xF8"
    using prems by (force split: if_splits)
  then show ?thesis
  proof cases
    case 1
    then show ?thesis using prems IH by (auto simp: Cons cons_if_Some)
  next
    case 2
    then obtain b r x s' where b: "bs = b # r" "cont b = Some x" "0x80 \<le> (unat a - 0xC0) * 0x40 + x"
        "s = ((unat a - 0xC0) * 0x40 + x) # s'" "from_utf8 r = Some s'"
      using prems by (auto simp: cons_if_Some Let_def not_less split: list.splits option.splits)
    have x: "unat b = 0x80 + x" "x < 0x40" using cont_word [OF b(2)] by auto
    have "from_utf8_lossy r = s'" by (rule IH) (simp_all add: b)
    moreover have "0xC2 \<le> unat a" using b(3) x(2) 2 by linarith
    moreover have "second_ok a b" using 2 x by (auto simp: second_ok_nat)
    ultimately show ?thesis using 2 b x by (simp add: Cons)
  next
    case 3
    then obtain b1 b2 r x y s' where b: "bs = b1 # b2 # r" "cont b1 = Some x" "cont b2 = Some y"
        "0x800 \<le> (unat a - 0xE0) * 0x1000 + x * 0x40 + y" "is_scalar ((unat a - 0xE0) * 0x1000 + x * 0x40 + y)"
        "s = ((unat a - 0xE0) * 0x1000 + x * 0x40 + y) # s'" "from_utf8 r = Some s'"
      using prems by (auto simp: cons_if_Some Let_def not_less split: list.splits option.splits)
    have x: "unat b1 = 0x80 + x" "x < 0x40" "unat b2 = 0x80 + y" "y < 0x40"
      using cont_word [OF b(2)] cont_word [OF b(3)] by auto
    have "from_utf8_lossy r = s'" by (rule IH) (simp_all add: b)
    moreover have "second_ok a b1" using b(4,5) x 3 by (auto simp: second_ok_nat is_scalar_def)
    ultimately show ?thesis using 3 b x by (simp add: Cons)
  next
    case 4
    then obtain b1 b2 b3 r x y z s' where b: "bs = b1 # b2 # b3 # r" "cont b1 = Some x" "cont b2 = Some y" "cont b3 = Some z"
        "0x10000 \<le> (unat a - 0xF0) * 0x40000 + x * 0x1000 + y * 0x40 + z"
        "is_scalar ((unat a - 0xF0) * 0x40000 + x * 0x1000 + y * 0x40 + z)"
        "s = ((unat a - 0xF0) * 0x40000 + x * 0x1000 + y * 0x40 + z) # s'" "from_utf8 r = Some s'"
      using prems by (auto simp: cons_if_Some Let_def not_less split: list.splits option.splits)
    have x: "unat b1 = 0x80 + x" "x < 0x40" "unat b2 = 0x80 + y" "y < 0x40" "unat b3 = 0x80 + z" "z < 0x40"
      using cont_word [OF b(2)] cont_word [OF b(3)] cont_word [OF b(4)] by auto
    have "from_utf8_lossy r = s'" by (rule IH) (simp_all add: b)
    moreover have "unat a < 0xF5" using b(6) x 4 by (auto simp: is_scalar_def)
    moreover have "second_ok a b1" using b(5,6) x 4 by (auto simp: second_ok_nat is_scalar_def)
    ultimately show ?thesis using 4 b x by (simp add: Cons)
  qed
  qed
qed


lemma guest_elems_bytes: "guest_elems n (Suc 0) p k = read_cstring n p k"
  by (induction n p k rule: read_cstring.induct) (simp_all add: Let_def)

lemma read_str_a:
  assumes "\<forall>c \<in> set s. is_scalar c" and "cstring_at k p (utf8 s)" and "length (utf8 s) \<le> MAX_GUEST_STR" and "p \<noteq> 0"
  shows "read_guest_str_a p k = Some s"
  using assms lossy_valid [OF from_utf8_utf8 [OF assms(1)]] read_cstring_at [OF assms(2)]
  by (simp add: read_guest_str_a_def guest_cstring_def guest_elems_bytes)

lemma pair_or: "ucast (a :: u8) + push_bit 8 (ucast (b :: u8)) = (ucast a OR push_bit 8 (ucast b) :: 'w::len word)"
proof (rule disjunctive_add_eq_or)
  show "(ucast a AND push_bit 8 (ucast b) :: 'w word) = 0"
    by (rule bit_word_eqI) (auto simp: bit_simps dest: bit_imp_le_length)
qed

lemma unit_bytes: "(ucast (read_le 2 p k) :: u16) = ucast (guest k p) + push_bit 8 (ucast (guest k (p + 1)))"
  unfolding read_le_2 pair_or by (rule bit_word_eqI) (auto simp: bit_simps)

lemma unit_zero: "ucast (a :: u8) + push_bit 8 (ucast (b :: u8)) = (0 :: u16) \<longleftrightarrow> a = 0 \<and> b = 0"
proof
  assume z: "ucast a + push_bit 8 (ucast b) = (0 :: u16)"
  have "bit a n = bit (ucast a + push_bit 8 (ucast b) :: u16) n" "bit b n = bit (ucast a + push_bit 8 (ucast b) :: u16) (n + 8)" if "n < 8" for n
    unfolding pair_or using that by (auto simp: bit_simps dest: bit_imp_le_length)
  then show "a = 0 \<and> b = 0" unfolding z by (auto intro!: bit_word_eqI)
qed simp

lemma read_units: "wide_at us p k \<Longrightarrow> length us \<le> n \<Longrightarrow> units_of (guest_elems n 2 p k) = us"
proof (induction us arbitrary: p n)
  case Nil
  then have "guest k p = 0" "guest k (p + 1) = 0" using unit_bytes [of p k] unit_zero [of "guest k p"] by (simp_all add: wide_at_Nil)
  then show ?case by (cases n) simp_all
next
  case (Cons u us)
  then obtain n' where n: "n = Suc n'" by (cases n) auto
  have "ucast (guest k p) + push_bit 8 (ucast (guest k (p + 1))) = u" "u \<noteq> 0" using Cons.prems(1) unit_bytes [of p k] by (auto simp: wide_at_Cons)
  moreover from this have "\<not> (guest k p = 0 \<and> guest k (p + 1) = 0)" by auto
  ultimately show ?case using Cons.IH [of "p + 2" n'] Cons.prems by (auto simp: n Let_def wide_at_Cons)
qed

lemma read_str_w:
  assumes "\<forall>c \<in> set s. is_scalar c" and "wide_at (encode_utf16 s) p k" and "2 * length (encode_utf16 s) \<le> MAX_GUEST_STR" and "p \<noteq> 0"
  shows "read_guest_str_w p k = Some s"
  using assms read_units [OF assms(2), of 16384] from_encode_utf16 [OF assms(1)]
  by (simp add: read_guest_str_w_def guest_cstring_def)

section \<open>Searching\<close>

text \<open>An ASCII name as it stands and, without the extension, with it.\<close>

definition with_extension :: "rstring \<Rightarrow> rstring list" where
  "with_extension b =
     b # (if 4 \<le> length b \<and> eq_ignore_ascii_case (drop (length b - 4) b) dot_dll then [] else [b @ dot_dll])"

definition search_order :: "rstring list \<Rightarrow> rstring \<Rightarrow> rstring list" where
  "search_order dirs name =
     (if 0x2F \<in> set name \<or> 0x5C \<in> set name then with_extension (map (\<lambda>c. if c = 0x5C then 0x2F else c) name)
      else concat (map (\<lambda>d. with_extension (if d = [] \<or> last d = 0x2F then d @ name else d @ [0x2F] @ name)) dirs))"

lemma utf8_ascii: "\<forall>c \<in> set s. c < 0x80 \<Longrightarrow> utf8 s = map of_nat s"
  by (induction s) (simp_all add: utf8_def utf8_char_def)

lemma str_from_ascii: "\<forall>c \<in> set s. c < 0x80 \<Longrightarrow> n \<le> length s \<Longrightarrow> str_from n s = Some (drop n s)"
  by (induction s arbitrary: n) (auto simp: utf8_char_def drop_Cons split: nat.split)

lemma push_ascii: "\<forall>c \<in> set b. c < 0x80 \<Longrightarrow> push_candidates b out = Some (out @ with_extension b)"
  by (simp add: push_candidates_def with_extension_def Let_def utf8_ascii str_from_ascii)

lemma candidates_ascii:
  assumes "\<forall>c \<in> set name. c < 0x80" and "\<forall>d \<in> set dirs. \<forall>c \<in> set d. c < 0x80"
  shows "candidate_paths dirs name = Some (search_order dirs name)"
proof -
  let ?n = "map (\<lambda>c. if c = 0x5C then slash else c) name"
  have n: "\<forall>c \<in> set ?n. c < 0x80" using assms(1) by auto
  show ?thesis
  proof (cases "0x2F \<in> set name \<or> 0x5C \<in> set name")
    case True
    then have "slash \<in> set ?n" by force
    then show ?thesis using True push_ascii [OF n, of "[]"] by (simp add: candidate_paths_def search_order_def Let_def)
  next
    case False
    then have id: "?n = name" by (intro map_idI) auto
    have join: "path_join d name = (if d = [] \<or> last d = 0x2F then d @ name else d @ [0x2F] @ name)" for d
      using False by (cases name) (auto simp: path_join_def)
    have "fold (\<lambda>dir acc. Option.bind acc (push_candidates (path_join dir name))) ds (Some out) =
        Some (out @ concat (map (\<lambda>d. with_extension (path_join d name)) ds))" if "set ds \<subseteq> set dirs" for ds out
      using that
    proof (induction ds arbitrary: out)
      case (Cons d ds)
      have "\<forall>c \<in> set (path_join d name). c < 0x80" using Cons.prems assms by (auto simp: path_join_def)
      then show ?case using Cons by (simp add: push_ascii)
    qed simp
    from this [of dirs "[]"] show ?thesis using False id by (simp add: candidate_paths_def search_order_def Let_def join)
  qed
qed


definition demo_names :: kernel where
  "demo_names = kernel_new\<lparr>guest := (\<lambda>a. if a = 0x1000 \<or> a = 0x2000 then 0x78 else 0)\<rparr>"

definition demo_bridge :: "u32 bridge" where
  "demo_bridge = \<lparr>load_dll_fn = Some (\<lambda>p run e. Some (if p = [0x2E, 0x2F, 0x78, 0x2E, 0x64, 0x6C, 0x6C] then 0x77 else 0, e)),
     get_proc_address_fn = None, free_library_fn = None, set_error = (\<lambda>e _. e)\<rparr>"


text \<open>A name is cut four bytes before its end to look at the extension; when that is inside a character the call panics.\<close>

lemma load_library_panics: "load_dll_fn br \<noteq> None \<Longrightarrow> load_with_search br id None (search_dirs None None) [0x61, 0x65E5, 0x672C] run st = None"
  by (auto simp: load_with_search_def candidate_paths_def push_candidates_def search_dirs_def path_join_def api_set_prefix_def
      is_one_of_def utf8_def utf8_char_def Let_def)

end
