(* ===== verification/RelocSpec.thy ===== *)
theory RelocSpec
  imports Reloc
begin

unbundle bit_operations_syntax

text \<open>
  What the relocation of an image does to memory and protections, and the binding of its import table, \<open>write_iat\<close> of
  \<^verbatim>\<open>crates/pe-loader/src/mapping.rs\<close>; both keep writable and executable apart.
\<close>

section \<open>Memory\<close>

lemma protect_pages_ram [simp]: "protect_pages os a n p sp = (ok, sp') \<Longrightarrow> ram sp' = ram sp"
  by (auto simp: protect_pages_def split: prod.splits)

lemma snd_protect_pages_ram [simp]: "ram (snd (protect_pages os a n p sp)) = ram sp"
  by (simp add: protect_pages_def split: prod.split)

lemma relocate_entry_ram:
  assumes "relocate_entry os page img pe delta page_rva e sp = (Inr (), sp')"
  shows "ram sp' = fold (patch (ibase img) delta) (entry_slots page_rva [e]) (ram sp)"
    and "\<forall>s \<in> set (entry_slots page_rva [e]). unat (fst s) < unat (isize img)"
  using assms
  by (auto simp: relocate_entry_def entry_slots_def Let_def rva_to_ptr_def patch_def
      split: if_splits prod.splits bool.splits)

lemma relocate_entries_ram:
  "relocate_entries os page img pe delta page_rva es sp = (Inr (), sp') \<Longrightarrow>
    ram sp' = fold (patch (ibase img) delta) (entry_slots page_rva es) (ram sp) \<and>
    (\<forall>s \<in> set (entry_slots page_rva es). unat (fst s) < unat (isize img))"
proof (induction es arbitrary: sp)
  case (Cons e es)
  obtain sp1 where 1: "relocate_entry os page img pe delta page_rva e sp = (Inr (), sp1)"
      and 2: "relocate_entries os page img pe delta page_rva es sp1 = (Inr (), sp')"
    using Cons.prems by (auto split: prod.splits sum.splits)
  have "entry_slots page_rva (e # es) = entry_slots page_rva [e] @ entry_slots page_rva es" by (simp add: entry_slots_def)
  then show ?case using relocate_entry_ram [OF 1] Cons.IH [OF 2] by auto
qed (simp add: entry_slots_def)

lemma relocate_blocks_ram:
  "relocate_blocks os page img pe delta bs sp = (Inr (), sp') \<Longrightarrow>
    \<exists>sl. reloc_slots bs = Some sl \<and> ram sp' = fold (patch (ibase img) delta) sl (ram sp) \<and>
      (\<forall>s \<in> set sl. unat (fst s) < unat (isize img))"
proof (induction bs arbitrary: sp rule: reloc_slots.induct)
  case (1 bs)
  define size where "size = unat (le_val (take 4 (drop 4 bs)))"
  define es where "es = entries_of (drop 8 (take size bs))"
  define pr where "pr = (ucast (le_val (take 4 bs)) :: u32)"
  show ?case
  proof (cases "length bs < 8")
    case True
    then show ?thesis using "1.prems" by (simp add: relocate_blocks.simps [of _ _ _ _ _ bs] reloc_slots.simps [of bs])
  next
    case False
    then have ok: "\<not> (size < 8 \<or> length bs < size)" and step: "(case relocate_entries os page img pe delta pr es sp of
          (Inl x, sp) \<Rightarrow> (Inl x, sp) | (Inr _, sp) \<Rightarrow> relocate_blocks os page img pe delta (drop size bs) sp) = (Inr (), sp')"
      using "1.prems" unfolding relocate_blocks.simps [of _ _ _ _ _ bs] Let_def size_def [symmetric] pr_def [symmetric] es_def [symmetric]
      by (auto split: if_splits)
    obtain sp1 where e: "relocate_entries os page img pe delta pr es sp = (Inr (), sp1)"
        and b: "relocate_blocks os page img pe delta (drop size bs) sp1 = (Inr (), sp')"
      using step by (auto split: prod.splits sum.splits)
    obtain sl where sl: "reloc_slots (drop size bs) = Some sl" "ram sp' = fold (patch (ibase img) delta) sl (ram sp1)"
        "\<forall>s \<in> set sl. unat (fst s) < unat (isize img)"
      using "1.IH" [OF False size_def _ b] ok by blast
    have "reloc_slots bs = Some (entry_slots pr es @ sl)"
      unfolding reloc_slots.simps [of bs] Let_def size_def [symmetric] pr_def [symmetric] es_def [symmetric] using False ok sl(1) by simp
    then show ?thesis using relocate_entries_ram [OF e] sl by auto
  qed
qed

section \<open>Protections\<close>

definition no_wx :: "u64 set \<Rightarrow> (u64 \<Rightarrow> u32) \<Rightarrow> bool" where
  "no_wx S pr \<longleftrightarrow> (\<forall>x \<in> S. pr x AND (PROT_WRITE OR PROT_EXEC) \<noteq> PROT_WRITE OR PROT_EXEC)"

definition space_wx :: "('m \<Rightarrow> u64 set) \<Rightarrow> ('m \<Rightarrow> u64 \<Rightarrow> u32) \<Rightarrow> 'm space \<Rightarrow> bool" where
  "space_wx mapped prot_of sp \<longleftrightarrow> no_wx (mapped (pages sp)) (prot_of (pages sp))"

lemma page_dvd_diff:
  assumes "page_ok page" and "unat page dvd unat a" and "unat page dvd unat b"
  shows "unat page dvd unat (a - b :: u64)"
proof (cases "b \<le> a")
  case True
  then show ?thesis using assms(2,3) by (simp add: unat_sub)
next
  case False
  obtain k where k: "k < 64" "page = 2 ^ k" using assms(1) by (auto simp: page_ok_def)
  have "unat page dvd 2 ^ 64" using k le_imp_power_dvd [of k 64 "2 :: nat"] by (simp add: unat_page)
  moreover have "unat (a - b) = (2 ^ 64 - unat b) + unat a"
    using False unsigned_less [of b, where ?'a = nat]
    by (simp add: unat_sub_if' word_le_nat_alt)
  moreover have "unat b \<le> 2 ^ 64" using unsigned_less [of b, where ?'a = nat] by simp
  ultimately show ?thesis using assms(2,3) by (simp add: dvd_add dvd_diff_nat)
qed

lemma protect_pages_wx:
  assumes "loader_laws os page mapped prot_of" and "space_wx mapped prot_of sp"
    and "unat page dvd unat a" and "unat page dvd unat n" and "p AND (PROT_WRITE OR PROT_EXEC) \<noteq> PROT_WRITE OR PROT_EXEC"
    and "protect_pages (linux_vm.truncate os) a n p sp = (ok, sp')"
  shows "space_wx mapped prot_of sp'" and "mapped (pages sp') = mapped (pages sp)"
proof -
  let ?os = "linux_vm.truncate os"
  note vl = loader_lawsD(1-3) [OF assms(1)]
  obtain m where m: "mprotect ?os a n p (pages sp) = (ok, m)" and sp': "sp' = sp\<lparr>pages := m\<rparr>"
    using assms(6) by (auto simp: protect_pages_def split: prod.splits)
  show map: "mapped (pages sp') = mapped (pages sp)"
    using vm_lawsD(4) [OF vl(1), of a n p "pages sp"] unfolding m sp' by simp
  have "prot_of m x = prot_of (pages sp) x \<or> prot_of m x = p" for x
  proof (cases ok)
    case True
    then have "mprotect ?os a n p (pages sp) = (True, m)" using m by simp
    then have "prot_of m = (\<lambda>x. if x \<in> block a n then p else prot_of (pages sp) x)"
      using vl(3) assms(3,4) unfolding prot_laws_def by blast
    then show ?thesis by simp
  next
    case False
    then have "mprotect ?os a n p (pages sp) = (False, m)" using m by simp
    then show ?thesis using vl(3) assms(3,4) unfolding prot_laws_def by blast
  qed
  then show "space_wx mapped prot_of sp'"
    using assms(2,5) map unfolding space_wx_def no_wx_def sp' by (auto, metis)
qed

lemma section_prot_readable_wx:
  "(section_prot name ch OR PROT_READ) AND (PROT_WRITE OR PROT_EXEC) \<noteq> PROT_WRITE OR PROT_EXEC"
  by (simp add: section_prot_def Let_def)

lemma page_ok_mask: "page_ok page \<Longrightarrow> unat page dvd unat (a AND NOT (page - 1))"
  using round_down_props(1) [of page a] by (simp add: round_down_def)

lemma unprotect_span_ok:
  assumes "page_ok page" and "unprotect_span img pe addr span page = (a, n, p)"
  shows "unat page dvd unat a" and "unat page dvd unat n" and "p AND (PROT_WRITE OR PROT_EXEC) \<noteq> PROT_WRITE OR PROT_EXEC"
proof -
  have a: "a = addr AND NOT (page - 1)" and n: "n = round_up (addr + span) page - a"
    using assms(2) by (auto simp: unprotect_span_def Let_def split: option.splits)
  show "unat page dvd unat a" unfolding a by (rule page_ok_mask [OF assms(1)])
  then show "unat page dvd unat n" unfolding n by (rule page_dvd_diff [OF assms(1) round_up_dvd [OF assms(1)]])
  show "p AND (PROT_WRITE OR PROT_EXEC) \<noteq> PROT_WRITE OR PROT_EXEC"
    using assms(2) section_prot_readable_wx by (auto simp: unprotect_span_def Let_def split: option.splits)
qed

lemma space_wx_ram [simp]: "space_wx mapped prot_of (sp\<lparr>ram := k\<rparr>) = space_wx mapped prot_of sp"
  by (simp add: space_wx_def)

lemma relocate_entry_wx:
  assumes laws: "loader_laws os page mapped prot_of" and wx: "space_wx mapped prot_of sp"
    and r: "relocate_entry os page img pe delta page_rva e sp = (res, sp')"
  shows "space_wx mapped prot_of sp' \<and> mapped (pages sp') = mapped (pages sp)"
proof -
  have page: "page_ok page" using loader_lawsD(2) [OF laws] by (simp add: page_laws_def)
  define tr where "tr = (of_nat (unat page_rva + unat (e AND 0x0FFF)) :: u32)"
  note unf = relocate_entry_def Let_def tr_def [symmetric]
  show ?thesis
  proof (cases "drop_bit 12 e = 0 \<or> rva_to_ptr img tr = None")
    case True
    then show ?thesis using r wx unfolding unf by (auto split: if_splits)
  next
    case False
    then obtain t where t: "drop_bit 12 e \<noteq> 0" "rva_to_ptr img tr = Some t" by auto
    obtain a n p where u: "unprotect_span img pe t 8 page = (a, n, p)" by (metis prod_cases3)
    note U = unprotect_span_ok [OF page u]
    obtain ok sp1 where o: "protect_pages (linux_vm.truncate os) a n (PROT_READ OR PROT_WRITE) sp = (ok, sp1)" by fastforce
    have 1: "space_wx mapped prot_of sp1" "mapped (pages sp1) = mapped (pages sp)"
      using protect_pages_wx [OF laws wx U(1,2) _ o] by simp_all
    let ?sp = "sp1\<lparr>ram := apply_one_reloc t (drop_bit 12 e) delta (ram sp1)\<rparr>"
    obtain ok2 sp2 where o2: "protect_pages (linux_vm.truncate os) a n p ?sp = (ok2, sp2)" by fastforce
    have 2: "space_wx mapped prot_of sp2" "mapped (pages sp2) = mapped (pages ?sp)"
      using protect_pages_wx [OF laws _ U o2] 1(1) by simp_all
    have "sp' = (if ok then sp2 else sp1)"
      using r t u o o2 unfolding unf by (auto split: bool.splits)
    then show ?thesis using 1 2 by auto
  qed
qed

lemma relocate_entries_wx:
  "loader_laws os page mapped prot_of \<Longrightarrow> space_wx mapped prot_of sp \<Longrightarrow>
    relocate_entries os page img pe delta page_rva es sp = (res, sp') \<Longrightarrow>
    space_wx mapped prot_of sp' \<and> mapped (pages sp') = mapped (pages sp)"
proof (induction es arbitrary: sp)
  case (Cons e es)
  obtain r1 sp1 where 1: "relocate_entry os page img pe delta page_rva e sp = (r1, sp1)" by fastforce
  note E = relocate_entry_wx [OF Cons.prems(1,2) 1]
  show ?case
  proof (cases r1)
    case (Inl x)
    with 1 E Cons.prems(3) show ?thesis by simp
  next
    case (Inr u)
    with 1 Cons.prems(3) have "relocate_entries os page img pe delta page_rva es sp1 = (res, sp')" by simp
    from Cons.IH [OF Cons.prems(1) _ this] E show ?thesis by simp
  qed
qed simp

lemma relocate_blocks_wx:
  assumes laws: "loader_laws os page mapped prot_of"
  shows "space_wx mapped prot_of sp \<Longrightarrow> relocate_blocks os page img pe delta bs sp = (res, sp') \<Longrightarrow>
    space_wx mapped prot_of sp' \<and> mapped (pages sp') = mapped (pages sp)"
proof (induction bs arbitrary: sp rule: reloc_slots.induct)
  case (1 bs)
  define size where "size = unat (le_val (take 4 (drop 4 bs)))"
  define es where "es = entries_of (drop 8 (take size bs))"
  define pr where "pr = (ucast (le_val (take 4 bs)) :: u32)"
  note unf = relocate_blocks.simps [of _ _ _ _ _ bs] Let_def size_def [symmetric] pr_def [symmetric] es_def [symmetric]
  show ?case
  proof (cases "length bs < 8 \<or> size < 8 \<or> length bs < size")
    case True
    then show ?thesis using "1.prems" unfolding unf by (auto split: if_splits)
  next
    case False
    obtain r1 sp1 where e: "relocate_entries os page img pe delta pr es sp = (r1, sp1)" by fastforce
    note E = relocate_entries_wx [OF laws "1.prems"(1) e]
    show ?thesis
    proof (cases r1)
      case (Inl x)
      then show ?thesis using "1.prems"(2) e E False unfolding unf by simp
    next
      case (Inr u)
      then have b: "relocate_blocks os page img pe delta (drop size bs) sp1 = (res, sp')"
        using "1.prems"(2) e False unfolding unf by simp
      show ?thesis using "1.IH" [OF _ size_def _ _ b] False E by simp
    qed
  qed
qed

lemma apply_relocations_wx:
  assumes laws: "loader_laws os page mapped prot_of" and wx: "space_wx mapped prot_of sp"
    and r: "apply_relocations os page parse img bytes pe dir sp = (res, sp')"
  shows "space_wx mapped prot_of sp' \<and> mapped (pages sp') = mapped (pages sp)"
proof -
  have "sp' = sp \<or> (\<exists>bs delta. relocate_blocks os page img pe delta bs sp = (res, sp'))"
    using r by (auto simp: apply_relocations_def Let_def split: if_splits option.splits)
  then show ?thesis using relocate_blocks_wx [OF laws wx] wx by blast
qed

section \<open>Relocation\<close>

text \<open>C4. A relocation that succeeds away from the preferred base found a well-formed directory in the file and every slot of it
  in the image; where the slots do not overlap, each of them holds its old value plus the difference of the bases
  (modulo its width), and no other byte of memory has changed. The addresses of the image move with it: a 64-bit slot that
  held the preferred base plus an offset holds the actual base plus the offset.\<close>

theorem relocations_exact:
  assumes "apply_relocations os page parse img bytes pe (rva, n) sp = (Inr (), sp')"
    and "rva \<noteq> 0" and "n \<noteq> 0" and "ibase img \<noteq> preferred_base img"
  shows "\<exists>start sl. rva_to_file_offset parse bytes rva = Some start \<and> start + unat n \<le> length bytes \<and>
    reloc_slots (take (unat n) (drop start bytes)) = Some sl \<and> (\<forall>s \<in> set sl. unat (fst s) < unat (isize img)) \<and>
    (\<forall>x. (\<forall>s \<in> set sl. x \<notin> slot_area (ibase img) s) \<longrightarrow> guest (ram sp') x = guest (ram sp) x) \<and>
    (sorted_wrt (\<lambda>s s'. slot_area (ibase img) s \<inter> slot_area (ibase img) s' = {}) sl \<longrightarrow>
      (\<forall>(r, t) \<in> set sl. read_le (width t) (ibase img + of_nat (unat r)) (ram sp') =
         take_bit (8 * width t) (read_le (width t) (ibase img + of_nat (unat r)) (ram sp) + (ibase img - preferred_base img))) \<and>
      (\<forall>r i. (r, 10) \<in> set sl \<longrightarrow> read_le 8 (ibase img + of_nat (unat r)) (ram sp) = preferred_base img + i \<longrightarrow>
         read_le 8 (ibase img + of_nat (unat r)) (ram sp') = ibase img + i))"
proof -
  let ?d = "ibase img - preferred_base img"
  have "unat n \<noteq> 0" "?d \<noteq> 0" using assms(3,4) by (simp_all add: unat_eq_0)
  then obtain start where st: "rva_to_file_offset parse bytes rva = Some start" "start + unat n \<le> length bytes"
      and b: "relocate_blocks os page img pe ?d (take (unat n) (drop start bytes)) sp = (Inr (), sp')"
    using assms(1,2) by (auto simp: apply_relocations_def Let_def split: if_splits option.splits)
  obtain sl where sl: "reloc_slots (take (unat n) (drop start bytes)) = Some sl"
      "ram sp' = fold (patch (ibase img) ?d) sl (ram sp)" "\<forall>s \<in> set sl. unat (fst s) < unat (isize img)"
    using relocate_blocks_ram [OF b] by blast
  have val: "read_le (width t) (ibase img + of_nat (unat r)) (ram sp') =
         take_bit (8 * width t) (read_le (width t) (ibase img + of_nat (unat r)) (ram sp) + ?d)"
    if "sorted_wrt (\<lambda>s s'. slot_area (ibase img) s \<inter> slot_area (ibase img) s' = {}) sl" "(r, t) \<in> set sl" for r t
    unfolding sl(2) by (rule patches_value [OF that])
  have "read_le 8 (ibase img + of_nat (unat r)) (ram sp') = ibase img + i"
    if "sorted_wrt (\<lambda>s s'. slot_area (ibase img) s \<inter> slot_area (ibase img) s' = {}) sl" "(r, 10) \<in> set sl"
      "read_le 8 (ibase img + of_nat (unat r)) (ram sp) = preferred_base img + i" for r i
    using val [OF that(1,2)] that(3) by (simp add: width_def take_bit_word_eq_self)
  then show ?thesis using st sl patches_frame val by (intro exI [of _ start] exI [of _ sl]) auto
qed

text \<open>A file that is its relocation section: one block for the page at \<open>0x1000\<close> with one 64-bit entry.\<close>

definition demo_reloc_file :: "u8 list" where
  "demo_reloc_file = [0x00, 0x10, 0x00, 0x00, 0x0A, 0x00, 0x00, 0x00, 0x08, 0xA0]"

definition demo_reloc_pe :: pe where
  "demo_reloc_pe = \<lparr>size_of_image = 0x3000, image_base = 0x140000000, size_of_headers = 0,
     sections = [\<lparr>sec_name = ''.reloc'', virtual_size = 10, virtual_address = 0x2000, size_of_raw_data = 10,
       pointer_to_raw_data = 0, characteristics = 0x40000000\<rparr>]\<rparr>"

definition demo_reloc_img :: mapped_image where
  "demo_reloc_img = \<lparr>ibase = 0x10000, isize = 0x3000, preferred_base = 0x140000000\<rparr>"

lemma demo_reloc_parts:
  "length demo_reloc_file = 10" "take 10 demo_reloc_file = demo_reloc_file" "drop 10 demo_reloc_file = []"
  "le_val (take 4 demo_reloc_file) = 0x1000" "le_val (take 4 (drop 4 demo_reloc_file)) = 10"
  "entries_of (drop 8 demo_reloc_file) = [0xA008]"
  by (simp_all add: demo_reloc_file_def)

lemma demo_slots: "reloc_slots demo_reloc_file = Some [(0x1008, 10)]"
  by (simp add: reloc_slots.simps [of demo_reloc_file] reloc_slots.simps [of "[]"] demo_reloc_parts Let_def entry_slots_def)

lemma demo_relocated:
  "\<exists>sp'. apply_relocations demo_loader 4096 (\<lambda>bs. Some demo_reloc_pe) demo_reloc_img demo_reloc_file demo_reloc_pe (0x2000, 10) demo_space =
     (Inr (), sp')"
proof -
  define d :: u64 where "d = 0x10000 - 0x140000000"
  have "\<exists>sp'. relocate_entry demo_loader 4096 demo_reloc_img demo_reloc_pe d 0x1000 0xA008 demo_space = (Inr (), sp')"
    by (simp add: relocate_entry_def Let_def rva_to_ptr_def demo_reloc_img_def split: prod.split)
      (subst demo_protect_pages, simp)
  then obtain sp' where "relocate_entry demo_loader 4096 demo_reloc_img demo_reloc_pe d 0x1000 0xA008 demo_space = (Inr (), sp')" ..
  then have "relocate_blocks demo_loader 4096 demo_reloc_img demo_reloc_pe d demo_reloc_file demo_space = (Inr (), sp')"
    by (simp add: relocate_blocks.simps [of _ _ _ _ _ demo_reloc_file] relocate_blocks.simps [of _ _ _ _ _ "[]"] demo_reloc_parts Let_def)
  moreover have "rva_to_file_offset (\<lambda>bs. Some demo_reloc_pe) demo_reloc_file 0x2000 = Some 0"
    by (simp add: rva_to_file_offset_def demo_reloc_pe_def demo_reloc_parts)
  moreover have "ibase demo_reloc_img - preferred_base demo_reloc_img = d" "d \<noteq> 0"
    by (simp_all add: demo_reloc_img_def d_def)
  ultimately show ?thesis
    by (simp add: apply_relocations_def Let_def demo_reloc_parts)
qed

theorem relocations_exact_witness:
  "\<exists>sp'. apply_relocations demo_loader 4096 (\<lambda>bs. Some demo_reloc_pe) demo_reloc_img demo_reloc_file demo_reloc_pe (0x2000, 10) demo_space =
      (Inr (), sp') \<and>
     read_le 8 0x11008 (ram sp') = read_le 8 0x11008 (ram demo_space) + (0x10000 - 0x140000000) \<and>
     guest (ram sp') 0x11000 = guest (ram demo_space) 0x11000"
proof -
  obtain sp' where r: "apply_relocations demo_loader 4096 (\<lambda>bs. Some demo_reloc_pe) demo_reloc_img demo_reloc_file demo_reloc_pe (0x2000, 10) demo_space =
      (Inr (), sp')" using demo_relocated by blast
  have n: "(0x2000 :: u32) \<noteq> 0" "(10 :: u32) \<noteq> 0" "ibase demo_reloc_img \<noteq> preferred_base demo_reloc_img"
    by (simp_all add: demo_reloc_img_def)
  obtain start sl where sl: "start + 10 \<le> length demo_reloc_file" "reloc_slots (take 10 (drop start demo_reloc_file)) = Some sl"
      "\<forall>x. (\<forall>s \<in> set sl. x \<notin> slot_area (ibase demo_reloc_img) s) \<longrightarrow> guest (ram sp') x = guest (ram demo_space) x"
      "sorted_wrt (\<lambda>s s'. slot_area (ibase demo_reloc_img) s \<inter> slot_area (ibase demo_reloc_img) s' = {}) sl \<longrightarrow>
        (\<forall>(r, t) \<in> set sl. read_le (width t) (ibase demo_reloc_img + of_nat (unat r)) (ram sp') =
         take_bit (8 * width t) (read_le (width t) (ibase demo_reloc_img + of_nat (unat r)) (ram demo_space) +
           (ibase demo_reloc_img - preferred_base demo_reloc_img)))"
    using relocations_exact [OF r n] by auto
  have "length demo_reloc_file = 10" by (simp add: demo_reloc_file_def)
  with sl(1) have "start = 0" by simp
  then have "sl = [(0x1008, 10)]" using sl(2) \<open>length demo_reloc_file = 10\<close> by (simp add: demo_slots)
  then have "read_le 8 0x11008 (ram sp') = read_le 8 0x11008 (ram demo_space) + (0x10000 - 0x140000000)"
    "0x11000 \<notin> slot_area 0x10000 (0x1008, 10) \<longrightarrow> guest (ram sp') 0x11000 = guest (ram demo_space) 0x11000"
    using sl(3,4) by (simp_all add: width_def demo_reloc_img_def take_bit_word_eq_self)
  moreover have "0x11000 \<notin> slot_area 0x10000 (0x1008, 10)"
    using unat_area [of "0x11000" "0x11008" 8] by (auto simp: slot_area_def width_def)
  ultimately show ?thesis using r by blast
qed

text \<open>The check of a slot looks at its first byte: a 64-bit slot in the last bytes of the image reaches past it.\<close>

lemma reloc_past_end:
  assumes "unat r < unat (isize img)" and "unat (isize img) < unat r + 8" and "unat (ibase img) + unat (isize img) + 8 < 2 ^ 64"
  shows "rva_to_ptr img r \<noteq> None" and "\<exists>x \<in> slot_area (ibase img) (r, 10). x \<notin> block (ibase img) (isize img)"
proof -
  show "rva_to_ptr img r \<noteq> None" using assms(1) by (simp add: rva_to_ptr_def)
  let ?x = "ibase img + isize img"
  have "?x = ibase img + of_nat (unat r) + of_nat (unat (isize img) - unat r)" using assms(1) by (simp add: of_nat_diff)
  then have "?x \<in> slot_area (ibase img) (r, 10)"
    using assms(1,2) unfolding slot_area_def area_def width_def by (intro image_eqI [of _ _ "unat (isize img) - unat r"]) auto
  moreover have "unat ?x = unat (ibase img) + unat (isize img)" using assms(3) by (subst unat_add_lem [THEN iffD1]) simp_all
  then have "?x \<notin> block (ibase img) (isize img)" by (simp add: block_def)
  ultimately show "\<exists>x \<in> slot_area (ibase img) (r, 10). x \<notin> block (ibase img) (isize img)" by blast
qed

section \<open>Binding the imports\<close>

record import =
  imp_dll :: string
  imp_name :: string
  imp_offset :: u64

text \<open>The conversion of the library to lower case is the parameter \<open>lower\<close>, of which nothing is assumed.\<close>

fun write_iat ::
  "'m loader_vm \<Rightarrow> u64 \<Rightarrow> (string \<Rightarrow> string) \<Rightarrow> mapped_image \<Rightarrow> import list \<Rightarrow> (string \<times> string \<Rightarrow> u64 option) \<Rightarrow>
     'm space \<Rightarrow> 'm space" where
  "write_iat os page lower img [] resolved sp = sp"
| "write_iat os page lower img (imp # imps) resolved sp =
     (case resolved (lower (imp_dll imp), imp_name imp) of
        None \<Rightarrow> write_iat os page lower img imps resolved sp
      | Some ptr \<Rightarrow>
          (case rva_to_ptr img (ucast (imp_offset imp)) of
             None \<Rightarrow> write_iat os page lower img imps resolved sp
           | Some slot \<Rightarrow>
               (let start = slot AND NOT (page - 1);
                    fin = round_up (slot + 8) page;
                    len = fin - start;
                    sp = snd (protect_pages (linux_vm.truncate os) start len (PROT_READ OR PROT_WRITE) sp)
                in write_iat os page lower img imps resolved (sp\<lparr>ram := write_le 8 slot ptr (ram sp)\<rparr>))))"

text \<open>The slots written, in order, with what is written.\<close>

definition iat_entries ::
  "(string \<Rightarrow> string) \<Rightarrow> mapped_image \<Rightarrow> import list \<Rightarrow> (string \<times> string \<Rightarrow> u64 option) \<Rightarrow> (u64 \<times> u64) list" where
  "iat_entries lower img imps resolved =
     concat (map (\<lambda>imp.
       case (resolved (lower (imp_dll imp), imp_name imp), rva_to_ptr img (ucast (imp_offset imp))) of
         (Some ptr, Some slot) \<Rightarrow> [(slot, ptr)]
       | _ \<Rightarrow> []) imps)"

lemma write_iat_ram:
  "ram (write_iat os page lower img imps resolved sp) =
     fold (\<lambda>(slot, ptr). write_le 8 slot ptr) (iat_entries lower img imps resolved) (ram sp)"
  by (induction imps arbitrary: sp) (simp_all add: iat_entries_def Let_def split: option.split)

lemma write_iat_wx:
  assumes laws: "loader_laws os page mapped prot_of"
  shows "space_wx mapped prot_of sp \<Longrightarrow> space_wx mapped prot_of (write_iat os page lower img imps resolved sp) \<and>
    mapped (pages (write_iat os page lower img imps resolved sp)) = mapped (pages sp)"
proof (induction imps arbitrary: sp)
  case (Cons imp imps)
  have page: "page_ok page" using loader_lawsD(2) [OF laws] by (simp add: page_laws_def)
  show ?case
  proof (cases "resolved (lower (imp_dll imp), imp_name imp) = None \<or> rva_to_ptr img (ucast (imp_offset imp)) = None")
    case True
    then show ?thesis using Cons by (auto split: option.split)
  next
    case False
    then obtain ptr slot where ps: "resolved (lower (imp_dll imp), imp_name imp) = Some ptr"
        "rva_to_ptr img (ucast (imp_offset imp)) = Some slot" by auto
    define start where "start = slot AND NOT (page - 1)"
    define len where "len = round_up (slot + 8) page - start"
    have al: "unat page dvd unat start" "unat page dvd unat len"
      using page_ok_mask [OF page] page_dvd_diff [OF page round_up_dvd [OF page]] by (simp_all add: start_def len_def)
    obtain ok sp1 where o: "protect_pages (linux_vm.truncate os) start len (PROT_READ OR PROT_WRITE) sp = (ok, sp1)" by fastforce
    have "space_wx mapped prot_of sp1" "mapped (pages sp1) = mapped (pages sp)"
      using protect_pages_wx [OF laws Cons.prems al _ o] by simp_all
    moreover have "write_iat os page lower img (imp # imps) resolved sp =
        write_iat os page lower img imps resolved (sp1\<lparr>ram := write_le 8 slot ptr (ram sp1)\<rparr>)"
      using ps o by (simp add: Let_def flip: start_def len_def)
    ultimately show ?thesis using Cons.IH [of "sp1\<lparr>ram := write_le 8 slot ptr (ram sp1)\<rparr>"] by simp
  qed
qed simp

section \<open>Never writable and executable\<close>

text \<open>From the file to the bound image, no page of the process becomes writable and executable at once: not in mapping, not in
  relocating (whether it succeeds or not), not in binding the imports.\<close>

theorem load_never_wx:
  assumes "loader_laws os page mapped prot_of" and "length bytes < 2 ^ 63" and "space_wx mapped prot_of sp"
    and "map_image_with_preferred_base os page bytes pe tp sp = (Inr img, sp1)"
    and "apply_relocations os page parse img bytes pe dir sp1 = (res, sp2)"
  shows "space_wx mapped prot_of sp1 \<and> space_wx mapped prot_of sp2 \<and>
    space_wx mapped prot_of (write_iat os page lower img imps resolved sp2)"
proof -
  have "space_wx mapped prot_of sp1"
  proof -
    let ?n = "round_up (ucast (size_of_image pe)) page"
    obtain b sp3 where r: "reserved page mapped prot_of b ?n sp sp3" and m: "mapped (pages sp1) = mapped (pages sp3)"
      and u: "untouched mapped prot_of sp sp1"
      and p: "\<forall>r < unat ?n. prot_of (pages sp1) (b + of_nat r) = image_prot (unat page) pe (unat ?n) r"
      by (rule map_image_Inr [OF assms(1,2,4) refl])
    note b = r [unfolded reserved_def]
    have "prot_of (pages sp1) x AND (PROT_WRITE OR PROT_EXEC) \<noteq> PROT_WRITE OR PROT_EXEC" if x: "x \<in> mapped (pages sp1)" for x
    proof (cases "x \<in> mapped (pages sp)")
      case True
      then have "prot_of (pages sp1) x = prot_of (pages sp) x" using u by (simp add: untouched_def)
      with True show ?thesis using assms(3) unfolding space_wx_def no_wx_def by (metis (no_types))
    next
      case False
      then have "x \<in> block b ?n" using x b m by simp
      then obtain r where r: "r < unat ?n" "x = b + of_nat r" using b in_block_offset [of b ?n x] by auto
      show ?thesis using image_prot_wx [of "unat page" pe "unat ?n" r] p r by simp
    qed
    then show ?thesis by (simp only: space_wx_def no_wx_def) simp
  qed
  then show ?thesis using apply_relocations_wx [OF assms(1) _ assms(5)] write_iat_wx [OF assms(1)] by blast
qed

theorem load_never_wx_witness:
  "\<exists>img sp1 sp2. map_image_anywhere demo_loader 4096 demo_file demo_pe demo_space = (Inr img, sp1) \<and>
     apply_relocations demo_loader 4096 (\<lambda>bs. Some demo_pe) img demo_file demo_pe (0, 0) sp1 = (Inr (), sp2) \<and>
     space_wx fst snd (write_iat demo_loader 4096 id img [\<lparr>imp_dll = ''a'', imp_name = ''b'', imp_offset = 0x1000\<rparr>] (\<lambda>k. Some 7) sp2)"
proof -
  obtain sp1 where m: "map_image_anywhere demo_loader 4096 demo_file demo_pe demo_space =
      (Inr \<lparr>ibase = 0x10000, isize = 0x2000, preferred_base = 0x140000000\<rparr>, sp1)" (is "_ = (Inr ?img, _)")
    using demo_mapped by blast
  have r: "apply_relocations demo_loader 4096 (\<lambda>bs. Some demo_pe) ?img demo_file demo_pe (0, 0) sp1 = (Inr (), sp1)"
    by (simp add: apply_relocations_def)
  have "length demo_file < 2 ^ 63" "space_wx fst snd demo_space" by (simp_all add: demo_file_def space_wx_def no_wx_def demo_space_def)
  from load_never_wx [OF demo_loader_laws this m [unfolded map_image_anywhere_def] r] m r show ?thesis by blast
qed

end
