(* ===== verification/ImportTable.thy ===== *)
theory ImportTable
  imports RelocSpec
begin

text \<open>
  The tables of \<^verbatim>\<open>crates/pe-loader/src/imports.rs\<close>: the implemented exports the file itself lists, with the number of
  arguments of each, the pseudo-DLLs and the symbols forwarded to them, and the merge of the export tables of the other
  crates into one list without duplicates. A function's address is the argument \<open>addr\<close>, applied to its path.
\<close>

record import_spec =
  spec_dll :: string
  spec_sym :: string
  spec_target :: u64
  spec_args :: u8
  spec_noreturn :: bool

definition spec_key :: "import_spec \<Rightarrow> string \<times> string" where
  "spec_key s = (spec_dll s, spec_sym s)"

definition export :: "(string \<Rightarrow> u64) \<Rightarrow> string \<Rightarrow> string \<Rightarrow> string \<Rightarrow> u8 \<Rightarrow> bool \<Rightarrow> import_spec" where
  "export addr dll name path n nr =
     \<lparr>spec_dll = dll, spec_sym = name, spec_target = addr path, spec_args = n, spec_noreturn = nr\<rparr>"

section \<open>Constants\<close>

definition process_specs :: "(string \<Rightarrow> u64) \<Rightarrow> import_spec list" where
  "process_specs addr =
     [export addr ''kernel32.dll'' ''ExitProcess'' ''nt::process::exit_process'' 1 True,
      export addr ''kernel32.dll'' ''GetStdHandle'' ''nt::process::get_std_handle'' 1 False,
      export addr ''kernel32.dll'' ''WriteFile'' ''nt::process::write_file'' 5 False,
      export addr ''kernel32.dll'' ''ReadFile'' ''nt::process::read_file'' 5 False,
      export addr ''kernel32.dll'' ''GetLastError'' ''nt::process::get_last_error'' 0 False,
      export addr ''kernel32.dll'' ''SetLastError'' ''nt::process::set_last_error'' 1 False,
      export addr ''kernel32.dll'' ''GetTickCount'' ''nt::process::get_tick_count'' 0 False,
      export addr ''kernel32.dll'' ''GetTickCount64'' ''nt::process::get_tick_count_64'' 0 False,
      export addr ''kernel32.dll'' ''QueryPerformanceCounter'' ''nt::process::query_performance_counter'' 1 False,
      export addr ''kernel32.dll'' ''QueryPerformanceFrequency'' ''nt::process::query_performance_frequency'' 1 False,
      export addr ''kernel32.dll'' ''CloseHandle'' ''nt::process::close_handle'' 1 False,
      export addr ''kernel32.dll'' ''VirtualAlloc'' ''nt::memory::virtual_alloc'' 4 False,
      export addr ''kernel32.dll'' ''VirtualFree'' ''nt::memory::virtual_free'' 3 False,
      export addr ''kernel32.dll'' ''VirtualProtect'' ''nt::memory::virtual_protect'' 4 False,
      export addr ''kernel32.dll'' ''VirtualQuery'' ''nt::memory::virtual_query'' 3 False,
      export addr ''kernel32.dll'' ''InitializeCriticalSection'' ''nt::sync::initialize_critical_section'' 1 False,
      export addr ''kernel32.dll'' ''EnterCriticalSection'' ''nt::sync::enter_critical_section'' 1 False,
      export addr ''kernel32.dll'' ''LeaveCriticalSection'' ''nt::sync::leave_critical_section'' 1 False,
      export addr ''kernel32.dll'' ''DeleteCriticalSection'' ''nt::sync::delete_critical_section'' 1 False,
      export addr ''kernel32.dll'' ''CreateEventW'' ''nt::sync::create_event_w'' 4 False]"

definition sync_specs :: "(string \<Rightarrow> u64) \<Rightarrow> import_spec list" where
  "sync_specs addr =
     [export addr ''kernel32.dll'' ''SetEvent'' ''nt::sync::set_event'' 1 False,
      export addr ''kernel32.dll'' ''ResetEvent'' ''nt::sync::reset_event'' 1 False,
      export addr ''kernel32.dll'' ''PulseEvent'' ''nt::sync::pulse_event'' 1 False,
      export addr ''kernel32.dll'' ''CreateMutexW'' ''nt::sync::create_mutex_w'' 3 False,
      export addr ''kernel32.dll'' ''ReleaseMutex'' ''nt::sync::release_mutex'' 1 False,
      export addr ''kernel32.dll'' ''CreateSemaphoreW'' ''nt::sync::create_semaphore_w'' 4 False,
      export addr ''kernel32.dll'' ''ReleaseSemaphore'' ''nt::sync::release_semaphore'' 3 False,
      export addr ''kernel32.dll'' ''InitializeSRWLock'' ''nt::sync::initialize_srw_lock'' 1 False,
      export addr ''kernel32.dll'' ''AcquireSRWLockExclusive'' ''nt::sync::acquire_srw_lock_exclusive'' 1 False,
      export addr ''kernel32.dll'' ''AcquireSRWLockShared'' ''nt::sync::acquire_srw_lock_shared'' 1 False,
      export addr ''kernel32.dll'' ''ReleaseSRWLockExclusive'' ''nt::sync::release_srw_lock_exclusive'' 1 False,
      export addr ''kernel32.dll'' ''ReleaseSRWLockShared'' ''nt::sync::release_srw_lock_shared'' 1 False,
      export addr ''kernel32.dll'' ''Sleep'' ''nt::sync::sleep'' 1 False,
      export addr ''kernel32.dll'' ''SleepEx'' ''nt::sync::sleep_ex'' 2 False,
      export addr ''kernel32.dll'' ''WaitForSingleObject'' ''nt::sync::wait_for_single_object'' 2 False,
      export addr ''kernel32.dll'' ''WaitForMultipleObjects'' ''nt::sync::wait_for_multiple_objects'' 4 False,
      export addr ''kernel32.dll'' ''CreateThread'' ''nt::thread::create_thread'' 6 False,
      export addr ''kernel32.dll'' ''GetCurrentThread'' ''nt::thread::get_current_thread'' 0 False,
      export addr ''kernel32.dll'' ''GetCurrentProcess'' ''nt::thread::get_current_process'' 0 False,
      export addr ''kernel32.dll'' ''GetCurrentThreadId'' ''nt::thread::get_current_thread_id'' 0 False,
      export addr ''kernel32.dll'' ''GetCurrentProcessId'' ''nt::thread::get_current_process_id'' 0 False]"

definition memory_specs :: "(string \<Rightarrow> u64) \<Rightarrow> import_spec list" where
  "memory_specs addr =
     [export addr ''kernel32.dll'' ''GetThreadId'' ''nt::thread::get_thread_id'' 1 False,
      export addr ''kernel32.dll'' ''ResumeThread'' ''nt::thread::resume_thread'' 1 False,
      export addr ''kernel32.dll'' ''SuspendThread'' ''nt::thread::suspend_thread'' 1 False,
      export addr ''kernel32.dll'' ''TlsAlloc'' ''nt::thread::tls_alloc'' 0 False,
      export addr ''kernel32.dll'' ''TlsFree'' ''nt::thread::tls_free'' 1 False,
      export addr ''kernel32.dll'' ''TlsGetValue'' ''nt::thread::tls_get_value'' 1 False,
      export addr ''kernel32.dll'' ''TlsSetValue'' ''nt::thread::tls_set_value'' 2 False,
      export addr ''ntdll.dll'' ''NtTerminateProcess'' ''nt::process::nt_terminate_process'' 2 True,
      export addr ''ntdll.dll'' ''NtClose'' ''nt::process::nt_close'' 1 False,
      export addr ''ntdll.dll'' ''NtWriteFile'' ''nt::process::nt_write_file'' 9 False,
      export addr ''ntdll.dll'' ''NtReadFile'' ''nt::process::nt_read_file'' 9 False,
      export addr ''vcruntime140.dll'' ''memset'' ''vcruntime_memset'' 3 False,
      export addr ''vcruntime140.dll'' ''memcpy'' ''vcruntime_memcpy'' 3 False,
      export addr ''vcruntime140.dll'' ''memmove'' ''vcruntime_memmove'' 3 False,
      export addr ''vcruntime140_1.dll'' ''memset'' ''vcruntime_memset'' 3 False,
      export addr ''vcruntime140_1.dll'' ''memcpy'' ''vcruntime_memcpy'' 3 False,
      export addr ''vcruntime140_1.dll'' ''memmove'' ''vcruntime_memmove'' 3 False,
      export addr ''ucrtbase.dll'' ''memset'' ''vcruntime_memset'' 3 False,
      export addr ''ucrtbase.dll'' ''memcpy'' ''vcruntime_memcpy'' 3 False,
      export addr ''ucrtbase.dll'' ''memmove'' ''vcruntime_memmove'' 3 False]"

definition rest_specs :: "(string \<Rightarrow> u64) \<Rightarrow> import_spec list" where
  "rest_specs addr =
     [export addr ''msvcrt.dll'' ''memset'' ''vcruntime_memset'' 3 False,
      export addr ''msvcrt.dll'' ''memcpy'' ''vcruntime_memcpy'' 3 False,
      export addr ''msvcrt.dll'' ''memmove'' ''vcruntime_memmove'' 3 False]"

definition APISETS :: "string list" where
  "APISETS =
     [''api-ms-win-core-processthreads-l1-1-0'', ''api-ms-win-core-console-l1-1-0'',
      ''api-ms-win-core-console-l2-1-0'', ''api-ms-win-core-synch-l1-1-0'', ''api-ms-win-core-synch-l1-2-0'',
      ''api-ms-win-core-errorhandling-l1-1-0'', ''api-ms-win-core-profile-l1-1-0'',
      ''api-ms-win-core-libraryloader-l1-1-0'', ''api-ms-win-core-heap-l1-1-0'', ''api-ms-win-core-memory-l1-1-0'',
      ''api-ms-win-core-file-l1-1-0'', ''api-ms-win-core-file-l2-1-0'', ''api-ms-win-core-string-l1-1-0'',
      ''api-ms-win-core-stringansi-l1-1-0'', ''api-ms-win-core-processenvironment-l1-1-0'',
      ''api-ms-win-core-localization-l1-2-0'']"

definition FORWARD_SYMBOLS :: "string list" where
  "FORWARD_SYMBOLS =
     [''ExitProcess'', ''GetStdHandle'', ''WriteFile'', ''ReadFile'', ''GetLastError'', ''SetLastError'',
      ''GetTickCount'', ''GetTickCount64'', ''QueryPerformanceCounter'', ''QueryPerformanceFrequency'',
      ''CloseHandle'', ''VirtualAlloc'', ''VirtualFree'', ''VirtualProtect'', ''VirtualQuery'',
      ''InitializeCriticalSection'', ''EnterCriticalSection'', ''LeaveCriticalSection'', ''DeleteCriticalSection'',
      ''CreateEventW'', ''SetEvent'', ''ResetEvent'', ''PulseEvent'', ''CreateMutexW'', ''ReleaseMutex'',
      ''CreateSemaphoreW'', ''ReleaseSemaphore'', ''InitializeSRWLock'', ''AcquireSRWLockExclusive'',
      ''AcquireSRWLockShared'', ''ReleaseSRWLockExclusive'', ''ReleaseSRWLockShared'', ''Sleep'', ''SleepEx'',
      ''WaitForSingleObject'', ''WaitForMultipleObjects'', ''CreateThread'', ''GetCurrentThread'',
      ''GetCurrentProcess'', ''GetCurrentThreadId'', ''GetCurrentProcessId'', ''GetThreadId'', ''ResumeThread'',
      ''SuspendThread'', ''TlsAlloc'', ''TlsFree'', ''TlsGetValue'', ''TlsSetValue'', ''WriteConsoleW'',
      ''WriteConsoleA'', ''GetConsoleMode'', ''SetConsoleMode'', ''CreateFileW'', ''CreateFileA'', ''GetFileSize'',
      ''SetFilePointer'', ''FlushFileBuffers'', ''GetProcessHeap'', ''HeapAlloc'', ''HeapFree'', ''HeapReAlloc'',
      ''HeapCreate'', ''HeapDestroy'', ''GetEnvironmentVariableW'', ''SetEnvironmentVariableW'',
      ''GetEnvironmentStringsW'', ''FreeEnvironmentStringsW'', ''GetModuleHandleW'', ''GetModuleHandleA'',
      ''GetCommandLineW'', ''GetCommandLineA'', ''MultiByteToWideChar'', ''WideCharToMultiByte'', ''lstrlenW'',
      ''lstrlenA'', ''lstrcpyW'', ''lstrcatW'', ''AddVectoredExceptionHandler'', ''SetUnhandledExceptionFilter'',
      ''SetConsoleCtrlHandler'', ''RaiseException'', ''__C_specific_handler'', ''RtlCaptureContext'',
      ''RtlLookupFunctionEntry'', ''RtlVirtualUnwind'', ''RtlUnwindEx'', ''GetSystemTimePreciseAsFileTime'',
      ''GetSystemInfo'', ''GetConsoleOutputCP'', ''GetModuleFileNameW'', ''GetCurrentDirectoryW'',
      ''GetSystemDirectoryW'', ''GetWindowsDirectoryW'', ''GetTempPathW'', ''GetFullPathNameW'',
      ''GetFileAttributesW'', ''GetFileType'', ''GetFileSizeEx'', ''SetFilePointerEx'', ''SetHandleInformation'',
      ''SetThreadStackGuarantee'', ''SwitchToThread'', ''GetProcAddress'', ''InitOnceBeginInitialize'',
      ''InitOnceComplete'', ''CompareStringOrdinal'', ''FormatMessageW'', ''MapViewOfFile'', ''UnmapViewOfFile'',
      ''CreateFileMappingA'', ''GetOverlappedResult'', ''ReadConsoleW'', ''WriteFileEx'', ''ReadFileEx'',
      ''FlushFileBuffers'', ''SetFileAttributesW'', ''TerminateProcess'', ''GetProcessId'', ''GetExitCodeProcess'',
      ''WaitForSingleObjectEx'', ''WaitOnAddress'', ''WakeByAddressAll'', ''WakeByAddressSingle'']"

definition wait_specs :: "(string \<Rightarrow> u64) \<Rightarrow> import_spec list" where
  "wait_specs addr =
     [export addr ''api-ms-win-core-synch-l1-2-0.dll'' ''WaitOnAddress'' ''nt::sync::wait_on_address'' 4 False,
      export addr ''api-ms-win-core-synch-l1-2-0.dll'' ''WakeByAddressAll'' ''nt::sync::wake_by_address_all'' 1 False,
      export addr ''api-ms-win-core-synch-l1-2-0.dll'' ''WakeByAddressSingle'' ''nt::sync::wake_by_address_single'' 1 False]"

section \<open>The merged list\<close>

text \<open>An export whose name is already there is skipped; \<open>seen\<close> is the set of the names so far.\<close>

fun merge_exports :: "import_spec list \<Rightarrow> import_spec list \<times> (string \<times> string) set \<Rightarrow> import_spec list \<times> (string \<times> string) set" where
  "merge_exports [] st = st"
| "merge_exports (e # es) (specs, seen) =
     (if spec_key e \<in> seen then merge_exports es (specs, seen)
      else merge_exports es (specs @ [e], insert (spec_key e) seen))"

definition base_specs :: "(string \<Rightarrow> u64) \<Rightarrow> import_spec list" where
  "base_specs addr = process_specs addr @ sync_specs addr @ memory_specs addr @ rest_specs addr"

text \<open>\<open>before\<close> are the tables merged ahead of the wait functions (kernel32 to ws2_32), \<open>after\<close> those behind them (user32 to
  extras2).\<close>

definition import_specs_of :: "(string \<Rightarrow> u64) \<Rightarrow> import_spec list list \<Rightarrow> import_spec list list \<Rightarrow> import_spec list" where
  "import_specs_of addr before after =
     (let specs = base_specs addr; seen = set (map spec_key specs)
      in fst (fold merge_exports (before @ [wait_specs addr] @ after) (specs, seen)))"

text \<open>The merge keeps what was there, in front, adds only exports of the tables, and gives no name twice.\<close>

definition merged :: "import_spec list \<times> (string \<times> string) set \<Rightarrow> bool" where
  "merged st \<longleftrightarrow> distinct (map spec_key (fst st)) \<and> snd st = set (map spec_key (fst st))"

lemma merge_exports_inv:
  "merged st \<Longrightarrow> merged (merge_exports es st) \<and> (\<exists>r. fst (merge_exports es st) = fst st @ r \<and> set r \<subseteq> set es) \<and>
    spec_key ` set es \<subseteq> snd (merge_exports es st)"
proof (induction es st rule: merge_exports.induct)
  case (2 e es specs seen)
  show ?case
  proof (cases "spec_key e \<in> seen")
    case True
    have "snd (specs, seen) \<subseteq> snd (merge_exports es (specs, seen))"
      using "2.IH"(1) [OF True "2.prems"] "2.prems" by (auto simp: merged_def)
    then show ?thesis using "2.IH"(1) [OF True "2.prems"] True by auto
  next
    case False
    have m: "merged (specs @ [e], insert (spec_key e) seen)" using "2.prems" False by (simp add: merged_def)
    from "2.IH"(2) [OF False m] obtain r where
      "merged (merge_exports es (specs @ [e], insert (spec_key e) seen))"
      "fst (merge_exports es (specs @ [e], insert (spec_key e) seen)) = specs @ [e] @ r" "set r \<subseteq> set es"
      "spec_key ` set es \<subseteq> snd (merge_exports es (specs @ [e], insert (spec_key e) seen))" by auto
    then show ?thesis using False by (auto simp: merged_def)
  qed
qed simp

lemma merge_all_inv:
  "merged st \<Longrightarrow> merged (fold merge_exports tabs st) \<and>
    (\<exists>r. fst (fold merge_exports tabs st) = fst st @ r \<and> set r \<subseteq> \<Union> (set ` set tabs))"
proof (induction tabs arbitrary: st)
  case (Cons es tabs)
  note M = merge_exports_inv [OF Cons.prems, of es]
  from Cons.IH [of "merge_exports es st"] M show ?case by fastforce
qed simp

lemma base_distinct: "distinct (map spec_key (base_specs addr))"
  by (simp add: base_specs_def process_specs_def sync_specs_def memory_specs_def rest_specs_def spec_key_def export_def)

text \<open>What the trampolines support.\<close>

definition args_ok :: "import_spec \<Rightarrow> bool" where
  "args_ok s \<longleftrightarrow> spec_args s \<le> (if spec_noreturn s then 6 else 32)"

lemma base_args: "list_all args_ok (base_specs addr)" "list_all args_ok (wait_specs addr)"
  by (simp_all add: base_specs_def process_specs_def sync_specs_def memory_specs_def rest_specs_def wait_specs_def
      args_ok_def export_def word_le_nat_alt)



text \<open>The names of the pseudo-DLLs have no extension, so none of them is the name of a DLL with one.\<close>

lemma apisets_no_extension: "d @ ''.dll'' \<notin> set APISETS"
proof
  assume "d @ ''.dll'' \<in> set APISETS"
  then have "last (d @ ''.dll'') \<in> last ` set APISETS" by blast
  then show False by (simp add: APISETS_def)
qed

end
