(* ===== verification/Imports.thy ===== *)
theory Imports
  imports ImportTable
begin

unbundle bit_operations_syntax

text \<open>
  Import resolution, \<^verbatim>\<open>crates/pe-loader/src/imports.rs\<close>: the table of implemented exports, built by placing a trampoline for
  each, and the choice of the address for every import. The tables of constants of the sources (the exports with
  their argument counts, the virtual tables, the pseudo-DLLs and the symbols forwarded to them) are arguments of the
  construction. Loading a DLL from the disk is the parameter \<open>disk\<close>, on a state of its own; the environment variable is
  the argument \<open>soft\<close>. A panic is \<open>None\<close>.
\<close>

section \<open>The table of implementations\<close>

record impl_table =
  impl_map :: "string \<times> string \<Rightarrow> u64 option"
  soft_stub_thunk :: u64

definition lookup :: "impl_table \<Rightarrow> string \<Rightarrow> string \<Rightarrow> u64 option" where
  "lookup t dll name = impl_map t (dll, name)"

definition make_spec ::
  "'m linux_vm \<Rightarrow> u64 \<Rightarrow> import_spec \<Rightarrow> arena \<Rightarrow> 'm space \<Rightarrow> (thunk_error + u64) \<times> arena \<times> 'm space" where
  "make_spec os page spec a sp =
     (if spec_noreturn spec then make_thunk_noreturn os page (spec_target spec) (spec_args spec) a sp
      else make_thunk os page (spec_target spec) (spec_args spec) a sp)"

fun add_specs ::
  "'m linux_vm \<Rightarrow> u64 \<Rightarrow> import_spec list \<Rightarrow> (string \<times> string \<Rightarrow> u64 option) \<Rightarrow> arena \<Rightarrow> 'm space \<Rightarrow>
     ((string \<times> string \<Rightarrow> u64 option) \<times> arena \<times> 'm space) option" where
  "add_specs os page [] m a sp = Some (m, a, sp)"
| "add_specs os page (spec # specs) m a sp =
     (case make_spec os page spec a sp of
        (Inl e, a, sp) \<Rightarrow> None
      | (Inr p, a, sp) \<Rightarrow> add_specs os page specs (m((spec_dll spec, spec_sym spec) \<mapsto> p)) a sp)"

definition forward ::
  "string \<times> string \<Rightarrow> string \<times> string \<Rightarrow> (string \<times> string \<Rightarrow> u64 option) \<Rightarrow> string \<times> string \<Rightarrow> u64 option" where
  "forward src dst m = (case m src of None \<Rightarrow> m | Some t \<Rightarrow> m(dst \<mapsto> t))"

definition forward_apisets ::
  "string list \<Rightarrow> string list \<Rightarrow> (string \<times> string \<Rightarrow> u64 option) \<Rightarrow> string \<times> string \<Rightarrow> u64 option" where
  "forward_apisets apisets symbols m =
     (let m = fold (\<lambda>apiset. fold (\<lambda>s. forward (''kernel32.dll'', s) (apiset, s)) symbols) apisets m
      in fold (\<lambda>apiset. forward (''ntdll.dll'', ''NtClose'') (apiset, ''NtClose'') \<circ>
           forward (''ntdll.dll'', ''NtTerminateProcess'') (apiset, ''NtTerminateProcess'')) apisets m)"

text \<open>A trampoline for each slot of the virtual tables, unless the tables were installed by an earlier build.\<close>

fun vtable_thunks ::
  "'m linux_vm \<Rightarrow> u64 \<Rightarrow> (u64 \<times> u8) list \<Rightarrow> arena \<Rightarrow> 'm space \<Rightarrow> (arena \<times> 'm space) option" where
  "vtable_thunks os page [] a sp = Some (a, sp)"
| "vtable_thunks os page ((target, n_args) # slots) a sp =
     (case make_thunk os page target n_args a sp of
        (Inl e, a, sp) \<Rightarrow> None
      | (Inr p, a, sp) \<Rightarrow> vtable_thunks os page slots a sp)"

definition install_vtables ::
  "'m linux_vm \<Rightarrow> u64 \<Rightarrow> bool \<Rightarrow> (u64 \<times> u8) list \<Rightarrow> arena \<Rightarrow> 'm space \<Rightarrow> (arena \<times> 'm space) option" where
  "install_vtables os page installed slots a sp =
     (if installed then Some (a, sp) else vtable_thunks os page slots a sp)"

record tables =
  import_specs :: "import_spec list"
  apisets :: "string list"
  forward_symbols :: "string list"
  d3d11_slots :: "(u64 \<times> u8) list"
  d3d11_specs :: "import_spec list"
  d3d12_slots :: "(u64 \<times> u8) list"
  d3d12_specs :: "import_spec list"
  data_exports :: "((string \<times> string) \<times> u64) list"
  soft_stub :: u64

definition ImplTable_build ::
  "'m linux_vm \<Rightarrow> u64 \<Rightarrow> bool \<Rightarrow> tables \<Rightarrow> arena \<Rightarrow> 'm space \<Rightarrow> (impl_table \<times> arena \<times> 'm space) option" where
  "ImplTable_build os page installed T a sp =
     Option.bind (add_specs os page (import_specs T) Map.empty a sp) (\<lambda>(m, a, sp).
     let m = forward_apisets (apisets T) (forward_symbols T) m in
     Option.bind (install_vtables os page installed (d3d11_slots T) a sp) (\<lambda>(a, sp).
     Option.bind (add_specs os page (d3d11_specs T) m a sp) (\<lambda>(m, a, sp).
     Option.bind (install_vtables os page installed (d3d12_slots T) a sp) (\<lambda>(a, sp).
     Option.bind (add_specs os page (d3d12_specs T) m a sp) (\<lambda>(m, a, sp).
     let m = fold (\<lambda>(k, ptr) m. m(k \<mapsto> ptr)) (data_exports T) m in
     (case make_thunk os page (soft_stub T) 0 a sp of
        (Inl e, a, sp) \<Rightarrow> None
      | (Inr p, a, sp) \<Rightarrow> Some (\<lparr>impl_map = m, soft_stub_thunk = p\<rparr>, a, sp)))))))"

section \<open>Resolution\<close>

record resolved_imports =
  resolved_map :: "string \<times> string \<Rightarrow> u64 option"
  stubbed :: "(string \<times> string) list"

definition normalize_symbol :: "string \<Rightarrow> string" where
  "normalize_symbol name = name"

definition our_dlls :: "string list" where
  "our_dlls =
     [''kernel32.dll'', ''user32.dll'', ''gdi32.dll'', ''ntdll.dll'', ''advapi32.dll'', ''shell32.dll'', ''shlwapi.dll'',
      ''ole32.dll'', ''oleaut32.dll'', ''ws2_32.dll'', ''d3d11.dll'', ''dxgi.dll'', ''d3d12.dll'', ''d3dcompiler_47.dll'',
      ''xinput1_3.dll'', ''xinput1_4.dll'', ''xinput9_1_0.dll'', ''xaudio2_7.dll'', ''xaudio2_8.dll'', ''xaudio2_9.dll'',
      ''xaudio2_10.dll'', ''dinput8.dll'', ''comdlg32.dll'', ''comctl32.dll'', ''msvcrt.dll'', ''ucrtbase.dll'', ''tbs.dll'',
      ''imm32.dll'', ''bcrypt.dll'', ''crypt32.dll'', ''ncrypt.dll'', ''iphlpapi.dll'', ''gdiplus.dll'']"

type_synonym 's disk = "string \<Rightarrow> string \<Rightarrow> 's \<Rightarrow> u64 option \<times> 's"

definition try_resolve_from_disk :: "(string \<Rightarrow> string) \<Rightarrow> 's disk \<Rightarrow> 's disk" where
  "try_resolve_from_disk lower disk dll_name name s =
     (if lower dll_name \<in> set our_dlls then (None, s) else disk dll_name name s)"

definition put_resolved :: "string \<times> string \<Rightarrow> u64 \<Rightarrow> resolved_imports \<Rightarrow> resolved_imports" where
  "put_resolved key ptr out = out\<lparr>resolved_map := (resolved_map out)(key \<mapsto> ptr)\<rparr>"

definition put_stub :: "string \<times> string \<Rightarrow> u64 \<Rightarrow> resolved_imports \<Rightarrow> resolved_imports" where
  "put_stub key stub out = put_resolved key stub (out\<lparr>stubbed := stubbed out @ [key]\<rparr>)"

definition resolve_import ::
  "(string \<Rightarrow> string) \<Rightarrow> bool \<Rightarrow> u64 \<Rightarrow> 's disk \<Rightarrow> impl_table \<Rightarrow> import \<Rightarrow> resolved_imports \<times> 's \<Rightarrow> resolved_imports \<times> 's" where
  "resolve_import lower soft trap disk known imp st =
     (let (out, s) = st;
          dll = lower (imp_dll imp);
          symb = normalize_symbol (imp_name imp);
          stub = (if soft then soft_stub_thunk known else trap)
      in case lookup known dll symb of
           Some ptr \<Rightarrow>
             if dll = ''vcruntime140.dll'' \<or> dll = ''vcruntime140_1.dll'' \<or> dll = ''msvcp140.dll'' then
               (case try_resolve_from_disk lower disk (imp_dll imp) symb s of
                  (Some dptr, s) \<Rightarrow> (put_resolved (dll, symb) dptr out, s)
                | (None, s) \<Rightarrow> (put_resolved (dll, symb) ptr out, s))
             else (put_resolved (dll, symb) ptr out, s)
         | None \<Rightarrow>
             if take 15 dll = ''api-ms-win-crt-'' then
               (case lookup known ''ucrtbase.dll'' symb of
                  Some ptr \<Rightarrow> (put_resolved (dll, symb) ptr out, s)
                | None \<Rightarrow>
                    (case lookup known ''msvcrt.dll'' symb of
                       Some ptr \<Rightarrow> (put_resolved (dll, symb) ptr out, s)
                     | None \<Rightarrow> (put_stub (dll, symb) stub out, s)))
             else if dll = ''vcruntime140.dll'' \<or> dll = ''vcruntime140_1.dll'' then
               (case lookup known ''ntdll.dll'' symb of
                  Some ptr \<Rightarrow> (put_resolved (dll, symb) ptr out, s)
                | None \<Rightarrow> (put_stub (dll, symb) stub out, s))
             else
               (case try_resolve_from_disk lower disk (imp_dll imp) symb s of
                  (Some ptr, s) \<Rightarrow> (put_resolved (dll, symb) ptr out, s)
                | (None, s) \<Rightarrow> (put_stub (dll, symb) stub out, s)))"

definition resolve ::
  "(string \<Rightarrow> string) \<Rightarrow> bool \<Rightarrow> u64 \<Rightarrow> 's disk \<Rightarrow> import list \<Rightarrow> impl_table \<Rightarrow> 's \<Rightarrow> resolved_imports \<times> 's" where
  "resolve lower soft trap disk imps known s =
     fold (resolve_import lower soft trap disk known) imps (\<lparr>resolved_map = Map.empty, stubbed = []\<rparr>, s)"

section \<open>The table holds trampolines\<close>

text \<open>The code of the trampoline of an export.\<close>

definition spec_code :: "import_spec \<Rightarrow> u8 list" where
  "spec_code s =
     (if spec_noreturn s then emit_noreturn (spec_target s) (spec_args s) else emit_returning (spec_target s) (spec_args s))"

lemma make_spec_reach:
  assumes "arena_reach os page mapped prot_of a sp is" and "make_spec os page spec a sp = (Inr p, a', sp')"
  shows "arena_reach os page mapped prot_of a' sp' ((p, spec_code spec) # is)"
  using assms
  by (auto simp: make_spec_def spec_code_def split: if_splits intro: arena_reach.returning arena_reach.noreturn)

text \<open>Every entry of the table comes from one of the exports, whose code was issued at the entry's address, or was there
  before.\<close>

definition from_specs ::
  "import_spec set \<Rightarrow> (u64 \<times> u8 list) set \<Rightarrow> (string \<times> string \<Rightarrow> u64 option) \<Rightarrow> bool" where
  "from_specs S is m \<longleftrightarrow> (\<forall>k p. m k = Some p \<longrightarrow> (\<exists>s \<in> S. (p, spec_code s) \<in> is))"

lemma from_specs_mono: "from_specs S is m \<Longrightarrow> S \<subseteq> S' \<Longrightarrow> is \<subseteq> is' \<Longrightarrow> from_specs S' is' m"
  unfolding from_specs_def by blast

lemma add_specs_reach:
  "arena_reach os page mapped prot_of a sp is \<Longrightarrow> from_specs S (set is) m \<Longrightarrow>
    add_specs os page specs m a sp = Some (m', a', sp') \<Longrightarrow>
    \<exists>is'. arena_reach os page mapped prot_of a' sp' is' \<and> set is \<subseteq> set is' \<and> from_specs (S \<union> set specs) (set is') m'"
proof (induction specs arbitrary: S m a sp "is")
  case (Cons spec specs)
  obtain p a1 sp1 where 1: "make_spec os page spec a sp = (Inr p, a1, sp1)"
      and 2: "add_specs os page specs (m((spec_dll spec, spec_sym spec) \<mapsto> p)) a1 sp1 = Some (m', a', sp')"
    using Cons.prems(3) by (auto split: prod.splits sum.splits)
  have "from_specs (insert spec S) (set ((p, spec_code spec) # is)) (m((spec_dll spec, spec_sym spec) \<mapsto> p))"
    using Cons.prems(2) by (auto simp: from_specs_def)
  from Cons.IH [OF make_spec_reach [OF Cons.prems(1) 1] this 2] show ?case by auto
qed auto

lemma vtable_thunks_reach:
  "arena_reach os page mapped prot_of a sp is \<Longrightarrow> vtable_thunks os page slots a sp = Some (a', sp') \<Longrightarrow>
    \<exists>is'. arena_reach os page mapped prot_of a' sp' is' \<and> set is \<subseteq> set is'"
proof (induction slots arbitrary: a sp "is")
  case (Cons slot slots)
  obtain t n where slot: "slot = (t, n)" by fastforce
  obtain p a1 sp1 where 1: "make_thunk os page t n a sp = (Inr p, a1, sp1)" and 2: "vtable_thunks os page slots a1 sp1 = Some (a', sp')"
    using Cons.prems(2) by (auto simp: slot split: prod.splits sum.splits)
  from Cons.IH [OF arena_reach.returning [OF Cons.prems(1) 1] 2] show ?case by auto
qed auto

lemma install_vtables_reach:
  "arena_reach os page mapped prot_of a sp is \<Longrightarrow> install_vtables os page inst slots a sp = Some (a', sp') \<Longrightarrow>
    \<exists>is'. arena_reach os page mapped prot_of a' sp' is' \<and> set is \<subseteq> set is'"
  by (auto simp: install_vtables_def split: if_splits dest: vtable_thunks_reach)

lemma forward_from: "from_specs S is m \<Longrightarrow> from_specs S is (forward src dst m)"
  by (cases src; cases dst) (auto simp: from_specs_def forward_def split: option.split)

lemma fold_from: "(\<And>x m. from_specs S is m \<Longrightarrow> from_specs S is (f x m)) \<Longrightarrow> from_specs S is m \<Longrightarrow> from_specs S is (fold f xs m)"
  by (induction xs arbitrary: m) simp_all

lemma forward_apisets_from: "from_specs S is m \<Longrightarrow> from_specs S is (forward_apisets as syms m)"
  unfolding forward_apisets_def Let_def by (intro fold_from) (auto intro!: forward_from fold_from)

text \<open>Forwarding only touches the pseudo-DLLs.\<close>

lemma fold_other: "(\<And>x m. x \<in> set xs \<Longrightarrow> f x m k = m k) \<Longrightarrow> fold f xs m k = m k"
  by (induction xs arbitrary: m) simp_all

lemma forward_other: "fst k \<noteq> d \<Longrightarrow> forward src (d, n) m k = m k"
  by (auto simp: forward_def split: option.split)

lemma forward_apisets_other:
  assumes "fst k \<notin> set as"
  shows "forward_apisets as syms m k = m k"
proof -
  have k: "x \<in> set as \<Longrightarrow> fst k \<noteq> x" for x using assms by blast
  show ?thesis unfolding forward_apisets_def Let_def
    by (subst fold_other, simp add: forward_other k, intro fold_other forward_other k)
qed

text \<open>Building the table.\<close>

lemma build_reach:
  assumes r: "arena_reach os page mapped prot_of a sp []" and b: "ImplTable_build os page inst T a sp = Some (t, a', sp')"
  shows "\<exists>is m. arena_reach os page mapped prot_of a' sp' ((soft_stub_thunk t, emit_returning (soft_stub T) 0) # is) \<and>
    from_specs (set (import_specs T @ d3d11_specs T @ d3d12_specs T)) (set is) m \<and>
    impl_map t = fold (\<lambda>(k, ptr) m. m(k \<mapsto> ptr)) (data_exports T) m"
proof -
  obtain m1 a1 sp1 a2 sp2 m3 a3 sp3 a4 sp4 m5 a5 sp5 where
    s: "add_specs os page (import_specs T) Map.empty a sp = Some (m1, a1, sp1)"
      "install_vtables os page inst (d3d11_slots T) a1 sp1 = Some (a2, sp2)"
      "add_specs os page (d3d11_specs T) (forward_apisets (apisets T) (forward_symbols T) m1) a2 sp2 = Some (m3, a3, sp3)"
      "install_vtables os page inst (d3d12_slots T) a3 sp3 = Some (a4, sp4)"
      "add_specs os page (d3d12_specs T) m3 a4 sp4 = Some (m5, a5, sp5)"
    and e: "(case make_thunk os page (soft_stub T) 0 a5 sp5 of
        (Inl e, a, sp) \<Rightarrow> None
      | (Inr p, a, sp) \<Rightarrow> Some (\<lparr>impl_map = fold (\<lambda>(k, ptr) m. m(k \<mapsto> ptr)) (data_exports T) m5, soft_stub_thunk = p\<rparr>, a, sp)) =
      Some (t, a', sp')"
    using b by (auto simp: ImplTable_build_def Let_def bind_eq_Some_conv)
  obtain p where p: "make_thunk os page (soft_stub T) 0 a5 sp5 = (Inr p, a', sp')"
    and t: "t = \<lparr>impl_map = fold (\<lambda>(k, ptr) m. m(k \<mapsto> ptr)) (data_exports T) m5, soft_stub_thunk = p\<rparr>"
    using e by (auto split: prod.splits sum.splits)
  let ?reach = "arena_reach os page mapped prot_of"
  obtain i1 where 1: "?reach a1 sp1 i1" "from_specs (set (import_specs T)) (set i1) m1"
    using add_specs_reach [OF r _ s(1), of "{}"] by (auto simp: from_specs_def)
  obtain i2 where 2: "?reach a2 sp2 i2" "set i1 \<subseteq> set i2" using install_vtables_reach [OF 1(1) s(2)] by blast
  have "from_specs (set (import_specs T)) (set i2) (forward_apisets (apisets T) (forward_symbols T) m1)"
    using from_specs_mono [OF 1(2) order_refl 2(2)] by (rule forward_apisets_from)
  then obtain i3 where 3: "?reach a3 sp3 i3" "from_specs (set (import_specs T) \<union> set (d3d11_specs T)) (set i3) m3"
    using add_specs_reach [OF 2(1) _ s(3)] by blast
  obtain i4 where 4: "?reach a4 sp4 i4" "set i3 \<subseteq> set i4" using install_vtables_reach [OF 3(1) s(4)] by blast
  obtain i5 where 5: "?reach a5 sp5 i5"
      "from_specs (set (import_specs T) \<union> set (d3d11_specs T) \<union> set (d3d12_specs T)) (set i5) m5"
    using add_specs_reach [OF 4(1) from_specs_mono [OF 3(2) order_refl 4(2)] s(5)] by blast
  have "?reach a' sp' ((p, emit_returning (soft_stub T) 0) # i5)" by (rule arena_reach.returning [OF 5(1) p])
  then show ?thesis using 5(2) by (intro exI [of _ i5] exI [of _ m5]) (simp add: t Un_assoc)
qed

lemma fold_upd: "fold (\<lambda>(k, v) m. m(k \<mapsto> v)) xs m k = Some v \<Longrightarrow> (k, v) \<in> set xs \<or> m k = Some v"
proof (induction xs arbitrary: m)
  case (Cons x xs)
  obtain a b where x: "x = (a, b)" by fastforce
  from Cons.prems have "fold (\<lambda>(k, v) m. m(k \<mapsto> v)) xs (m(a \<mapsto> b)) k = Some v"
    by (simp only: x fold_simps prod.case)
  from Cons.IH [OF this] show ?case by (auto simp only: x list.set insert_iff fun_upd_apply option.inject split: if_splits)
qed simp


text \<open>A table of one export.\<close>

definition demo_tables :: tables where
  "demo_tables = \<lparr>import_specs = [export (\<lambda>p. 0x1234) ''kernel32.dll'' ''ExitProcess'' ''nt::process::exit_process'' 1 True],
     apisets = APISETS, forward_symbols = [''ExitProcess''], d3d11_slots = [], d3d11_specs = [], d3d12_slots = [], d3d12_specs = [],
     data_exports = [], soft_stub = 0x5678\<rparr>"

lemma place_fits:
  "\<not> sealed a \<Longrightarrow> \<not> arena_len a < round_up (cursor a) 16 + of_nat (length bs) \<Longrightarrow>
    place os page bs a sp = (Inr (arena_base a + round_up (cursor a) 16),
      a\<lparr>cursor := round_up (cursor a) 16 + of_nat (length bs)\<rparr>,
      sp\<lparr>ram := store_bytes bs (arena_base a + round_up (cursor a) 16) (ram sp)\<rparr>)"
  by (simp add: place_def arena_alloc_def Let_def)

lemma demo_build:
  "\<exists>a sp0 t a1 sp1 a2 sp2. with_capacity demo_pvm 4096 0 demo_space = (Inr a, sp0) \<and>
     ImplTable_build demo_pvm 4096 False demo_tables a sp0 = Some (t, a1, sp1) \<and> finalize demo_pvm a1 sp1 = (Inr (), a2, sp2) \<and>
     impl_map t (''kernel32.dll'', ''ExitProcess'') = Some 0x10000"
proof -
  define sp0 where "sp0 = snd (mmap_anon demo_pvm 0 4096 (PROT_READ OR PROT_WRITE) False demo_space)"
  define a where "a = \<lparr>arena_base = 0x10000, arena_len = 4096, cursor = 0, sealed = False, retired = []\<rparr>"
  have w: "with_capacity demo_pvm 4096 0 demo_space = (Inr a, sp0)"
    by (simp add: with_capacity_def round_up_def mmap_anon_def demo_pvm_def demo_space_def a_def sp0_def)
  have len: "length (emit_noreturn 0x1234 1) = 24" "length (emit_returning 0x5678 0) = 43"
    by (simp_all add: emit_noreturn_def emit_returning_def frame_size_def Let_def word_le_nat_alt)
  define a1 where "a1 = a\<lparr>cursor := 24\<rparr>"
  define sp1 where "sp1 = sp0\<lparr>ram := store_bytes (emit_noreturn 0x1234 1) 0x10000 (ram sp0)\<rparr>"
  define a2 where "a2 = a\<lparr>cursor := 75\<rparr>"
  define sp2 where "sp2 = sp1\<lparr>ram := store_bytes (emit_returning 0x5678 0) 0x10020 (ram sp1)\<rparr>"
  have 1: "make_thunk_noreturn demo_pvm 4096 0x1234 1 a sp0 = (Inr 0x10000, a1, sp1)"
    unfolding make_thunk_noreturn_def by (subst place_fits) (simp_all add: a_def a1_def sp1_def len round_up_def)
  have 2: "make_thunk demo_pvm 4096 0x5678 0 a1 sp1 = (Inr 0x10020, a2, sp2)"
    unfolding make_thunk_def by (subst place_fits) (simp_all add: a_def a1_def a2_def sp2_def len round_up_def)
  define m where "m = forward_apisets APISETS [''ExitProcess''] [(''kernel32.dll'', ''ExitProcess'') \<mapsto> (0x10000 :: u64)]"
  have b: "ImplTable_build demo_pvm 4096 False demo_tables a sp0 = Some (\<lparr>impl_map = m, soft_stub_thunk = 0x10020\<rparr>, a2, sp2)"
    by (simp add: ImplTable_build_def demo_tables_def make_spec_def export_def 1 2 install_vtables_def m_def)
  have "''kernel32.dll'' \<notin> set APISETS" by (simp add: APISETS_def)
  then have "m (''kernel32.dll'', ''ExitProcess'') = Some 0x10000" by (simp add: m_def forward_apisets_other)
  moreover obtain sp3 where "seal_blocks demo_pvm (blocks a2) sp2 = (Inr (), sp3)" using demo_seals by blast
  then have "finalize demo_pvm a2 sp2 = (Inr (), a2\<lparr>sealed := True\<rparr>, sp3)" by (simp add: finalize_def a2_def a_def)
  ultimately show ?thesis using w b by auto
qed


section \<open>Every import is bound\<close>

text \<open>A name that ends in \<open>.dll\<close>, as the import directories of linked programs give it, is never the name of a
  pseudo-DLL the table forwards to, so the forwarding changes no lookup under such a name.\<close>

lemma forwarding_not_reached: "forward_apisets APISETS syms m (d @ ''.dll'', n) = m (d @ ''.dll'', n)"
  using apisets_no_extension [of d] by (simp add: forward_apisets_other)

definition runtime_dlls :: "string set" where
  "runtime_dlls = {''vcruntime140.dll'', ''vcruntime140_1.dll'', ''msvcp140.dll''}"

text \<open>Where the address of an import comes from: the table under its own name, or for an import the table lacks, the C
  runtime of the table when the DLL is a pseudo-DLL of the universal C runtime and ntdll when it is the compiler runtime.\<close>

definition implemented :: "impl_table \<Rightarrow> string \<Rightarrow> string \<Rightarrow> u64 option" where
  "implemented known dll n =
     (case lookup known dll n of
        Some p \<Rightarrow> Some p
      | None \<Rightarrow>
          if take 15 dll = ''api-ms-win-crt-'' then
            (case lookup known ''ucrtbase.dll'' n of Some p \<Rightarrow> Some p | None \<Rightarrow> lookup known ''msvcrt.dll'' n)
          else if dll = ''vcruntime140.dll'' \<or> dll = ''vcruntime140_1.dll'' then lookup known ''ntdll.dll'' n
          else None)"

text \<open>A DLL on the disk is asked before the table for the C++ runtime, and instead of it for what is in neither.\<close>

definition disk_asked :: "impl_table \<Rightarrow> string \<Rightarrow> string \<Rightarrow> bool" where
  "disk_asked known dll n \<longleftrightarrow> dll \<notin> set our_dlls \<and>
     (if lookup known dll n \<noteq> None then dll \<in> runtime_dlls
      else take 15 dll \<noteq> ''api-ms-win-crt-'' \<and> dll \<noteq> ''vcruntime140.dll'' \<and> dll \<noteq> ''vcruntime140_1.dll'')"

definition import_source ::
  "(string \<Rightarrow> string) \<Rightarrow> u64 \<Rightarrow> 's disk \<Rightarrow> impl_table \<Rightarrow> (string \<times> string) set \<Rightarrow> string \<Rightarrow> string \<Rightarrow> u64 \<Rightarrow> bool" where
  "import_source lower stub disk known stubs dll n ptr \<longleftrightarrow>
     implemented known dll n = Some ptr \<or>
     disk_asked known dll n \<and> (\<exists>d s. lower d = dll \<and> fst (disk d n s) = Some ptr) \<or>
     implemented known dll n = None \<and> ptr = stub \<and> (dll, n) \<in> stubs"

lemma import_source_mono:
  "import_source lower stub disk known S dll n ptr \<Longrightarrow> S \<subseteq> S' \<Longrightarrow> import_source lower stub disk known S' dll n ptr"
  unfolding import_source_def by blast

lemma try_disk:
  "try_resolve_from_disk lower disk d n s = (r, s') \<Longrightarrow> r = Some ptr \<Longrightarrow>
    lower d \<notin> set our_dlls \<and> fst (disk d n s) = Some ptr"
  by (auto simp: try_resolve_from_disk_def split: if_splits)

lemma put_fields [simp]:
  "resolved_map (put_resolved k p out) = (resolved_map out)(k \<mapsto> p)" "stubbed (put_resolved k p out) = stubbed out"
  "resolved_map (put_stub k p out) = (resolved_map out)(k \<mapsto> p)" "stubbed (put_stub k p out) = stubbed out @ [k]"
  by (simp_all add: put_resolved_def put_stub_def)

lemma resolve_step:
  assumes "resolve_import lower soft trap disk known imp (out, s) = (out', s')"
  defines "dll \<equiv> lower (imp_dll imp)" and "n \<equiv> imp_name imp"
  shows "\<exists>ptr. resolved_map out' = (resolved_map out)((dll, n) \<mapsto> ptr) \<and> set (stubbed out) \<subseteq> set (stubbed out') \<and>
    import_source lower (if soft then soft_stub_thunk known else trap) disk known (set (stubbed out')) dll n ptr"
proof -
  obtain r s1 where d: "try_resolve_from_disk lower disk (imp_dll imp) n s = (r, s1)" by fastforce
  have from_disk: "dll \<notin> set our_dlls \<and> (\<exists>d s. lower d = dll \<and> fst (disk d n s) = Some ptr)" if "r = Some ptr" for ptr
    using try_disk [OF d that] unfolding dll_def by blast
  note step = assms(1) [unfolded resolve_import_def Let_def prod.case normalize_symbol_def, folded dll_def n_def]
  note I = import_source_def implemented_def disk_asked_def runtime_dlls_def
  show ?thesis
  proof (cases "lookup known dll n")
    case (Some p)
    then show ?thesis
      using step d from_disk by (cases r; auto simp: I split: if_splits)
  next
    case None
    show ?thesis
    proof (cases "take 15 dll = ''api-ms-win-crt-''")
      case True
      then show ?thesis using step None by (auto simp: I split: option.splits)
    next
      case crt: False
      show ?thesis
      proof (cases "dll = ''vcruntime140.dll'' \<or> dll = ''vcruntime140_1.dll''")
        case True
        then show ?thesis using step None crt by (auto simp: I split: option.splits)
      next
        case False
        then show ?thesis using step None crt d from_disk by (cases r; auto simp: I split: if_splits)
      qed
    qed
  qed
qed

lemma resolve_fold:
  assumes "fold (resolve_import lower soft trap disk known) imps (out, s) = (out', s')"
    and "\<forall>k ptr. resolved_map out k = Some ptr \<longrightarrow>
      import_source lower (if soft then soft_stub_thunk known else trap) disk known (set (stubbed out)) (fst k) (snd k) ptr"
  shows "(\<forall>k ptr. resolved_map out' k = Some ptr \<longrightarrow>
      import_source lower (if soft then soft_stub_thunk known else trap) disk known (set (stubbed out')) (fst k) (snd k) ptr) \<and>
    dom (resolved_map out') = dom (resolved_map out) \<union> (\<lambda>imp. (lower (imp_dll imp), imp_name imp)) ` set imps"
  using assms
proof (induction imps arbitrary: out s)
  case (Cons imp imps)
  obtain out1 s1 where 1: "resolve_import lower soft trap disk known imp (out, s) = (out1, s1)" by fastforce
  from resolve_step [OF 1] obtain ptr where
    m: "resolved_map out1 = (resolved_map out)((lower (imp_dll imp), imp_name imp) \<mapsto> ptr)"
    and st: "set (stubbed out) \<subseteq> set (stubbed out1)"
    and src: "import_source lower (if soft then soft_stub_thunk known else trap) disk known (set (stubbed out1))
      (lower (imp_dll imp)) (imp_name imp) ptr" by blast
  have "\<forall>k p. resolved_map out1 k = Some p \<longrightarrow>
      import_source lower (if soft then soft_stub_thunk known else trap) disk known (set (stubbed out1)) (fst k) (snd k) p"
  proof (intro allI impI)
    fix k p
    assume k: "resolved_map out1 k = Some p"
    show "import_source lower (if soft then soft_stub_thunk known else trap) disk known (set (stubbed out1)) (fst k) (snd k) p"
    proof (cases "k = (lower (imp_dll imp), imp_name imp)")
      case True
      then show ?thesis using src k by (simp add: m)
    next
      case False
      then have "resolved_map out k = Some p" using k by (simp add: m)
      then show ?thesis using Cons.prems(2) by (intro import_source_mono [OF _ st]) blast
    qed
  qed
  from Cons.IH [OF _ this] Cons.prems(1) 1 show ?case by (auto simp: m)
qed simp



end
