(* ===== verification/Runtime.thy ===== *)
theory Runtime
  imports Arena ThunkSpec
begin

unbundle bit_operations_syntax

text \<open>
  The guest's stacks and the entry into guest code, \<^verbatim>\<open>crates/runtime/src/lib.rs\<close>: the mapping of a stack with its guard
  page, and the assembly that switches to it, calls an entry point the Windows way and comes back. The assembly is
  given as its effect on the machine of \<open>X86\<close>, instruction by instruction; the guest is the parameter \<open>f\<close> and \<open>ra\<close> the
  address after the call. The installation of the signal handler is left out, what the handler does is there.
\<close>

section \<open>Stacks\<close>

record stack =
  stack_base :: u64
  total_len :: u64

abbreviation GUARD_PAGE_SIZE :: u64 where "GUARD_PAGE_SIZE \<equiv> 4096"
abbreviation DEFAULT_STACK_SIZE :: u64 where "DEFAULT_STACK_SIZE \<equiv> 0x100000"

datatype stack_error = StackMapFailed | GuardFailed

text \<open>A multiple of the page size, as the system reports it.\<close>

definition round_up_to_page :: "u64 \<Rightarrow> u64 \<Rightarrow> u64" where
  "round_up_to_page page n = (n + page - 1) AND NOT (page - 1)"

definition Stack_new :: "'m linux_vm \<Rightarrow> u64 \<Rightarrow> u64 \<Rightarrow> 'm space \<Rightarrow> (stack_error + stack) \<times> 'm space" where
  "Stack_new os page len sp =
     (let usable = round_up_to_page page len; total = usable + GUARD_PAGE_SIZE in
      case mmap_anon os 0 total (PROT_READ OR PROT_WRITE) False sp of
        (None, sp) \<Rightarrow> (Inl StackMapFailed, sp)
      | (Some b, sp) \<Rightarrow>
          (case protect_pages os b GUARD_PAGE_SIZE PROT_NONE sp of
             (False, sp) \<Rightarrow> (Inl GuardFailed, unmap os b total sp)
           | (True, sp) \<Rightarrow> (Inr \<lparr>stack_base = b, total_len = total\<rparr>, sp)))"

definition usable_len :: "stack \<Rightarrow> u64" where
  "usable_len s = total_len s - GUARD_PAGE_SIZE"

definition Stack_top :: "stack \<Rightarrow> u64" where
  "Stack_top s = (stack_base s + (GUARD_PAGE_SIZE + usable_len s)) AND NOT 0xF"

definition Stack_drop :: "'m linux_vm \<Rightarrow> stack \<Rightarrow> 'm space \<Rightarrow> 'm space" where
  "Stack_drop os s sp = unmap os (stack_base s) (total_len s) sp"

section \<open>Entering the guest\<close>

definition eax :: "machine \<Rightarrow> u32" where
  "eax m = ucast (regs m RAX)"

definition run_entrypoint :: "callee \<Rightarrow> u64 \<Rightarrow> u64 \<Rightarrow> u64 \<Rightarrow> machine \<Rightarrow> (u32 \<times> machine) option" where
  "run_entrypoint f ra entry stack_top m =
     (let m = set_reg R12 (regs m RSP) m;
          m = set_reg RSP stack_top m
      in case f entry (push64 ra m) of
           None \<Rightarrow> None
         | Some m \<Rightarrow> let m = set_reg RSP (regs m R12) m in Some (eax m, m))"

definition run_entrypoint_win64 :: "callee \<Rightarrow> u64 \<Rightarrow> u64 \<Rightarrow> u64 \<Rightarrow> u64 \<Rightarrow> machine \<Rightarrow> (u32 \<times> machine) option" where
  "run_entrypoint_win64 f ra entry stack_top peb m =
     (let m = set_reg R12 (regs m RSP) m;
          m = set_reg RCX peb m;
          m = set_reg RDX 0 m;
          m = set_reg RSP stack_top m;
          m = set_reg RSP (regs m RSP - 0x20) m
      in case f entry (push64 ra m) of
           None \<Rightarrow> None
         | Some m \<Rightarrow> let m = set_reg RSP (regs m R12) m in Some (eax m, m))"

definition run_dll_main_win64 ::
  "callee \<Rightarrow> u64 \<Rightarrow> u64 \<Rightarrow> u64 \<Rightarrow> u64 \<Rightarrow> u32 \<Rightarrow> u64 \<Rightarrow> machine \<Rightarrow> (u32 \<times> machine) option" where
  "run_dll_main_win64 f ra entry stack_top h_module reason reserved m =
     (let m = set_reg R12 (regs m RSP) m;
          m = set_reg RCX h_module m;
          m = set_reg RDX (ucast reason) m;
          m = set_reg R8 reserved m;
          m = set_reg RSP stack_top m;
          m = set_reg RSP (regs m RSP - 0x20) m
      in case f entry (push64 ra m) of
           None \<Rightarrow> None
         | Some m \<Rightarrow> let m = set_reg RSP (regs m R12) m in Some (eax m, m))"

text \<open>What the signal handler does: the exit of the process with a code, the default action, or nothing.\<close>

datatype handled = Exited u32 | Reraised | Ignored

definition fastfail_handler :: "(u64 \<times> u64) option \<Rightarrow> kernel \<Rightarrow> handled" where
  "fastfail_handler ucontext k =
     (case ucontext of
        None \<Rightarrow> Ignored
      | Some (rip, rcx) \<Rightarrow>
          if rip \<noteq> 0 \<and> guest k rip = 0xCD \<and> guest k (rip + 1) = 0x29 then Exited 0xC0000409 else Reraised)"

section \<open>What a stack is\<close>

lemma round_up_to_page_eq: "round_up_to_page page n = round_up n page"
  by (simp add: round_up_to_page_def round_up_def)

lemma Stack_new_ok:
  assumes "vm_laws os mapped" and "page_laws os 4096" and "prot_laws os 4096 prot_of" and "unat len < 2 ^ 62"
    and "Stack_new os 4096 len sp = (Inr s, sp')"
  shows "4096 dvd unat (stack_base s)" and "4096 dvd unat (total_len s)" and "unat len + 4096 \<le> unat (total_len s)"
    and "unat (stack_base s) + unat (total_len s) < 2 ^ 64" and "block (stack_base s) (total_len s) \<inter> mapped (pages sp) = {}"
    and "mapped (pages sp') = mapped (pages sp) \<union> block (stack_base s) (total_len s)"
    and "prot_of (pages sp') x =
      (if x \<in> block (stack_base s) 4096 then PROT_NONE else if x \<in> block (stack_base s) (total_len s) then PROT_READ OR PROT_WRITE
       else prot_of (pages sp) x)"
proof -
  let ?u = "round_up len 4096" and ?n = "round_up len 4096 + 4096"
  have po: "page_ok 4096" using assms(2) by (simp add: page_laws_def)
  have u: "4096 dvd unat ?u" "unat len \<le> unat ?u" "unat ?u < unat len + 4096"
    using round_up_props [OF po, of len] assms(4) by simp_all
  have n: "unat ?n = unat ?u + 4096" using u(3) assms(4) by (simp add: unat_word_ariths)
  then have dvd: "unat (4096 :: u64) dvd unat ?n" using u(1) by simp
  obtain b sp1 where m: "mmap_anon os 0 ?n (PROT_READ OR PROT_WRITE) False sp = (Some b, sp1)"
      and p: "protect_pages os b 4096 PROT_NONE sp1 = (True, sp')" and s: "s = \<lparr>stack_base = b, total_len = ?n\<rparr>"
    using assms(5) by (auto simp: Stack_new_def round_up_to_page_eq Let_def split: prod.splits option.splits bool.splits)
  note N = mmap_anon_new [OF m assms(1-3) dvd]
  obtain m' where mp: "mprotect os b 4096 PROT_NONE (pages sp1) = (True, m')" and sp': "sp' = sp1\<lparr>pages := m'\<rparr>"
    using p by (auto simp: protect_pages_def split: prod.splits)
  show "4096 dvd unat (stack_base s)" "4096 dvd unat (total_len s)" "unat len + 4096 \<le> unat (total_len s)"
    "unat (stack_base s) + unat (total_len s) < 2 ^ 64" "block (stack_base s) (total_len s) \<inter> mapped (pages sp) = {}"
    using N(2,4,5) n u dvd by (simp_all add: s)
  have "mapped m' = mapped (pages sp1)" using vm_lawsD(4) [OF assms(1), of b 4096 PROT_NONE "pages sp1"] by (simp add: mp)
  then show "mapped (pages sp') = mapped (pages sp) \<union> block (stack_base s) (total_len s)" using N(6) by (simp add: s sp')
  have "prot_of m' = (\<lambda>x. if x \<in> block b 4096 then PROT_NONE else prot_of (pages sp1) x)"
    using assms(3) mp N(2) dvd_refl [of "unat (4096 :: u64)"] unfolding prot_laws_def by blast
  then show "prot_of (pages sp') x =
      (if x \<in> block (stack_base s) 4096 then PROT_NONE else if x \<in> block (stack_base s) (total_len s) then PROT_READ OR PROT_WRITE
       else prot_of (pages sp) x)"
    using N(7) by (simp add: s sp')
qed

lemma Stack_top_ok:
  assumes "4096 dvd unat (stack_base s)" and "4096 dvd unat (total_len s)" and "unat (stack_base s) + unat (total_len s) < 2 ^ 64"
  shows "unat (Stack_top s) = unat (stack_base s) + unat (total_len s)" and "16 dvd unat (Stack_top s)"
proof -
  have u: "unat (stack_base s + total_len s) = unat (stack_base s) + unat (total_len s)"
    using assms(3) by (simp add: unat_word_ariths take_bit_nat_eq_self)
  have d: "16 dvd unat (stack_base s) + unat (total_len s)"
    using assms(1,2) dvd_trans [of 16 4096 "unat (stack_base s)"] dvd_trans [of 16 4096 "unat (total_len s)"] by (intro dvd_add) simp_all
  have t: "unat (Stack_top s) = unat (stack_base s + total_len s) div 2 ^ 4 * 2 ^ 4"
    using unat_and_not_mask [of 4 "stack_base s + total_len s"] by (simp add: Stack_top_def usable_len_def)
  show "unat (Stack_top s) = unat (stack_base s) + unat (total_len s)" unfolding t u using d by simp
  then show "16 dvd unat (Stack_top s)" using d by simp
qed

section \<open>What the guest finds\<close>

text \<open>What a Windows function promises its caller.\<close>

definition win_returns :: "callee \<Rightarrow> u64 \<Rightarrow> bool" where
  "win_returns f entry \<longleftrightarrow> (\<forall>m m'. f entry m = Some m' \<longrightarrow>
     regs m' RSP = regs m RSP + 8 \<and>
     (\<forall>r \<in> {RBX, RBP, RDI, RSI, R12, R13, R14, R15}. regs m' r = regs m r))"



end
