(* ===== verification/DllMod.thy ===== *)
theory DllMod
  imports DllLoad Exports Imports Runtime
begin

unbundle bit_operations_syntax

text \<open>
  The registry of the loaded modules, \<^verbatim>\<open>crates/pe-loader/src/dllmod.rs\<close>, and the resolution of an import from a file on
  the disk, \<^verbatim>\<open>crates/pe-loader/src/imports.rs\<close>. Loading a module resolves its imports, which may load further
  modules, so loading is recursive; the recursion carries a fuel, and running out of it is \<open>None\<close>, as a panic is. The
  file system, the parser of the file, the kernel and the module's entry point are the record \<open>dll_host\<close>; all of them but the
  entry point are fixed while a module loads. The text of the error messages is left out. A module is dropped when it
  leaves the registry: nothing else keeps a reference to it between two calls.
\<close>

section \<open>Data\<close>

record opt_header =
  reloc_table :: "(u32 \<times> u32) option"
  exception_dir :: "(u32 \<times> u32) option"
  tls_dir :: "(u32 \<times> u32) option"
  entry_point :: u32

record pe_file =
  coff_characteristics :: u16
  opt :: "opt_header option"
  pe_imports :: "import list"
  pe_view :: pe

datatype load_error = ReadFailed | ParseFailed | MapFailed map_error | BootstrapFailed

record loaded_module =
  h_module :: u64
  module_path :: rstring
  mod_name :: rstring
  module_exports :: export_table
  image :: mapped_image
  module_stack :: stack
  module_arena :: arena

record 'm loader =
  lspace :: "'m space"
  modules :: "loaded_module list"
  vtables :: bool
  loader_error :: u32

record 'm dll_host =
  vm_of :: "'m loader_vm"
  page_of :: u64
  canonicalize :: "rstring \<Rightarrow> rstring option"
  fs_read :: "rstring \<Rightarrow> u8 list option"
  fs_exists :: "rstring \<Rightarrow> bool"
  parse_pe :: "u8 list \<Rightarrow> pe_file option"
  impl_tables :: tables
  lower_name :: "string \<Rightarrow> string"
  lower_text :: "rstring \<Rightarrow> rstring"
  soft_stubs :: bool
  trap_stub :: u64
  dirs :: "rstring list"
  cstring_buf :: u64
  dll_main :: "u64 \<Rightarrow> u64 \<Rightarrow> u64 \<Rightarrow> 'm loader \<Rightarrow> u32 \<times> 'm loader"

abbreviation vm0 :: "'m dll_host \<Rightarrow> 'm linux_vm" where
  "vm0 host \<equiv> linux_vm.truncate (vm_of host)"

abbreviation on_space :: "('m space \<Rightarrow> 'm space) \<Rightarrow> 'm loader \<Rightarrow> 'm loader" where
  "on_space f st \<equiv> st\<lparr>lspace := f (lspace st)\<rparr>"

section \<open>The registry\<close>

definition lookup_by_path :: "rstring \<Rightarrow> 'm loader \<Rightarrow> u64 option" where
  "lookup_by_path canonical st = map_option h_module (find (\<lambda>m. module_path m = canonical) (modules st))"

definition find_by_handle :: "u64 \<Rightarrow> 'm loader \<Rightarrow> loaded_module option" where
  "find_by_handle h st = find (\<lambda>m. h_module m = h) (modules st)"

definition LoadedModule_drop :: "'m dll_host \<Rightarrow> loaded_module \<Rightarrow> 'm space \<Rightarrow> 'm space" where
  "LoadedModule_drop host m sp =
     (let sp = unmap_image (vm_of host) (image m) sp;
          sp = Stack_drop (vm0 host) (module_stack m) sp
      in arena_drop (vm0 host) (module_arena m) sp)"

definition mod_free_library :: "'m dll_host \<Rightarrow> u64 \<Rightarrow> 'm loader \<Rightarrow> bool \<times> 'm loader" where
  "mod_free_library host h st =
     (case List.extract (\<lambda>m. h_module m = h) (modules st) of
        None \<Rightarrow> (False, st)
      | Some (ms, m, ms') \<Rightarrow> (True, on_space (LoadedModule_drop host m) (st\<lparr>modules := ms @ ms'\<rparr>)))"

text \<open>The last component of a path, in lower case.\<close>

definition module_name_of :: "(rstring \<Rightarrow> rstring) \<Rightarrow> rstring \<Rightarrow> rstring" where
  "module_name_of lower path = lower (rev (takeWhile (\<lambda>c. c \<noteq> slash) (rev path)))"

section \<open>Looking up an export\<close>

definition EXE_BASE :: u64 where "EXE_BASE = 0x140000000"

definition fake_handle :: "u64 \<Rightarrow> bool" where
  "fake_handle h \<longleftrightarrow> EXE_BASE \<le> h \<and> h < EXE_BASE + 0x10000"

definition fake_dll :: "u64 \<Rightarrow> string" where
  "fake_dll h =
     (let off = h - EXE_BASE in
      if off = 0x2000 then ''ntdll.dll'' else if off = 0x4000 then ''user32.dll'' else if off = 0x5000 then ''gdi32.dll''
      else if off = 0x6000 then ''advapi32.dll'' else ''kernel32.dll'')"

text \<open>The names of the table are ASCII; a name with other characters is not there.\<close>

definition lookup_text :: "impl_table \<Rightarrow> string \<Rightarrow> rstring \<Rightarrow> u64 option" where
  "lookup_text t dll n = (if \<forall>c \<in> set n. c < 0x80 then lookup t dll (map char_of n) else None)"

definition mod_get_proc_address :: "'m dll_host \<Rightarrow> u64 \<Rightarrow> u64 \<Rightarrow> 'm loader \<Rightarrow> (u64 \<times> 'm loader) option" where
  "mod_get_proc_address host h name st =
     (if h = 0 then Some (0, st)
      else if fake_handle h then
        (if name < 0x10000 then Some (0, st)
         else
           (let symb = from_utf8_lossy (read_cstring 256 name (ram (lspace st))) in
            case with_capacity (vm0 host) (page_of host) 0x8000 (lspace st) of
              (Inl e, sp) \<Rightarrow> None
            | (Inr a, sp) \<Rightarrow>
                (case ImplTable_build (vm0 host) (page_of host) (vtables st) (impl_tables host) a sp of
                   None \<Rightarrow> None
                 | Some (t, a, sp) \<Rightarrow>
                     (case finalize (vm0 host) a sp of
                        (Inl e, a, sp) \<Rightarrow> None
                      | (Inr _, a, sp) \<Rightarrow>
                          (case lookup_text t (fake_dll h) symb of
                             Some ptr \<Rightarrow> Some (ptr, st\<lparr>lspace := sp, vtables := True\<rparr>)
                           | None \<Rightarrow> Some (0, st\<lparr>lspace := arena_drop (vm0 host) a sp, vtables := True\<rparr>))))))
      else
        (case find_by_handle h st of
           None \<Rightarrow> Some (0, st)
         | Some m \<Rightarrow> Some (module_proc (image m) (module_exports m) name (ram (lspace st)), st)))"

definition set_loader_error :: "u32 \<Rightarrow> 'm loader \<Rightarrow> 'm loader" where
  "set_loader_error e st = st\<lparr>loader_error := e\<rparr>"

text \<open>The functions registered with kernel32, with a function that loads a file.\<close>

definition loader_bridge ::
  "(rstring \<Rightarrow> bool \<Rightarrow> 'm loader \<Rightarrow> ((load_error + u64) \<times> 'm loader) option) \<Rightarrow> 'm dll_host \<Rightarrow> 'm loader bridge" where
  "loader_bridge load host =
     \<lparr>load_dll_fn = Some (\<lambda>path attach st.
        (case load path attach st of
           None \<Rightarrow> None
         | Some (Inl e, st) \<Rightarrow> Some (0, st)
         | Some (Inr h, st) \<Rightarrow> Some (h, st))),
      get_proc_address_fn = Some (mod_get_proc_address host),
      free_library_fn = Some (\<lambda>h st. Some (mod_free_library host h st)),
      set_error = set_loader_error\<rparr>"

section \<open>Imports from the disk\<close>

text \<open>The candidates that exist, in turn, until one of them has the symbol. The C string of the symbol is a buffer of the
  host.\<close>

fun try_candidates ::
  "(rstring \<Rightarrow> bool \<Rightarrow> 'm loader \<Rightarrow> ((load_error + u64) \<times> 'm loader) option) \<Rightarrow> 'm dll_host \<Rightarrow> string \<Rightarrow> rstring list \<Rightarrow>
     'm loader \<Rightarrow> (u64 option \<times> 'm loader) option" where
  "try_candidates load host symb [] st = Some (None, st)"
| "try_candidates load host symb (p # ps) st =
     (if \<not> fs_exists host p then try_candidates load host symb ps st
      else
        (case load p False st of
           None \<Rightarrow> None
         | Some (Inl e, st) \<Rightarrow> try_candidates load host symb ps st
         | Some (Inr h, st) \<Rightarrow>
             if CHR 0x00 \<in> set symb then Some (None, st)
             else
               (let st = on_space (\<lambda>sp. sp\<lparr>ram := store_bytes (utf8 (map of_char symb) @ [0]) (cstring_buf host) (ram sp)\<rparr>) st in
                case dll_get_proc_address (loader_bridge load host) h (cstring_buf host) st of
                  None \<Rightarrow> None
                | Some (p, st) \<Rightarrow> if p \<noteq> 0 then Some (Some p, st) else try_candidates load host symb ps st)))"

text \<open>As the parameter \<open>disk\<close> of the resolution; its state is \<open>None\<close> once a call has not returned.\<close>

definition from_disk ::
  "(rstring \<Rightarrow> bool \<Rightarrow> 'm loader \<Rightarrow> ((load_error + u64) \<times> 'm loader) option) \<Rightarrow> 'm dll_host \<Rightarrow> 'm loader option disk" where
  "from_disk load host dll symb s =
     (case s of
        None \<Rightarrow> (None, None)
      | Some st \<Rightarrow>
          (case candidate_paths (dirs host) (map of_char dll) of
             None \<Rightarrow> (None, None)
           | Some ps \<Rightarrow>
               (case try_candidates load host symb ps st of
                  None \<Rightarrow> (None, None)
                | Some (r, st) \<Rightarrow> (r, Some st))))"

section \<open>Loading\<close>

definition map_and_relocate ::
  "'m dll_host \<Rightarrow> u8 list \<Rightarrow> pe_file \<Rightarrow> opt_header \<Rightarrow> 'm space \<Rightarrow> (load_error + mapped_image) \<times> 'm space" where
  "map_and_relocate host bytes file oh sp =
     (case map_image_anywhere (vm_of host) (page_of host) bytes (pe_view file) sp of
        (Inl e, sp) \<Rightarrow> (Inl (MapFailed e), sp)
      | (Inr img, sp) \<Rightarrow>
          (case reloc_table oh of
             None \<Rightarrow> (Inr img, sp)
           | Some dir \<Rightarrow>
               (case apply_relocations (vm_of host) (page_of host) (\<lambda>bs. map_option pe_view (parse_pe host bs)) img bytes
                       (pe_view file) dir sp of
                  (Inl e, sp) \<Rightarrow> (Inl (MapFailed e), sp)
                | (Inr _, sp) \<Rightarrow> (Inr img, sp))))"

definition bind_imports ::
  "'m loader option disk \<Rightarrow> 'm dll_host \<Rightarrow> pe_file \<Rightarrow> mapped_image \<Rightarrow> 'm loader \<Rightarrow>
     ((load_error + resolved_imports \<times> arena) \<times> 'm loader) option" where
  "bind_imports disk host file img st =
     (case with_capacity (vm0 host) (page_of host) 0x8000 (lspace st) of
        (Inl e, sp) \<Rightarrow> Some (Inl BootstrapFailed, st\<lparr>lspace := sp\<rparr>)
      | (Inr a, sp) \<Rightarrow>
          (case ImplTable_build (vm0 host) (page_of host) (vtables st) (impl_tables host) a sp of
             None \<Rightarrow> None
           | Some (t, a, sp) \<Rightarrow>
               (case resolve (lower_name host) (soft_stubs host) (trap_stub host) disk (pe_imports file) t
                       (Some (st\<lparr>lspace := sp, vtables := True\<rparr>)) of
                  (r, None) \<Rightarrow> None
                | (r, Some st) \<Rightarrow>
                    (let sp = write_iat (vm_of host) (page_of host) (lower_name host) img (pe_imports file) (resolved_map r) (lspace st) in
                     case finalize (vm0 host) a sp of
                       (Inl e, a, sp) \<Rightarrow> Some (Inl BootstrapFailed, st\<lparr>lspace := arena_drop (vm0 host) a sp\<rparr>)
                     | (Inr _, a, sp) \<Rightarrow> Some (Inr (r, a), st\<lparr>lspace := sp\<rparr>)))))"

definition finish_load ::
  "'m dll_host \<Rightarrow> rstring \<Rightarrow> mapped_image \<Rightarrow> arena \<Rightarrow> opt_header \<Rightarrow> bool \<Rightarrow> 'm loader \<Rightarrow> (load_error + u64) \<times> 'm loader" where
  "finish_load host canonical img a oh attach st =
     (let exports = parse_export_table img (ram (lspace st)) in
      case Stack_new (vm0 host) (page_of host) DEFAULT_STACK_SIZE (lspace st) of
        (Inl e, sp) \<Rightarrow> (Inl BootstrapFailed, st\<lparr>lspace := arena_drop (vm0 host) a sp\<rparr>)
      | (Inr stk, sp) \<Rightarrow>
          (let st = st\<lparr>lspace := sp\<rparr>;
               registered = (\<lambda>st. (Inr (ibase img), st\<lparr>modules := modules st @ [\<lparr>h_module = ibase img, module_path = canonical,
                 mod_name = module_name_of (lower_text host) canonical, module_exports = exports, image = img,
                 module_stack = stk, module_arena = a\<rparr>]\<rparr>));
               dropped = (\<lambda>sp. arena_drop (vm0 host) a (Stack_drop (vm0 host) stk sp))
           in if \<not> attach \<or> entry_point oh = 0 then registered st
              else
                (case rva_to_ptr img (entry_point oh) of
                   None \<Rightarrow> (Inl BootstrapFailed, on_space dropped st)
                 | Some entry \<Rightarrow>
                     (case dll_main host entry (Stack_top stk) (ibase img) st of
                        (result, st) \<Rightarrow>
                          if result = 0 then (Inl BootstrapFailed, on_space (\<lambda>sp. dropped (unmap_image (vm_of host) img sp)) st)
                          else registered st))))"

fun load_dll_ex :: "nat \<Rightarrow> 'm dll_host \<Rightarrow> rstring \<Rightarrow> bool \<Rightarrow> 'm loader \<Rightarrow> ((load_error + u64) \<times> 'm loader) option" where
  "load_dll_ex 0 host path attach st = None"
| "load_dll_ex (Suc n) host path attach st =
     (case canonicalize host path of
        None \<Rightarrow> Some (Inl ReadFailed, st)
      | Some canonical \<Rightarrow>
          (case lookup_by_path canonical st of
             Some h \<Rightarrow> Some (Inr h, st)
           | None \<Rightarrow>
               (case fs_read host path of
                  None \<Rightarrow> Some (Inl ReadFailed, st)
                | Some bytes \<Rightarrow>
                    (case parse_pe host bytes of
                       None \<Rightarrow> Some (Inl ParseFailed, st)
                     | Some file \<Rightarrow>
                         if coff_characteristics file AND 0x2000 = 0 then Some (Inl BootstrapFailed, st)
                         else
                           (case opt file of
                              None \<Rightarrow> Some (Inl BootstrapFailed, st)
                            | Some oh \<Rightarrow>
                                (case map_and_relocate host bytes file oh (lspace st) of
                                   (Inl e, sp) \<Rightarrow> Some (Inl e, st\<lparr>lspace := sp\<rparr>)
                                 | (Inr img, sp) \<Rightarrow>
                                     (case bind_imports (from_disk (\<lambda>p r. load_dll_ex n host p r) host) host file img (st\<lparr>lspace := sp\<rparr>) of
                                        None \<Rightarrow> None
                                      | Some (Inl e, st) \<Rightarrow> Some (Inl e, st)
                                      | Some (Inr (r, a), st) \<Rightarrow> Some (finish_load host canonical img a oh attach st))))))))"

definition load_dll :: "nat \<Rightarrow> 'm dll_host \<Rightarrow> rstring \<Rightarrow> 'm loader \<Rightarrow> ((load_error + u64) \<times> 'm loader) option" where
  "load_dll n host path = load_dll_ex n host path True"

definition register_kernel32_bridge :: "nat \<Rightarrow> 'm dll_host \<Rightarrow> 'm loader bridge" where
  "register_kernel32_bridge n host = loader_bridge (load_dll_ex n host) host"

end
