(* ===== verification/DllModSpec.thy ===== *)
theory DllModSpec
  imports DllMod RelocSpec
begin

unbundle bit_operations_syntax

text \<open>
  What the registry of the modules guarantees: over loads, unloads and lookups the registered modules own pairwise
  disjoint memory that is mapped, so handles are not shared and unloading one module leaves the others in place. The
  proof follows the memory through the nested loads: each stage takes only fresh memory or gives back its own.
\<close>

section \<open>Memory taken and given back\<close>

definition takes :: "('m \<Rightarrow> u64 set) \<Rightarrow> 'm space \<Rightarrow> u64 set \<Rightarrow> 'm space \<Rightarrow> bool" where
  "takes mapped sp N sp' \<longleftrightarrow> mapped (pages sp') = mapped (pages sp) \<union> N \<and> N \<inter> mapped (pages sp) = {}"

definition arena_area :: "arena \<Rightarrow> u64 set" where
  "arena_area a = (\<Union>(b, n) \<in> set (blocks a). block b n)"

definition arena_takes :: "('m \<Rightarrow> u64 set) \<Rightarrow> arena \<times> 'm space \<Rightarrow> arena \<times> 'm space \<Rightarrow> bool" where
  "arena_takes mapped x y \<longleftrightarrow> (\<exists>N. takes mapped (snd x) N (snd y) \<and> arena_area (fst y) = arena_area (fst x) \<union> N)"

lemma arena_takes_refl: "arena_takes mapped x x"
  by (auto simp: arena_takes_def takes_def)

lemma arena_takes_trans: "arena_takes mapped x y \<Longrightarrow> arena_takes mapped y z \<Longrightarrow> arena_takes mapped x z"
proof -
  assume "arena_takes mapped x y" "arena_takes mapped y z"
  then obtain N N' where "takes mapped (snd x) N (snd y)" "arena_area (fst y) = arena_area (fst x) \<union> N"
      "takes mapped (snd y) N' (snd z)" "arena_area (fst z) = arena_area (fst y) \<union> N'" unfolding arena_takes_def by blast
  then show ?thesis unfolding arena_takes_def takes_def by (intro exI [of _ "N \<union> N'"]) auto
qed

lemma mmap_takes:
  assumes "vm_laws os mapped" and "mmap_anon os 0 n p False sp = (Some b, sp')"
  shows "takes mapped sp (block b n) sp'"
proof -
  obtain m where m: "mmap os 0 n p False (pages sp) = (Some b, m)" and s: "pages sp' = m"
    using assms(2) by (auto simp: mmap_anon_def split: prod.splits option.splits)
  show ?thesis using vm_lawsD(1) [OF assms(1) m] by (auto simp: takes_def s)
qed

lemma mmap_none_takes:
  assumes "vm_laws os mapped" and "mmap_anon os 0 n p False sp = (None, sp')"
  shows "takes mapped sp {} sp'"
proof -
  obtain m where m: "mmap os 0 n p False (pages sp) = (None, m)" and s: "pages sp' = m"
    using assms(2) by (auto simp: mmap_anon_def split: prod.splits option.splits)
  show ?thesis using vm_lawsD(3) [OF assms(1) m] by (auto simp: takes_def s)
qed

lemma protect_mapped:
  assumes "vm_laws os mapped" and "protect_pages os a n p sp = (ok, sp')"
  shows "mapped (pages sp') = mapped (pages sp)"
proof -
  obtain m where "mprotect os a n p (pages sp) = (ok, m)" "pages sp' = m"
    using assms(2) by (auto simp: protect_pages_def split: prod.splits)
  then show ?thesis using vm_lawsD(4) [OF assms(1), of a n p "pages sp"] by simp
qed

lemma unmap_mapped:
  assumes "vm_laws os mapped"
  shows "mapped (pages sp) - block b n \<subseteq> mapped (pages (unmap os b n sp))"
proof -
  obtain ok m where m: "munmap os b n (pages sp) = (ok, m)" by fastforce
  then have "mapped m = (if ok then mapped (pages sp) - block b n else mapped (pages sp))"
    using vm_lawsD(5,6) [OF assms] by (cases ok) simp_all
  then show ?thesis using m by (auto simp: unmap_def)
qed

lemma unmap_blocks_mapped:
  "vm_laws os mapped \<Longrightarrow> mapped (pages sp) - (\<Union>(b, n) \<in> set bs. block b n) \<subseteq> mapped (pages (unmap_blocks os bs sp))"
proof (induction os bs sp rule: unmap_blocks.induct)
  case (2 os b n bs sp)
  have "(\<Union>(b, n) \<in> set ((b, n) # bs). block b n) = block b n \<union> (\<Union>(b, n) \<in> set bs. block b n)" by simp
  then show ?case using 2(1) [OF 2(2)] unmap_mapped [OF 2(2), of sp b n] by (cases "b = 0") auto
qed simp

section \<open>The arena\<close>

lemma with_capacity_takes: "vm_laws os mapped \<Longrightarrow> with_capacity os page c sp = (Inr a, sp') \<Longrightarrow> takes mapped sp (arena_area a) sp'"
  by (auto simp: with_capacity_def Let_def arena_area_def blocks_def dest: mmap_takes split: prod.splits option.splits)

lemma with_capacity_none: "vm_laws os mapped \<Longrightarrow> with_capacity os page c sp = (Inl e, sp') \<Longrightarrow> takes mapped sp {} sp'"
  by (auto simp: with_capacity_def Let_def dest: mmap_none_takes split: prod.splits option.splits)

lemma arena_area_upd [simp]:
  "arena_area (a\<lparr>cursor := c\<rparr>) = arena_area a" "arena_area (a\<lparr>sealed := x\<rparr>) = arena_area a"
  by (simp_all add: arena_area_def blocks_def)

lemma arena_takes_cursor [simp]: "arena_takes mapped x (a\<lparr>cursor := c\<rparr>, sp) = arena_takes mapped x (a, sp)"
  by (simp add: arena_takes_def)

lemma arena_takes_ram [simp]: "arena_takes mapped x (a, sp\<lparr>ram := k\<rparr>) = arena_takes mapped x (a, sp)"
  by (simp add: arena_takes_def takes_def)

lemma grow_takes:
  assumes "vm_laws os mapped" and "grow os page n a sp = (r, a', sp')"
  shows "arena_takes mapped (a, sp) (a', sp')"
proof -
  define m where "m = round_up (max n (arena_len a * 2)) page"
  obtain ob sp1 where m1: "mmap_anon os 0 m (PROT_READ OR PROT_WRITE) False sp = (ob, sp1)" by fastforce
  show ?thesis
  proof (cases ob)
    case None
    then have "takes mapped sp {} sp1" using mmap_none_takes [OF assms(1)] m1 by simp
    moreover have "a' = a" "sp' = sp1" using assms(2) None m1 by (simp_all add: grow_def Let_def m_def)
    ultimately show ?thesis unfolding arena_takes_def by auto
  next
    case (Some b)
    then have "takes mapped sp (block b m) sp1" using mmap_takes [OF assms(1)] m1 by simp
    moreover have "arena_area a' = arena_area a \<union> block b m" "sp' = sp1"
      using assms(2) Some m1 by (auto simp: grow_def Let_def m_def arena_area_def blocks_def)
    ultimately show ?thesis unfolding arena_takes_def by auto
  qed
qed

lemma alloc_takes:
  assumes "vm_laws os mapped" and "arena_alloc os page n a sp = (r, a', sp')"
  shows "arena_takes mapped (a, sp) (a', sp')"
proof (cases "\<not> sealed a \<and> arena_len a < round_up (cursor a) 16 + n")
  case True
  obtain q a1 sp1 where g: "grow os page (round_up (cursor a) 16 + n) a sp = (q, a1, sp1)" by (metis prod_cases3)
  have "a' = a1 \<or> (\<exists>c. a' = a1\<lparr>cursor := c\<rparr>)" "sp' = sp1"
    using assms(2) True g by (auto simp: arena_alloc_def Let_def split: sum.splits)
  then show ?thesis using grow_takes [OF assms(1) g] by auto
next
  case False
  then have "a' = a \<or> (\<exists>c. a' = a\<lparr>cursor := c\<rparr>)" "sp' = sp"
    using assms(2) by (auto simp: arena_alloc_def Let_def split: if_splits)
  then show ?thesis using arena_takes_refl [of mapped "(a, sp)"] by auto
qed

lemma place_takes: "vm_laws os mapped \<Longrightarrow> place os page bs a sp = (r, a', sp') \<Longrightarrow> arena_takes mapped (a, sp) (a', sp')"
  by (auto simp: place_def dest: alloc_takes split: prod.splits sum.splits)

lemma make_spec_takes: "vm_laws os mapped \<Longrightarrow> make_spec os page s a sp = (r, a', sp') \<Longrightarrow> arena_takes mapped (a, sp) (a', sp')"
  by (auto simp: make_spec_def make_thunk_def make_thunk_noreturn_def arena_takes_refl dest: place_takes split: if_splits)

lemma add_specs_takes:
  "vm_laws os mapped \<Longrightarrow> add_specs os page specs m a sp = Some (m', a', sp') \<Longrightarrow> arena_takes mapped (a, sp) (a', sp')"
proof (induction specs arbitrary: m a sp)
  case (Cons s specs)
  then obtain p a1 sp1 where 1: "make_spec os page s a sp = (Inr p, a1, sp1)"
      and 2: "add_specs os page specs (m((spec_dll s, spec_sym s) \<mapsto> p)) a1 sp1 = Some (m', a', sp')"
    by (auto split: prod.splits sum.splits)
  from arena_takes_trans [OF make_spec_takes [OF Cons.prems(1) 1] Cons.IH [OF Cons.prems(1) 2]] show ?case .
qed (simp add: arena_takes_refl)

lemma vtable_thunks_takes:
  "vm_laws os mapped \<Longrightarrow> vtable_thunks os page slots a sp = Some (a', sp') \<Longrightarrow> arena_takes mapped (a, sp) (a', sp')"
proof (induction slots arbitrary: a sp)
  case (Cons slot slots)
  obtain t n where slot: "slot = (t, n)" by fastforce
  obtain p a1 sp1 where 1: "make_thunk os page t n a sp = (Inr p, a1, sp1)" and 2: "vtable_thunks os page slots a1 sp1 = Some (a', sp')"
    using Cons.prems(2) by (auto simp: slot split: prod.splits sum.splits)
  have "place os page (emit_returning t n) a sp = (Inr p, a1, sp1)" using 1 by (simp add: make_thunk_def split: if_splits)
  from arena_takes_trans [OF place_takes [OF Cons.prems(1) this] Cons.IH [OF Cons.prems(1) 2]] show ?case .
qed (simp add: arena_takes_refl)

lemma build_takes:
  assumes "vm_laws os mapped" and "ImplTable_build os page inst T a sp = Some (t, a', sp')"
  shows "arena_takes mapped (a, sp) (a', sp')"
proof -
  obtain m1 a1 sp1 m2 a2 sp2 m3 a3 sp3 m4 a4 sp4 m5 a5 sp5 where
      1: "add_specs os page (import_specs T) Map.empty a sp = Some (m1, a1, sp1)"
      and 2: "install_vtables os page inst (d3d11_slots T) a1 sp1 = Some (a2, sp2)"
      and 3: "add_specs os page (d3d11_specs T) m2 a2 sp2 = Some (m3, a3, sp3)"
      and 4: "install_vtables os page inst (d3d12_slots T) a3 sp3 = Some (a4, sp4)"
      and 5: "add_specs os page (d3d12_specs T) m4 a4 sp4 = Some (m5, a5, sp5)"
      and 6: "\<exists>p. make_thunk os page (soft_stub T) 0 a5 sp5 = (Inr p, a', sp')"
    using assms(2) unfolding ImplTable_build_def Let_def
    by (auto split: Option.bind_splits prod.splits sum.splits)
  have inst: "arena_takes mapped (x, y) (x', y')" if "install_vtables os page inst ss x y = Some (x', y')" for ss x y x' y'
    using that vtable_thunks_takes [OF assms(1)] by (auto simp: install_vtables_def arena_takes_refl split: if_splits)
  from 6 obtain p where "place os page (emit_returning (soft_stub T) 0) a5 sp5 = (Inr p, a', sp')" by (auto simp: make_thunk_def)
  note P = place_takes [OF assms(1) this]
  show ?thesis
    by (rule arena_takes_trans [OF add_specs_takes [OF assms(1) 1] arena_takes_trans [OF inst [OF 2] arena_takes_trans [OF
          add_specs_takes [OF assms(1) 3] arena_takes_trans [OF inst [OF 4] arena_takes_trans [OF add_specs_takes [OF assms(1) 5] P]]]]])
qed

lemma seal_mapped: "vm_laws os mapped \<Longrightarrow> seal_blocks os bs sp = (r, sp') \<Longrightarrow> mapped (pages sp') = mapped (pages sp)"
proof (induction os bs sp rule: seal_blocks.induct)
  case (2 os b n bs sp)
  obtain ok sp1 where p: "protect_pages os b n (PROT_READ OR PROT_EXEC) sp = (ok, sp1)" by fastforce
  from protect_mapped [OF 2(2) p] 2 p show ?case by (cases ok) auto
qed simp

lemma finalize_mapped:
  assumes "vm_laws os mapped" and "finalize os a sp = (r, a', sp')"
  shows "mapped (pages sp') = mapped (pages sp)" and "arena_area a' = arena_area a"
  using assms seal_mapped [OF assms(1)] by (auto simp: finalize_def split: if_splits prod.splits sum.splits)

section \<open>The image\<close>

lemma relocate_entry_mapped:
  assumes "vm_laws (linux_vm.truncate os) mapped" and "relocate_entry os page img pe delta pr e sp = (r, sp')"
  shows "mapped (pages sp') = mapped (pages sp)"
proof (cases "drop_bit 12 e = 0 \<or> rva_to_ptr img (of_nat (unat pr + unat (e AND 0x0FFF))) = None")
  case True
  then show ?thesis using assms(2) by (auto simp: relocate_entry_def Let_def split: if_splits option.splits)
next
  case False
  then obtain t where t: "rva_to_ptr img (of_nat (unat pr + unat (e AND 0x0FFF))) = Some t" by blast
  obtain fs fl rp where u: "unprotect_span img pe t 8 page = (fs, fl, rp)" by (metis prod_cases3)
  obtain ok sp1 where p: "protect_pages (linux_vm.truncate os) fs fl (PROT_READ OR PROT_WRITE) sp = (ok, sp1)" by fastforce
  obtain ok2 sp2 where q: "protect_pages (linux_vm.truncate os) fs fl rp
      (sp1\<lparr>ram := apply_one_reloc t (drop_bit 12 e) delta (ram sp1)\<rparr>) = (ok2, sp2)" by fastforce
  have "sp' = (if ok then sp2 else sp1)"
    using assms(2) False t u p q by (cases ok) (simp_all add: relocate_entry_def Let_def)
  then show ?thesis using protect_mapped [OF assms(1) p] protect_mapped [OF assms(1) q] by simp
qed

lemma relocate_entries_mapped:
  "vm_laws (linux_vm.truncate os) mapped \<Longrightarrow> relocate_entries os page img pe delta pr es sp = (r, sp') \<Longrightarrow> mapped (pages sp') = mapped (pages sp)"
proof (induction es arbitrary: sp)
  case (Cons e es)
  obtain r1 sp1 where 1: "relocate_entry os page img pe delta pr e sp = (r1, sp1)" by fastforce
  from relocate_entry_mapped [OF Cons.prems(1) 1] Cons 1 show ?case by (cases r1) auto
qed simp

lemma relocate_blocks_mapped:
  "vm_laws (linux_vm.truncate os) mapped \<Longrightarrow> relocate_blocks os page img pe delta bs sp = (r, sp') \<Longrightarrow> mapped (pages sp') = mapped (pages sp)"
proof (induction bs arbitrary: sp rule: reloc_slots.induct)
  case (1 bs)
  define size where "size = unat (le_val (take 4 (drop 4 bs)))"
  define es where "es = entries_of (drop 8 (take size bs))"
  define pr where "pr = (ucast (le_val (take 4 bs)) :: u32)"
  note unf = relocate_blocks.simps [of _ _ _ _ _ bs] Let_def size_def [symmetric] pr_def [symmetric] es_def [symmetric]
  show ?case
  proof (cases "length bs < 8 \<or> size < 8 \<or> length bs < size")
    case True
    then show ?thesis using "1.prems" unfolding unf by (auto split: if_splits)
  next
    case False
    obtain r1 sp1 where e: "relocate_entries os page img pe delta pr es sp = (r1, sp1)" by fastforce
    note E = relocate_entries_mapped [OF "1.prems"(1) e]
    show ?thesis
    proof (cases r1)
      case (Inl x)
      then show ?thesis using "1.prems"(2) e E False unfolding unf by simp
    next
      case (Inr u)
      then have b: "relocate_blocks os page img pe delta (drop size bs) sp1 = (r, sp')"
        using "1.prems"(2) e False unfolding unf by simp
      show ?thesis using "1.IH" [OF _ size_def _ "1.prems"(1) b] False E by simp
    qed
  qed
qed

lemma apply_relocations_mapped:
  assumes "vm_laws (linux_vm.truncate os) mapped" and "apply_relocations os page parse img bytes pe dir sp = (r, sp')"
  shows "mapped (pages sp') = mapped (pages sp)"
proof -
  have "sp' = sp \<or> (\<exists>bs delta. relocate_blocks os page img pe delta bs sp = (r, sp'))"
    using assms(2) by (auto simp: apply_relocations_def Let_def split: if_splits option.splits)
  then show ?thesis using relocate_blocks_mapped [OF assms(1)] by blast
qed

lemma write_iat_mapped:
  "vm_laws (linux_vm.truncate os) mapped \<Longrightarrow> mapped (pages (write_iat os page lower img imps resolved sp)) = mapped (pages sp)"
proof (induction imps arbitrary: sp)
  case (Cons imp imps)
  show ?case
  proof (cases "resolved (lower (imp_dll imp), imp_name imp) = None \<or> rva_to_ptr img (ucast (imp_offset imp)) = None")
    case True
    then show ?thesis using Cons by (auto split: option.split)
  next
    case False
    then obtain ptr slot where ps: "resolved (lower (imp_dll imp), imp_name imp) = Some ptr"
        "rva_to_ptr img (ucast (imp_offset imp)) = Some slot" by auto
    define start where "start = slot AND NOT (page - 1)"
    define len where "len = round_up (slot + 8) page - start"
    obtain ok sp1 where o: "protect_pages (linux_vm.truncate os) start len (PROT_READ OR PROT_WRITE) sp = (ok, sp1)" by fastforce
    have "write_iat os page lower img (imp # imps) resolved sp =
        write_iat os page lower img imps resolved (sp1\<lparr>ram := write_le 8 slot ptr (ram sp1)\<rparr>)"
      using ps o by (simp add: Let_def flip: start_def len_def)
    then show ?thesis using Cons.IH [OF Cons.prems] protect_mapped [OF Cons.prems o] by simp
  qed
qed simp

lemma map_image_takes:
  assumes "loader_laws os page mapped prot_of" and "length bytes < 2 ^ 63" and "map_image_anywhere os page bytes pe sp = (r, sp')"
  shows "\<exists>N. takes mapped sp N sp' \<and> (\<forall>img. r = Inr img \<longrightarrow> N = block (ibase img) (isize img) \<and> ibase img \<in> N)"
proof -
  define n where "n = round_up (ucast (size_of_image pe)) page"
  note E = map_image_effect [OF assms(1,2) assms(3) [unfolded map_image_anywhere_def] n_def]
  have self: "b \<in> block b n" if "0 < unat n" "unat b + unat n < 2 ^ 64" for b
    using that by (simp add: block_def)
  from E show ?thesis
  proof
    assume "mapped (pages sp') = mapped (pages sp) \<and> untouched mapped prot_of sp sp' \<and> r = Inl (MmapFailed n)"
    then show ?thesis by (intro exI [of _ "{}"]) (simp add: takes_def)
  next
    assume "\<exists>b sp1 q. reserved page mapped prot_of b n sp sp1 \<and> mapped (pages sp') = mapped (pages sp1) \<and>
       ram sp' = copy_image b n bytes pe (ram sp1) \<and> untouched mapped prot_of sp sp' \<and>
       protect_sections os page b n (sections pe) (sp1\<lparr>ram := ram sp'\<rparr>) = (q, sp') \<and> unat n < 2 ^ 63 \<and>
       (case q of Inl e \<Rightarrow> r = Inl e | Inr _ \<Rightarrow>
          r = Inr \<lparr>ibase = b, isize = n, preferred_base = image_base pe\<rparr> \<and>
          (\<forall>r < unat n. prot_of (pages sp') (b + of_nat r) = image_prot (unat page) pe (unat n) r))"
    then obtain b sp1 and q :: "map_error + unit" where R: "reserved page mapped prot_of b n sp sp1" "mapped (pages sp') = mapped (pages sp1)"
      and r: "case q of Inl e \<Rightarrow> r = Inl e | Inr _ \<Rightarrow> r = Inr \<lparr>ibase = b, isize = n, preferred_base = image_base pe\<rparr> \<and>
          (\<forall>r < unat n. prot_of (pages sp') (b + of_nat r) = image_prot (unat page) pe (unat n) r)" by blast
    have "takes mapped sp (block b n) sp'" using R by (auto simp: takes_def reserved_def)
    moreover have "b \<in> block b n" using R(1) self by (simp add: reserved_def)
    ultimately show ?thesis using r by (intro exI [of _ "block b n"]) (auto split: sum.splits)
  qed
qed

lemma map_and_relocate_takes:
  assumes "loader_laws (vm_of host) (page_of host) mapped prot_of" and "length bytes < 2 ^ 63"
    and "map_and_relocate host bytes file oh sp = (r, sp')"
  shows "\<exists>N. takes mapped sp N sp' \<and> (\<forall>img. r = Inr img \<longrightarrow> N = block (ibase img) (isize img) \<and> ibase img \<in> N)"
proof -
  obtain q sp1 where m: "map_image_anywhere (vm_of host) (page_of host) bytes (pe_view file) sp = (q, sp1)" by fastforce
  note M = map_image_takes [OF assms(1,2) m]
  note vl = loader_lawsD(1) [OF assms(1)]
  show ?thesis
  proof (cases q)
    case (Inl e)
    then show ?thesis using M assms(3) m by (auto simp: map_and_relocate_def)
  next
    case (Inr img)
    have "mapped (pages sp') = mapped (pages sp1) \<and> (\<forall>img'. r = Inr img' \<longrightarrow> img' = img)"
      using assms(3) m Inr apply_relocations_mapped [OF vl]
      by (auto simp: map_and_relocate_def split: option.splits prod.splits sum.splits)
    then show ?thesis using M Inr by (auto simp: takes_def)
  qed
qed

section \<open>The invariant\<close>

definition owned :: "loaded_module \<Rightarrow> u64 set" where
  "owned m = block (ibase (image m)) (isize (image m)) \<union> block (stack_base (module_stack m)) (total_len (module_stack m)) \<union>
     arena_area (module_arena m)"

text \<open>The memory \<open>R\<close> belongs to somebody else: a load in progress, or the rest of the process.\<close>

definition registry_ok :: "('m \<Rightarrow> u64 set) \<Rightarrow> u64 set \<Rightarrow> 'm loader \<Rightarrow> bool" where
  "registry_ok mapped R st \<longleftrightarrow> sorted_wrt (\<lambda>m m'. owned m \<inter> owned m' = {}) (modules st) \<and> R \<subseteq> mapped (pages (lspace st)) \<and>
     (\<forall>m \<in> set (modules st). owned m \<subseteq> mapped (pages (lspace st)) \<and> owned m \<inter> R = {} \<and>
        h_module m = ibase (image m) \<and> h_module m \<in> owned m)"

lemma registry_more:
  assumes "registry_ok mapped R st" and "takes mapped (lspace st) N sp'" and "modules st' = modules st" and "lspace st' = sp'"
  shows "registry_ok mapped (R \<union> N) st'"
  using assms unfolding registry_ok_def takes_def by fastforce

lemma registry_apart: "registry_ok mapped R st \<Longrightarrow> takes mapped (lspace st) N sp' \<Longrightarrow> R \<inter> N = {}"
  by (auto simp: registry_ok_def takes_def)

lemma registry_less:
  assumes "registry_ok mapped (R \<union> X) st" and "mapped (pages (lspace st)) - X \<subseteq> mapped (pages (lspace st'))" and "R \<inter> X = {}"
    and "modules st' = modules st"
  shows "registry_ok mapped R st'"
  using assms unfolding registry_ok_def by fastforce

lemma registry_same:
  assumes "registry_ok mapped R st" and "mapped (pages (lspace st)) \<subseteq> mapped (pages (lspace st'))" and "modules st' = modules st"
  shows "registry_ok mapped R st'"
  using registry_less [of mapped R "{}" st st'] assms by simp

lemma registry_mono: "registry_ok mapped (R \<union> X) st \<Longrightarrow> registry_ok mapped R st"
  unfolding registry_ok_def by fastforce

lemma arena_fresh:
  "takes mapped sp (arena_area a) sp1 \<Longrightarrow> arena_takes mapped (a, sp1) (a', sp') \<Longrightarrow> takes mapped sp (arena_area a') sp'"
  unfolding arena_takes_def takes_def by auto

lemma arena_drop_mapped: "vm_laws os mapped \<Longrightarrow> mapped (pages sp) - arena_area a \<subseteq> mapped (pages (arena_drop os a sp))"
  using unmap_blocks_mapped [of os mapped sp "blocks a"] by (simp add: arena_drop_def arena_area_def)

definition loads_ok :: "('m \<Rightarrow> u64 set) \<Rightarrow>
    (rstring \<Rightarrow> bool \<Rightarrow> 'm loader \<Rightarrow> ((load_error + u64) \<times> 'm loader) option) \<Rightarrow> bool" where
  "loads_ok mapped load \<longleftrightarrow> (\<forall>p q st r st' R. load p q st = Some (r, st') \<longrightarrow> registry_ok mapped R st \<longrightarrow> registry_ok mapped R st')"

text \<open>The host keeps the laws of the kernel, files are of a size that fits the address space, and an entry point, which
  may load and unload modules through the loader's own calls, leaves the registry in order.\<close>

definition host_ok :: "('m \<Rightarrow> u64 set) \<Rightarrow> ('m \<Rightarrow> u64 \<Rightarrow> u32) \<Rightarrow> 'm dll_host \<Rightarrow> bool" where
  "host_ok mapped prot_of host \<longleftrightarrow> loader_laws (vm_of host) (page_of host) mapped prot_of \<and>
     (\<forall>p bs. fs_read host p = Some bs \<longrightarrow> length bs < 2 ^ 63) \<and>
     (\<forall>entry stk h st R. registry_ok mapped R st \<longrightarrow> registry_ok mapped R (snd (dll_main host entry stk h st)))"

lemma host_okD:
  assumes "host_ok mapped prot_of host"
  shows "loader_laws (vm_of host) (page_of host) mapped prot_of" and "vm_laws (vm0 host) mapped"
    and "fs_read host p = Some bs \<Longrightarrow> length bs < 2 ^ 63"
    and "registry_ok mapped R st \<Longrightarrow> registry_ok mapped R (snd (dll_main host entry stk h st))"
  using assms loader_lawsD(1) unfolding host_ok_def by blast+

section \<open>Every operation keeps it\<close>

lemma build_arena:
  assumes "vm_laws os mapped" and "with_capacity os page c sp = (Inr a, sp1)" and "ImplTable_build os page inst T a sp1 = Some (t, a', sp')"
  shows "takes mapped sp (arena_area a') sp'"
  by (rule arena_fresh [OF with_capacity_takes [OF assms(1,2)] build_takes [OF assms(1,3)]])

lemma get_proc_keeps:
  assumes "host_ok mapped prot_of host" and "mod_get_proc_address host h name st = Some (r, st')" and "registry_ok mapped R st"
  shows "registry_ok mapped R st'"
proof (cases "h \<noteq> 0 \<and> fake_handle h \<and> \<not> name < 0x10000")
  case False
  then have "st' = st" using assms(2) by (auto simp: mod_get_proc_address_def split: if_splits option.splits)
  then show ?thesis using assms(3) by simp
next
  case True
  note vl = host_okD(2) [OF assms(1)]
  obtain a sp1 t a2 sp2 q a3 sp3 where c: "with_capacity (vm0 host) (page_of host) 0x8000 (lspace st) = (Inr a, sp1)"
      and b: "ImplTable_build (vm0 host) (page_of host) (vtables st) (impl_tables host) a sp1 = Some (t, a2, sp2)"
      and f: "finalize (vm0 host) a2 sp2 = (q, a3, sp3)"
      and st': "st' = st\<lparr>lspace := sp3, vtables := True\<rparr> \<or> st' = st\<lparr>lspace := arena_drop (vm0 host) a3 sp3, vtables := True\<rparr>"
    using assms(2) True by (auto simp: mod_get_proc_address_def Let_def split: prod.splits sum.splits option.splits)
  have area: "arena_area a3 = arena_area a2" and map: "mapped (pages sp3) = mapped (pages sp2)" using finalize_mapped [OF vl f] by auto
  then have t: "takes mapped (lspace st) (arena_area a3) sp3" using build_arena [OF vl c b] by (simp add: takes_def)
  have ok: "registry_ok mapped (R \<union> arena_area a3) (st\<lparr>lspace := sp3, vtables := True\<rparr>)"
    by (rule registry_more [OF assms(3) t]) simp_all
  note dis = registry_apart [OF assms(3) t]
  from st' show ?thesis
  proof
    assume "st' = st\<lparr>lspace := sp3, vtables := True\<rparr>"
    then show ?thesis using registry_mono [OF ok] by simp
  next
    assume "st' = st\<lparr>lspace := arena_drop (vm0 host) a3 sp3, vtables := True\<rparr>"
    then show ?thesis using arena_drop_mapped [OF vl, of sp3 a3] by (intro registry_less [OF ok _ dis]) simp_all
  qed
qed

lemma registry_error [simp]: "registry_ok mapped R (set_loader_error e st) = registry_ok mapped R st"
  by (simp add: registry_ok_def set_loader_error_def)

lemma dll_get_proc_keeps:
  assumes "host_ok mapped prot_of host" and "dll_get_proc_address (loader_bridge load host) h name st = Some (r, st')" and "registry_ok mapped R st"
  shows "registry_ok mapped R st'"
proof (cases "h = 0")
  case True
  then show ?thesis using assms by (auto simp: dll_get_proc_address_def loader_bridge_def)
next
  case False
  then obtain st1 where "mod_get_proc_address host h name st = Some (r, st1)" "st' = (if r = 0 then set_loader_error ERROR_PROC_NOT_FOUND st1 else st1)"
    using assms(2) by (auto simp: dll_get_proc_address_def loader_bridge_def split: option.splits)
  then show ?thesis using get_proc_keeps [OF assms(1) _ assms(3)] by simp
qed

lemma try_candidates_keeps:
  assumes "host_ok mapped prot_of host" and "loads_ok mapped load"
  shows "try_candidates load host symb ps st = Some (r, st') \<Longrightarrow> registry_ok mapped R st \<Longrightarrow> registry_ok mapped R st'"
proof (induction ps arbitrary: st)
  case (Cons p ps)
  show ?case
  proof (cases "fs_exists host p")
    case False
    then show ?thesis using Cons by simp
  next
    case True
    then obtain q st1 where l: "load p False st = Some (q, st1)" using Cons.prems(1) by (auto split: option.splits)
    have ok1: "registry_ok mapped R st1" using assms(2) l Cons.prems(2) unfolding loads_ok_def by blast
    show ?thesis
    proof (cases q)
      case (Inl e)
      then show ?thesis using Cons ok1 True l by simp
    next
      case (Inr h)
      define st2 where "st2 = on_space (\<lambda>sp. sp\<lparr>ram := store_bytes (utf8 (map of_char symb) @ [0]) (cstring_buf host) (ram sp)\<rparr>) st1"
      have ok2: "registry_ok mapped R st2" by (rule registry_same [OF ok1]) (simp_all add: st2_def)
      show ?thesis
      proof (cases "CHR 0x00 \<in> set symb")
        case True2: True
        then show ?thesis using Cons.prems(1) True l Inr ok1 by simp
      next
        case False
        then obtain a st3 where g: "dll_get_proc_address (loader_bridge load host) h (cstring_buf host) st2 = Some (a, st3)"
            and rest: "(if a \<noteq> 0 then Some (Some a, st3) else try_candidates load host symb ps st3) = Some (r, st')"
          using Cons.prems(1) True l Inr by (auto simp: Let_def st2_def split: option.splits prod.splits)
        have "registry_ok mapped R st3" by (rule dll_get_proc_keeps [OF assms(1) g ok2])
        then show ?thesis using rest Cons.IH by (auto split: if_splits)
      qed
    qed
  qed
qed simp

lemma from_disk_keeps:
  assumes "host_ok mapped prot_of host" and "loads_ok mapped load" and "registry_ok mapped R st"
  shows "from_disk load host d n (Some st) = (r, Some st') \<Longrightarrow> registry_ok mapped R st'"
  using try_candidates_keeps [OF assms(1,2)] assms(3) by (auto simp: from_disk_def split: option.splits prod.splits)

text \<open>The resolution threads a state through the disk.\<close>

lemma resolve_keeps:
  assumes "\<And>d n s. P s \<Longrightarrow> P (snd (disk d n s))" and "P s"
  shows "P (snd (resolve lower soft trap disk imps known s))"
proof -
  have step: "P (snd (resolve_import lower soft trap disk known imp (r, s)))" if s: "P s" for imp r s
  proof -
    obtain p s' where t: "try_resolve_from_disk lower disk (imp_dll imp) (normalize_symbol (imp_name imp)) s = (p, s')" by fastforce
    have "s' = s \<or> s' = snd (disk (imp_dll imp) (normalize_symbol (imp_name imp)) s)"
      using t by (auto simp only: try_resolve_from_disk_def prod.inject snd_conv split: if_splits)
    then have "P s'" using s assms(1) by blast
    moreover have branch: "P (snd a) \<Longrightarrow> P (snd b) \<Longrightarrow> P (snd (if c then a else b))" for a b :: "'b \<times> 'a" and c by simp
    moreover have found: "(\<And>x. P (snd (f x))) \<Longrightarrow> P (snd n) \<Longrightarrow> P (snd (case oo of None \<Rightarrow> n | Some x \<Rightarrow> f x))"
      for f and n :: "'b \<times> 'a" and oo :: "u64 option" by (cases oo) simp_all
    moreover have leaf: "P x \<Longrightarrow> P (snd (y, x))" for x y by simp
    ultimately show ?thesis unfolding resolve_import_def Let_def prod.case t
      by (intro branch found leaf s \<open>P s'\<close>)
  qed
  have "P (snd (fold (resolve_import lower soft trap disk known) is x))" if "P (snd x)" for "is" x
    using that step by (induction "is" arbitrary: x) (metis fold_simps(1), metis fold_simps(2) prod.collapse)
  then show ?thesis using assms(2) by (simp add: resolve_def)
qed

lemma bind_imports_keeps:
  assumes "host_ok mapped prot_of host" and "loads_ok mapped load" and "registry_ok mapped R st"
    and "bind_imports (from_disk load host) host file img st = Some (q, st')"
  shows "case q of Inl e \<Rightarrow> registry_ok mapped R st'
    | Inr (r, a) \<Rightarrow> registry_ok mapped (R \<union> arena_area a) st' \<and> R \<inter> arena_area a = {}"
proof -
  note vl = host_okD(2) [OF assms(1)]
  obtain c sp1 where c: "with_capacity (vm0 host) (page_of host) 0x8000 (lspace st) = (c, sp1)" by fastforce
  show ?thesis
  proof (cases c)
    case (Inl e)
    then have "takes mapped (lspace st) {} sp1" using with_capacity_none [OF vl] c by simp
    then have "mapped (pages sp1) = mapped (pages (lspace st))" by (simp add: takes_def)
    then have "registry_ok mapped R (st\<lparr>lspace := sp1\<rparr>)" by (intro registry_same [OF assms(3)]) simp_all
    then show ?thesis using assms(4) c Inl by (auto simp: bind_imports_def)
  next
    case (Inr a)
    then obtain t a2 sp2 where b: "ImplTable_build (vm0 host) (page_of host) (vtables st) (impl_tables host) a sp1 = Some (t, a2, sp2)"
      using assms(4) c by (auto simp: bind_imports_def split: option.splits)
    define st1 where "st1 = st\<lparr>lspace := sp2, vtables := True\<rparr>"
    have tk: "takes mapped (lspace st) (arena_area a2) sp2" using build_arena [OF vl c [unfolded Inr] b] .
    note dis = registry_apart [OF assms(3) tk]
    have ok1: "registry_ok mapped (R \<union> arena_area a2) st1" by (rule registry_more [OF assms(3) tk]) (simp_all add: st1_def)
    let ?disk = "from_disk load host"
    obtain r s2 where r: "resolve (lower_name host) (soft_stubs host) (trap_stub host) ?disk (pe_imports file) t (Some st1) = (r, s2)"
      by fastforce
    let ?P = "\<lambda>s. \<forall>st. s = Some st \<longrightarrow> registry_ok mapped (R \<union> arena_area a2) st"
    have "?P (snd (?disk d n s))" if "?P s" for d n s
    proof (cases s)
      case (Some st)
      then have "registry_ok mapped (R \<union> arena_area a2) st" using that by simp
      from from_disk_keeps [OF assms(1,2) this] show ?thesis unfolding Some by (metis prod.collapse)
    qed (simp add: from_disk_def)
    then have "?P (snd (resolve (lower_name host) (soft_stubs host) (trap_stub host) ?disk (pe_imports file) t (Some st1)))"
      by (rule resolve_keeps) (simp_all add: ok1)
    then have s2: "?P s2" by (simp add: r)
    obtain st2 where st2: "s2 = Some st2" using assms(4) c Inr b r by (cases s2) (auto simp: bind_imports_def st1_def)
    then have ok2: "registry_ok mapped (R \<union> arena_area a2) st2" using s2 by simp
    define sp3 where "sp3 = write_iat (vm_of host) (page_of host) (lower_name host) img (pe_imports file) (resolved_map r) (lspace st2)"
    obtain f a4 sp4 where f: "finalize (vm0 host) a2 sp3 = (f, a4, sp4)" by (metis prod_cases3)
    have map: "mapped (pages sp4) = mapped (pages (lspace st2))" and area: "arena_area a4 = arena_area a2"
      using finalize_mapped [OF vl f] write_iat_mapped [OF vl] by (simp_all add: sp3_def)
    have ok4: "registry_ok mapped (R \<union> arena_area a4) (st2\<lparr>lspace := sp4\<rparr>)"
      unfolding area by (rule registry_same [OF ok2]) (simp_all add: map)
    have q: "Some (q, st') = (case f of Inl e \<Rightarrow> Some (Inl BootstrapFailed, st2\<lparr>lspace := arena_drop (vm0 host) a4 sp4\<rparr>)
        | Inr _ \<Rightarrow> Some (Inr (r, a4), st2\<lparr>lspace := sp4\<rparr>))"
      using assms(4) c Inr b r st2 f by (simp add: bind_imports_def st1_def sp3_def split: sum.splits)
    show ?thesis
    proof (cases f)
      case (Inl e)
      have "registry_ok mapped R (st2\<lparr>lspace := arena_drop (vm0 host) a4 sp4\<rparr>)"
        using arena_drop_mapped [OF vl, of sp4 a4] dis by (intro registry_less [OF ok4]) (simp_all add: area)
      then show ?thesis using q Inl by simp
    next
      case Inr2: (Inr u)
      then show ?thesis using q ok4 dis by (simp add: area)
    qed
  qed
qed

lemma Stack_new_takes:
  assumes "vm_laws os mapped" and "Stack_new os page len sp = (r, sp')"
  shows "case r of Inl e \<Rightarrow> mapped (pages sp) \<subseteq> mapped (pages sp') | Inr s \<Rightarrow> takes mapped sp (block (stack_base s) (total_len s)) sp'"
proof -
  define n where "n = round_up_to_page page len + GUARD_PAGE_SIZE"
  obtain ob sp1 where m: "mmap_anon os 0 n (PROT_READ OR PROT_WRITE) False sp = (ob, sp1)" by fastforce
  show ?thesis
  proof (cases ob)
    case None
    then have "takes mapped sp {} sp1" using mmap_none_takes [OF assms(1)] m by simp
    then show ?thesis using assms(2) m None by (auto simp: Stack_new_def Let_def n_def takes_def)
  next
    case (Some b)
    then have t: "takes mapped sp (block b n) sp1" using mmap_takes [OF assms(1)] m by simp
    obtain ok sp2 where p: "protect_pages os b GUARD_PAGE_SIZE PROT_NONE sp1 = (ok, sp2)" by fastforce
    note P = protect_mapped [OF assms(1) p]
    show ?thesis
    proof (cases ok)
      case True
      then have "r = Inr \<lparr>stack_base = b, total_len = n\<rparr>" "sp' = sp2" using assms(2) m Some p by (simp_all add: Stack_new_def Let_def n_def)
      then show ?thesis using t P by (simp add: takes_def)
    next
      case False
      then have "r = Inl GuardFailed" "sp' = unmap os b n sp2" using assms(2) m Some p by (simp_all add: Stack_new_def Let_def n_def)
      then show ?thesis using t P unmap_mapped [OF assms(1), of sp2 b n] by (auto simp: takes_def)
    qed
  qed
qed

lemma Stack_drop_mapped:
  "vm_laws os mapped \<Longrightarrow> mapped (pages sp) - block (stack_base s) (total_len s) \<subseteq> mapped (pages (Stack_drop os s sp))"
  by (simp add: Stack_drop_def unmap_mapped)

lemma registry_push:
  assumes "registry_ok mapped (R \<union> owned m) st" and "R \<inter> owned m = {}" and "h_module m = ibase (image m)" and "h_module m \<in> owned m"
  shows "registry_ok mapped R (st\<lparr>modules := modules st @ [m]\<rparr>)"
  using assms unfolding registry_ok_def by (auto simp: sorted_wrt_append)

lemma finish_load_keeps:
  assumes "host_ok mapped prot_of host" and "registry_ok mapped (R \<union> I \<union> arena_area a) st"
    and "R \<inter> I = {}" and "(R \<union> I) \<inter> arena_area a = {}" and "I = block (ibase img) (isize img)" and "ibase img \<in> I"
    and "finish_load host canonical img a oh attach st = (q, st')"
  shows "registry_ok mapped R st'"
proof -
  note vl = host_okD(2) [OF assms(1)]
  let ?A = "arena_area a"
  obtain r sp1 where s: "Stack_new (vm0 host) (page_of host) DEFAULT_STACK_SIZE (lspace st) = (r, sp1)" by fastforce
  note T = Stack_new_takes [OF vl s]
  have drop_arena: "registry_ok mapped R (st2\<lparr>lspace := arena_drop (vm0 host) a sp\<rparr>)"
    if "registry_ok mapped (R \<union> I \<union> ?A) (st2\<lparr>lspace := sp\<rparr>)" for sp st2
  proof -
    have "registry_ok mapped (R \<union> I) (st2\<lparr>lspace := arena_drop (vm0 host) a sp\<rparr>)"
      using arena_drop_mapped [OF vl, of sp a] by (intro registry_less [OF that]) (simp_all add: assms(4))
    then show ?thesis by (rule registry_mono)
  qed
  show ?thesis
  proof (cases r)
    case (Inl e)
    then have "mapped (pages (lspace st)) \<subseteq> mapped (pages sp1)" using T by simp
    then have "registry_ok mapped (R \<union> I \<union> ?A) (st\<lparr>lspace := sp1\<rparr>)" by (intro registry_same [OF assms(2)]) simp_all
    then show ?thesis using assms(7) s Inl drop_arena by (auto simp: finish_load_def)
  next
    case (Inr stk)
    let ?S = "block (stack_base stk) (total_len stk)"
    have t: "takes mapped (lspace st) ?S sp1" using T Inr by simp
    define st1 where "st1 = st\<lparr>lspace := sp1\<rparr>"
    have ok1: "registry_ok mapped (R \<union> I \<union> ?A \<union> ?S) st1" by (rule registry_more [OF assms(2) t]) (simp_all add: st1_def)
    note dis = registry_apart [OF assms(2) t]
    define m where "m = \<lparr>h_module = ibase img, module_path = canonical, mod_name = module_name_of (lower_text host) canonical,
      module_exports = parse_export_table img (ram (lspace st)), image = img, module_stack = stk, module_arena = a\<rparr>"
    have own: "owned m = I \<union> ?S \<union> ?A" by (simp add: owned_def m_def assms(5))
    have push: "registry_ok mapped R (st2\<lparr>modules := modules st2 @ [m]\<rparr>)" if "registry_ok mapped (R \<union> I \<union> ?A \<union> ?S) st2" for st2
    proof (rule registry_push)
      show "registry_ok mapped (R \<union> owned m) st2" using that unfolding own by (simp only: Un_ac)
      show "R \<inter> owned m = {}" using assms(3,4) dis unfolding own by blast
      show "h_module m = ibase (image m)" "h_module m \<in> owned m" using assms(6) by (simp_all add: own) (simp_all add: m_def)
    qed
    let ?drop = "\<lambda>sp. arena_drop (vm0 host) a (Stack_drop (vm0 host) stk sp)"
    have drop: "registry_ok mapped R (st2\<lparr>lspace := ?drop sp\<rparr>)"
      if ok: "registry_ok mapped (R \<union> I \<union> ?A \<union> ?S) st2" and low: "mapped (pages (lspace st2)) - I \<subseteq> mapped (pages sp)" for st2 sp
    proof -
      have all: "registry_ok mapped (R \<union> (I \<union> ?A \<union> ?S)) st2" using ok by (simp only: Un_ac)
      have "mapped (pages (lspace st2)) - (I \<union> ?A \<union> ?S) \<subseteq> mapped (pages (?drop sp))"
        using low arena_drop_mapped [OF vl, of "Stack_drop (vm0 host) stk sp" a] Stack_drop_mapped [OF vl, of sp stk] by blast
      moreover have "R \<inter> (I \<union> ?A \<union> ?S) = {}" using assms(3,4) dis by blast
      ultimately show ?thesis by (intro registry_less [OF all]) simp_all
    qed
    have res: "finish_load host canonical img a oh attach st =
        (if \<not> attach \<or> entry_point oh = 0 then (Inr (ibase img), st1\<lparr>modules := modules st1 @ [m]\<rparr>)
         else (case rva_to_ptr img (entry_point oh) of
             None \<Rightarrow> (Inl BootstrapFailed, on_space ?drop st1)
           | Some entry \<Rightarrow> (case dll_main host entry (Stack_top stk) (ibase img) st1 of (result, st) \<Rightarrow>
               if result = 0 then (Inl BootstrapFailed, on_space (\<lambda>sp. ?drop (unmap_image (vm_of host) img sp)) st)
               else (Inr (ibase img), st\<lparr>modules := modules st @ [m]\<rparr>))))"
      unfolding finish_load_def Let_def s Inr prod.case sum.case st1_def m_def by (rule refl)
    show ?thesis
    proof (cases "\<not> attach \<or> entry_point oh = 0")
      case True
      then show ?thesis using res assms(7) push [OF ok1] by simp
    next
      case False
      show ?thesis
      proof (cases "rva_to_ptr img (entry_point oh)")
        case None
        then show ?thesis using res assms(7) False drop [OF ok1] by auto
      next
        case (Some entry)
        obtain result st2 where d: "dll_main host entry (Stack_top stk) (ibase img) st1 = (result, st2)" by fastforce
        have "registry_ok mapped (R \<union> I \<union> ?A \<union> ?S) (snd (dll_main host entry (Stack_top stk) (ibase img) st1))"
          by (rule host_okD(4) [OF assms(1) ok1])
        then have ok2: "registry_ok mapped (R \<union> I \<union> ?A \<union> ?S) st2" using d by simp
        have "mapped (pages (lspace st2)) - I \<subseteq> mapped (pages (unmap_image (vm_of host) img (lspace st2)))"
          unfolding unmap_image_def assms(5) by (rule unmap_mapped [OF vl])
        from drop [OF ok2 this] show ?thesis using res assms(7) False Some d push [OF ok2] by (auto split: if_splits)
      qed
    qed
  qed
qed

lemma load_dll_ex_keeps: "host_ok mapped prot_of host \<Longrightarrow> loads_ok mapped (load_dll_ex n host)"
proof (induction n)
  case 0
  then show ?case by (simp add: loads_ok_def)
next
  case (Suc n)
  note host = Suc.prems and IH = Suc.IH [OF Suc.prems]
  show ?case
    unfolding loads_ok_def
  proof (intro allI impI)
    fix p attach st r st' R
    assume l: "load_dll_ex (Suc n) host p attach st = Some (r, st')" and ok: "registry_ok mapped R st"
    show "registry_ok mapped R st'"
    proof (cases "st' = st")
      case False
      then obtain canonical bytes pf oh where ex: "canonicalize host p = Some canonical" "lookup_by_path canonical st = None"
          "fs_read host p = Some bytes" "parse_pe host bytes = Some pf" "coff_characteristics pf AND 0x2000 \<noteq> 0" "opt pf = Some oh"
        using l by (auto split: option.splits if_splits)
      obtain q sp1 where m: "map_and_relocate host bytes pf oh (lspace st) = (q, sp1)" by fastforce
      obtain N where N: "takes mapped (lspace st) N sp1" "\<forall>img. q = Inr img \<longrightarrow> N = block (ibase img) (isize img) \<and> ibase img \<in> N"
        using map_and_relocate_takes [OF host_okD(1) [OF host] host_okD(3) [OF host ex(3)] m] by blast
      have ok1: "registry_ok mapped (R \<union> N) (st\<lparr>lspace := sp1\<rparr>)" by (rule registry_more [OF ok N(1)]) simp_all
      note disN = registry_apart [OF ok N(1)]
      show ?thesis
      proof (cases q)
        case (Inl e)
        then have "st' = st\<lparr>lspace := sp1\<rparr>" using l ex m by simp
        then show ?thesis using registry_mono [OF ok1] by simp
      next
        case (Inr img)
        then obtain b st2 where b: "bind_imports (from_disk (load_dll_ex n host) host) host pf img (st\<lparr>lspace := sp1\<rparr>) = Some (b, st2)"
          using l ex m by (auto split: option.splits)
        note B = bind_imports_keeps [OF host IH ok1 b]
        show ?thesis
        proof (cases b)
          case Inl2: (Inl e)
          then have "st' = st2" using l ex m Inr b by simp
          then show ?thesis using B Inl2 registry_mono by simp
        next
          case Inr2: (Inr x)
          obtain r2 a where x: "x = (r2, a)" by fastforce
          then have f: "finish_load host canonical img a oh attach st2 = (r, st')" using l ex m Inr b Inr2 by simp
          have I: "N = block (ibase img) (isize img)" "ibase img \<in> N" using N(2) Inr by blast+
          show ?thesis
            by (rule finish_load_keeps [OF host _ disN _ I f]) (use B Inr2 x in simp_all)
        qed
      qed
    qed (simp add: ok)
  qed
qed

lemma extract_registry: "List.extract P ms = Some (as, m, bs) \<Longrightarrow> ms = as @ m # bs"
  by (simp add: extract_Some_iff)

lemma minus_chain: "A - X \<subseteq> B \<Longrightarrow> B - Y \<subseteq> C \<Longrightarrow> C - Z \<subseteq> D \<Longrightarrow> A - (X \<union> Y \<union> Z) \<subseteq> D"
  by blast

lemma LoadedModule_drop_mapped:
  assumes "vm_laws (vm0 host) mapped"
  shows "mapped (pages sp) - owned m \<subseteq> mapped (pages (LoadedModule_drop host m sp))"
  unfolding owned_def LoadedModule_drop_def Let_def unmap_image_def
  by (rule minus_chain [OF unmap_mapped [OF assms] Stack_drop_mapped [OF assms] arena_drop_mapped [OF assms]])

lemma registry_pop:
  assumes "registry_ok mapped R st" and "modules st = as @ m # bs" and "modules st' = as @ bs"
    and left: "mapped (pages (lspace st)) - owned m \<subseteq> mapped (pages (lspace st'))"
  shows "registry_ok mapped R st'"
proof -
  note S = assms(1) [unfolded registry_ok_def assms(2)]
  have sw: "sorted_wrt (\<lambda>m m'. owned m \<inter> owned m' = {}) (as @ m # bs)" using S by (rule conjunct1)
  then have sw': "sorted_wrt (\<lambda>m m'. owned m \<inter> owned m' = {}) (as @ bs)" by (simp add: sorted_wrt_append)
  have dis: "owned m' \<inter> owned m = {}" if "m' \<in> set (as @ bs)" for m' using that sw by (auto simp: sorted_wrt_append)
  have E: "owned m' \<subseteq> mapped (pages (lspace st))" "owned m' \<inter> R = {}" "h_module m' = ibase (image m')" "h_module m' \<in> owned m'"
    if "m' \<in> set (as @ m # bs)" for m' using S that by blast+
  have "owned m \<inter> R = {}" "R \<subseteq> mapped (pages (lspace st))" using E(2) [of m] S by simp_all
  then have R: "R \<subseteq> mapped (pages (lspace st'))" using left by blast
  have "owned m' \<subseteq> mapped (pages (lspace st'))" if "m' \<in> set (as @ bs)" for m'
    using E(1) [of m'] dis [OF that] that left by auto
  then show ?thesis unfolding registry_ok_def assms(3) using sw' R E(2-4) by simp
qed

lemma free_library_keeps:
  assumes "vm_laws (vm0 host) mapped" and "registry_ok mapped R st" and "mod_free_library host h st = (r, st')"
  shows "registry_ok mapped R st'"
proof (cases "List.extract (\<lambda>m. h_module m = h) (modules st)")
  case None
  then show ?thesis using assms by (simp add: mod_free_library_def)
next
  case (Some x)
  obtain as m bs where x: "x = (as, m, bs)" by (cases x) auto
  have st': "st' = on_space (LoadedModule_drop host m) (st\<lparr>modules := as @ bs\<rparr>)"
    using assms(3) Some x by (simp add: mod_free_library_def)
  show ?thesis
    by (rule registry_pop [OF assms(2) extract_registry [OF Some [unfolded x]]])
      (simp_all add: st' LoadedModule_drop_mapped [OF assms(1)])
qed

end
