(* ===== verification/Tls.thy ===== *)
theory Tls
  imports MappingSpec
begin

unbundle bit_operations_syntax

text \<open>
  Static thread-local storage and the thread environment block, \<^verbatim>\<open>crates/pe-loader/src/tls.rs\<close> and
  \<^verbatim>\<open>crates/pe-loader/src/teb.rs\<close>: the directory read from the mapped image, the block of a thread with its one-entry
  array, the callbacks, and the two pages the \<open>gs\<close> register points at. Where the allocator places memory is an argument
  of the operations. A thread-local variable of the guest is read the way compiled code reads it, through the block.
\<close>

section \<open>The directory\<close>

definition sat_sub :: "u64 \<Rightarrow> u64 \<Rightarrow> u64" where
  "sat_sub a b = (if b \<le> a then a - b else 0)"

record tls_directory =
  raw_data_start :: u64
  raw_data_end :: u64
  address_of_index :: u64
  address_of_callbacks :: u64
  size_of_zero_fill :: u32

datatype tls_error = OutOfBounds u32 | Malformed u64 u64

definition raw_size :: "tls_directory \<Rightarrow> u64" where
  "raw_size dir = sat_sub (raw_data_end dir) (raw_data_start dir)"

definition block_size :: "tls_directory \<Rightarrow> u64" where
  "block_size dir = raw_size dir + ucast (size_of_zero_fill dir)"

definition read_tls_directory :: "u64 \<Rightarrow> u64 \<Rightarrow> u32 \<Rightarrow> kernel \<Rightarrow> tls_error + tls_directory" where
  "read_tls_directory b image_size rva k =
     (if rva = 0 \<or> unat image_size < unat rva + 40 then Inl (OutOfBounds rva)
      else
        (let p = b + ucast rva;
             dir = \<lparr>raw_data_start = read_le 8 p k, raw_data_end = read_le 8 (p + 8) k, address_of_index = read_le 8 (p + 16) k,
               address_of_callbacks = read_le 8 (p + 24) k, size_of_zero_fill = ucast (read_le 4 (p + 32) k)\<rparr>
         in if raw_data_end dir < raw_data_start dir then Inl (Malformed (raw_data_start dir) (raw_data_end dir))
            else Inr dir))"

section \<open>The block of a thread\<close>

record tls_block =
  block_data :: u64
  slots :: u64

definition teb_tls_pointer :: "tls_block \<Rightarrow> u64" where
  "teb_tls_pointer blk = slots blk"

text \<open>\<open>data\<close> and \<open>slot\<close> are where the allocator places the block and the array.\<close>

definition init_static_tls ::
  "u64 \<Rightarrow> u64 \<Rightarrow> u64 \<Rightarrow> tls_directory \<Rightarrow> u64 \<Rightarrow> u64 \<Rightarrow> kernel \<Rightarrow> (tls_error + tls_block) \<times> kernel" where
  "init_static_tls b image_size im_base dir data slot k =
     (let k = zero_fill data (max (block_size dir) 1) k;
          template_rva = sat_sub (raw_data_start dir) im_base
      in if 0 < raw_size dir \<and> image_size < template_rva + raw_size dir then (Inl (OutOfBounds (ucast template_rva)), k)
         else
           (let k = store_bytes (load_bytes (unat (raw_size dir)) (b + template_rva) k) data k;
                k = write_le 8 slot data k
            in if address_of_index dir \<noteq> 0 then
                 (let index_rva = sat_sub (address_of_index dir) im_base in
                  if index_rva + 4 \<le> image_size then (Inr \<lparr>block_data = data, slots = slot\<rparr>, write_le 4 (b + index_rva) 0 k)
                  else (Inl (OutOfBounds (ucast index_rva)), k))
               else (Inr \<lparr>block_data = data, slots = slot\<rparr>, k)))"

text \<open>At most \<open>n\<close> more callbacks, from the offset \<open>rva\<close>.\<close>

fun callbacks_from :: "nat \<Rightarrow> u64 \<Rightarrow> u64 \<Rightarrow> u64 \<Rightarrow> u64 \<Rightarrow> kernel \<Rightarrow> u64 list" where
  "callbacks_from 0 rva b image_size im_base k = []"
| "callbacks_from (Suc n) rva b image_size im_base k =
     (if image_size < rva + 8 then []
      else
        (let va = read_le 8 (b + rva) k in
         if va = 0 then []
         else
           (let target_rva = sat_sub va im_base in
            if image_size \<le> target_rva then callbacks_from n (rva + 8) b image_size im_base k
            else (b + target_rva) # callbacks_from n (rva + 8) b image_size im_base k)))"

definition collect_callbacks :: "u64 \<Rightarrow> u64 \<Rightarrow> u64 \<Rightarrow> tls_directory \<Rightarrow> kernel \<Rightarrow> u64 list" where
  "collect_callbacks b image_size im_base dir k =
     (if address_of_callbacks dir = 0 then []
      else callbacks_from 64 (sat_sub (address_of_callbacks dir) im_base) b image_size im_base k)"

section \<open>The thread environment block\<close>

definition TIB_SELF_OFFSET :: u64 where "TIB_SELF_OFFSET = 0x30"
definition TEB_PEB_OFFSET :: u64 where "TEB_PEB_OFFSET = 0x60"
definition TEB_TLS_POINTER_OFFSET :: u64 where "TEB_TLS_POINTER_OFFSET = 0x58"

text \<open>A block is the address of its two pages; the second is the process environment block.\<close>

definition init_teb :: "u64 \<Rightarrow> u64 \<Rightarrow> u64 \<Rightarrow> kernel \<Rightarrow> kernel" where
  "init_teb teb stack_base stack_limit k =
     fold (\<lambda>(a, v). write_le 8 a v)
       [(teb, 0), (teb + 0x08, stack_base), (teb + 0x10, stack_limit), (teb + 0x18, 0), (teb + 0x20, 0), (teb + 0x28, 0),
        (teb + 0x30, teb), (teb + TEB_PEB_OFFSET, teb + 4096)] k"

definition init_peb :: "u64 \<Rightarrow> u64 \<Rightarrow> kernel \<Rightarrow> kernel" where
  "init_peb teb im_base k = write_le 8 (teb + 4096 + 0x10) im_base k"

definition teb_new :: "u64 \<Rightarrow> u64 \<Rightarrow> u64 \<Rightarrow> u64 \<Rightarrow> kernel \<Rightarrow> kernel" where
  "teb_new teb stack_base stack_limit im_base k =
     init_peb teb im_base (init_teb teb stack_base stack_limit (zero_fill teb (2 * 4096) k))"

definition peb_ptr :: "u64 \<Rightarrow> u64" where
  "peb_ptr teb = teb + 4096"

definition set_tls_pointer :: "u64 \<Rightarrow> u64 \<Rightarrow> kernel \<Rightarrow> kernel" where
  "set_tls_pointer teb tls_pointer k = write_le 8 (teb + TEB_TLS_POINTER_OFFSET) tls_pointer k"

section \<open>Fields of the block\<close>

lemma offsets_apart:
  assumes "unat (teb :: u64) + 8192 \<le> 2 ^ 64" and "m + 8 \<le> n" and "n + 8 \<le> 8192"
  shows "area (teb + of_nat m) 8 \<inter> area (teb + of_nat n) 8 = {}"
proof -
  have u: "unat (teb + of_nat i) = unat teb + i" if "i < 8192" for i
    using assms(1) that by (simp add: unat_word_ariths unat_of_nat take_bit_nat_def)
  show ?thesis using assms by (intro area_apart) (simp_all add: u)
qed

text \<open>The fields guest code reads through \<open>gs\<close> have the values the loader was given, once the pointer to the
  thread-local storage is published.\<close>

theorem teb_fields:
  assumes "unat teb + 8192 \<le> 2 ^ 64"
    and "k' = set_tls_pointer teb tp (teb_new teb sb sl ib k)"
  shows "read_le 8 teb k' = 0 \<and> read_le 8 (teb + 0x08) k' = sb \<and> read_le 8 (teb + 0x10) k' = sl \<and>
    read_le 8 (teb + TIB_SELF_OFFSET) k' = teb \<and> read_le 8 (teb + TEB_PEB_OFFSET) k' = peb_ptr teb \<and>
    read_le 8 (teb + TEB_TLS_POINTER_OFFSET) k' = tp \<and> read_le 8 (peb_ptr teb + 0x10) k' = ib"
proof -
  let ?ws = "[(teb + of_nat 0, 0), (teb + of_nat 0x08, sb), (teb + of_nat 0x10, sl), (teb + of_nat 0x18, 0), (teb + of_nat 0x20, 0),
    (teb + of_nat 0x28, 0), (teb + of_nat 0x30, teb), (teb + of_nat 0x60, teb + 4096), (teb + of_nat (4096 + 0x10), ib), (teb + of_nat 0x58, tp)]"
  have k': "k' = fold (\<lambda>(a, v). write_le 8 a v) ?ws (zero_fill teb (2 * 4096) k)"
    by (simp add: assms(2) set_tls_pointer_def teb_new_def init_peb_def init_teb_def TEB_PEB_OFFSET_def TEB_TLS_POINTER_OFFSET_def add.assoc)
  have D: "area (teb + of_nat m) 8 \<inter> area (teb + of_nat n) 8 = {}" if "m + 8 \<le> n \<or> n + 8 \<le> m" "m + 8 \<le> 8192" "n + 8 \<le> 8192" for m n
    using that offsets_apart [OF assms(1), of m n] offsets_apart [OF assms(1), of n m] by auto
  have "sorted_wrt (\<lambda>(a, _) (b, _). area a 8 \<inter> area b 8 = {}) ?ws"
    unfolding sorted_wrt.simps list.set ball_simps prod.case
    by (intro conjI TrueI D) simp_all
  note W = writes_value [OF this]
  show ?thesis
    using W [of "teb + of_nat 0" 0] W [of "teb + of_nat 0x08" sb] W [of "teb + of_nat 0x10" sl] W [of "teb + of_nat 0x30" teb]
      W [of "teb + of_nat 0x60" "teb + 4096"] W [of "teb + of_nat 0x58" tp] W [of "teb + of_nat (4096 + 0x10)" ib]
    by (simp add: k' TIB_SELF_OFFSET_def TEB_PEB_OFFSET_def TEB_TLS_POINTER_OFFSET_def peb_ptr_def add.assoc)
qed

theorem teb_fields_witness:
  "read_le 8 (0x10000 + TEB_TLS_POINTER_OFFSET) (set_tls_pointer 0x10000 0x5000 (teb_new 0x10000 0x9000 0x8000 0x140000000 kernel_new)) = 0x5000"
proof -
  have "unat (0x10000 :: u64) + 8192 \<le> 2 ^ 64" by simp
  from teb_fields [OF this refl] show ?thesis by blast
qed

section \<open>Thread-local variables\<close>

text \<open>How compiled code finds the variable at an offset: the array from the environment block, the module's index from the
  image, the block from the array.\<close>

definition tls_variable :: "u64 \<Rightarrow> tls_directory \<Rightarrow> nat \<Rightarrow> kernel \<Rightarrow> u8" where
  "tls_variable teb dir off k =
     byte_at k (read_le 8 (read_le 8 (teb + TEB_TLS_POINTER_OFFSET) k + 8 * read_le 4 (address_of_index dir) k) k) off"

definition areas_apart :: "u64 set list \<Rightarrow> bool" where
  "areas_apart As \<longleftrightarrow> sorted_wrt (\<lambda>A B. A \<inter> B = {}) As"

lemma read_back_8: "read_le 8 p (write_le 8 p v k) = v"
  using read_write_le [of 8 p v k] by (simp add: take_bit_word_eq_self)

text \<open>What a successful setup says of the directory: the template and the index lie inside the image.\<close>

lemma init_static_tls_Inr:
  assumes "init_static_tls b image_size b dir data slot k = (Inr blk, k1)" and "4096 \<le> b" and "b \<le> raw_data_start dir"
    and "b \<le> address_of_index dir"
  defines "k0 \<equiv> zero_fill data (max (block_size dir) 1) k"
  shows "k1 = write_le 4 (address_of_index dir) 0 (write_le 8 slot data
      (store_bytes (load_bytes (unat (raw_size dir)) (raw_data_start dir) k0) data k0))"
    and "blk = \<lparr>block_data = data, slots = slot\<rparr>"
    and "0 < raw_size dir \<Longrightarrow> raw_data_start dir - b + raw_size dir \<le> image_size"
    and "address_of_index dir - b + 4 \<le> image_size"
proof -
  have "address_of_index dir \<noteq> 0" using assms(2,4) by (auto simp: word_le_nat_alt)
  with assms(1,3,4) show "k1 = write_le 4 (address_of_index dir) 0 (write_le 8 slot data
      (store_bytes (load_bytes (unat (raw_size dir)) (raw_data_start dir) k0) data k0))"
    "blk = \<lparr>block_data = data, slots = slot\<rparr>" "0 < raw_size dir \<Longrightarrow> raw_data_start dir - b + raw_size dir \<le> image_size"
    "address_of_index dir - b + 4 \<le> image_size"
    by (auto simp: init_static_tls_def sat_sub_def Let_def k0_def not_less split: if_splits)
qed

lemma index_in_image:
  assumes "address_of_index dir - b + 4 \<le> image_size" and "4096 \<le> b" and "b \<le> address_of_index dir"
    and "unat b + unat image_size \<le> 2 ^ 64"
  shows "area (address_of_index dir) 4 \<subseteq> block b image_size"
proof -
  let ?i = "address_of_index dir - b"
  have "unat ?i + 4 < 2 ^ 64"
    using assms(2,3) unsigned_less [of "address_of_index dir", where ?'a = nat] by (auto simp: unat_sub word_le_nat_alt)
  then have "unat (?i + 4) = unat ?i + 4" by (subst unat_add_lem [THEN iffD1]) simp_all
  then have "unat ?i + 4 \<le> unat image_size" using assms(1) by (simp add: word_le_nat_alt)
  from area_in_block [OF this assms(4)] show ?thesis by simp
qed

lemma template_in_image:
  assumes "0 < raw_size dir \<Longrightarrow> raw_data_start dir - b + raw_size dir \<le> image_size"
    and "b \<le> raw_data_start dir" and "raw_data_start dir \<le> raw_data_end dir" and "unat b + unat image_size \<le> 2 ^ 64"
  shows "unat (raw_size dir) \<le> unat image_size \<and> area (raw_data_start dir) (unat (raw_size dir)) \<subseteq> block b image_size"
proof (cases "raw_size dir = 0")
  case False
  let ?t = "raw_data_start dir - b"
  have e: "?t + raw_size dir = raw_data_end dir - b" and "unat ?t + unat (raw_size dir) = unat (raw_data_end dir - b)"
    using assms(2,3) by (simp_all add: raw_size_def sat_sub_def unat_sub word_le_nat_alt)
  moreover have "raw_data_end dir - b \<le> image_size"
    using assms(1) False unfolding e by (simp add: word_neq_0_conv)
  ultimately have "unat ?t + unat (raw_size dir) \<le> unat image_size" by (simp add: word_le_nat_alt)
  then show ?thesis using area_in_block [OF _ assms(4), of ?t "unat (raw_size dir)"] by simp
qed simp

lemma unat_block_size:
  assumes "unat (raw_size dir) < 2 ^ 63"
  shows "unat (block_size dir) = unat (raw_size dir) + unat (size_of_zero_fill dir)"
proof -
  have z: "unat (size_of_zero_fill dir) < 2 ^ 32" using unsigned_less [of "size_of_zero_fill dir", where ?'a = nat] by simp
  then have "unat (ucast (size_of_zero_fill dir) :: u64) = unat (size_of_zero_fill dir)"
    by (simp add: unsigned_ucast_eq take_bit_nat_eq_self)
  then show ?thesis using assms z unfolding block_size_def by (subst unat_add_lem [THEN iffD1]) simp_all
qed

text \<open>A block of \<open>n\<close> zeros with a template copied to its front from elsewhere.\<close>

lemma template_block:
  fixes k :: kernel
  assumes "unat data + unat n \<le> 2 ^ 64" and "m \<le> unat n" and "area src m \<inter> area data (unat n) = {}"
  defines "k0 \<equiv> zero_fill data n k"
  defines "ka \<equiv> store_bytes (load_bytes m src k0) data k0"
  shows "x \<notin> area data (unat n) \<Longrightarrow> guest ka x = guest k x"
    and "off < unat n \<Longrightarrow> byte_at ka data off = (if off < m then byte_at k src off else 0)"
proof -
  have out: "guest k0 x = guest k x" if "x \<notin> area data (unat n)" for x
    using that zero_fill_out [OF assms(1)] area_block [OF assms(1)] by (simp add: k0_def)
  show "guest ka x = guest k x" if x: "x \<notin> area data (unat n)"
  proof -
    have "area data m \<subseteq> area data (unat n)" using assms(2) by (auto simp: area_def)
    then have "guest ka x = guest k0 x" using x unfolding ka_def by (intro store_bytes_frame) auto
    with out [OF x] show ?thesis by simp
  qed
  assume off: "off < unat n"
  then have d: "data + of_nat off \<in> area data (unat n)" unfolding area_def by (intro imageI) simp
  have "byte_at ka data off = (if off < m then load_bytes m src k0 ! off else byte_at k0 data off)"
    using byte_store [of 0 "load_bytes m src k0" off data k0] off assms(2) unsigned_less [of n, where ?'a = nat]
    by (simp add: ka_def)
  moreover have "byte_at k0 data off = 0" using zero_fill_in [OF assms(1)] d by (simp add: area_block [OF assms(1)] k0_def)
  moreover have "load_bytes m src k0 ! off = byte_at k src off" if "off < m"
  proof -
    have "src + of_nat off \<in> area src m" using that unfolding area_def by (intro imageI) simp
    then show ?thesis using out assms(3) that by (auto simp: nth_load_bytes disjoint_iff)
  qed
  ultimately show "byte_at ka data off = (if off < m then byte_at k src off else 0)" by simp
qed

text \<open>C16. The program finds in each of its thread-local variables the bytes of the template, and zeros after them, as soon
  as the block is set up; nothing else of the image changes but the index.\<close>

theorem static_tls_ready:
  assumes "read_tls_directory b image_size rva k = Inr dir"
    and "init_static_tls b image_size b dir data slot k = (Inr blk, k1)"
    and "k2 = set_tls_pointer teb (teb_tls_pointer blk) k1"
    and "unat b + unat image_size < 2 ^ 63" and "unat data + unat (max (block_size dir) 1) \<le> 2 ^ 64"
    and "areas_apart [block b image_size, area data (unat (max (block_size dir) 1)), area slot 8, area (teb + TEB_TLS_POINTER_OFFSET) 8]"
    and "4096 \<le> b" and "b \<le> raw_data_start dir" and "b \<le> address_of_index dir"
  shows "(\<forall>off < unat (block_size dir). tls_variable teb dir off k2 =
      (if off < unat (raw_size dir) then byte_at k (raw_data_start dir) off else 0)) \<and>
    (\<forall>x \<in> block b image_size. x \<notin> area (address_of_index dir) 4 \<longrightarrow> guest k2 x = guest k x)"
proof -
  let ?n = "max (block_size dir) 1" and ?raw = "raw_size dir" and ?T = "teb + TEB_TLS_POINTER_OFFSET" and ?a = "address_of_index dir"
  define ka where "ka = store_bytes (load_bytes (unat ?raw) (raw_data_start dir) (zero_fill data ?n k)) data (zero_fill data ?n k)"
  define kb where "kb = write_le 8 slot data ka"
  note I = init_static_tls_Inr [OF assms(2,7-9), folded ka_def, folded kb_def]
  have sep: "block b image_size \<inter> area data (unat ?n) = {}" "block b image_size \<inter> area slot 8 = {}" "block b image_size \<inter> area ?T 8 = {}"
    "area data (unat ?n) \<inter> area slot 8 = {}" "area data (unat ?n) \<inter> area ?T 8 = {}" "area slot 8 \<inter> area ?T 8 = {}"
    using assms(6) by (simp_all add: areas_apart_def)
  have wrap: "unat b + unat image_size \<le> 2 ^ 64" using assms(4) by simp
  have "raw_data_start dir \<le> raw_data_end dir"
    using assms(1) by (auto simp: read_tls_directory_def Let_def not_less split: if_splits)
  then have raw: "unat ?raw \<le> unat image_size" "area (raw_data_start dir) (unat ?raw) \<subseteq> block b image_size"
    using template_in_image [OF I(3) assms(8) _ wrap] by blast+
  have index: "area ?a 4 \<subseteq> block b image_size" by (rule index_in_image [OF I(4) assms(7,9) wrap])
  have n: "unat ?raw \<le> unat ?n" "unat (block_size dir) \<le> unat ?n"
    using unat_block_size [of dir] raw(1) assms(4) by (auto simp: max_def word_le_nat_alt)
  have tmpl: "area (raw_data_start dir) (unat ?raw) \<inter> area data (unat ?n) = {}" using raw(2) sep(1) by blast
  note ka = template_block [OF assms(5) n(1) tmpl, where k = k, folded ka_def]
  have k2: "k2 = write_le 8 ?T slot (write_le 4 ?a 0 kb)"
    using assms(3) by (simp add: I(1,2) set_tls_pointer_def teb_tls_pointer_def)
  have 1: "guest k2 x = guest kb x" if "x \<notin> area ?T 8" "x \<notin> area ?a 4" for x using that by (simp add: k2 write_le_frame)
  have 2: "guest kb x = guest ka x" if "x \<notin> area slot 8" for x using that by (simp add: kb_def write_le_frame)
  have "read_le 8 ?T k2 = slot" by (simp add: k2 read_back_8)
  moreover have "read_le 4 ?a k2 = 0"
  proof -
    have "read_le 4 ?a k2 = read_le 4 ?a (write_le 4 ?a 0 kb)"
      unfolding k2 using index sep(3) by (intro read_le_area write_le_frame) blast
    then show ?thesis using read_write_le [of 4 ?a 0 kb] by simp
  qed
  moreover have "read_le 8 slot k2 = data"
  proof -
    have "read_le 8 slot k2 = read_le 8 slot kb" using index sep(2,6) by (intro read_le_area 1) blast+
    then show ?thesis by (simp add: kb_def read_back_8)
  qed
  ultimately have var: "tls_variable teb dir off k2 = byte_at k2 data off" for off by (simp add: tls_variable_def)
  have "byte_at k2 data off = (if off < unat ?raw then byte_at k (raw_data_start dir) off else 0)"
    if off: "off < unat (block_size dir)" for off
  proof -
    have d: "data + of_nat off \<in> area data (unat ?n)" using off n(2) unfolding area_def by (intro imageI) simp
    then have "byte_at k2 data off = byte_at kb data off" using index sep(1,5) by (intro 1) blast+
    also have "\<dots> = byte_at ka data off" using d sep(4) by (intro 2) blast
    finally show ?thesis using ka(2) [of off] off n(2) by simp
  qed
  moreover have "guest k2 x = guest k x" if x: "x \<in> block b image_size" "x \<notin> area ?a 4" for x
  proof -
    have "x \<notin> area ?T 8" "x \<notin> area slot 8" "x \<notin> area data (unat ?n)" using x(1) sep(1-3) by blast+
    then show ?thesis using 1 2 ka(1) x(2) by simp
  qed
  ultimately show ?thesis using var by simp
qed

text \<open>A directory at offset \<open>0x100\<close> of a one-page image: one byte of template at \<open>0x200\<close>, 7 of zero fill, the index at \<open>0x300\<close>.\<close>

definition demo_tls_memory :: kernel where
  "demo_tls_memory = kernel_new\<lparr>guest := (\<lambda>a. if a = 0x10101 then 2 else if a = 0x10102 then 1 else if a = 0x10108 then 1
     else if a = 0x10109 then 2 else if a = 0x1010A then 1 else if a = 0x10111 then 3 else if a = 0x10112 then 1
     else if a = 0x10120 then 7 else if a = 0x10200 then 5 else 0)\<rparr>"

definition demo_tls :: tls_directory where
  "demo_tls = \<lparr>raw_data_start = 0x10200, raw_data_end = 0x10201, address_of_index = 0x10300, address_of_callbacks = 0,
     size_of_zero_fill = 7\<rparr>"

lemma demo_tls_read: "read_tls_directory 0x10000 0x1000 0x100 demo_tls_memory = Inr demo_tls"
  by (simp add: read_tls_directory_def read_le_8 read_le_4 demo_tls_memory_def demo_tls_def)

theorem static_tls_ready_witness:
  "\<exists>blk k1. init_static_tls 0x10000 0x1000 0x10000 demo_tls 0x30000 0x40000 demo_tls_memory = (Inr blk, k1) \<and>
     tls_variable 0x50000 demo_tls 0 (set_tls_pointer 0x50000 (teb_tls_pointer blk) k1) = 5 \<and>
     tls_variable 0x50000 demo_tls 7 (set_tls_pointer 0x50000 (teb_tls_pointer blk) k1) = 0"
proof -
  have size: "raw_size demo_tls = 1" "block_size demo_tls = 8" by (simp_all add: demo_tls_def block_size_def raw_size_def sat_sub_def)
  have fields: "raw_data_start demo_tls = 0x10200" "address_of_index demo_tls = 0x10300" by (simp_all add: demo_tls_def)
  have "\<exists>k1. init_static_tls 0x10000 0x1000 0x10000 demo_tls 0x30000 0x40000 demo_tls_memory = (Inr \<lparr>block_data = 0x30000, slots = 0x40000\<rparr>, k1)"
    by (simp add: init_static_tls_def sat_sub_def size fields Let_def)
  then obtain blk k1 where i: "init_static_tls 0x10000 0x1000 0x10000 demo_tls 0x30000 0x40000 demo_tls_memory = (Inr blk, k1)" by blast
  have B: "block 0x10000 0x1000 = area (0x10000 :: u64) 0x1000" using area_block [of "0x10000" "0x1000"] by simp
  have A: "areas_apart [block 0x10000 0x1000, area 0x30000 (unat (max (block_size demo_tls) 1)), area 0x40000 8,
      area (0x50000 + TEB_TLS_POINTER_OFFSET) 8]"
    unfolding areas_apart_def sorted_wrt.simps list.set ball_simps B size TEB_TLS_POINTER_OFFSET_def
    by (intro conjI TrueI area_apart) simp_all
  have P: "unat (0x10000 :: u64) + unat (0x1000 :: u64) < 2 ^ 63" "unat (0x30000 :: u64) + unat (max (block_size demo_tls) 1) \<le> 2 ^ 64"
    "(4096 :: u64) \<le> 0x10000" "0x10000 \<le> raw_data_start demo_tls" "0x10000 \<le> address_of_index demo_tls"
    by (simp_all add: size fields)
  note T = static_tls_ready [OF demo_tls_read i refl P(1,2) A P(3-5), THEN conjunct1, rule_format]
  have "byte_at demo_tls_memory (raw_data_start demo_tls) 0 = 5" by (simp add: fields demo_tls_memory_def)
  then show ?thesis using i T [of 0] T [of 7] by (auto simp: size)
qed

text \<open>The callbacks are the entries of the array, before its zero and before the end of the image, at most 64 of them, that
  point into the image. An entry below the image counts as one of its first byte.\<close>

lemma callbacks_from_list:
  assumes "unat rva + 8 * n < 2 ^ 64"
  shows "callbacks_from n rva b image_size im_base k =
    map (\<lambda>va. b + sat_sub va im_base) (filter (\<lambda>va. sat_sub va im_base < image_size) (takeWhile (\<lambda>va. va \<noteq> 0)
      (map (\<lambda>i. read_le 8 (b + rva + of_nat (8 * i)) k) [0..<min n ((unat image_size - unat rva) div 8)])))"
  using assms
proof (induction n arbitrary: rva)
  case (Suc n)
  have u: "unat (rva + 8) = unat rva + 8" using Suc.prems by (subst unat_add_lem [THEN iffD1]) simp_all
  show ?case
  proof (cases "image_size < rva + 8")
    case True
    then have "(unat image_size - unat rva) div 8 = 0" using u by (simp add: word_less_nat_alt)
    then show ?thesis using True by simp
  next
    case False
    then have le: "unat rva + 8 \<le> unat image_size" using u by (simp add: word_less_nat_alt)
    define m where "m = min n ((unat image_size - unat (rva + 8)) div 8)"
    have "unat image_size - unat rva = unat image_size - unat (rva + 8) + 8" using le u by simp
    then have "min (Suc n) ((unat image_size - unat rva) div 8) = Suc m" by (simp add: m_def)
    then have l: "map (\<lambda>i. read_le 8 (b + rva + of_nat (8 * i)) k) [0..<min (Suc n) ((unat image_size - unat rva) div 8)] =
        read_le 8 (b + rva) k # map (\<lambda>i. read_le 8 (b + (rva + 8) + of_nat (8 * i)) k) [0..<m]"
      by (simp add: upt_conv_Cons map_Suc_upt [symmetric] algebra_simps del: upt_Suc)
    have "unat (rva + 8) + 8 * n < 2 ^ 64" using Suc.prems u by simp
    from Suc.IH [OF this] show ?thesis unfolding l using False by (auto simp: Let_def not_le simp flip: m_def)
  qed
qed simp



end
