(* ===== verification/Load.thy ===== *)
theory Load
  imports DllModSpec Tls Seh
begin

unbundle bit_operations_syntax

text \<open>
  The loading and running of a program, \<^verbatim>\<open>crates/pe-loader/src/lib.rs\<close>: the sequence of calls that takes the bytes of an
  executable to an image that can run, and the run. The parts are in the other theories of the crate. The addresses the
  allocator gives to the block of the thread and to the thread-local data are the record \<open>heap_places\<close>; setting the segment
  base is a system call that may fail, the parameter \<open>gs_ok\<close>. Values that are dropped on an early return give their
  memory back here too; the mapped image has no drop and stays.
\<close>

section \<open>Data\<close>

record pe_image =
  pe_mapped :: mapped_image
  entry_rva :: u32
  pe_resolved :: resolved_imports
  pe_teb :: u64
  pe_stack :: stack
  pe_arena :: arena
  pe_tls_block :: "tls_block option"
  tls_callbacks :: "u64 list"

record 'm program =
  loader_st :: "'m loader"
  kernel_fns :: "'m loader bridge"
  exe_at :: "u64 option"
  exc_table :: "exception_table option"
  seh_fns :: bool

record heap_places =
  teb_at :: u64
  tls_data_at :: u64
  tls_slot_at :: u64

abbreviation prog_ram :: "'m program \<Rightarrow> kernel" where
  "prog_ram st \<equiv> ram (lspace (loader_st st))"

abbreviation on_loader :: "('m loader \<Rightarrow> 'm loader) \<Rightarrow> 'm program \<Rightarrow> 'm program" where
  "on_loader f st \<equiv> st\<lparr>loader_st := f (loader_st st)\<rparr>"

abbreviation set_space :: "'m space \<Rightarrow> 'm program \<Rightarrow> 'm program" where
  "set_space sp \<equiv> on_loader (\<lambda>l. l\<lparr>lspace := sp\<rparr>)"

abbreviation set_ram :: "kernel \<Rightarrow> 'm program \<Rightarrow> 'm program" where
  "set_ram k \<equiv> on_loader (on_space (\<lambda>sp. sp\<lparr>ram := k\<rparr>))"

section \<open>Loading\<close>

text \<open>The usable part of the default stack.\<close>

definition stack_usable :: u64 where "stack_usable = 0x100000"

definition map_program ::
  "'m dll_host \<Rightarrow> u8 list \<Rightarrow> pe_file \<Rightarrow> opt_header \<Rightarrow> 'm program \<Rightarrow> (load_error + mapped_image) \<times> 'm program" where
  "map_program host bytes file oh st =
     (case map_image (vm_of host) (page_of host) bytes (pe_view file) (lspace (loader_st st)) of
        (Inl e, sp) \<Rightarrow> (Inl (MapFailed e), set_space sp st)
      | (Inr img, sp) \<Rightarrow>
          (let st = (set_space sp st)\<lparr>exe_at := register_exe_base (ibase img) (exe_at st)\<rparr> in
           case reloc_table oh of
             None \<Rightarrow> (Inr img, st)
           | Some dir \<Rightarrow>
               (case apply_relocations (vm_of host) (page_of host) (\<lambda>bs. map_option pe_view (parse_pe host bs)) img bytes
                       (pe_view file) dir sp of
                  (Inl e, sp) \<Rightarrow> (Inl (MapFailed e), set_space sp st)
                | (Inr _, sp) \<Rightarrow> (Inr img, set_space sp st))))"

text \<open>The exception table, where the directory names one inside the image.\<close>

definition install_exceptions :: "mapped_image \<Rightarrow> (u32 \<times> u32) option \<Rightarrow> 'm program \<Rightarrow> 'm program" where
  "install_exceptions img dir st =
     (case dir of
        None \<Rightarrow> st
      | Some (rva, sz) \<Rightarrow>
          if 0 < rva \<and> 12 \<le> sz \<and> unat rva + unat sz \<le> unat (isize img) then
            st\<lparr>exc_table := seh_install (ibase img + ucast rva) (unat sz div 12) (ibase img) (isize img) (exc_table st), seh_fns := True\<rparr>
          else st)"

text \<open>The thread-local data and the callbacks. A directory that cannot be read is left alone; one that can be read and does
  not fit the image fails the load.\<close>

definition setup_tls ::
  "heap_places \<Rightarrow> mapped_image \<Rightarrow> (u32 \<times> u32) option \<Rightarrow> kernel \<Rightarrow> (load_error + tls_block option \<times> u64 list) \<times> kernel" where
  "setup_tls heap img dir k =
     (case dir of
        None \<Rightarrow> (Inr (None, []), k)
      | Some (rva, sz) \<Rightarrow>
          if rva = 0 then (Inr (None, []), k)
          else
            (case read_tls_directory (ibase img) (isize img) rva k of
               Inl e \<Rightarrow> (Inr (None, []), k)
             | Inr d \<Rightarrow>
                 (case init_static_tls (ibase img) (isize img) (ibase img) d (tls_data_at heap) (tls_slot_at heap) k of
                    (Inl e, k) \<Rightarrow> (Inl BootstrapFailed, k)
                  | (Inr blk, k) \<Rightarrow>
                      (Inr (Some blk, collect_callbacks (ibase img) (isize img) (ibase img) d k),
                       set_tls_pointer (teb_at heap) (teb_tls_pointer blk) k))))"

definition prepare ::
  "'m dll_host \<Rightarrow> heap_places \<Rightarrow> mapped_image \<Rightarrow> opt_header \<Rightarrow> resolved_imports \<Rightarrow> arena \<Rightarrow> 'm program \<Rightarrow>
     (load_error + pe_image) \<times> 'm program" where
  "prepare host heap img oh r a st =
     (let st = install_exceptions img (exception_dir oh) st in
      case Stack_new (vm0 host) (page_of host) DEFAULT_STACK_SIZE (lspace (loader_st st)) of
        (Inl e, sp) \<Rightarrow> (Inl BootstrapFailed, set_space (arena_drop (vm0 host) a sp) st)
      | (Inr stk, sp) \<Rightarrow>
          (let st = set_space sp st;
               k = teb_new (teb_at heap) (Stack_top stk) (sat_sub (Stack_top stk) stack_usable) (ibase img) (prog_ram st)
           in case setup_tls heap img (tls_dir oh) k of
                (Inl e, k) \<Rightarrow>
                  (Inl e, on_loader (on_space (\<lambda>sp. arena_drop (vm0 host) a (Stack_drop (vm0 host) stk sp))) (set_ram k st))
              | (Inr (blk, cbs), k) \<Rightarrow>
                  (Inr \<lparr>pe_mapped = img, entry_rva = entry_point oh, pe_resolved = r, pe_teb = teb_at heap, pe_stack = stk,
                     pe_arena = a, pe_tls_block = blk, tls_callbacks = cbs\<rparr>, set_ram k st)))"

text \<open>\<open>n\<close> bounds the depth of the loads of DLLs that the imports cause.\<close>

definition pe_load_bytes ::
  "nat \<Rightarrow> 'm dll_host \<Rightarrow> heap_places \<Rightarrow> u8 list \<Rightarrow> 'm program \<Rightarrow> ((load_error + pe_image) \<times> 'm program) option" where
  "pe_load_bytes n host heap bytes st =
     (let st = st\<lparr>kernel_fns := register_fns (register_kernel32_bridge n host) (kernel_fns st)\<rparr> in
      case parse_pe host bytes of
        None \<Rightarrow> Some (Inl ParseFailed, st)
      | Some file \<Rightarrow>
          (case opt file of
             None \<Rightarrow> Some (Inl BootstrapFailed, st)
           | Some oh \<Rightarrow>
               (case map_program host bytes file oh st of
                  (Inl e, st) \<Rightarrow> Some (Inl e, st)
                | (Inr img, st) \<Rightarrow>
                    (case bind_imports (from_disk (load_dll_ex n host) host) host file img (loader_st st) of
                       None \<Rightarrow> None
                     | Some (Inl e, l) \<Rightarrow> Some (Inl e, st\<lparr>loader_st := l\<rparr>)
                     | Some (Inr (r, a), l) \<Rightarrow> Some (prepare host heap img oh r a (st\<lparr>loader_st := l\<rparr>))))))"

section \<open>Running\<close>

definition entrypoint :: "pe_image \<Rightarrow> u64" where
  "entrypoint im = ibase (pe_mapped im) + ucast (entry_rva im)"

fun run_callbacks :: "callee \<Rightarrow> u64 \<Rightarrow> u64 \<Rightarrow> u64 \<Rightarrow> u64 list \<Rightarrow> machine \<Rightarrow> machine option" where
  "run_callbacks f ra stack_top h [] m = Some m"
| "run_callbacks f ra stack_top h (cb # cbs) m =
     (case run_dll_main_win64 f ra cb stack_top h 1 0 m of
        None \<Rightarrow> None
      | Some (_, m) \<Rightarrow> run_callbacks f ra stack_top h cbs m)"

definition pe_run :: "callee \<Rightarrow> u64 \<Rightarrow> bool \<Rightarrow> pe_image \<Rightarrow> machine \<Rightarrow> ((load_error + u32) \<times> machine) option" where
  "pe_run f ra gs_ok im m =
     (if \<not> gs_ok then Some (Inl BootstrapFailed, m)
      else
        (case run_callbacks f ra (Stack_top (pe_stack im)) (ibase (pe_mapped im)) (tls_callbacks im) m of
           None \<Rightarrow> None
         | Some m \<Rightarrow>
             (case run_entrypoint_win64 f ra (entrypoint im) (Stack_top (pe_stack im)) (peb_ptr (pe_teb im)) m of
                None \<Rightarrow> None
              | Some (status, m) \<Rightarrow> Some (Inr status, m))))"

definition stubbed_imports :: "pe_image \<Rightarrow> (string \<times> string) list" where
  "stubbed_imports im = stubbed (pe_resolved im)"

end
