(* ===== verification/ModuleRegistry.thy ===== *)
theory ModuleRegistry
  imports DllModSpec
begin

unbundle bit_operations_syntax

text \<open>
  The states the module registry of \<^verbatim>\<open>crates/pe-loader/src/dllmod.rs\<close> reaches: from no modules, by loads, unloads and
  lookups in any order, with the guest writing memory in between. Every one of them satisfies the invariant of
  DllModSpec, which gives each handle one module with memory of its own. For the witness, a kernel that hands out
  addresses in order and a host with one DLL.
\<close>

section \<open>Reachable registries\<close>

inductive module_reach :: "'m dll_host \<Rightarrow> 'm loader \<Rightarrow> bool" for host where
  start: "modules st = [] \<Longrightarrow> module_reach host st"
| loaded: "module_reach host st \<Longrightarrow> load_dll_ex n host p attach st = Some (r, st') \<Longrightarrow> module_reach host st'"
| freed: "module_reach host st \<Longrightarrow> mod_free_library host h st = (ok, st') \<Longrightarrow> module_reach host st'"
| looked_up: "module_reach host st \<Longrightarrow> mod_get_proc_address host h name st = Some (p, st') \<Longrightarrow> module_reach host st'"
| guest: "module_reach host st \<Longrightarrow> module_reach host (st\<lparr>lspace := (lspace st)\<lparr>ram := k\<rparr>, loader_error := e\<rparr>)"

lemma module_reach_ok: "module_reach host st \<Longrightarrow> host_ok mapped prot_of host \<Longrightarrow> registry_ok mapped {} st"
proof (induction rule: module_reach.induct)
  case (start st)
  then show ?case by (simp add: registry_ok_def)
next
  case (loaded st n p attach r st')
  then show ?case using load_dll_ex_keeps [OF loaded.prems, of n] unfolding loads_ok_def by blast
next
  case (freed st h ok st')
  then show ?case using free_library_keeps host_okD(2) by blast
next
  case (looked_up st h name p st')
  then show ?case using get_proc_keeps by blast
next
  case (guest st k e)
  show ?case by (rule registry_same [OF guest.IH [OF guest.prems]]) simp_all
qed

lemma disjoint_distinct:
  "sorted_wrt (\<lambda>m m'. f m \<inter> f m' = {}) ms \<Longrightarrow> \<forall>m \<in> set ms. h m \<in> f m \<Longrightarrow> distinct (map h ms)"
  by (induction ms) fastforce+

lemma registry_handles: "registry_ok mapped {} st \<Longrightarrow> distinct (map h_module (modules st))"
  unfolding registry_ok_def by (rule disjoint_distinct [of owned]) blast+

lemma find_distinct: "distinct (map f xs) \<Longrightarrow> x \<in> set xs \<Longrightarrow> find (\<lambda>y. f y = f x) xs = Some x"
  by (induction xs) auto

lemma extract_distinct:
  assumes "distinct (map f xs)" and "x \<in> set xs"
  obtains as bs where "List.extract (\<lambda>y. f y = f x) xs = Some (as, x, bs)" and "xs = as @ x # bs"
proof (cases "List.extract (\<lambda>y. f y = f x) xs")
  case None
  then show ?thesis using assms(2) by (auto simp: extract_None_iff)
next
  case (Some t)
  obtain as y bs where t: "t = (as, y, bs)" by (cases t) auto
  then have xs: "xs = as @ y # bs" "f y = f x" using Some by (auto simp: extract_Some_iff)
  then have "y = x" using assms by (auto simp: distinct_map inj_on_def)
  then show ?thesis using that Some t xs by blast
qed

section \<open>A kernel and a host, for the witness\<close>

definition bump_vm :: "(nat \<times> u64 set \<times> (u64 \<Rightarrow> u32)) loader_vm" where
  "bump_vm = \<lparr>
     mmap = (\<lambda>a n p fixed (k, M, P).
       let b = of_nat (k + 1) * 0x10000000 in
       if \<not> fixed \<and> k < 100 \<and> 0 < unat n \<and> unat n \<le> 0x10000000
       then (Some b, k + 1, {x \<in> M. unat x < (k + 1) * 0x10000000} \<union> block b n, \<lambda>x. if x \<in> block b n then p else P x)
       else (None, k, M, P)),
     mprotect = (\<lambda>a n p (k, M, P). (True, k, M, \<lambda>x. if x \<in> block a n then p else P x)),
     munmap = (\<lambda>a n (k, M, P). (True, k, M - block a n, P)),
     mmap_noreplace = (\<lambda>a n p m. (None, m))\<rparr>"

text \<open>Only what lies below the next address counts as mapped.\<close>

definition bump_mapped :: "nat \<times> u64 set \<times> (u64 \<Rightarrow> u32) \<Rightarrow> u64 set" where
  "bump_mapped = (\<lambda>(k, M, P). {x \<in> M. unat x < (k + 1) * 0x10000000})"

definition bump_prot :: "nat \<times> u64 set \<times> (u64 \<Rightarrow> u32) \<Rightarrow> u64 \<Rightarrow> u32" where
  "bump_prot = (\<lambda>(k, M, P). P)"

lemma bump_addr: "k < 100 \<Longrightarrow> unat (of_nat (k + 1) * 0x10000000 :: u64) = (k + 1) * 0x10000000"
proof -
  assume "k < 100"
  then have "(k + 1) * 0x10000000 < 2 ^ 64" by simp
  then have "unat (of_nat ((k + 1) * 0x10000000) :: u64) = (k + 1) * 0x10000000" by (simp only: unat_of_nat) simp
  then show ?thesis by (simp only: of_nat_mult) simp
qed

lemma bump_mmap:
  assumes "mmap bump_vm a n p fixed m = (Some b, m')"
  obtains k M P where "m = (k, M, P)" and "\<not> fixed" and "unat b = (k + 1) * 0x10000000" and "k < 100" and "0 < unat n" and "unat n \<le> 0x10000000"
    and "m' = (k + 1, {x \<in> M. unat x < (k + 1) * 0x10000000} \<union> block b n, \<lambda>x. if x \<in> block b n then p else P x)"
  using assms bump_addr by (cases m) (auto simp: bump_vm_def Let_def split: if_splits)

lemma bump_none: "mmap bump_vm a n p fixed m = (None, m') \<Longrightarrow> m' = m"
  by (cases m) (auto simp: bump_vm_def Let_def split: if_splits)

lemma bump_other:
  "mprotect bump_vm a n p (k, M, P) = (True, k, M, \<lambda>x. if x \<in> block a n then p else P x)"
  "munmap bump_vm a n (k, M, P) = (True, k, M - block a n, P)"
  "mmap_noreplace bump_vm a n p m = (None, m)"
  by (simp_all add: bump_vm_def)

lemma bump_mapped_new:
  assumes "unat b = (k + 1) * 0x10000000" and "unat n \<le> 0x10000000"
  shows "bump_mapped (k + 1, {x \<in> M. unat x < (k + 1) * 0x10000000} \<union> block b n, P') = bump_mapped (k, M, P) \<union> block b n" and "block b n \<inter> bump_mapped (k, M, P) = {}"
  using assms by (auto simp: bump_mapped_def block_def)

lemma bump_pvm_laws:
  "vm_laws (linux_vm.truncate bump_vm) bump_mapped" "page_laws (linux_vm.truncate bump_vm) 4096"
  "prot_laws (linux_vm.truncate bump_vm) 4096 bump_prot"
proof -
  let ?os = "linux_vm.truncate bump_vm"
  have same: "mmap ?os = mmap bump_vm" "mprotect ?os = mprotect bump_vm" "munmap ?os = munmap bump_vm"
    by (simp_all add: linux_vm.defs)
  show "vm_laws ?os bump_mapped"
    unfolding vm_laws_def same
  proof (intro conjI allI impI)
    fix n p m b m' assume m: "mmap bump_vm 0 n p False m = (Some b, m')"
    obtain k M P where h: "m = (k, M, P)" "\<not> False" "unat b = (k + 1) * 0x10000000" "k < 100" "0 < unat n" "unat n \<le> 0x10000000"
        "m' = (k + 1, {x \<in> M. unat x < (k + 1) * 0x10000000} \<union> block b n, \<lambda>x. if x \<in> block b n then p else P x)" by (rule bump_mmap [OF m])
    note N = bump_mapped_new [OF h(3,6)]
    show "b \<noteq> 0" using h(3) by auto
    show "0 < unat n" by (rule h(5))
    show "unat b + unat n < 2 ^ 64" using h(3,4,6) by simp
    show "block b n \<inter> bump_mapped m = {}" "bump_mapped m' = bump_mapped m \<union> block b n" unfolding h(1,7) using N by blast+
  next
    fix a n p m b m' assume m: "mmap bump_vm a n p True m = (Some b, m')"
    show "b = a" "bump_mapped m' = bump_mapped m \<union> block a n" by (rule bump_mmap [OF m]; simp)+
  next
    fix a n p f m m' assume "mmap bump_vm a n p f m = (None, m')"
    then show "bump_mapped m' = bump_mapped m" by (rule bump_none [THEN arg_cong])
  next
    fix a n p m show "bump_mapped (snd (mprotect bump_vm a n p m)) = bump_mapped m"
      by (cases m) (simp add: bump_other bump_mapped_def)
  next
    fix a n m m' assume "munmap bump_vm a n m = (True, m')"
    then show "bump_mapped m' = bump_mapped m - block a n" by (cases m) (auto simp: bump_other bump_mapped_def)
  next
    fix a n m m' assume "munmap bump_vm a n m = (False, m')"
    then show "bump_mapped m' = bump_mapped m" by (cases m) (auto simp: bump_other)
  qed
  show "page_laws ?os 4096"
    unfolding page_laws_def same
  proof (intro conjI allI impI)
    fix n p m b m' assume "mmap bump_vm 0 n p False m = (Some b, m')"
    then show "unat (4096 :: u64) dvd unat b" by (rule bump_mmap) simp
  qed (simp_all add: page_ok_4096)
  show "prot_laws ?os 4096 bump_prot"
    unfolding prot_laws_def same
  proof (intro conjI allI impI)
    fix a n p fixed m b m' assume "mmap bump_vm a n p fixed m = (Some b, m')"
    then show "bump_prot m' = (\<lambda>x. if x \<in> block b n then p else bump_prot m x)"
      by (rule bump_mmap) (simp only: bump_prot_def prod.case)
  next
    fix a n p fixed m m' assume "mmap bump_vm a n p fixed m = (None, m')"
    then show "bump_prot m' = bump_prot m" by (rule bump_none [THEN arg_cong])
  next
    fix a n p m m' assume "mprotect bump_vm a n p m = (True, m')"
    then show "bump_prot m' = (\<lambda>x. if x \<in> block a n then p else bump_prot m x)" by (cases m) (auto simp: bump_other bump_prot_def)
  next
    fix a n p m m' x assume "mprotect bump_vm a n p m = (False, m')"
    then show "bump_prot m' x = bump_prot m x \<or> x \<in> block a n \<and> bump_prot m' x = p" by (cases m) (auto simp: bump_other)
  qed
qed

lemma bump_laws: "loader_laws bump_vm 4096 bump_mapped bump_prot"
  unfolding loader_laws_def bump_other(3)
proof (intro conjI allI impI bump_pvm_laws)
  fix a n m m' x assume "munmap bump_vm a n m = (True, m')"
  then show "bump_prot m' x = bump_prot m x" by (cases m) (auto simp: bump_other bump_prot_def)
next
  fix a n m show "fst (munmap bump_vm a n m)" by (cases m) (simp add: bump_other)
qed simp_all

text \<open>One DLL of two pages, without imports, relocations and entry point; no exports of this process.\<close>

definition demo_dll :: pe_file where
  "demo_dll = \<lparr>coff_characteristics = 0x2022,
     opt = Some \<lparr>reloc_table = None, exception_dir = None, tls_dir = None, entry_point = 0\<rparr>, pe_imports = [], pe_view = demo_pe\<rparr>"

definition dll_demo_host :: "(nat \<times> u64 set \<times> (u64 \<Rightarrow> u32)) dll_host" where
  "dll_demo_host = \<lparr>vm_of = bump_vm, page_of = 4096, canonicalize = Some, fs_read = (\<lambda>p. Some demo_file), fs_exists = (\<lambda>p. True),
     parse_pe = (\<lambda>bs. Some demo_dll),
     impl_tables = \<lparr>import_specs = [], apisets = [], forward_symbols = [], d3d11_slots = [], d3d11_specs = [], d3d12_slots = [],
       d3d12_specs = [], data_exports = [], soft_stub = 0x5678\<rparr>,
     lower_name = id, lower_text = id, soft_stubs = True, trap_stub = 0x99, dirs = [], cstring_buf = 0x7000,
     dll_main = (\<lambda>entry stk h st. (1, st))\<rparr>"

definition dll_demo_start :: "(nat \<times> u64 set \<times> (u64 \<Rightarrow> u32)) loader" where
  "dll_demo_start = \<lparr>lspace = \<lparr>pages = (0, {}, \<lambda>x. 0), ram = kernel_new\<rparr>, modules = [], vtables = False, loader_error = 0\<rparr>"

lemma dll_demo_host_ok: "host_ok bump_mapped bump_prot dll_demo_host"
  unfolding host_ok_def by (simp add: dll_demo_host_def bump_laws demo_file_def)

abbreviation slot_addr :: "nat \<Rightarrow> u64" where
  "slot_addr k \<equiv> of_nat (k + 1) * 0x10000000"

abbreviation next_slot :: "(nat \<times> u64 set \<times> (u64 \<Rightarrow> u32)) space \<Rightarrow> nat" where
  "next_slot sp \<equiv> fst (pages sp)"

lemma bump_anon:
  assumes "next_slot sp < 100" and "0 < unat n" and "unat n \<le> 0x10000000"
  shows "\<exists>sp'. mmap_anon (linux_vm.truncate bump_vm) 0 n p False sp = (Some (slot_addr (next_slot sp)), sp') \<and> next_slot sp' = next_slot sp + 1"
  using assms by (cases "pages sp") (simp add: mmap_anon_def bump_vm_def linux_vm.defs Let_def)

definition bump_protect :: "u64 \<Rightarrow> u64 \<Rightarrow> u32 \<Rightarrow> (nat \<times> u64 set \<times> (u64 \<Rightarrow> u32)) space \<Rightarrow> (nat \<times> u64 set \<times> (u64 \<Rightarrow> u32)) space" where
  "bump_protect a n p sp = snd (protect_pages (linux_vm.truncate bump_vm) a n p sp)"

lemma bump_protects:
  "protect_pages (linux_vm.truncate bump_vm) a n p sp = (True, bump_protect a n p sp)" "next_slot (bump_protect a n p sp) = next_slot sp"
  by (cases "pages sp"; simp add: bump_protect_def protect_pages_def bump_vm_def linux_vm.defs)+

lemma bump_seals: "\<exists>sp'. seal_blocks (linux_vm.truncate bump_vm) bs sp = (Inr (), sp') \<and> next_slot sp' = next_slot sp"
  by (induction bs arbitrary: sp) (auto simp: bump_protects, metis bump_protects(2))

lemma bump_sections: "\<exists>sp'. protect_sections bump_vm page b n secs sp = (Inr (), sp') \<and> next_slot sp' = next_slot sp"
proof (induction secs arbitrary: sp)
  case (Cons s secs)
  have "\<exists>sp'. protect_sections bump_vm page b n secs (bump_protect a l p sp) = (Inr (), sp') \<and> next_slot sp' = next_slot sp" for a l p
    using Cons [of "bump_protect a l p sp"] by (simp add: bump_protects)
  then show ?case using Cons [of sp] by (simp add: Let_def bump_protects)
qed simp

lemma bump_maps:
  assumes "next_slot sp < 90"
  shows "\<exists>sp'. map_image_anywhere bump_vm 4096 demo_file demo_pe sp =
     (Inr \<lparr>ibase = slot_addr (next_slot sp), isize = 0x2000, preferred_base = 0x140000000\<rparr>, sp') \<and> next_slot sp' = next_slot sp + 1"
proof -
  have r: "round_up (ucast (size_of_image demo_pe)) 4096 = (0x2000 :: u64)" "image_base demo_pe = 0x140000000"
    by (simp_all add: round_up_def demo_pe_def)
  obtain sp1 where "mmap_anon (linux_vm.truncate bump_vm) 0 0x2000 (PROT_READ OR PROT_WRITE) False sp = (Some (slot_addr (next_slot sp)), sp1)"
      "next_slot sp1 = next_slot sp + 1" using bump_anon [of sp "0x2000" "PROT_READ OR PROT_WRITE"] assms by auto
  moreover obtain sp2 where "protect_sections bump_vm 4096 (slot_addr (next_slot sp)) 0x2000 (sections demo_pe)
      (sp1\<lparr>ram := copy_image (slot_addr (next_slot sp)) 0x2000 demo_file demo_pe (ram sp1)\<rparr>) = (Inr (), sp2)" "next_slot sp2 = next_slot sp1"
    using bump_sections [of 4096 _ "0x2000" _ "sp1\<lparr>ram := _\<rparr>"] by fastforce
  ultimately show ?thesis
    unfolding map_image_anywhere_def map_image_with_preferred_base_def Let_def map_anywhere_def by (simp add: r)
qed

lemma bump_arena:
  assumes "next_slot sp < 95"
  shows "\<exists>a sp1. with_capacity (linux_vm.truncate bump_vm) 4096 0x8000 sp = (Inr a, sp1) \<and> arena_len a = 0x8000 \<and> cursor a = 0 \<and>
     \<not> sealed a \<and> next_slot sp1 = next_slot sp + 1"
proof -
  have r: "round_up (max 0x8000 4096) 4096 = (0x8000 :: u64)" by (simp add: round_up_def)
  show ?thesis using bump_anon [of sp "0x8000" "PROT_READ OR PROT_WRITE"] assms unfolding with_capacity_def Let_def r by auto
qed

definition demo_impl :: tables where
  "demo_impl = \<lparr>import_specs = [], apisets = [], forward_symbols = [], d3d11_slots = [], d3d11_specs = [], d3d12_slots = [],
       d3d12_specs = [], data_exports = [], soft_stub = 0x5678\<rparr>"

lemma demo_impl_build:
  assumes "arena_len a = 0x8000" and "cursor a = 0" and "\<not> sealed a"
  shows "\<exists>t a' sp'. ImplTable_build os 4096 inst demo_impl a sp = Some (t, a', sp') \<and> \<not> sealed a' \<and> pages sp' = pages sp"
proof -
  have len: "length (emit_returning 0x5678 0) = 43"
    by (simp add: emit_returning_def frame_size_def Let_def word_le_nat_alt)
  have p: "\<exists>p a' sp'. make_thunk os 4096 0x5678 0 a sp = (Inr p, a', sp') \<and> \<not> sealed a' \<and> pages sp' = pages sp"
    unfolding make_thunk_def by (subst place_fits) (simp_all add: assms len round_up_def)
  then show ?thesis
    by (auto simp: ImplTable_build_def demo_impl_def install_vtables_def)
qed

lemma demo_binds:
  assumes "next_slot (lspace st) < 95"
  shows "\<exists>r a st'. bind_imports disk dll_demo_host demo_dll img st = Some (Inr (r, a), st') \<and> modules st' = modules st \<and>
     next_slot (lspace st') = next_slot (lspace st) + 1"
proof -
  let ?os = "linux_vm.truncate bump_vm"
  obtain a sp1 where w: "with_capacity ?os 4096 0x8000 (lspace st) = (Inr a, sp1)" "next_slot sp1 = next_slot (lspace st) + 1"
      and a: "arena_len a = 0x8000" "cursor a = 0" "\<not> sealed a" using bump_arena [of "lspace st"] assms by auto
  obtain t a' sp2 where b: "ImplTable_build ?os 4096 (vtables st) demo_impl a sp1 = Some (t, a', sp2)" "\<not> sealed a'" "pages sp2 = pages sp1"
    using demo_impl_build [OF a] by blast
  obtain sp3 where f0: "seal_blocks ?os (blocks a') sp2 = (Inr (), sp3)" "next_slot sp3 = next_slot sp2" using bump_seals by blast
  from f0(1) have f: "finalize ?os a' sp2 = (Inr (), a'\<lparr>sealed := True\<rparr>, sp3)" by (simp add: finalize_def b(2))
  have h: "vm_of dll_demo_host = bump_vm" "page_of dll_demo_host = 4096" "impl_tables dll_demo_host = demo_impl" "pe_imports demo_dll = []"
    by (simp_all add: dll_demo_host_def demo_impl_def demo_dll_def)
  show ?thesis
    unfolding bind_imports_def h w(1) by (simp add: b resolve_def f w(2) f0(2))
qed

lemma demo_finishes:
  assumes "next_slot (lspace st) < 95" and "entry_point oh = 0"
  shows "\<exists>m st'. finish_load dll_demo_host p img a oh attach st = (Inr (ibase img), st') \<and> modules st' = modules st @ [m] \<and> h_module m = ibase img \<and>
     module_path m = p \<and> next_slot (lspace st') = next_slot (lspace st) + 1"
proof -
  have r: "round_up_to_page 4096 DEFAULT_STACK_SIZE + GUARD_PAGE_SIZE = 0x101000" by (simp add: round_up_to_page_def)
  have h: "vm_of dll_demo_host = bump_vm" "page_of dll_demo_host = 4096" by (simp_all add: dll_demo_host_def)
  obtain sp1 where m: "mmap_anon (linux_vm.truncate bump_vm) 0 0x101000 (PROT_READ OR PROT_WRITE) False (lspace st) =
      (Some (slot_addr (next_slot (lspace st))), sp1)" "next_slot sp1 = next_slot (lspace st) + 1"
    using bump_anon [of "lspace st" "0x101000" "PROT_READ OR PROT_WRITE"] assms(1) by auto
  let ?s = "\<lparr>stack_base = slot_addr (next_slot (lspace st)), total_len = 0x101000\<rparr>"
  let ?sp = "bump_protect (slot_addr (next_slot (lspace st))) GUARD_PAGE_SIZE PROT_NONE sp1"
  have s: "Stack_new (linux_vm.truncate bump_vm) 4096 DEFAULT_STACK_SIZE (lspace st) = (Inr ?s, ?sp)"
    unfolding Stack_new_def Let_def r m(1) prod.case option.case by (simp add: bump_protects(1))
  show ?thesis unfolding finish_load_def h s by (simp add: assms(2) bump_protects(2) m(2))
qed

lemma demo_loads:
  assumes "next_slot (lspace st) < 90" and "lookup_by_path p st = None"
  shows "\<exists>m st'. load_dll_ex (Suc n) dll_demo_host p attach st = Some (Inr (slot_addr (next_slot (lspace st))), st') \<and>
     modules st' = modules st @ [m] \<and> h_module m = slot_addr (next_slot (lspace st)) \<and> module_path m = p \<and>
     next_slot (lspace st') = next_slot (lspace st) + 3"
proof -
  let ?img = "\<lparr>ibase = slot_addr (next_slot (lspace st)), isize = 0x2000, preferred_base = 0x140000000\<rparr>"
  let ?oh = "\<lparr>reloc_table = None, exception_dir = None, tls_dir = None, entry_point = 0\<rparr>"
  have h: "vm_of dll_demo_host = bump_vm" "page_of dll_demo_host = 4096" "canonicalize dll_demo_host p = Some p" "fs_read dll_demo_host p = Some demo_file"
      "parse_pe dll_demo_host demo_file = Some demo_dll" "pe_view demo_dll = demo_pe" "opt demo_dll = Some ?oh"
      "coff_characteristics demo_dll AND 0x2000 \<noteq> 0"
    by (simp_all add: dll_demo_host_def demo_dll_def)
  obtain sp1 where m: "map_image_anywhere bump_vm 4096 demo_file demo_pe (lspace st) = (Inr ?img, sp1)" "next_slot sp1 = next_slot (lspace st) + 1"
    using bump_maps [OF assms(1)] by blast
  have mr: "map_and_relocate dll_demo_host demo_file demo_dll ?oh (lspace st) = (Inr ?img, sp1)"
    by (simp add: map_and_relocate_def h m(1))
  obtain r a st2 where b: "bind_imports (from_disk (load_dll_ex n dll_demo_host) dll_demo_host) dll_demo_host demo_dll ?img (st\<lparr>lspace := sp1\<rparr>) = Some (Inr (r, a), st2)"
      "modules st2 = modules st" "next_slot (lspace st2) = next_slot (lspace st) + 2"
    using demo_binds [of "st\<lparr>lspace := sp1\<rparr>" "from_disk (load_dll_ex n dll_demo_host) dll_demo_host" ?img] assms(1) m(2) by auto
  obtain m st3 where f: "finish_load dll_demo_host p ?img a ?oh attach st2 = (Inr (ibase ?img), st3)" "modules st3 = modules st2 @ [m]"
      "h_module m = ibase ?img" "module_path m = p" "next_slot (lspace st3) = next_slot (lspace st2) + 1"
    using demo_finishes [of st2 ?oh p ?img a attach] assms(1) b(3) by auto
  have "load_dll_ex (Suc n) dll_demo_host p attach st = Some (finish_load dll_demo_host p ?img a ?oh attach st2)"
    by (simp only: load_dll_ex.simps h assms(2) mr b(1) option.case prod.case sum.case if_False)
  with f b(2,3) show ?thesis by simp
qed

text \<open>C10. In every registry that loads, unloads and lookups reach, the handles are distinct and each finds its module;
  the image, the stack and the trampolines of every module are mapped and shared with no other module; unloading a module
  succeeds, makes its handle unknown and leaves every other module registered with its memory in place.\<close>

theorem module_registry:
  assumes "host_ok mapped prot_of host" and "module_reach host st"
  shows "distinct (map h_module (modules st)) \<and>
    (\<forall>m \<in> set (modules st). find_by_handle (h_module m) st = Some m \<and> h_module m = ibase (image m) \<and>
       owned m \<subseteq> mapped (pages (lspace st)) \<and>
       (\<forall>m' \<in> set (modules st). m' \<noteq> m \<longrightarrow> owned m' \<inter> owned m = {}) \<and>
       (\<exists>st'. mod_free_library host (h_module m) st = (True, st') \<and> find_by_handle (h_module m) st' = None \<and>
          (\<forall>m' \<in> set (modules st). m' \<noteq> m \<longrightarrow>
             find_by_handle (h_module m') st' = Some m' \<and> owned m' \<subseteq> mapped (pages (lspace st')))))"
proof -
  have ok: "registry_ok mapped {} st" by (rule module_reach_ok [OF assms(2,1)])
  note d = registry_handles [OF ok]
  have own: "owned m \<subseteq> mapped (pages (lspace st)) \<and> h_module m = ibase (image m)" if "m \<in> set (modules st)" for m
    using ok that unfolding registry_ok_def by blast
  have sw: "sorted_wrt (\<lambda>m m'. owned m \<inter> owned m' = {}) (modules st)" using ok unfolding registry_ok_def by blast
  have apart: "owned m' \<inter> owned m = {}" if m: "m \<in> set (modules st)" "m' \<in> set (modules st)" "m' \<noteq> m" for m m'
  proof -
    obtain i j where "i < length (modules st)" "modules st ! i = m" "j < length (modules st)" "modules st ! j = m'"
      using m by (auto simp: in_set_conv_nth)
    then show ?thesis using sw m(3) by (cases i j rule: linorder_cases) (auto simp: sorted_wrt_iff_nth_less)
  qed
  have free: "\<exists>st'. mod_free_library host (h_module m) st = (True, st') \<and> find_by_handle (h_module m) st' = None \<and>
      (\<forall>m' \<in> set (modules st). m' \<noteq> m \<longrightarrow> find_by_handle (h_module m') st' = Some m' \<and> owned m' \<subseteq> mapped (pages (lspace st')))"
    if m: "m \<in> set (modules st)" for m
  proof -
    obtain as bs where x: "List.extract (\<lambda>y. h_module y = h_module m) (modules st) = Some (as, m, bs)" and ms: "modules st = as @ m # bs"
      using extract_distinct [OF d m] .
    define st' where "st' = on_space (LoadedModule_drop host m) (st\<lparr>modules := as @ bs\<rparr>)"
    have r: "mod_free_library host (h_module m) st = (True, st')" by (simp add: mod_free_library_def x st'_def)
    have ok': "registry_ok mapped {} st'" by (rule free_library_keeps [OF host_okD(2) [OF assms(1)] ok r])
    have mods: "modules st' = as @ bs" by (simp add: st'_def)
    have "find_by_handle (h_module m) st' = None"
      unfolding find_by_handle_def mods find_None_iff using d by (auto simp: ms) (metis imageI)+
    moreover have "find_by_handle (h_module m') st' = Some m' \<and> owned m' \<subseteq> mapped (pages (lspace st'))"
      if "m' \<in> set (modules st)" "m' \<noteq> m" for m'
    proof -
      have m': "m' \<in> set (modules st')" using that by (auto simp: mods ms)
      then show ?thesis using find_distinct [OF registry_handles [OF ok'] m'] ok' unfolding registry_ok_def find_by_handle_def by blast
    qed
    ultimately show ?thesis using r by blast
  qed
  show ?thesis using d own apart free find_distinct [OF d] unfolding find_by_handle_def by blast
qed

theorem module_registry_witness:
  "\<exists>st1 st2 st3. load_dll 1 dll_demo_host [0x61] dll_demo_start = Some (Inr 0x10000000, st1) \<and>
     load_dll 1 dll_demo_host [0x62] st1 = Some (Inr 0x40000000, st2) \<and>
     mod_free_library dll_demo_host 0x10000000 st2 = (True, st3) \<and>
     find_by_handle 0x10000000 st3 = None \<and> find_by_handle 0x40000000 st3 \<noteq> None"
proof -
  have z: "next_slot (lspace dll_demo_start) = 0" "modules dll_demo_start = []" by (simp_all add: dll_demo_start_def)
  obtain m1 st1 where 1: "load_dll_ex (Suc 0) dll_demo_host [0x61] True dll_demo_start = Some (Inr (slot_addr 0), st1)"
      "modules st1 = [m1]" "h_module m1 = slot_addr 0" "module_path m1 = [0x61]" "next_slot (lspace st1) = 3"
    using demo_loads [of dll_demo_start "[0x61]" 0 True] z by (auto simp: lookup_by_path_def)
  obtain m2 st2 where 2: "load_dll_ex (Suc 0) dll_demo_host [0x62] True st1 = Some (Inr (slot_addr 3), st2)"
      "modules st2 = [m1, m2]" "h_module m2 = slot_addr 3"
    using demo_loads [of st1 "[0x62]" 0 True] 1 by (auto simp: lookup_by_path_def)
  have "module_reach dll_demo_host st2"
    by (rule module_reach.loaded [OF module_reach.loaded [OF module_reach.start [OF z(2)] 1(1)] 2(1)])
  note R = module_registry [OF dll_demo_host_ok this]
  obtain st3 where "mod_free_library dll_demo_host (h_module m1) st2 = (True, st3)" "find_by_handle (h_module m1) st3 = None"
      "\<forall>m' \<in> set (modules st2). m' \<noteq> m1 \<longrightarrow> find_by_handle (h_module m') st3 = Some m'"
    using R 2(2) by (metis (no_types, lifting) list.set_intros(1))
  moreover have "m2 \<noteq> m1" using 1(3) 2(3) by auto
  ultimately show ?thesis using 1 2 unfolding load_dll_def by (intro exI [of _ st1] exI [of _ st2] exI [of _ st3]) auto
qed

end
