(* ===== verification/LoadSpec.thy ===== *)
theory LoadSpec
  imports Load ModuleRegistry
begin

unbundle bit_operations_syntax

text \<open>
  What loading and running a program guarantee. Through the whole load, with the trampolines, the stacks and all the DLLs
  the imports bring in, and whether it succeeds or fails, no page becomes writable and executable at once. Running calls the
  thread-local callbacks in order and then the entry point, and comes back with the host's registers.
\<close>

section \<open>Memory calls\<close>

abbreviation no_wx_prot :: "u32 \<Rightarrow> bool" where
  "no_wx_prot p \<equiv> p AND (PROT_WRITE OR PROT_EXEC) \<noteq> PROT_WRITE OR PROT_EXEC"

definition paged :: "u64 \<Rightarrow> u64 \<times> u64 \<Rightarrow> bool" where
  "paged page x \<longleftrightarrow> unat page dvd unat (fst x) \<and> unat page dvd unat (snd x) \<and> 0 < unat (snd x)"

lemma mmap_anon_wx:
  assumes "loader_laws os page mapped prot_of" and "space_wx mapped prot_of sp" and "unat page dvd unat n" and "no_wx_prot p"
    and "mmap_anon (linux_vm.truncate os) 0 n p False sp = (r, sp')"
  shows "space_wx mapped prot_of sp' \<and> (\<forall>b. r = Some b \<longrightarrow> paged page (b, n))"
proof (cases r)
  case None
  then show ?thesis using mmap_anon_none [OF _ loader_lawsD(1,3) [OF assms(1)]] assms(2,5) by (simp add: space_wx_def)
next
  case (Some b)
  note N = mmap_anon_new [OF assms(5) [unfolded Some] loader_lawsD(1-3) [OF assms(1)] assms(3)]
  have "no_wx_prot (prot_of (pages sp') x)" if "x \<in> mapped (pages sp')" for x
    using that assms(2,4) unfolding N(6,7) space_wx_def no_wx_def by auto
  then show ?thesis using N(2,3) assms(3) Some by (simp add: space_wx_def no_wx_def paged_def)
qed

lemma unmap_wx:
  assumes "loader_laws os page mapped prot_of" and "space_wx mapped prot_of sp" and "paged page (b, n)"
  shows "space_wx mapped prot_of (unmap (linux_vm.truncate os) b n sp)"
proof -
  have "fst (munmap (linux_vm.truncate os) b n (pages sp))"
    using assms(1,3) unfolding loader_laws_def paged_def by (simp add: linux_vm.defs)
  then obtain m where m: "munmap (linux_vm.truncate os) b n (pages sp) = (True, m)" by (metis prod.collapse)
  have "mapped m = mapped (pages sp) - block b n" using vm_lawsD(5) [OF loader_lawsD(1) [OF assms(1)] m] .
  moreover have "prot_of m x = prot_of (pages sp) x" if "x \<notin> block b n" for x
    using loader_lawsD(6) [OF assms(1)] m that by (simp add: linux_vm.defs)
  ultimately show ?thesis using assms(2) by (simp add: unmap_def m space_wx_def no_wx_def)
qed

lemma protect_wx:
  assumes "loader_laws os page mapped prot_of" and "space_wx mapped prot_of sp" and "paged page (b, n)" and "no_wx_prot p"
    and "protect_pages (linux_vm.truncate os) b n p sp = (ok, sp')"
  shows "space_wx mapped prot_of sp'"
  using protect_pages_wx(1) [OF assms(1,2) _ _ assms(4,5)] assms(3) by (simp add: paged_def)

section \<open>Arenas\<close>

definition arena_wx ::
  "u64 \<Rightarrow> ('m \<Rightarrow> u64 set) \<Rightarrow> ('m \<Rightarrow> u64 \<Rightarrow> u32) \<Rightarrow> arena \<Rightarrow> 'm space \<Rightarrow> bool" where
  "arena_wx page mapped prot_of a sp \<longleftrightarrow> space_wx mapped prot_of sp \<and> (\<forall>x \<in> set (blocks a). paged page x)"

lemma page_dvd: "loader_laws os page mapped prot_of \<Longrightarrow> unat page dvd unat (round_up n page)"
  using round_up_dvd [of page n] loader_lawsD(2) [of os page mapped prot_of] by (simp add: page_laws_def)

lemma with_capacity_wx:
  assumes "loader_laws os page mapped prot_of" and "space_wx mapped prot_of sp"
    and "with_capacity (linux_vm.truncate os) page c sp = (r, sp')"
  shows "space_wx mapped prot_of sp' \<and> (\<forall>a. r = Inr a \<longrightarrow> arena_wx page mapped prot_of a sp')"
proof -
  let ?n = "round_up (max c page) page"
  obtain q sp1 where m: "mmap_anon (linux_vm.truncate os) 0 ?n (PROT_READ OR PROT_WRITE) False sp = (q, sp1)" by fastforce
  note M = mmap_anon_wx [OF assms(1,2) page_dvd [OF assms(1)] _ m]
  then show ?thesis using assms(3) m
    by (cases q) (auto simp: with_capacity_def Let_def arena_wx_def blocks_def)
qed

lemma grow_wx:
  assumes "loader_laws os page mapped prot_of" and "arena_wx page mapped prot_of a sp"
    and "grow (linux_vm.truncate os) page need a sp = (r, a', sp')"
  shows "arena_wx page mapped prot_of a' sp'"
proof -
  let ?n = "round_up (max need (arena_len a * 2)) page"
  have wx: "space_wx mapped prot_of sp" using assms(2) by (simp add: arena_wx_def)
  obtain q sp1 where m: "mmap_anon (linux_vm.truncate os) 0 ?n (PROT_READ OR PROT_WRITE) False sp = (q, sp1)" by fastforce
  note M = mmap_anon_wx [OF assms(1) wx page_dvd [OF assms(1)] _ m]
  then show ?thesis using assms(2,3) m
    by (cases q) (auto simp: grow_def Let_def arena_wx_def blocks_def)
qed

lemma arena_wx_cursor [simp]: "arena_wx page mapped prot_of (a\<lparr>cursor := c\<rparr>) sp = arena_wx page mapped prot_of a sp"
  by (simp add: arena_wx_def blocks_def)

lemma arena_wx_ram [simp]: "arena_wx page mapped prot_of a (sp\<lparr>ram := k\<rparr>) = arena_wx page mapped prot_of a sp"
  by (simp add: arena_wx_def)

lemma place_wx:
  assumes "loader_laws os page mapped prot_of" and "arena_wx page mapped prot_of a sp"
    and "place (linux_vm.truncate os) page bs a sp = (r, a', sp')"
  shows "arena_wx page mapped prot_of a' sp'"
  using assms(2,3) grow_wx [OF assms(1,2)]
  by (auto simp: place_def arena_alloc_def Let_def split: prod.splits sum.splits if_splits)

lemma make_wx:
  assumes "loader_laws os page mapped prot_of" and "arena_wx page mapped prot_of a sp"
  shows "make_thunk (linux_vm.truncate os) page t n a sp = (r, a', sp') \<Longrightarrow> arena_wx page mapped prot_of a' sp'"
    and "make_spec (linux_vm.truncate os) page s a sp = (r, a', sp') \<Longrightarrow> arena_wx page mapped prot_of a' sp'"
  using assms(2) place_wx [OF assms]
  by (auto simp: make_spec_def make_thunk_def make_thunk_noreturn_def split: if_splits)

lemma add_specs_wx:
  assumes "loader_laws os page mapped prot_of"
  shows "arena_wx page mapped prot_of a sp \<Longrightarrow> add_specs (linux_vm.truncate os) page specs m a sp = Some (m', a', sp') \<Longrightarrow>
    arena_wx page mapped prot_of a' sp'"
proof (induction specs arbitrary: m a sp)
  case (Cons s specs)
  then obtain p a1 sp1 where 1: "make_spec (linux_vm.truncate os) page s a sp = (Inr p, a1, sp1)"
      and 2: "add_specs (linux_vm.truncate os) page specs (m((spec_dll s, spec_sym s) \<mapsto> p)) a1 sp1 = Some (m', a', sp')"
    by (auto split: prod.splits sum.splits)
  show ?case by (rule Cons.IH [OF make_wx(2) [OF assms Cons.prems(1) 1] 2])
qed simp

lemma vtable_thunks_wx:
  assumes "loader_laws os page mapped prot_of"
  shows "arena_wx page mapped prot_of a sp \<Longrightarrow> vtable_thunks (linux_vm.truncate os) page ts a sp = Some (a', sp') \<Longrightarrow>
    arena_wx page mapped prot_of a' sp'"
proof (induction ts arbitrary: a sp)
  case (Cons s ts)
  obtain t n where s: "s = (t, n)" by fastforce
  with Cons.prems obtain p a1 sp1 where 1: "make_thunk (linux_vm.truncate os) page t n a sp = (Inr p, a1, sp1)"
      and 2: "vtable_thunks (linux_vm.truncate os) page ts a1 sp1 = Some (a', sp')"
    by (auto split: prod.splits sum.splits)
  show ?case by (rule Cons.IH [OF make_wx(1) [OF assms Cons.prems(1) 1] 2])
qed simp

lemma build_wx:
  assumes laws: "loader_laws os page mapped prot_of" and "arena_wx page mapped prot_of a sp"
    and "ImplTable_build (linux_vm.truncate os) page inst T a sp = Some (t, a', sp')"
  shows "arena_wx page mapped prot_of a' sp'"
proof -
  let ?os = "linux_vm.truncate os"
  obtain m1 a1 sp1 m2 a2 sp2 m3 a3 sp3 m4 a4 sp4 m5 a5 sp5 where
      1: "add_specs ?os page (import_specs T) Map.empty a sp = Some (m1, a1, sp1)"
      and 2: "install_vtables ?os page inst (d3d11_slots T) a1 sp1 = Some (a2, sp2)"
      and 3: "add_specs ?os page (d3d11_specs T) m2 a2 sp2 = Some (m3, a3, sp3)"
      and 4: "install_vtables ?os page inst (d3d12_slots T) a3 sp3 = Some (a4, sp4)"
      and 5: "add_specs ?os page (d3d12_specs T) m4 a4 sp4 = Some (m5, a5, sp5)"
      and 6: "\<exists>p. make_thunk ?os page (soft_stub T) 0 a5 sp5 = (Inr p, a', sp')"
    using assms(3) unfolding ImplTable_build_def Let_def
    by (auto split: Option.bind_splits prod.splits sum.splits)
  have inst: "arena_wx page mapped prot_of x' y'"
    if "arena_wx page mapped prot_of x y" "install_vtables ?os page inst ss x y = Some (x', y')" for ss x y x' y'
    using that vtable_thunks_wx [OF laws] by (auto simp: install_vtables_def split: if_splits)
  note add = add_specs_wx [OF laws]
  show ?thesis using 6 make_wx(1) [OF laws add [OF inst [OF add [OF inst [OF add [OF assms(2) 1] 2] 3] 4] 5]] by blast
qed

lemma seal_wx:
  assumes "loader_laws os page mapped prot_of"
  shows "space_wx mapped prot_of sp \<Longrightarrow> \<forall>x \<in> set bs. paged page x \<Longrightarrow> seal_blocks (linux_vm.truncate os) bs sp = (r, sp') \<Longrightarrow>
    space_wx mapped prot_of sp'"
proof (induction bs arbitrary: sp)
  case (Cons x bs)
  obtain b n where x: "x = (b, n)" by fastforce
  obtain ok sp1 where p: "protect_pages (linux_vm.truncate os) b n (PROT_READ OR PROT_EXEC) sp = (ok, sp1)" by fastforce
  have "space_wx mapped prot_of sp1" by (rule protect_wx [OF assms Cons.prems(1) _ _ p]) (use Cons.prems(2) x in auto)
  then show ?case using Cons p x by (cases ok) auto
qed simp

lemma finalize_wx:
  assumes "loader_laws os page mapped prot_of" and "arena_wx page mapped prot_of a sp"
    and "finalize (linux_vm.truncate os) a sp = (r, a', sp')"
  shows "arena_wx page mapped prot_of a' sp'"
proof -
  obtain q sp1 where q: "seal_blocks (linux_vm.truncate os) (blocks a) sp = (q, sp1)" by fastforce
  have wx: "space_wx mapped prot_of sp" "\<forall>x \<in> set (blocks a). paged page x" using assms(2) by (simp_all add: arena_wx_def)
  have "space_wx mapped prot_of sp1" by (rule seal_wx [OF assms(1) wx q])
  then have "arena_wx page mapped prot_of a sp1" "arena_wx page mapped prot_of (a\<lparr>sealed := True\<rparr>) sp1"
    using wx by (simp_all add: arena_wx_def blocks_def)
  then show ?thesis using assms(2,3) q by (cases q) (auto simp: finalize_def split: if_splits)
qed

lemma arena_drop_wx:
  assumes "loader_laws os page mapped prot_of" and "arena_wx page mapped prot_of a sp"
  shows "space_wx mapped prot_of (arena_drop (linux_vm.truncate os) a sp)"
proof -
  have "space_wx mapped prot_of (unmap_blocks (linux_vm.truncate os) bs sp)"
    if "space_wx mapped prot_of sp" "\<forall>x \<in> set bs. paged page x" for bs sp
    using that by (induction bs arbitrary: sp) (auto simp: unmap_wx [OF assms(1)])
  then show ?thesis using assms(2) by (simp add: arena_drop_def arena_wx_def)
qed

section \<open>Stacks and images\<close>

lemma Stack_new_wx:
  assumes "loader_laws os 4096 mapped prot_of" and "space_wx mapped prot_of sp"
    and "Stack_new (linux_vm.truncate os) 4096 len sp = (r, sp')"
  shows "space_wx mapped prot_of sp' \<and> (\<forall>s. r = Inr s \<longrightarrow> paged 4096 (stack_base s, total_len s))"
proof -
  let ?os = "linux_vm.truncate os"
  define n where "n = round_up_to_page 4096 len + GUARD_PAGE_SIZE"
  have "unat (4096 :: u64) dvd unat (round_up len 4096)" by (rule page_dvd [OF assms(1)])
  then have "4096 dvd unat (round_up len 4096) + 4096" by (simp add: dvd_add)
  moreover have "(4096 :: nat) dvd 2 ^ 64" by simp
  ultimately have d: "unat (4096 :: u64) dvd unat n"
    unfolding n_def round_up_to_page_eq by (simp add: unat_word_ariths dvd_mod)
  obtain q sp1 where m: "mmap_anon ?os 0 n (PROT_READ OR PROT_WRITE) False sp = (q, sp1)" by fastforce
  note M = mmap_anon_wx [OF assms(1,2) d _ m]
  show ?thesis
  proof (cases q)
    case None
    then show ?thesis using M assms(3) m by (auto simp: Stack_new_def Let_def n_def)
  next
    case (Some b)
    then have b: "paged 4096 (b, n)" "space_wx mapped prot_of sp1" using M by simp_all
    have g: "paged 4096 (b, 4096)" using b(1) by (simp add: paged_def)
    obtain ok sp2 where p: "protect_pages ?os b GUARD_PAGE_SIZE PROT_NONE sp1 = (ok, sp2)" by fastforce
    have 2: "space_wx mapped prot_of sp2" by (rule protect_wx [OF assms(1) b(2) g _ p]) simp
    show ?thesis using assms(3) m Some p 2 unmap_wx [OF assms(1) 2 b(1)] b(1)
      by (cases ok) (auto simp: Stack_new_def Let_def n_def)
  qed
qed

lemma page_dvd_sum:
  assumes "page_ok page" and "unat page dvd unat a" and "unat page dvd unat b"
  shows "unat page dvd unat (a + b :: u64)"
proof -
  have "unat page dvd unat (0 - b)" by (rule page_dvd_diff [OF assms(1) _ assms(3)]) simp
  from page_dvd_diff [OF assms(1,2) this] show ?thesis by simp
qed

lemma protect_sections_wx:
  assumes laws: "loader_laws os page mapped prot_of" and b: "unat page dvd unat b"
  shows "space_wx mapped prot_of sp \<Longrightarrow> protect_sections os page b msize secs sp = (r, sp') \<Longrightarrow> space_wx mapped prot_of sp'"
proof (induction secs arbitrary: sp)
  case (Cons sec secs)
  define rva where "rva = unat (virtual_address sec)"
  define p where "p = section_prot (sec_name sec) (characteristics sec)"
  define start where "start = round_down (of_nat rva :: u64) page"
  define len where "len = round_up (of_nat (min (rva + unat (virtual_size sec)) (unat msize))) page - start"
  have page: "page_ok page" using loader_lawsD(2) [OF laws] by (simp add: page_laws_def)
  have ds: "unat page dvd unat start" unfolding start_def using round_down_props(1) [OF page] by simp
  have dl: "unat page dvd unat len" unfolding len_def by (rule page_dvd_diff [OF page page_dvd [OF laws] ds])
  have da: "unat page dvd unat (b + start)" by (rule page_dvd_sum [OF page b ds])
  obtain ok sp1 where pr: "protect_pages (linux_vm.truncate os) (b + start) len p sp = (ok, sp1)" by fastforce
  have 1: "space_wx mapped prot_of sp1"
    by (rule protect_pages_wx(1) [OF laws Cons.prems(1) da dl _ pr]) (unfold p_def, rule section_prot_wx)
  have "protect_sections os page b msize secs sp = (r, sp') \<or> sp' = sp1 \<or> protect_sections os page b msize secs sp1 = (r, sp')"
    using Cons.prems(2) pr
    by (cases ok) (auto simp: Let_def rva_def p_def start_def len_def split: if_splits)
  then show ?case using Cons.IH Cons.prems(1) 1 by blast
qed simp

lemma map_image_wx:
  assumes "loader_laws os page mapped prot_of" and "space_wx mapped prot_of sp"
    and "map_image_with_preferred_base os page bytes pe tp sp = (r, sp')"
  shows "space_wx mapped prot_of sp'"
proof -
  let ?n = "round_up (ucast (size_of_image pe)) page"
  have any: "space_wx mapped prot_of sp2 \<and> (\<forall>b. q = Inr b \<longrightarrow> unat page dvd unat b)"
    if "space_wx mapped prot_of sp1" "map_anywhere os ?n sp1 = (q, sp2)" for sp1 q sp2
  proof -
    obtain o1 sp3 where m: "mmap_anon (linux_vm.truncate os) 0 ?n (PROT_READ OR PROT_WRITE) False sp1 = (o1, sp3)" by fastforce
    note M = mmap_anon_wx [OF assms(1) that(1) page_dvd [OF assms(1)] _ m]
    then show ?thesis using that(2) m by (cases o1) (auto simp: map_anywhere_def paged_def)
  qed
  have at: "space_wx mapped prot_of sp2 \<and> (\<forall>b. q = Some b \<longrightarrow> unat page dvd unat b)"
    if "try_map_at os (image_base pe) ?n sp = (q, sp2)" for q sp2
  proof -
    obtain o1 m where m: "mmap_noreplace os (image_base pe) ?n (PROT_READ OR PROT_WRITE) (pages sp) = (o1, m)" by fastforce
    show ?thesis
    proof (cases o1)
      case None
      then have "mapped m = mapped (pages sp)" "prot_of m = prot_of (pages sp)" using loader_lawsD(5) [OF assms(1)] m by simp_all
      then show ?thesis using that m None assms(2) by (auto simp: try_map_at_def mmap_fixed_noreplace_def space_wx_def split: if_splits)
    next
      case (Some b)
      note N = loader_lawsD(4) [OF assms(1) m [unfolded Some]]
      define sp3 where "sp3 = sp\<lparr>pages := m, ram := zero_fill b ?n (ram sp)\<rparr>"
      have p: "paged page (b, ?n)" using N page_dvd [OF assms(1)] by (simp add: paged_def)
      have "no_wx_prot (prot_of m x)" if "x \<in> mapped m" for x
        using that assms(2) N page_dvd [OF assms(1)] unfolding space_wx_def no_wx_def by auto
      then have 3: "space_wx mapped prot_of sp3" by (simp add: space_wx_def no_wx_def sp3_def)
      show ?thesis using that m Some assms(2) 3 unmap_wx [OF assms(1) 3 p] N
        by (auto simp: try_map_at_def mmap_fixed_noreplace_def sp3_def split: if_splits)
    qed
  qed
  define res where "res = (if tp then (case try_map_at os (image_base pe) ?n sp of
      (Some b, sp) \<Rightarrow> (Inr b, sp) | (None, sp) \<Rightarrow> map_anywhere os ?n sp) else map_anywhere os ?n sp)"
  obtain q sp1 where q: "res = (q, sp1)" by fastforce
  have "space_wx mapped prot_of sp1 \<and> (\<forall>b. q = Inr b \<longrightarrow> unat page dvd unat b)"
  proof (cases tp)
    case True
    obtain o2 sp2 where t: "try_map_at os (image_base pe) ?n sp = (o2, sp2)" by fastforce
    show ?thesis using q True t at [OF t] any [of sp2] by (cases o2) (auto simp: res_def)
  next
    case False
    then show ?thesis using q any [OF assms(2)] by (auto simp: res_def)
  qed
  then have 1: "space_wx mapped prot_of sp1" "\<And>b. q = Inr b \<Longrightarrow> unat page dvd unat b" by simp_all
  show ?thesis
  proof (cases q)
    case (Inl e)
    then show ?thesis using assms(3) q 1 assms(2) by (auto simp: map_image_with_preferred_base_def Let_def res_def split: if_splits)
  next
    case (Inr b)
    obtain x sp2 where s: "protect_sections os page b ?n (sections pe) (sp1\<lparr>ram := copy_image b ?n bytes pe (ram sp1)\<rparr>) = (x, sp2)"
      by fastforce
    have "space_wx mapped prot_of sp2" by (rule protect_sections_wx [OF assms(1) 1(2) [OF Inr] _ s]) (simp add: 1)
    then show ?thesis using assms(2,3) q Inr s
      by (cases x) (auto simp: map_image_with_preferred_base_def Let_def res_def split: if_splits)
  qed
qed

section \<open>Nested loads\<close>

text \<open>A load of a DLL for the sake of its exports, without its entry point.\<close>

definition loads_wx :: "('m \<Rightarrow> u64 set) \<Rightarrow> ('m \<Rightarrow> u64 \<Rightarrow> u32) \<Rightarrow>
    (rstring \<Rightarrow> bool \<Rightarrow> 'm loader \<Rightarrow> ((load_error + u64) \<times> 'm loader) option) \<Rightarrow> bool" where
  "loads_wx mapped prot_of load \<longleftrightarrow> (\<forall>p st r st'. load p False st = Some (r, st') \<longrightarrow>
     space_wx mapped prot_of (lspace st) \<longrightarrow> space_wx mapped prot_of (lspace st'))"

abbreviation host_wx :: "('m \<Rightarrow> u64 set) \<Rightarrow> ('m \<Rightarrow> u64 \<Rightarrow> u32) \<Rightarrow> 'm dll_host \<Rightarrow> bool" where
  "host_wx mapped prot_of host \<equiv> loader_laws (vm_of host) (page_of host) mapped prot_of \<and> page_of host = 4096"

lemma get_proc_wx:
  assumes "host_wx mapped prot_of host" and "mod_get_proc_address host h name st = Some (r, st')"
    and "space_wx mapped prot_of (lspace st)"
  shows "space_wx mapped prot_of (lspace st')"
proof (cases "h \<noteq> 0 \<and> fake_handle h \<and> \<not> name < 0x10000")
  case False
  then have "st' = st" using assms(2) by (auto simp: mod_get_proc_address_def split: if_splits option.splits)
  then show ?thesis using assms(3) by simp
next
  case True
  have laws: "loader_laws (vm_of host) (page_of host) mapped prot_of" using assms(1) by blast
  obtain a sp1 t a2 sp2 q a3 sp3 where c: "with_capacity (vm0 host) (page_of host) 0x8000 (lspace st) = (Inr a, sp1)"
      and b: "ImplTable_build (vm0 host) (page_of host) (vtables st) (impl_tables host) a sp1 = Some (t, a2, sp2)"
      and f: "finalize (vm0 host) a2 sp2 = (q, a3, sp3)"
      and st': "lspace st' = sp3 \<or> lspace st' = arena_drop (vm0 host) a3 sp3"
    using assms(2) True by (auto simp: mod_get_proc_address_def Let_def split: prod.splits sum.splits option.splits)
  have "arena_wx (page_of host) mapped prot_of a sp1" using with_capacity_wx [OF laws assms(3) c] by simp
  note F = finalize_wx [OF laws build_wx [OF laws this b] f]
  then show ?thesis using st' arena_drop_wx [OF laws F] by (auto simp: arena_wx_def)
qed

lemma dll_get_proc_wx:
  assumes "host_wx mapped prot_of host" and "dll_get_proc_address (loader_bridge load host) h name st = Some (r, st')"
    and "space_wx mapped prot_of (lspace st)"
  shows "space_wx mapped prot_of (lspace st')"
proof (cases "h = 0")
  case True
  then show ?thesis using assms by (auto simp: dll_get_proc_address_def loader_bridge_def set_loader_error_def)
next
  case False
  then obtain st1 where "mod_get_proc_address host h name st = Some (r, st1)"
      "st' = (if r = 0 then set_loader_error ERROR_PROC_NOT_FOUND st1 else st1)"
    using assms(2) by (auto simp: dll_get_proc_address_def loader_bridge_def split: option.splits)
  then show ?thesis using get_proc_wx [OF assms(1) _ assms(3)] by (simp add: set_loader_error_def)
qed

lemma try_candidates_wx:
  assumes "host_wx mapped prot_of host" and "loads_wx mapped prot_of load"
  shows "try_candidates load host symb ps st = Some (r, st') \<Longrightarrow> space_wx mapped prot_of (lspace st) \<Longrightarrow>
    space_wx mapped prot_of (lspace st')"
proof (induction ps arbitrary: st)
  case (Cons p ps)
  show ?case
  proof (cases "fs_exists host p")
    case True
    then obtain q st1 where l: "load p False st = Some (q, st1)" using Cons.prems(1) by (auto split: option.splits)
    have ok1: "space_wx mapped prot_of (lspace st1)" using assms(2) l Cons.prems(2) unfolding loads_wx_def by blast
    define st2 where "st2 = on_space (\<lambda>sp. sp\<lparr>ram := store_bytes (utf8 (map of_char symb) @ [0]) (cstring_buf host) (ram sp)\<rparr>) st1"
    have ok2: "space_wx mapped prot_of (lspace st2)" using ok1 by (simp add: st2_def)
    consider (failed) e where "q = Inl e" | (nul) h where "q = Inr h" "CHR 0x00 \<in> set symb"
      | (found) h where "q = Inr h" "CHR 0x00 \<notin> set symb" by (cases q) auto
    then show ?thesis
    proof cases
      case failed
      then show ?thesis using Cons ok1 True l by simp
    next
      case nul
      then show ?thesis using Cons.prems(1) True l ok1 by simp
    next
      case found
      then obtain a st3 where g: "dll_get_proc_address (loader_bridge load host) h (cstring_buf host) st2 = Some (a, st3)"
          and rest: "(if a \<noteq> 0 then Some (Some a, st3) else try_candidates load host symb ps st3) = Some (r, st')"
        using Cons.prems(1) True l by (auto simp: Let_def st2_def split: option.splits prod.splits)
      have "space_wx mapped prot_of (lspace st3)" by (rule dll_get_proc_wx [OF assms(1) g ok2])
      then show ?thesis using rest Cons.IH by (auto split: if_splits)
    qed
  qed (use Cons in simp)
qed simp

lemma from_disk_wx:
  assumes "host_wx mapped prot_of host" and "loads_wx mapped prot_of load"
    and "\<forall>st. s = Some st \<longrightarrow> space_wx mapped prot_of (lspace st)"
  shows "\<forall>st. snd (from_disk load host d n s) = Some st \<longrightarrow> space_wx mapped prot_of (lspace st)"
proof (cases s)
  case (Some st)
  then have "space_wx mapped prot_of (lspace st)" using assms(3) by simp
  with try_candidates_wx [OF assms(1,2)] show ?thesis
    unfolding Some from_disk_def by (auto split: option.splits prod.splits)
qed (simp add: from_disk_def)

lemma bind_imports_wx:
  assumes "host_wx mapped prot_of host" and "loads_wx mapped prot_of load" and "space_wx mapped prot_of (lspace st)"
    and "bind_imports (from_disk load host) host file img st = Some (q, st')"
  shows "space_wx mapped prot_of (lspace st') \<and> (\<forall>r a. q = Inr (r, a) \<longrightarrow> arena_wx (page_of host) mapped prot_of a (lspace st'))"
proof -
  have laws: "loader_laws (vm_of host) (page_of host) mapped prot_of" using assms(1) by blast
  obtain c sp1 where c: "with_capacity (vm0 host) (page_of host) 0x8000 (lspace st) = (c, sp1)" by fastforce
  note C = with_capacity_wx [OF laws assms(3) c]
  show ?thesis
  proof (cases c)
    case (Inl e)
    then show ?thesis using assms(4) c C by (auto simp: bind_imports_def)
  next
    case (Inr a)
    then obtain t a2 sp2 where b: "ImplTable_build (vm0 host) (page_of host) (vtables st) (impl_tables host) a sp1 = Some (t, a2, sp2)"
      using assms(4) c by (auto simp: bind_imports_def split: option.splits)
    have A: "arena_wx (page_of host) mapped prot_of a2 sp2" using build_wx [OF laws _ b] C Inr by simp
    define st1 where "st1 = st\<lparr>lspace := sp2, vtables := True\<rparr>"
    let ?P = "\<lambda>s. \<forall>st. s = Some st \<longrightarrow> space_wx mapped prot_of (lspace st)"
    obtain r s2 where r: "resolve (lower_name host) (soft_stubs host) (trap_stub host) (from_disk load host) (pe_imports file) t (Some st1) = (r, s2)"
      by fastforce
    have "?P (snd (resolve (lower_name host) (soft_stubs host) (trap_stub host) (from_disk load host) (pe_imports file) t (Some st1)))"
      by (rule resolve_keeps, rule from_disk_wx [OF assms(1,2)]) (use A in \<open>simp_all add: st1_def arena_wx_def\<close>)
    then have s2: "?P s2" by (simp add: r)
    obtain st2 where st2: "s2 = Some st2" using assms(4) c Inr b r by (cases s2) (auto simp: bind_imports_def st1_def)
    define sp3 where "sp3 = write_iat (vm_of host) (page_of host) (lower_name host) img (pe_imports file) (resolved_map r) (lspace st2)"
    have 3: "arena_wx (page_of host) mapped prot_of a2 sp3"
      using write_iat_wx [OF laws] s2 st2 A by (simp add: arena_wx_def sp3_def)
    obtain f a4 sp4 where f: "finalize (vm0 host) a2 sp3 = (f, a4, sp4)" by (metis prod_cases3)
    note F = finalize_wx [OF laws 3 f]
    have q: "Some (q, st') = (case f of Inl e \<Rightarrow> Some (Inl BootstrapFailed, st2\<lparr>lspace := arena_drop (vm0 host) a4 sp4\<rparr>)
        | Inr _ \<Rightarrow> Some (Inr (r, a4), st2\<lparr>lspace := sp4\<rparr>))"
      using assms(4) c Inr b r st2 f by (simp add: bind_imports_def st1_def sp3_def split: sum.splits)
    show ?thesis using q F arena_drop_wx [OF laws F] by (cases f) (auto simp: arena_wx_def)
  qed
qed

lemma finish_load_wx:
  assumes "host_wx mapped prot_of host" and "arena_wx (page_of host) mapped prot_of a (lspace st)"
    and "finish_load host canonical img a oh False st = (r, st')"
  shows "space_wx mapped prot_of (lspace st')"
proof -
  have laws: "loader_laws (vm_of host) (page_of host) mapped prot_of" and p: "page_of host = 4096" using assms(1) by blast+
  obtain q sp where s: "Stack_new (vm0 host) (page_of host) DEFAULT_STACK_SIZE (lspace st) = (q, sp)" by fastforce
  have wx: "space_wx mapped prot_of (lspace st)" using assms(2) by (simp add: arena_wx_def)
  have S: "space_wx mapped prot_of sp" using Stack_new_wx [OF laws [unfolded p] wx s [unfolded p]] by simp
  then have "arena_wx (page_of host) mapped prot_of a sp" using assms(2) by (simp add: arena_wx_def)
  from arena_drop_wx [OF laws this] show ?thesis
    using assms(3) s S by (cases q) (auto simp: finish_load_def Let_def)
qed

lemma map_and_relocate_wx:
  assumes "loader_laws (vm_of host) (page_of host) mapped prot_of" and "space_wx mapped prot_of sp"
    and "map_and_relocate host bytes file oh sp = (r, sp')"
  shows "space_wx mapped prot_of sp'"
proof -
  obtain q sp1 where m: "map_image_anywhere (vm_of host) (page_of host) bytes (pe_view file) sp = (q, sp1)" by fastforce
  have 1: "space_wx mapped prot_of sp1" by (rule map_image_wx [OF assms(1,2) m [unfolded map_image_anywhere_def]])
  show ?thesis
    using assms(3) m 1 apply_relocations_wx [OF assms(1) 1]
    by (auto simp: map_and_relocate_def split: sum.splits option.splits prod.splits)
qed

lemma load_dll_ex_wx:
  assumes "host_wx mapped prot_of host"
  shows "loads_wx mapped prot_of (load_dll_ex n host)"
proof (induction n)
  case (Suc n)
  have laws: "loader_laws (vm_of host) (page_of host) mapped prot_of" using assms by blast
  show ?case
    unfolding loads_wx_def
  proof (intro allI impI)
    fix p st r st'
    assume l: "load_dll_ex (Suc n) host p False st = Some (r, st')" and wx: "space_wx mapped prot_of (lspace st)"
    show "space_wx mapped prot_of (lspace st')"
    proof (cases "st' = st")
      case False
      then obtain canonical bytes pf oh where ex: "canonicalize host p = Some canonical" "lookup_by_path canonical st = None"
          "fs_read host p = Some bytes" "parse_pe host bytes = Some pf" "coff_characteristics pf AND 0x2000 \<noteq> 0" "opt pf = Some oh"
        using l by (auto split: option.splits if_splits)
      obtain q sp1 where m: "map_and_relocate host bytes pf oh (lspace st) = (q, sp1)" by fastforce
      have 1: "space_wx mapped prot_of sp1" by (rule map_and_relocate_wx [OF laws wx m])
      show ?thesis
      proof (cases q)
        case (Inl e)
        then have "st' = st\<lparr>lspace := sp1\<rparr>" using l ex m by simp
        then show ?thesis using 1 by simp
      next
        case (Inr img)
        then obtain b st2 where b: "bind_imports (from_disk (load_dll_ex n host) host) host pf img (st\<lparr>lspace := sp1\<rparr>) = Some (b, st2)"
          using l ex m by (auto split: option.splits)
        have B: "space_wx mapped prot_of (lspace st2) \<and> (\<forall>r a. b = Inr (r, a) \<longrightarrow> arena_wx (page_of host) mapped prot_of a (lspace st2))"
          by (rule bind_imports_wx [OF assms Suc _ b]) (simp add: 1)
        have "st' = st2 \<or> (\<exists>r2 a. b = Inr (r2, a) \<and> finish_load host canonical img a oh False st2 = (r, st'))"
          using l ex m Inr b by (cases b) auto
        then show ?thesis using B finish_load_wx [OF assms] by blast
      qed
    qed (simp add: wx)
  qed
qed (simp add: loads_wx_def)

section \<open>The whole load\<close>

lemma map_program_wx:
  assumes "loader_laws (vm_of host) (page_of host) mapped prot_of" and "space_wx mapped prot_of (lspace (loader_st st))"
    and "map_program host bytes file oh st = (r, st')"
  shows "space_wx mapped prot_of (lspace (loader_st st'))"
proof -
  obtain q sp1 where m: "map_image (vm_of host) (page_of host) bytes (pe_view file) (lspace (loader_st st)) = (q, sp1)" by fastforce
  have 1: "space_wx mapped prot_of sp1" by (rule map_image_wx [OF assms(1,2) m [unfolded map_image_def]])
  show ?thesis
    using assms(3) m 1 apply_relocations_wx [OF assms(1) 1]
    by (auto simp: map_program_def Let_def split: sum.splits option.splits prod.splits)
qed

lemma install_exceptions_loader [simp]: "loader_st (install_exceptions img dir st) = loader_st st"
  by (simp add: install_exceptions_def split: option.split)

lemma prepare_wx:
  assumes "host_wx mapped prot_of host" and "arena_wx (page_of host) mapped prot_of a (lspace (loader_st st))"
    and "prepare host heap img oh rs a st = (r, st')"
  shows "space_wx mapped prot_of (lspace (loader_st st'))"
proof -
  have laws: "loader_laws (vm_of host) (page_of host) mapped prot_of" and p: "page_of host = 4096" using assms(1) by blast+
  obtain q sp where s: "Stack_new (vm0 host) (page_of host) DEFAULT_STACK_SIZE (lspace (loader_st st)) = (q, sp)" by fastforce
  have "space_wx mapped prot_of (lspace (loader_st st))" using assms(2) by (simp add: arena_wx_def)
  note S = Stack_new_wx [OF laws [unfolded p] this s [unfolded p]]
  then have A: "arena_wx (page_of host) mapped prot_of a sp" using assms(2) by (simp add: arena_wx_def)
  show ?thesis
  proof (cases q)
    case (Inl e)
    then show ?thesis using assms(3) s arena_drop_wx [OF laws A] by (auto simp: prepare_def Let_def)
  next
    case (Inr stk)
    have "space_wx mapped prot_of (Stack_drop (vm0 host) stk (sp\<lparr>ram := k\<rparr>))" for k
      unfolding Stack_drop_def using S Inr by (intro unmap_wx [OF laws [unfolded p]]) simp_all
    then have "arena_wx (page_of host) mapped prot_of a (Stack_drop (vm0 host) stk (sp\<lparr>ram := k\<rparr>))" for k
      using A by (simp add: arena_wx_def)
    note D = arena_drop_wx [OF laws this]
    show ?thesis using assms(3) s Inr S D
      by (auto simp: prepare_def Let_def split: prod.splits sum.splits)
  qed
qed


text \<open>A program like the DLL of theory ModuleRegistry, on the kernel and the host of that theory.\<close>

definition demo_program :: "(nat \<times> u64 set \<times> (u64 \<Rightarrow> u32)) program" where
  "demo_program = \<lparr>loader_st = dll_demo_start,
     kernel_fns = \<lparr>load_dll_fn = None, get_proc_address_fn = None, free_library_fn = None, set_error = set_loader_error\<rparr>,
     exe_at = None, exc_table = None, seh_fns = False\<rparr>"

lemma demo_prepares:
  assumes "next_slot (lspace (loader_st st)) < 95"
    and "exception_dir oh = None" and "tls_dir oh = None"
  shows "\<exists>im st'. prepare dll_demo_host heap img oh r a st = (Inr im, st') \<and> pe_mapped im = img"
proof -
  have n: "round_up_to_page 4096 DEFAULT_STACK_SIZE + GUARD_PAGE_SIZE = 0x101000" by (simp add: round_up_to_page_def)
  have h: "vm_of dll_demo_host = bump_vm" "page_of dll_demo_host = 4096" by (simp_all add: dll_demo_host_def)
  obtain b sp1 where m: "mmap_anon (linux_vm.truncate bump_vm) 0 0x101000 (PROT_READ OR PROT_WRITE) False (lspace (loader_st st)) = (Some b, sp1)"
    using bump_anon [of "lspace (loader_st st)" "0x101000" "PROT_READ OR PROT_WRITE"] assms(1) by auto
  have s: "Stack_new (linux_vm.truncate bump_vm) 4096 DEFAULT_STACK_SIZE (lspace (loader_st st)) =
      (Inr \<lparr>stack_base = b, total_len = 0x101000\<rparr>, bump_protect b GUARD_PAGE_SIZE PROT_NONE sp1)"
    unfolding Stack_new_def Let_def n m prod.case option.case by (simp add: bump_protects(1))
  show ?thesis unfolding prepare_def Let_def assms(2,3) install_exceptions_def option.case h s
    by (simp add: setup_tls_def)
qed


section \<open>The run\<close>

text \<open>One call of a function of the guest, from outside: it is entered on the guest's stack with its arguments in their
  registers and the return address on top of the shadow space, in a memory where only that address was written, and the
  host comes back with what the function left in \<open>rax\<close>, its memory, and the registers the host keeps.\<close>

definition guest_call :: "callee \<Rightarrow> u64 \<Rightarrow> u64 \<Rightarrow> u64 \<Rightarrow> (reg \<times> u64) list \<Rightarrow> machine \<Rightarrow> u64 \<Rightarrow> machine \<Rightarrow> bool" where
  "guest_call f ra stack_top entry args m rax m' \<longleftrightarrow>
     (\<exists>m1 m2. f entry m1 = Some m2 \<and> (\<forall>(r, v) \<in> set args. regs m1 r = v) \<and> regs m1 RSP = stack_top - 0x28 \<and>
        load64 (stack_top - 0x28) m1 = ra \<and> (\<forall>x. x \<notin> area (stack_top - 0x28) 8 \<longrightarrow> guest (proc m1) x = guest (proc m) x) \<and>
        rax = regs m2 RAX \<and> proc m' = proc m2) \<and>
     (\<forall>r \<in> {RSP, RBX, RBP, RDI, RSI, R13, R14, R15}. regs m' r = regs m r)"

fun guest_calls :: "callee \<Rightarrow> u64 \<Rightarrow> u64 \<Rightarrow> (reg \<times> u64) list \<Rightarrow> u64 list \<Rightarrow> machine \<Rightarrow> machine \<Rightarrow> bool" where
  "guest_calls f ra stack_top args [] m m' \<longleftrightarrow> m' = m"
| "guest_calls f ra stack_top args (e # es) m m' \<longleftrightarrow>
     (\<exists>rax m1. guest_call f ra stack_top e args m rax m1 \<and> guest_calls f ra stack_top args es m1 m')"

lemma guest_callI:
  assumes "win_returns f entry" and "f entry (push64 ra m0) = Some m2" and "regs m0 R12 = regs m RSP"
    and "regs m0 RSP = stack_top - 0x20" and "proc m0 = proc m" and "\<forall>(r, v) \<in> set args. r \<noteq> RSP \<and> regs m0 r = v"
    and "\<forall>r \<in> {RBX, RBP, RDI, RSI, R13, R14, R15}. regs m0 r = regs m r"
  shows "guest_call f ra stack_top entry args m (regs m2 RAX) (set_reg RSP (regs m2 R12) m2)"
proof -
  let ?p = "push64 ra m0"
  have p: "regs ?p = (regs m0)(RSP := stack_top - 0x28)" "load64 (stack_top - 0x28) ?p = ra"
    using assms(4) by (simp_all add: push64_def Let_def)
  have fr: "guest (proc ?p) x = guest (proc m) x" if "x \<notin> area (stack_top - 0x28) 8" for x
    using that assms(4,5) by (simp add: push64_def Let_def store64_def write_le_frame)
  have kept: "regs m2 r = regs ?p r" if "r \<in> {RBX, RBP, RDI, RSI, R12, R13, R14, R15}" for r
    using assms(1,2) that unfolding win_returns_def by blast
  have keep: "regs (set_reg RSP (regs m2 R12) m2) r = regs m r" if "r \<in> {RSP, RBX, RBP, RDI, RSI, R13, R14, R15}" for r
  proof (cases "r = RSP")
    case True
    then show ?thesis using kept [of R12] assms(3) p(1) by simp
  next
    case False
    then have "r \<in> {RBX, RBP, RDI, RSI, R13, R14, R15}" using that by simp
    then show ?thesis using False kept [of r] assms(7) p(1) by auto
  qed
  have args: "\<forall>(r, v) \<in> set args. regs ?p r = v" using assms(6) p(1) by auto
  have sp: "regs ?p RSP = stack_top - 0x28" "proc (set_reg RSP (regs m2 R12) m2) = proc m2" using p(1) by simp_all
  show ?thesis unfolding guest_call_def using assms(2) args sp p(2) fr keep by blast
qed

lemma dll_main_call:
  assumes "win_returns f entry" and "run_dll_main_win64 f ra entry stack_top h 1 0 m = Some (q, m')"
  shows "\<exists>rax. guest_call f ra stack_top entry [(RCX, h), (RDX, 1), (R8, 0)] m rax m'"
proof -
  define m0 where "m0 = set_reg RSP (stack_top - 0x20) (set_reg R8 0 (set_reg RDX 1 (set_reg RCX h (set_reg R12 (regs m RSP) m))))"
  obtain m2 where m2: "f entry (push64 ra m0) = Some m2" "m' = set_reg RSP (regs m2 R12) m2"
    using assms(2) by (auto simp: run_dll_main_win64_def m0_def Let_def set_reg_def fun_upd_twist split: option.splits)
  show ?thesis unfolding m2(2)
    by (rule exI [of _ "regs m2 RAX"], rule guest_callI [OF assms(1) m2(1)]) (simp_all add: m0_def)
qed

lemma entrypoint_call:
  assumes "win_returns f entry" and "run_entrypoint_win64 f ra entry stack_top peb m = Some (q, m')"
  shows "\<exists>rax. guest_call f ra stack_top entry [(RCX, peb), (RDX, 0)] m rax m' \<and> q = ucast rax"
proof -
  define m0 where "m0 = set_reg RSP (stack_top - 0x20) (set_reg RDX 0 (set_reg RCX peb (set_reg R12 (regs m RSP) m)))"
  obtain m2 where m2: "f entry (push64 ra m0) = Some m2" "m' = set_reg RSP (regs m2 R12) m2" "q = ucast (regs m2 RAX)"
    using assms(2) by (auto simp: run_entrypoint_win64_def m0_def Let_def eax_def set_reg_def fun_upd_twist split: option.splits)
  show ?thesis unfolding m2(2,3)
    by (rule exI [of _ "regs m2 RAX"], rule conjI [OF guest_callI [OF assms(1) m2(1)] refl]) (simp_all add: m0_def)
qed

lemma callbacks_called:
  assumes "\<forall>e \<in> set cbs. win_returns f e" and "run_callbacks f ra stack_top h cbs m = Some m'"
  shows "guest_calls f ra stack_top [(RCX, h), (RDX, 1), (R8, 0)] cbs m m'"
  using assms
proof (induction cbs arbitrary: m)
  case (Cons cb cbs)
  obtain q m1 where c: "run_dll_main_win64 f ra cb stack_top h 1 0 m = Some (q, m1)" "run_callbacks f ra stack_top h cbs m1 = Some m'"
    using Cons.prems(2) by (auto split: option.splits)
  from dll_main_call [OF _ c(1)] Cons.IH [OF _ c(2)] Cons.prems(1) show ?case by auto
qed simp

lemma callbacks_end:
  assumes "\<forall>e \<in> set cbs. \<forall>m. f e m \<noteq> None"
  shows "run_callbacks f ra stack_top h cbs m \<noteq> None"
  using assms by (induction cbs arbitrary: m) (auto simp: run_dll_main_win64_def Let_def split: option.splits)

lemma guest_calls_keep:
  "guest_calls f ra stack_top args es m m' \<Longrightarrow> r \<in> {RSP, RBX, RBP, RDI, RSI, R13, R14, R15} \<Longrightarrow> regs m' r = regs m r"
  by (induction es arbitrary: m) (auto simp: guest_call_def)

text \<open>C6. A run calls every thread-local callback once, in the order of the list, as the entry of a module that is told of
  the attaching process, and then the entry point of the image with the environment block; all of them on the guest's
  stack, with the memory the one before left. The exit status is what the entry point returns, and the host has the
  registers it keeps. Where all these functions return, the run does.\<close>

theorem run_calls_in_order:
  assumes "\<forall>e \<in> insert (entrypoint im) (set (tls_callbacks im)). win_returns f e"
  shows "((\<forall>e \<in> insert (entrypoint im) (set (tls_callbacks im)). \<forall>m. f e m \<noteq> None) \<longrightarrow> pe_run f ra True im m \<noteq> None) \<and>
    (pe_run f ra True im m = Some (q, m') \<longrightarrow>
       (\<exists>m1 rax. guest_calls f ra (Stack_top (pe_stack im)) [(RCX, ibase (pe_mapped im)), (RDX, 1), (R8, 0)] (tls_callbacks im) m m1 \<and>
          guest_call f ra (Stack_top (pe_stack im)) (entrypoint im) [(RCX, peb_ptr (pe_teb im)), (RDX, 0)] m1 rax m' \<and>
          q = Inr (ucast rax) \<and> (\<forall>r \<in> {RSP, RBX, RBP, RDI, RSI, R13, R14, R15}. regs m' r = regs m r)))"
proof (intro conjI impI)
  assume *: "\<forall>e \<in> insert (entrypoint im) (set (tls_callbacks im)). \<forall>m. f e m \<noteq> None"
  then obtain m1 where "run_callbacks f ra (Stack_top (pe_stack im)) (ibase (pe_mapped im)) (tls_callbacks im) m = Some m1"
    using callbacks_end [of "tls_callbacks im" f] by blast
  with * show "pe_run f ra True im m \<noteq> None"
    by (auto simp: pe_run_def run_entrypoint_win64_def Let_def split: option.splits)
next
  assume "pe_run f ra True im m = Some (q, m')"
  then obtain m1 s where c: "run_callbacks f ra (Stack_top (pe_stack im)) (ibase (pe_mapped im)) (tls_callbacks im) m = Some m1"
    and e: "run_entrypoint_win64 f ra (entrypoint im) (Stack_top (pe_stack im)) (peb_ptr (pe_teb im)) m1 = Some (s, m')" and q: "q = Inr s"
    by (auto simp: pe_run_def split: option.splits)
  have C: "guest_calls f ra (Stack_top (pe_stack im)) [(RCX, ibase (pe_mapped im)), (RDX, 1), (R8, 0)] (tls_callbacks im) m m1"
    by (rule callbacks_called [OF _ c]) (use assms in simp)
  obtain rax where E: "guest_call f ra (Stack_top (pe_stack im)) (entrypoint im) [(RCX, peb_ptr (pe_teb im)), (RDX, 0)] m1 rax m'" "s = ucast rax"
    using entrypoint_call [OF _ e] assms by auto
  have "\<forall>r \<in> {RSP, RBX, RBP, RDI, RSI, R13, R14, R15}. regs m' r = regs m r"
    using guest_calls_keep [OF C] E(1) unfolding guest_call_def by metis
  with C E q show "\<exists>m1 rax. guest_calls f ra (Stack_top (pe_stack im)) [(RCX, ibase (pe_mapped im)), (RDX, 1), (R8, 0)] (tls_callbacks im) m m1 \<and>
      guest_call f ra (Stack_top (pe_stack im)) (entrypoint im) [(RCX, peb_ptr (pe_teb im)), (RDX, 0)] m1 rax m' \<and>
      q = Inr (ucast rax) \<and> (\<forall>r \<in> {RSP, RBX, RBP, RDI, RSI, R13, R14, R15}. regs m' r = regs m r)" by blast
qed

definition demo_running :: pe_image where
  "demo_running = \<lparr>pe_mapped = \<lparr>ibase = 0x10000000, isize = 0x2000, preferred_base = 0x140000000\<rparr>, entry_rva = 0x1234,
     pe_resolved = \<lparr>resolved_map = (\<lambda>_. None), stubbed = []\<rparr>, pe_teb = 0x2000, pe_stack = \<lparr>stack_base = 0x10000, total_len = 0x2000\<rparr>,
     pe_arena = \<lparr>arena_base = 0x20000, arena_len = 0x1000, cursor = 0, sealed = True, retired = []\<rparr>, pe_tls_block = None, tls_callbacks = [0x10001000, 0x10001100]\<rparr>"

theorem run_calls_in_order_witness:
  "\<exists>m'. pe_run demo_callee 0x99 True demo_running demo_call = Some (Inr 42, m') \<and> regs m' RSP = 0x8008"
proof -
  have w: "\<forall>e \<in> insert (entrypoint demo_running) (set (tls_callbacks demo_running)). win_returns demo_callee e"
    by (auto simp: win_returns_def demo_callee_def)
  note R = run_calls_in_order [OF w, of "0x99" demo_call]
  have "\<forall>e \<in> insert (entrypoint demo_running) (set (tls_callbacks demo_running)). \<forall>m. demo_callee e m \<noteq> None"
    by (simp add: demo_callee_def)
  with R obtain q m' where r: "pe_run demo_callee 0x99 True demo_running demo_call = Some (q, m')" by fastforce
  then obtain m1 rax where c: "guest_call demo_callee 0x99 (Stack_top (pe_stack demo_running)) (entrypoint demo_running)
      [(RCX, peb_ptr (pe_teb demo_running)), (RDX, 0)] m1 rax m'" "q = Inr (ucast rax)" "regs m' RSP = regs demo_call RSP"
    using R [of q m'] by auto
  have "rax = 42" using c(1) by (auto simp: guest_call_def demo_callee_def)
  then show ?thesis using r c(2,3) by (auto simp: demo_call_def)
qed

end
