(* ===== verification/Spirv.thy ===== *)
theory Spirv
  imports Prelude
begin

text \<open>
  The builder of SPIR-V modules that \<^verbatim>\<open>crates/hlsl-compiler/src/codegen.rs\<close> drives, of the crate \<open>rspirv\<close>. It is a
  parameter of the code generator: the record \<open>builder\<close> of its methods over a state of its own. What the code asks
  for is data: types, constants, instructions, decorations, terminators.
\<close>

section \<open>The builder\<close>

datatype storage = StUniform | StUniformConstant | StInput | StOutput | StFunction

datatype ty_decl =
    OpTypeVoid | OpTypeBool | OpTypeFloat u32 | OpTypeInt u32 u32
  | OpTypeVector u32 u32 | OpTypeMatrix u32 u32 | OpTypeStruct "u32 list" | OpTypePointer storage u32
  | OpTypeImage2D u32 | OpTypeSampledImage u32 | OpTypeSampler | OpTypeFunction u32 "u32 list"

datatype shader_stage = Vertex | Pixel

datatype builtin = BuiltInPosition | BuiltInFragCoord

datatype decoration = DecBlock | DecDescriptorSet u32 | DecBinding u32 | DecOffset u32 | DecLocation u32 | DecBuiltIn builtin

datatype execution_mode = OriginUpperLeft

datatype execution_model = ModelVertex | ModelFragment

datatype annotation =
    SetVersion u8 u8 | CapabilityShader | MemoryModelGLSL450 | SourceHLSL u32
  | NName u32 string | NMemberName u32 u32 string | NDecorate u32 decoration | NMemberDecorate u32 u32 decoration
  | NEntryPoint execution_model u32 string "u32 list" | NExecutionMode u32 execution_mode

datatype opcode =
    FAdd | IAdd | FSub | ISub | FMul | IMul | FDiv | SDiv | UDiv
  | FOrdEqual | FOrdNotEqual | FOrdLessThan | FOrdLessThanEqual | FOrdGreaterThan | FOrdGreaterThanEqual
  | IEqual | INotEqual | SLessThan | SLessThanEqual | SGreaterThan | SGreaterThanEqual
  | LogicalAnd | LogicalOr | LogicalNot | FNegate | SNegate | OpNot | OpAny
  | ConvertSToF | ConvertUToF | ConvertFToS | ConvertFToU
  | MatrixTimesVector | VectorTimesMatrix | MatrixTimesMatrix

datatype inst =
    ILoad u32 | IAccessChain u32 u32 | ICompositeExtract u32 u32 | IVectorShuffle u32 u32 "u32 list"
  | ICompositeConstruct "u32 list" | IDot u32 u32 | IExtInst u32 u32 "u32 list" | ISampledImage u32 u32
  | IImageSampleImplicitLod u32 u32

datatype effect = Store u32 u32 | SelectionMerge u32 | LoopMerge u32 u32

datatype terminator = Ret | Branch u32 | BranchConditional u32 u32 u32

datatype const = OpConstant u32 | OpConstantTrue | OpConstantFalse

text \<open>The methods. A method that can fail gives \<open>None\<close>; \<open>bd_selected\<close> tells whether a block is open, and
  \<open>bd_hoist\<close> puts a variable in front of the first block of the last function.\<close>

record 'b builder =
  bd_new :: 'b
  bd_note :: "annotation \<Rightarrow> 'b \<Rightarrow> 'b"
  bd_type :: "ty_decl \<Rightarrow> 'b \<Rightarrow> u32 \<times> 'b"
  bd_import :: "string \<Rightarrow> 'b \<Rightarrow> u32 \<times> 'b"
  bd_variable :: "u32 \<Rightarrow> storage \<Rightarrow> 'b \<Rightarrow> u32 \<times> 'b"
  bd_id :: "'b \<Rightarrow> u32 \<times> 'b"
  bd_const :: "const \<Rightarrow> u32 \<Rightarrow> u32 \<Rightarrow> 'b \<Rightarrow> 'b"
  bd_begin_function :: "u32 \<Rightarrow> u32 \<Rightarrow> 'b \<Rightarrow> 'b option"
  bd_end_function :: "'b \<Rightarrow> 'b option"
  bd_begin_block :: "u32 option \<Rightarrow> 'b \<Rightarrow> 'b option"
  bd_inst :: "inst \<Rightarrow> u32 \<Rightarrow> 'b \<Rightarrow> (u32 \<times> 'b) option"
  bd_insert :: "opcode \<Rightarrow> u32 \<Rightarrow> u32 \<Rightarrow> u32 list \<Rightarrow> 'b \<Rightarrow> 'b option"
  bd_effect :: "effect \<Rightarrow> 'b \<Rightarrow> 'b option"
  bd_end :: "terminator \<Rightarrow> 'b \<Rightarrow> 'b option"
  bd_selected :: "'b \<Rightarrow> bool"
  bd_has_function :: "'b \<Rightarrow> bool"
  bd_has_block :: "'b \<Rightarrow> bool"
  bd_hoist :: "u32 \<Rightarrow> u32 \<Rightarrow> 'b \<Rightarrow> 'b"
  bd_main_id :: "'b \<Rightarrow> u32 option"
  bd_assemble :: "'b \<Rightarrow> u32 list"

end
