(* ===== verification/Codegen.thy ===== *)
theory Codegen
  imports Ast Spirv "HOL-Library.Log_Nat"
begin

text \<open>
  The code generator, \<^verbatim>\<open>crates/hlsl-compiler/src/codegen.rs\<close>: the walk over the syntax tree that drives the SPIR-V
  builder of the crate \<open>rspirv\<close>, which is the parameter of theory Spirv. A method of the generator maps its context to an error or
  to a value with the new context; an error ends the compilation. An error is one of the source program, a failure
  of the builder, or a panic of the generator. The texts of the messages are left out.
\<close>

section \<open>The context\<close>

fun execution_model_of :: "shader_stage \<Rightarrow> execution_model" where
  "execution_model_of Vertex = ModelVertex"
| "execution_model_of Pixel = ModelFragment"

record val =
  v_id :: u32
  v_ty :: type

record place =
  p_ptr :: u32
  p_ty :: type

record struct_info =
  si_type_id :: u32
  si_members :: "struct_member list"

record 'b ctx =
  stage :: shader_stage
  bld :: 'b
  glsl_set :: u32
  void_t :: u32
  bool_t :: u32
  float_t :: u32
  int_t :: u32
  uint_t :: u32
  structs :: "(string, struct_info) map"
  globals :: "(string, place) map"
  cbuffer_members :: "(string, u32 \<times> u32) map"
  locals :: "(string \<times> place) list"
  out_var :: "u32 option"
  out_ty :: type
  interface :: "u32 list"

datatype cg_error = BadSource | BuilderFailed | GenPanic

type_synonym ('b, 'a) cg = "'b ctx \<Rightarrow> cg_error + 'a \<times> 'b ctx"

definition cg_ok :: "'a \<Rightarrow> ('b, 'a) cg" where
  "cg_ok x c = Inr (x, c)"

definition cg_err :: "('b, 'a) cg" where
  "cg_err c = Inl BadSource"

definition cg_panic :: "('b, 'a) cg" where
  "cg_panic c = Inl GenPanic"

definition cbind :: "('b, 'a) cg \<Rightarrow> ('a \<Rightarrow> ('b, 'c) cg) \<Rightarrow> ('b, 'c) cg" where
  "cbind m f c = (case m c of Inl e \<Rightarrow> Inl e | Inr (x, c) \<Rightarrow> f x c)"

definition cseq :: "('b, 'a) cg \<Rightarrow> ('b, 'c) cg \<Rightarrow> ('b, 'c) cg" where
  "cseq m m' = cbind m (\<lambda>_. m')"

definition cg_get :: "('b ctx \<Rightarrow> 'a) \<Rightarrow> ('b, 'a) cg" where
  "cg_get f c = Inr (f c, c)"

definition cg_update :: "('b ctx \<Rightarrow> 'b ctx) \<Rightarrow> ('b, unit) cg" where
  "cg_update f c = Inr ((), f c)"

definition need :: "'a option \<Rightarrow> ('b, 'a) cg" where
  "need x c = (case x of None \<Rightarrow> Inl BadSource | Some y \<Rightarrow> Inr (y, c))"

text \<open>The builder's methods on a context: those that give an identifier, those that only change the module, and those that
  may fail.\<close>

definition with_bld :: "('b \<Rightarrow> 'a \<times> 'b) \<Rightarrow> ('b, 'a) cg" where
  "with_bld f c = (case f (bld c) of (x, b) \<Rightarrow> Inr (x, c\<lparr>bld := b\<rparr>))"

definition on_bld :: "('b \<Rightarrow> 'b) \<Rightarrow> ('b, unit) cg" where
  "on_bld f c = Inr ((), c\<lparr>bld := f (bld c)\<rparr>)"

definition try_bld :: "('b \<Rightarrow> ('a \<times> 'b) option) \<Rightarrow> ('b, 'a) cg" where
  "try_bld f c = (case f (bld c) of None \<Rightarrow> Inl BuilderFailed | Some (x, b) \<Rightarrow> Inr (x, c\<lparr>bld := b\<rparr>))"

definition try_on :: "('b \<Rightarrow> 'b option) \<Rightarrow> ('b, unit) cg" where
  "try_on f c = (case f (bld c) of None \<Rightarrow> Inl BuilderFailed | Some b \<Rightarrow> Inr ((), c\<lparr>bld := b\<rparr>))"

fun each :: "('a \<Rightarrow> ('b, unit) cg) \<Rightarrow> 'a list \<Rightarrow> ('b, unit) cg" where
  "each f [] = cg_ok ()"
| "each f (x # xs) = cseq (f x) (each f xs)"

fun collect :: "('a \<Rightarrow> ('b, 'c) cg) \<Rightarrow> 'a list \<Rightarrow> ('b, 'c list) cg" where
  "collect f [] = cg_ok []"
| "collect f (x # xs) = cbind (f x) (\<lambda>y. cbind (collect f xs) (\<lambda>ys. cg_ok (y # ys)))"

section \<open>Helpers\<close>

fun is_comparison :: "binary_op \<Rightarrow> bool" where
  "is_comparison OpEq = True"
| "is_comparison OpNe = True"
| "is_comparison OpLt = True"
| "is_comparison OpLe = True"
| "is_comparison OpGt = True"
| "is_comparison OpGe = True"
| "is_comparison _ = False"

definition swizzle_component :: "char \<Rightarrow> u32 option" where
  "swizzle_component c =
     (if c \<in> {CHR ''x'', CHR ''r''} then Some 0 else if c \<in> {CHR ''y'', CHR ''g''} then Some 1
      else if c \<in> {CHR ''z'', CHR ''b''} then Some 2 else if c \<in> {CHR ''w'', CHR ''a''} then Some 3 else None)"

definition decode_swizzle :: "string \<Rightarrow> u32 list option" where
  "decode_swizzle s = (if s = [] \<or> 4 < length s then None else those (map swizzle_component s))"

definition parse_register :: "string option \<Rightarrow> u32 \<times> u32" where
  "parse_register reg =
     (case reg of
        Some s \<Rightarrow> (0, case parse_u32 (dropWhile is_ascii_alphabetic s) of Some n \<Rightarrow> n | None \<Rightarrow> 0)
      | None \<Rightarrow> (0, 0))"

fun member_align_size :: "type \<Rightarrow> u32 \<times> u32" where
  "member_align_size (TyScalar _) = (4, 4)"
| "member_align_size (TyVector _ n) = (if n = 2 then (8, 8) else if n = 3 then (16, 12) else (16, 16))"
| "member_align_size (TyMatrix _ r c) = (16, 16 * c)"
| "member_align_size _ = (16, 16)"

definition align_up :: "u32 \<Rightarrow> u32 \<Rightarrow> u32" where
  "align_up offset align =
     (if align = 0 then offset else (offset div align + (if offset mod align = 0 then 0 else 1)) * align)"

fun matrix_cols :: "type \<Rightarrow> u32" where
  "matrix_cols (TyMatrix _ _ c) = c"
| "matrix_cols _ = 1"

text \<open>Rounding the value of a float literal, a rational, to the nearest \<open>f64\<close> and that to the nearest \<open>f32\<close>, ties to even:
  a mantissa of at most \<open>p\<close> bits and the exponent of its last place, which is at least \<open>qmin\<close>.\<close>

definition half_even :: "nat \<Rightarrow> nat \<Rightarrow> nat" where
  "half_even n d =
     (let q = n div d; r = n mod d in if 2 * r < d \<or> (2 * r = d \<and> even q) then q else q + 1)"

definition scale2 :: "nat \<times> nat \<Rightarrow> int \<Rightarrow> nat \<times> nat" where
  "scale2 x k = (case x of (n, d) \<Rightarrow> if 0 \<le> k then (n * 2 ^ nat k, d) else (n, d * 2 ^ nat (- k)))"

definition round_to :: "nat \<Rightarrow> int \<Rightarrow> nat \<times> nat \<Rightarrow> nat \<times> int" where
  "round_to p qmin x =
     (case x of (n, d) \<Rightarrow>
        let k0 = int (floorlog 2 n) - int (floorlog 2 d);
            k = (case scale2 (n, d) (- k0) of (a, b) \<Rightarrow> if b \<le> a then k0 else k0 - 1);
            q = max (k - int p + 1) qmin
        in case scale2 (n, d) (- q) of (a, b) \<Rightarrow> (half_even a b, q))"

definition f32_bits :: "f64 \<Rightarrow> u32" where
  "f32_bits v =
     (let x = (if 0 \<le> f64_exp10 v then (f64_mantissa v * 10 ^ nat (f64_exp10 v), 1) else (f64_mantissa v, 10 ^ nat (- f64_exp10 v)));
          (m, q) = round_to 53 (- 1074) x;
          (m32, q32) = round_to 24 (- 149) (scale2 (m, 1) q)
      in if m = 0 then 0
         else case scale2 (m32, 1) q32 of (a, b) \<Rightarrow>
           if 2 ^ 128 * b \<le> a then 0x7F800000 else of_nat (nat (q32 + 149) * 2 ^ 23 + m32))"

section \<open>Types and constants\<close>

abbreviation ty_of :: "'b builder \<Rightarrow> ty_decl \<Rightarrow> ('b, u32) cg" where
  "ty_of B d \<equiv> with_bld (bd_type B d)"

fun scalar_type_id :: "scalar_kind \<Rightarrow> ('b, u32) cg" where
  "scalar_type_id SkFloat = cg_get float_t"
| "scalar_type_id SkInt = cg_get int_t"
| "scalar_type_id SkUint = cg_get uint_t"
| "scalar_type_id SkBool = cg_get bool_t"

definition vector_type_id :: "'b builder \<Rightarrow> scalar_kind \<Rightarrow> u32 \<Rightarrow> ('b, u32) cg" where
  "vector_type_id B k n = cbind (scalar_type_id k) (\<lambda>e. ty_of B (OpTypeVector e n))"

fun type_id :: "'b builder \<Rightarrow> type \<Rightarrow> ('b, u32) cg" where
  "type_id B TyVoid = cg_get void_t"
| "type_id B (TyScalar k) = scalar_type_id k"
| "type_id B (TyVector k n) = vector_type_id B k n"
| "type_id B (TyMatrix k r c) = cbind (vector_type_id B k r) (\<lambda>col. ty_of B (OpTypeMatrix col c))"
| "type_id B (TyStruct name) = cbind (cg_get (\<lambda>c. structs c name)) (\<lambda>i. cbind (need i) (\<lambda>i. cg_ok (si_type_id i)))"
| "type_id B TyTexture2D = cg_err"
| "type_id B TySamplerState = cg_err"

definition image_type_id :: "'b builder \<Rightarrow> ('b, u32) cg" where
  "image_type_id B = cbind (cg_get float_t) (\<lambda>f. ty_of B (OpTypeImage2D f))"

fun value_type_id :: "'b builder \<Rightarrow> type \<Rightarrow> ('b, u32) cg" where
  "value_type_id B TyTexture2D = cbind (image_type_id B) (\<lambda>i. ty_of B (OpTypeSampledImage i))"
| "value_type_id B TySamplerState = ty_of B OpTypeSampler"
| "value_type_id B ty = type_id B ty"

definition const_op :: "'b builder \<Rightarrow> const \<Rightarrow> u32 \<Rightarrow> ('b, u32) cg" where
  "const_op B k ty = cbind (with_bld (bd_id B)) (\<lambda>i. cseq (on_bld (bd_const B k ty i)) (cg_ok i))"

definition float_const :: "'b builder \<Rightarrow> f64 \<Rightarrow> ('b, u32) cg" where
  "float_const B v = cbind (cg_get float_t) (const_op B (OpConstant (f32_bits v)))"

definition int_const :: "'b builder \<Rightarrow> u32 \<Rightarrow> bool \<Rightarrow> ('b, u32) cg" where
  "int_const B v sg = cbind (cg_get (if sg then int_t else uint_t)) (const_op B (OpConstant v))"

definition bool_const :: "'b builder \<Rightarrow> bool \<Rightarrow> ('b, u32) cg" where
  "bool_const B v = cbind (cg_get bool_t) (const_op B (if v then OpConstantTrue else OpConstantFalse))"

section \<open>Instructions\<close>

definition inst_of :: "'b builder \<Rightarrow> inst \<Rightarrow> u32 \<Rightarrow> ('b, u32) cg" where
  "inst_of B i ty = try_bld (bd_inst B i ty)"

definition push_block_inst :: "'b builder \<Rightarrow> opcode \<Rightarrow> u32 \<Rightarrow> u32 \<Rightarrow> u32 list \<Rightarrow> ('b, unit) cg" where
  "push_block_inst B opc ty i args = try_on (bd_insert B opc ty i args)"

text \<open>A fresh identifier, the instruction that defines it, and the value of the given type.\<close>

definition raw_inst :: "'b builder \<Rightarrow> opcode \<Rightarrow> u32 \<Rightarrow> u32 list \<Rightarrow> type \<Rightarrow> ('b, val) cg" where
  "raw_inst B opc tid args ty =
     cbind (with_bld (bd_id B)) (\<lambda>i. cseq (push_block_inst B opc tid i args) (cg_ok \<lparr>v_id = i, v_ty = ty\<rparr>))"

definition store :: "'b builder \<Rightarrow> u32 \<Rightarrow> u32 \<Rightarrow> ('b, unit) cg" where
  "store B p v = try_on (bd_effect B (Store p v))"

definition load :: "'b builder \<Rightarrow> u32 \<Rightarrow> u32 \<Rightarrow> ('b, u32) cg" where
  "load B ty p = inst_of B (ILoad p) ty"

definition alloc_local :: "'b builder \<Rightarrow> type \<Rightarrow> ('b, u32) cg" where
  "alloc_local B ty =
     cbind (type_id B ty) (\<lambda>t. cbind (ty_of B (OpTypePointer StFunction t)) (\<lambda>pt. cbind (with_bld (bd_id B)) (\<lambda>i.
     cbind (cg_get (\<lambda>c. bd_has_function B (bld c) \<and> bd_has_block B (bld c))) (\<lambda>ok.
     if \<not> ok then (\<lambda>c. Inl BuilderFailed) else cseq (on_bld (bd_hoist B pt i)) (cg_ok i)))))"

definition broadcast_const :: "'b builder \<Rightarrow> u32 \<Rightarrow> type \<Rightarrow> ('b, u32) cg" where
  "broadcast_const B k ty =
     (case ty of
        TyScalar _ \<Rightarrow> cg_ok k
      | TyVector _ n \<Rightarrow> cbind (vector_type_id B SkFloat n) (inst_of B (ICompositeConstruct (replicate (unat n) k)))
      | _ \<Rightarrow> cg_err)"

section \<open>Coercions\<close>

definition coerce_scalar :: "'b builder \<Rightarrow> val \<Rightarrow> scalar_kind \<Rightarrow> ('b, val) cg" where
  "coerce_scalar B v k =
     (if v_ty v = TyScalar k then cg_ok v
      else
        cbind (type_id B (TyScalar k)) (\<lambda>t.
        let convert = (\<lambda>opc. raw_inst B opc t [v_id v] (TyScalar k)) in
        case v_ty v of
          TyScalar SkInt \<Rightarrow> convert ConvertSToF
        | TyScalar SkUint \<Rightarrow> convert ConvertUToF
        | TyScalar SkFloat \<Rightarrow> (case k of SkInt \<Rightarrow> convert ConvertFToS | SkUint \<Rightarrow> convert ConvertFToU | _ \<Rightarrow> cg_ok v)
        | _ \<Rightarrow> cg_ok v))"

definition coerce :: "'b builder \<Rightarrow> val \<Rightarrow> type \<Rightarrow> ('b, val) cg" where
  "coerce B v target =
     (if v_ty v = target then cg_ok v
      else
        (case (v_ty v, target) of
           (TyScalar _, TyScalar k) \<Rightarrow> coerce_scalar B v k
         | _ \<Rightarrow> cg_ok v))"

definition coerce_to_bool :: "'b builder \<Rightarrow> val \<Rightarrow> ('b, u32) cg" where
  "coerce_to_bool B v =
     (case v_ty v of
        TyScalar SkBool \<Rightarrow> cg_ok (v_id v)
      | TyVector SkBool _ \<Rightarrow>
          cbind (with_bld (bd_id B)) (\<lambda>i. cbind (cg_get bool_t) (\<lambda>t. cseq (push_block_inst B OpAny t i [v_id v]) (cg_ok i)))
      | _ \<Rightarrow> cg_err)"

section \<open>Operators\<close>

text \<open>The instruction of an arithmetic operator at the type of the result.\<close>

definition arith_op :: "binary_op \<Rightarrow> type \<Rightarrow> opcode option" where
  "arith_op bop ty =
     (let is_float = (case ty of TyScalar SkFloat \<Rightarrow> True | TyVector SkFloat _ \<Rightarrow> True | _ \<Rightarrow> False);
          is_int = (case ty of TyScalar SkInt \<Rightarrow> True | TyScalar SkUint \<Rightarrow> True | TyVector _ _ \<Rightarrow> True | _ \<Rightarrow> False)
      in case bop of
           Add \<Rightarrow> if is_float then Some FAdd else if is_int then Some IAdd else None
         | Sub \<Rightarrow> if is_float then Some FSub else if is_int then Some ISub else None
         | Mul \<Rightarrow> if is_float then Some FMul else if is_int then Some IMul else None
         | Div \<Rightarrow>
             (if is_float then Some FDiv
              else (case ty of
                  TyScalar SkInt \<Rightarrow> Some SDiv | TyVector SkInt _ \<Rightarrow> Some SDiv
                | TyScalar SkUint \<Rightarrow> Some UDiv | TyVector SkUint _ \<Rightarrow> Some UDiv
                | _ \<Rightarrow> None))
         | _ \<Rightarrow> None)"

definition emit_arith :: "'b builder \<Rightarrow> binary_op \<Rightarrow> u32 \<Rightarrow> type \<Rightarrow> u32 \<Rightarrow> type \<Rightarrow> ('b, val) cg" where
  "emit_arith B bop l lty r rty =
     (let ty = (if is_composite lty then lty else rty) in
      cbind (type_id B ty) (\<lambda>t. cbind (need (arith_op bop ty)) (\<lambda>opc. raw_inst B opc t [l, r] ty)))"

fun comparison_op :: "binary_op \<Rightarrow> bool \<Rightarrow> opcode option" where
  "comparison_op OpEq f = Some (if f then FOrdEqual else IEqual)"
| "comparison_op OpNe f = Some (if f then FOrdNotEqual else INotEqual)"
| "comparison_op OpLt f = Some (if f then FOrdLessThan else SLessThan)"
| "comparison_op OpLe f = Some (if f then FOrdLessThanEqual else SLessThanEqual)"
| "comparison_op OpGt f = Some (if f then FOrdGreaterThan else SGreaterThan)"
| "comparison_op OpGe f = Some (if f then FOrdGreaterThanEqual else SGreaterThanEqual)"
| "comparison_op _ _ = None"

definition emit_comparison :: "'b builder \<Rightarrow> binary_op \<Rightarrow> val \<Rightarrow> val \<Rightarrow> ('b, val) cg" where
  "emit_comparison B bop l r =
     (let is_float = (case v_ty l of TyScalar SkFloat \<Rightarrow> True | TyVector SkFloat _ \<Rightarrow> True | _ \<Rightarrow> False);
          ty = (case v_ty l of TyVector _ n \<Rightarrow> TyVector SkBool n | _ \<Rightarrow> TyScalar SkBool)
      in cbind (type_id B ty) (\<lambda>t. cbind (need (comparison_op bop is_float)) (\<lambda>opc. raw_inst B opc t [v_id l, v_id r] ty)))"

definition emit_logical :: "'b builder \<Rightarrow> binary_op \<Rightarrow> val \<Rightarrow> val \<Rightarrow> ('b, val) cg" where
  "emit_logical B bop l r =
     cbind (type_id B (TyScalar SkBool)) (\<lambda>t.
       case bop of
         And \<Rightarrow> raw_inst B LogicalAnd t [v_id l, v_id r] (TyScalar SkBool)
       | Or \<Rightarrow> raw_inst B LogicalOr t [v_id l, v_id r] (TyScalar SkBool)
       | _ \<Rightarrow> cg_panic)"

definition unary_opcode :: "unary_op \<Rightarrow> type \<Rightarrow> opcode option" where
  "unary_opcode uop ty =
     (case uop of
        Neg \<Rightarrow>
          (case ty of
             TyScalar SkFloat \<Rightarrow> Some FNegate | TyVector SkFloat _ \<Rightarrow> Some FNegate
           | TyScalar SkInt \<Rightarrow> Some SNegate | TyScalar SkUint \<Rightarrow> Some SNegate | TyVector _ _ \<Rightarrow> Some SNegate
           | _ \<Rightarrow> None)
      | Not \<Rightarrow> (case ty of TyScalar SkBool \<Rightarrow> Some LogicalNot | TyVector SkBool _ \<Rightarrow> Some LogicalNot | _ \<Rightarrow> Some OpNot)
      | BitNot \<Rightarrow> Some OpNot)"

definition emit_unary_val :: "'b builder \<Rightarrow> unary_op \<Rightarrow> val \<Rightarrow> ('b, val) cg" where
  "emit_unary_val B uop v =
     cbind (type_id B (v_ty v)) (\<lambda>t. cbind (need (unary_opcode uop (v_ty v))) (\<lambda>opc. raw_inst B opc t [v_id v] (v_ty v)))"

fun cast_opcode :: "type \<Rightarrow> type \<Rightarrow> opcode option" where
  "cast_opcode (TyScalar SkInt) (TyScalar SkFloat) = Some ConvertSToF"
| "cast_opcode (TyScalar SkUint) (TyScalar SkFloat) = Some ConvertUToF"
| "cast_opcode (TyScalar SkFloat) (TyScalar SkInt) = Some ConvertFToS"
| "cast_opcode (TyScalar SkFloat) (TyScalar SkUint) = Some ConvertFToU"
| "cast_opcode _ _ = None"

definition emit_cast_val :: "'b builder \<Rightarrow> type \<Rightarrow> val \<Rightarrow> ('b, val) cg" where
  "emit_cast_val B ty v =
     cbind (type_id B ty) (\<lambda>t.
       case cast_opcode (v_ty v) ty of
         Some opc \<Rightarrow> raw_inst B opc t [v_id v] ty
       | None \<Rightarrow> if v_ty v = ty then cg_ok v else cg_err)"

section \<open>Swizzles, intrinsics, samples\<close>

definition emit_swizzle :: "'b builder \<Rightarrow> val \<Rightarrow> string \<Rightarrow> scalar_kind \<Rightarrow> ('b, val) cg" where
  "emit_swizzle B v member k =
     cbind (need (decode_swizzle member)) (\<lambda>comps.
     let ty = TyVector k (of_nat (length comps)) in
     cbind (type_id B ty) (\<lambda>t.
     if length comps = 1 then
       cbind (scalar_type_id k) (\<lambda>st. cbind (inst_of B (ICompositeExtract (v_id v) (comps ! 0)) st) (\<lambda>i.
         cg_ok \<lparr>v_id = i, v_ty = TyScalar k\<rparr>))
     else cbind (inst_of B (IVectorShuffle (v_id v) (v_id v) comps) t) (\<lambda>i. cg_ok \<lparr>v_id = i, v_ty = ty\<rparr>)))"

text \<open>The instructions of \<open>GLSL.std.450\<close> with their numbers and arities.\<close>

definition intrinsics :: "(string \<times> u32 \<times> nat) list" where
  "intrinsics =
     [(''abs'', 4, 1), (''sqrt'', 31, 1), (''rsqrt'', 32, 1), (''sin'', 13, 1), (''cos'', 14, 1), (''tan'', 15, 1), (''asin'', 16, 1),
      (''acos'', 17, 1), (''atan'', 18, 1), (''exp'', 27, 1), (''log'', 28, 1), (''normalize'', 69, 1), (''length'', 66, 1),
      (''floor'', 8, 1), (''ceil'', 9, 1), (''frac'', 10, 1), (''cross'', 68, 2), (''pow'', 26, 2), (''min'', 37, 2), (''max'', 40, 2),
      (''clamp'', 43, 3), (''lerp'', 46, 3)]"

definition glsl_unarylike_or_clamp :: "'b builder \<Rightarrow> val \<Rightarrow> u32 \<Rightarrow> u32 \<Rightarrow> ('b, val) cg" where
  "glsl_unarylike_or_clamp B v lo hi =
     cbind (type_id B (v_ty v)) (\<lambda>t. cbind (broadcast_const B lo (v_ty v)) (\<lambda>lo. cbind (broadcast_const B hi (v_ty v)) (\<lambda>hi.
     cbind (cg_get glsl_set) (\<lambda>gl. cbind (inst_of B (IExtInst gl 43 [v_id v, lo, hi]) t) (\<lambda>i.
     cg_ok \<lparr>v_id = i, v_ty = v_ty v\<rparr>)))))"

definition emit_saturate :: "'b builder \<Rightarrow> val \<Rightarrow> ('b, val) cg" where
  "emit_saturate B v =
     cbind (float_const B (F64 0 0)) (\<lambda>lo. cbind (float_const B (F64 1 0)) (\<lambda>hi. glsl_unarylike_or_clamp B v lo hi))"

definition emit_dot :: "'b builder \<Rightarrow> val \<Rightarrow> val \<Rightarrow> ('b, val) cg" where
  "emit_dot B a b =
     (let ty = (case v_ty a of TyVector k _ \<Rightarrow> TyScalar k | other \<Rightarrow> other) in
      cbind (type_id B ty) (\<lambda>t. cbind (inst_of B (IDot (v_id a) (v_id b)) t) (\<lambda>i. cg_ok \<lparr>v_id = i, v_ty = ty\<rparr>)))"

definition mul_vals :: "'b builder \<Rightarrow> val \<Rightarrow> val \<Rightarrow> ('b, val) cg" where
  "mul_vals B a b =
     (let done = (\<lambda>opc ty. cbind (type_id B ty) (\<lambda>t. raw_inst B opc t [v_id a, v_id b] ty)) in
      case (v_ty a, v_ty b) of
        (TyMatrix _ rows _, TyVector _ cols) \<Rightarrow>
          if cols \<noteq> matrix_cols (v_ty a) then cg_err else done MatrixTimesVector (TyVector SkFloat rows)
      | (TyVector _ cols, TyMatrix _ _ cols2) \<Rightarrow>
          if cols \<noteq> cols2 then cg_err else done VectorTimesMatrix (TyVector SkFloat cols2)
      | (TyMatrix _ r1 _, TyMatrix _ _ c2) \<Rightarrow> done MatrixTimesMatrix (TyMatrix SkFloat r1 c2)
      | _ \<Rightarrow> emit_arith B Mul (v_id a) (v_ty a) (v_id b) (v_ty b))"

text \<open>The type of the result is that of the last argument.\<close>

definition emit_ext :: "'b builder \<Rightarrow> string \<Rightarrow> u32 \<Rightarrow> val list \<Rightarrow> ('b, val) cg" where
  "emit_ext B name num vs =
     (let ty = (if name = ''length'' then TyScalar SkFloat else if vs = [] then TyScalar SkFloat else v_ty (last vs)) in
      cbind (type_id B ty) (\<lambda>t. cbind (cg_get glsl_set) (\<lambda>gl. cbind (inst_of B (IExtInst gl num (map v_id vs)) t) (\<lambda>i.
      cg_ok \<lparr>v_id = i, v_ty = ty\<rparr>))))"

section \<open>Places\<close>

definition find_local :: "string \<Rightarrow> (string \<times> place) list \<Rightarrow> place option" where
  "find_local name ls = map_option snd (find (\<lambda>(n, _). n = name) (rev ls))"

definition find_member :: "string \<Rightarrow> struct_member list \<Rightarrow> (nat \<times> struct_member) option" where
  "find_member name ms = find (\<lambda>(i, m). sm_name m = name) (enumerate 0 ms)"

definition emit_ident_place :: "'b builder \<Rightarrow> string \<Rightarrow> ('b, place) cg" where
  "emit_ident_place B name =
     cbind (cg_get (\<lambda>c. (find_local name (locals c), cbuffer_members c name, globals c name))) (\<lambda>(l, m, g).
       case (l, m) of
         (Some p, _) \<Rightarrow> cg_ok p
       | (None, Some (cbvar, idx)) \<Rightarrow>
           cbind (need (map_option p_ty g)) (\<lambda>ty. cbind (type_id B ty) (\<lambda>t. cbind (ty_of B (OpTypePointer StUniform t)) (\<lambda>pt.
           cbind (inst_of B (IAccessChain cbvar idx) pt) (\<lambda>i. cg_ok \<lparr>p_ptr = i, p_ty = ty\<rparr>))))
       | (None, None) \<Rightarrow> need g)"

fun emit_place :: "'b builder \<Rightarrow> expr \<Rightarrow> ('b, place) cg" where
  "emit_place B (EIdent name) = emit_ident_place B name"
| "emit_place B (EMember e member) =
     cbind (emit_place B e) (\<lambda>p.
       case p_ty p of
         TyStruct name \<Rightarrow>
           cbind (cg_get (\<lambda>c. structs c name)) (\<lambda>info. cbind (need info) (\<lambda>info.
           cbind (need (find_member member (si_members info))) (\<lambda>(idx, m).
           cbind (int_const B (of_nat idx) True) (\<lambda>k. cbind (type_id B (sm_ty m)) (\<lambda>t.
           cbind (ty_of B (OpTypePointer StFunction t)) (\<lambda>pt. cbind (inst_of B (IAccessChain (p_ptr p) k) pt) (\<lambda>i.
           cg_ok \<lparr>p_ptr = i, p_ty = sm_ty m\<rparr>)))))))
       | _ \<Rightarrow> cg_err)"
| "emit_place B _ = cg_err"

section \<open>Type inference\<close>

definition inferable :: "string list" where
  "inferable = [''normalize'', ''abs'', ''sqrt'', ''rsqrt'', ''sin'', ''cos'', ''tan'', ''exp'', ''log'', ''floor'', ''ceil'', ''frac'',
     ''saturate'', ''clamp'', ''lerp'', ''min'', ''max'', ''pow'', ''cross'']"

fun infer_mul :: "type \<Rightarrow> type \<Rightarrow> type" where
  "infer_mul (TyMatrix k r c) b =
     (case b of TyVector _ _ \<Rightarrow> TyVector SkFloat r | TyMatrix _ _ c2 \<Rightarrow> TyMatrix SkFloat r c2 | _ \<Rightarrow> TyMatrix k r c)"
| "infer_mul (TyVector k n) b = (case b of TyMatrix _ _ c \<Rightarrow> TyVector SkFloat c | _ \<Rightarrow> TyVector k n)"
| "infer_mul a b = a"

text \<open>Reads the context only. An intrinsic with too few arguments is an index out of range, a panic.\<close>

fun infer_type :: "'b ctx \<Rightarrow> expr \<Rightarrow> cg_error + type" where
  "infer_type c (ELiteral l) =
     Inr (TyScalar (case l of LFloat _ \<Rightarrow> SkFloat | LInt _ \<Rightarrow> SkInt | LUint _ \<Rightarrow> SkUint | LBool _ \<Rightarrow> SkBool))"
| "infer_type c (EConstruct ty _) = Inr ty"
| "infer_type c (ECast ty _) = Inr ty"
| "infer_type c (EIdent name) =
     (case find_local name (locals c) of
        Some p \<Rightarrow> Inr (p_ty p)
      | None \<Rightarrow> (case globals c name of Some p \<Rightarrow> Inr (p_ty p) | None \<Rightarrow> Inl BadSource))"
| "infer_type c (EMember e member) =
     (case infer_type c e of
        Inl er \<Rightarrow> Inl er
      | Inr (TyStruct name) \<Rightarrow>
          (case structs c name of
             None \<Rightarrow> Inl BadSource
           | Some info \<Rightarrow> (case find_member member (si_members info) of None \<Rightarrow> Inl BadSource | Some (_, m) \<Rightarrow> Inr (sm_ty m)))
      | Inr (TyVector k _) \<Rightarrow>
          (case decode_swizzle member of
             None \<Rightarrow> Inl BadSource
           | Some comps \<Rightarrow> Inr (if length comps = 1 then TyScalar k else TyVector k (of_nat (length comps))))
      | _ \<Rightarrow> Inl BadSource)"
| "infer_type c (ECall name args) =
     (if name = ''length'' then Inr (TyScalar SkFloat)
      else if name \<in> set (''dot'' # ''mul'' # inferable) then
        (case args of
           [] \<Rightarrow> Inl GenPanic
         | a # rest \<Rightarrow>
             (case infer_type c a of
                Inl er \<Rightarrow> Inl er
              | Inr t \<Rightarrow>
                  if name = ''dot'' then Inr (case t of TyVector k _ \<Rightarrow> TyScalar k | _ \<Rightarrow> t)
                  else if name = ''mul'' then
                    (case rest of
                       [] \<Rightarrow> Inl GenPanic
                     | b # _ \<Rightarrow> (case infer_type c b of Inl er \<Rightarrow> Inl er | Inr u \<Rightarrow> Inr (infer_mul t u)))
                  else Inr t))
      else Inl BadSource)"
| "infer_type c (EMethodCall e method args) = (if method = ''Sample'' then Inr (TyVector SkFloat 4) else Inl BadSource)"
| "infer_type c (EBinary bop l r) =
     (if is_comparison bop then
        (case infer_type c l of
           Inl er \<Rightarrow> Inl er
         | Inr t \<Rightarrow> Inr (case t of TyVector _ n \<Rightarrow> TyVector SkBool n | _ \<Rightarrow> TyScalar SkBool))
      else if bop = And \<or> bop = Or then Inr (TyScalar SkBool)
      else
        (case infer_type c l of Inl er \<Rightarrow> Inl er | Inr t \<Rightarrow> if is_composite t then Inr t else infer_type c r))"
| "infer_type c (EUnary _ e) = infer_type c e"

section \<open>Expressions\<close>

definition core_op :: "binary_op \<Rightarrow> binary_op option" where
  "core_op bop =
     (case bop of AddAssign \<Rightarrow> Some Add | SubAssign \<Rightarrow> Some Sub | MulAssign \<Rightarrow> Some Mul | DivAssign \<Rightarrow> Some Div | _ \<Rightarrow> None)"

definition emit_literal :: "'b builder \<Rightarrow> literal \<Rightarrow> ('b, val) cg" where
  "emit_literal B l =
     (let value = (\<lambda>k m. cbind m (\<lambda>i. cg_ok \<lparr>v_id = i, v_ty = TyScalar k\<rparr>)) in
      case l of
        LFloat v \<Rightarrow> value SkFloat (float_const B v)
      | LInt v \<Rightarrow> value SkInt (int_const B (of_int v) True)
      | LUint v \<Rightarrow> value SkUint (int_const B (ucast v) False)
      | LBool v \<Rightarrow> value SkBool (bool_const B v))"

definition emit_ident :: "'b builder \<Rightarrow> string \<Rightarrow> ('b, val) cg" where
  "emit_ident B name =
     cbind (emit_ident_place B name) (\<lambda>p. cbind (value_type_id B (p_ty p)) (\<lambda>t. cbind (load B t (p_ptr p)) (\<lambda>i.
     cg_ok \<lparr>v_id = i, v_ty = p_ty p\<rparr>)))"

definition emit_field :: "'b builder \<Rightarrow> expr \<Rightarrow> string \<Rightarrow> ('b, val) cg" where
  "emit_field B e member =
     cbind (emit_place B (EMember e member)) (\<lambda>p. cbind (type_id B (p_ty p)) (\<lambda>t. cbind (load B t (p_ptr p)) (\<lambda>i.
     cg_ok \<lparr>v_id = i, v_ty = p_ty p\<rparr>)))"

definition construct_vector :: "'b builder \<Rightarrow> type \<Rightarrow> u32 \<Rightarrow> u32 list \<Rightarrow> ('b, val) cg" where
  "construct_vector B ty target ids =
     cbind (inst_of B (ICompositeConstruct ids) target) (\<lambda>i. cg_ok \<lparr>v_id = i, v_ty = ty\<rparr>)"

definition broadcast :: "'b builder \<Rightarrow> type \<Rightarrow> u32 \<Rightarrow> u32 \<Rightarrow> val \<Rightarrow> ('b, val) cg" where
  "broadcast B ty n target v =
     (case v_ty v of TyScalar _ \<Rightarrow> construct_vector B ty target (replicate (unat n) (v_id v)) | _ \<Rightarrow> cg_err)"

definition sample_image :: "'b builder \<Rightarrow> place \<Rightarrow> ('b, u32 \<times> u32) cg" where
  "sample_image B p =
     cbind (image_type_id B) (\<lambda>it. cbind (ty_of B (OpTypeSampledImage it)) (\<lambda>st. cbind (load B st (p_ptr p)) (\<lambda>i. cg_ok (st, i))))"

definition sample_with :: "'b builder \<Rightarrow> u32 \<times> u32 \<Rightarrow> val \<Rightarrow> val \<Rightarrow> ('b, val) cg" where
  "sample_with B im smp coord =
     cbind (inst_of B (ISampledImage (snd im) (v_id smp)) (fst im)) (\<lambda>s. cbind (type_id B (TyVector SkFloat 4)) (\<lambda>t.
     cbind (inst_of B (IImageSampleImplicitLod s (v_id coord)) t) (\<lambda>i. cg_ok \<lparr>v_id = i, v_ty = TyVector SkFloat 4\<rparr>)))"

fun emit_expr :: "'b builder \<Rightarrow> expr \<Rightarrow> ('b, val) cg"
  and emit_args :: "'b builder \<Rightarrow> expr list \<Rightarrow> ('b, val list) cg" where
  "emit_expr B (ELiteral l) = emit_literal B l"
| "emit_expr B (EIdent name) = emit_ident B name"
| "emit_expr B (EConstruct ty args) =
     (case ty of
        TyScalar k \<Rightarrow>
          (case args of
             [a] \<Rightarrow> if k = SkFloat then emit_expr B a else cbind (emit_expr B a) (\<lambda>v. coerce_scalar B v k)
           | _ \<Rightarrow> cg_err)
      | TyVector k n \<Rightarrow>
          cbind (vector_type_id B k n) (\<lambda>target.
            case args of
              [a] \<Rightarrow> cbind (emit_expr B a) (broadcast B ty n target)
            | _ \<Rightarrow> cbind (emit_args B args) (\<lambda>vs. construct_vector B ty target (map v_id vs)))
      | _ \<Rightarrow> cg_err)"
| "emit_expr B (EMember e member) =
     cbind (\<lambda>c. case infer_type c e of Inl er \<Rightarrow> Inl er | Inr t \<Rightarrow> Inr (t, c)) (\<lambda>t.
       case t of
         TyStruct _ \<Rightarrow> emit_field B e member
       | TyVector k _ \<Rightarrow> cbind (emit_expr B e) (\<lambda>v. emit_swizzle B v member k)
       | _ \<Rightarrow> cg_err)"
| "emit_expr B (ECall name args) =
     (case (name = ''saturate'', args) of
        (True, [x]) \<Rightarrow> cbind (emit_expr B x) (emit_saturate B)
      | _ \<Rightarrow>
        (case (name = ''dot'', args) of
           (True, [a, b]) \<Rightarrow> cbind (emit_expr B a) (\<lambda>av. cbind (emit_expr B b) (emit_dot B av))
         | _ \<Rightarrow>
           if name = ''mul'' then
             (case args of
                [a, b] \<Rightarrow> cbind (emit_expr B a) (\<lambda>av. cbind (emit_expr B b) (mul_vals B av))
              | _ \<Rightarrow> cg_err)
           else
             (case map_of intrinsics name of
                None \<Rightarrow> cg_err
              | Some (num, arity) \<Rightarrow>
                  if length args \<noteq> arity then cg_err else cbind (emit_args B args) (emit_ext B name num))))"
| "emit_expr B (EMethodCall e method args) =
     (if method \<noteq> ''Sample'' then cg_err
      else
        (case args of
           [s, x] \<Rightarrow>
             cbind (emit_place B e) (\<lambda>p. cbind (sample_image B p) (\<lambda>im.
             cbind (emit_expr B s) (\<lambda>sv. cbind (emit_expr B x) (sample_with B im sv))))
         | _ \<Rightarrow> cg_err))"
| "emit_expr B (EBinary bop l r) =
     (if bop = Assign then
        cbind (emit_place B l) (\<lambda>p. cbind (emit_expr B r) (\<lambda>v. cbind (coerce B v (p_ty p)) (\<lambda>v.
        cseq (store B (p_ptr p) (v_id v)) (cg_ok v))))
      else
        (case core_op bop of
           Some core \<Rightarrow>
             cbind (emit_place B l) (\<lambda>p. cbind (type_id B (p_ty p)) (\<lambda>t. cbind (load B t (p_ptr p)) (\<lambda>cur.
             cbind (emit_expr B r) (\<lambda>v. cbind (emit_arith B core cur (p_ty p) (v_id v) (v_ty v)) (\<lambda>res.
             cseq (store B (p_ptr p) (v_id res)) (cg_ok res))))))
         | None \<Rightarrow>
             cbind (emit_expr B l) (\<lambda>lv. cbind (emit_expr B r) (\<lambda>rv.
               if is_comparison bop then emit_comparison B bop lv rv
               else if bop = And \<or> bop = Or then emit_logical B bop lv rv
               else emit_arith B bop (v_id lv) (v_ty lv) (v_id rv) (v_ty rv)))))"
| "emit_expr B (EUnary uop e) = cbind (emit_expr B e) (emit_unary_val B uop)"
| "emit_expr B (ECast ty e) = cbind (emit_expr B e) (emit_cast_val B ty)"
| "emit_args B [] = cg_ok []"
| "emit_args B (a # as) = cbind (emit_expr B a) (\<lambda>v. cbind (emit_args B as) (\<lambda>vs. cg_ok (v # vs)))"

section \<open>Statements\<close>

text \<open>Whether the block that was open has its terminator.\<close>

definition is_terminated :: "'b builder \<Rightarrow> ('b, bool) cg" where
  "is_terminated B = cg_get (\<lambda>c. \<not> bd_selected B (bld c))"

definition finish_with :: "'b builder \<Rightarrow> terminator \<Rightarrow> ('b, unit) cg" where
  "finish_with B t = try_on (bd_end B t)"

definition begin_block :: "'b builder \<Rightarrow> u32 option \<Rightarrow> ('b, unit) cg" where
  "begin_block B l = try_on (bd_begin_block B l)"

definition branch_unless_terminated :: "'b builder \<Rightarrow> u32 \<Rightarrow> ('b, unit) cg" where
  "branch_unless_terminated B l = cbind (is_terminated B) (\<lambda>t. if t then cg_ok () else finish_with B (Branch l))"

abbreviation fresh_label :: "'b builder \<Rightarrow> ('b, u32) cg" where
  "fresh_label B \<equiv> with_bld (bd_id B)"

definition emit_return :: "'b builder \<Rightarrow> expr option \<Rightarrow> ('b, unit) cg" where
  "emit_return B e =
     (case e of
        None \<Rightarrow> finish_with B Ret
      | Some e \<Rightarrow>
          cbind (emit_expr B e) (\<lambda>v. cbind (cg_get out_var) (\<lambda>out.
          cseq (case out of None \<Rightarrow> cg_ok () | Some p \<Rightarrow> store B p (v_id v)) (finish_with B Ret))))"

definition push_local :: "string \<Rightarrow> u32 \<Rightarrow> type \<Rightarrow> ('b, unit) cg" where
  "push_local name p ty = cg_update (\<lambda>c. c\<lparr>locals := locals c @ [(name, \<lparr>p_ptr = p, p_ty = ty\<rparr>)]\<rparr>)"

definition emit_var_decl :: "'b builder \<Rightarrow> var_decl \<Rightarrow> ('b, unit) cg" where
  "emit_var_decl B vd =
     cbind (alloc_local B (vd_ty vd)) (\<lambda>p.
     cseq (case vd_init vd of None \<Rightarrow> cg_ok () | Some e \<Rightarrow> cbind (emit_expr B e) (\<lambda>v. store B p (v_id v)))
       (push_local (vd_name vd) p (vd_ty vd)))"

definition if_head :: "'b builder \<Rightarrow> expr \<Rightarrow> bool \<Rightarrow> ('b, u32 \<times> u32 \<times> u32) cg" where
  "if_head B cond has_else =
     cbind (emit_expr B cond) (\<lambda>v. cbind (coerce_to_bool B v) (\<lambda>cid.
     cbind (fresh_label B) (\<lambda>then_l. cbind (fresh_label B) (\<lambda>merge_l.
     cbind (if has_else then fresh_label B else cg_ok merge_l) (\<lambda>else_l.
     cseq (try_on (bd_effect B (SelectionMerge merge_l))) (cseq (finish_with B (BranchConditional cid then_l else_l))
       (cg_ok (then_l, merge_l, else_l))))))))"

definition loop_head :: "'b builder \<Rightarrow> expr option \<Rightarrow> ('b, u32 \<times> u32 \<times> u32 \<times> u32) cg" where
  "loop_head B cond =
     cbind (fresh_label B) (\<lambda>header. cbind (fresh_label B) (\<lambda>body. cbind (fresh_label B) (\<lambda>cont. cbind (fresh_label B) (\<lambda>merge.
     cseq (finish_with B (Branch header)) (cseq (begin_block B (Some header))
     (cseq (try_on (bd_effect B (LoopMerge merge cont)))
     (cseq (case cond of
        Some e \<Rightarrow>
          cbind (emit_expr B e) (\<lambda>v. cbind (coerce_to_bool B v) (\<lambda>cid. finish_with B (BranchConditional cid body merge)))
      | None \<Rightarrow> finish_with B (Branch body)) (cg_ok (header, body, cont, merge)))))))))"

definition loop_tail :: "'b builder \<Rightarrow> u32 \<Rightarrow> u32 \<Rightarrow> u32 \<Rightarrow> expr option \<Rightarrow> ('b, unit) cg" where
  "loop_tail B header cont merge update =
     cseq (branch_unless_terminated B cont) (cseq (begin_block B (Some cont))
     (cseq (case update of None \<Rightarrow> cg_ok () | Some u \<Rightarrow> cbind (emit_expr B u) (\<lambda>_. cg_ok ()))
     (cseq (finish_with B (Branch header)) (begin_block B (Some merge)))))"

fun emit_stmt :: "'b builder \<Rightarrow> stmt \<Rightarrow> ('b, unit) cg"
  and emit_block :: "'b builder \<Rightarrow> block \<Rightarrow> ('b, unit) cg"
  and emit_stmts :: "'b builder \<Rightarrow> stmt list \<Rightarrow> ('b, unit) cg" where
  "emit_stmt B (SReturn e) = emit_return B e"
| "emit_stmt B (SVarDecl vd) = emit_var_decl B vd"
| "emit_stmt B (SExpr e) = cbind (emit_expr B e) (\<lambda>_. cg_ok ())"
| "emit_stmt B (SIf cond thn els) =
     cbind (if_head B cond (els \<noteq> None)) (\<lambda>(then_l, merge_l, else_l).
     cseq (begin_block B (Some then_l)) (cseq (emit_block B thn) (cseq (branch_unless_terminated B merge_l)
     (cseq (case els of
        None \<Rightarrow> cg_ok ()
      | Some b \<Rightarrow> cseq (begin_block B (Some else_l)) (cseq (emit_block B b) (branch_unless_terminated B merge_l)))
     (begin_block B (Some merge_l))))))"
| "emit_stmt B (SFor init cond update body) =
     cseq (case init of None \<Rightarrow> cg_ok () | Some s \<Rightarrow> emit_stmt B s)
     (cbind (is_terminated B) (\<lambda>t.
      if t then cg_ok ()
      else
        cbind (loop_head B cond) (\<lambda>(header, body_l, cont, merge).
        cseq (begin_block B (Some body_l)) (cseq (emit_block B body) (loop_tail B header cont merge update)))))"
| "emit_stmt B (SBlock b) = emit_block B b"
| "emit_block B (Block ss) = emit_stmts B ss"
| "emit_stmts B [] = cg_ok ()"
| "emit_stmts B (s # ss) =
     cseq (emit_stmt B s) (cbind (is_terminated B) (\<lambda>t. if t then cg_ok () else emit_stmts B ss))"

section \<open>Globals\<close>

definition put_struct :: "string \<Rightarrow> struct_info \<Rightarrow> ('b, unit) cg" where
  "put_struct name i = cg_update (\<lambda>c. c\<lparr>structs := (structs c)(name \<mapsto> i)\<rparr>)"

definition put_global :: "string \<Rightarrow> u32 \<Rightarrow> type \<Rightarrow> ('b, unit) cg" where
  "put_global name p ty = cg_update (\<lambda>c. c\<lparr>globals := (globals c)(name \<mapsto> \<lparr>p_ptr = p, p_ty = ty\<rparr>)\<rparr>)"

abbreviation add_note :: "'b builder \<Rightarrow> annotation \<Rightarrow> ('b, unit) cg" where
  "add_note B n \<equiv> on_bld (bd_note B n)"

abbreviation numbered :: "'a list \<Rightarrow> (nat \<times> 'a) list" where
  "numbered xs \<equiv> enumerate 0 xs"

definition register_struct :: "'b builder \<Rightarrow> struct_decl \<Rightarrow> ('b, unit) cg" where
  "register_struct B s =
     cbind (cg_get (\<lambda>c. structs c (sd_name s))) (\<lambda>known.
     if known \<noteq> None then cg_ok ()
     else
       cbind (collect (\<lambda>m. type_id B (sm_ty m)) (sd_members s)) (\<lambda>ts. cbind (ty_of B (OpTypeStruct ts)) (\<lambda>t.
       cseq (each (\<lambda>(i, m). add_note B (NMemberName t (of_nat i) (sm_name m))) (numbered (sd_members s)))
         (put_struct (sd_name s) \<lparr>si_type_id = t, si_members = sd_members s\<rparr>))))"

text \<open>The offsets of the members of a constant buffer.\<close>

fun member_offsets :: "u32 \<Rightarrow> type list \<Rightarrow> u32 list" where
  "member_offsets offset [] = []"
| "member_offsets offset (ty # tys) =
     (case member_align_size ty of
        (al, sz) \<Rightarrow> let off = align_up offset al in off # member_offsets (off + sz) tys)"

definition bind_resource :: "'b builder \<Rightarrow> u32 \<Rightarrow> string \<Rightarrow> string option \<Rightarrow> ('b, unit) cg" where
  "bind_resource B v name reg =
     (case parse_register reg of
        (ds, bi) \<Rightarrow>
          cseq (add_note B (NName v name)) (cseq (add_note B (NDecorate v (DecDescriptorSet ds)))
            (add_note B (NDecorate v (DecBinding bi)))))"

definition cbuffer_member :: "'b builder \<Rightarrow> u32 \<Rightarrow> nat \<times> struct_member \<Rightarrow> ('b, unit) cg" where
  "cbuffer_member B v im =
     (case im of
        (i, m) \<Rightarrow>
          cbind (type_id B (sm_ty m)) (\<lambda>t. cbind (ty_of B (OpTypePointer StUniform t)) (\<lambda>_.
          cbind (int_const B (of_nat i) True) (\<lambda>k. cseq (put_global (sm_name m) v (sm_ty m))
          (cg_update (\<lambda>c. c\<lparr>cbuffer_members := (cbuffer_members c)(sm_name m \<mapsto> (v, k))\<rparr>))))))"

definition emit_cbuffer :: "'b builder \<Rightarrow> cbuffer_decl \<Rightarrow> ('b, unit) cg" where
  "emit_cbuffer B cb =
     cbind (collect (\<lambda>m. type_id B (sm_ty m)) (cb_members cb)) (\<lambda>ts. cbind (ty_of B (OpTypeStruct ts)) (\<lambda>t.
     cseq (add_note B (NDecorate t DecBlock))
     (cseq (each (\<lambda>(i, m, off). cseq (add_note B (NMemberDecorate t (of_nat i) (DecOffset off))) (add_note B (NMemberName t (of_nat i) (sm_name m))))
        (numbered (zip (cb_members cb) (member_offsets 0 (map sm_ty (cb_members cb))))))
     (cseq (put_struct (cb_name cb) \<lparr>si_type_id = t, si_members = cb_members cb\<rparr>)
     (cbind (ty_of B (OpTypePointer StUniform t)) (\<lambda>pt. cbind (with_bld (bd_variable B pt StUniform)) (\<lambda>v.
      cseq (bind_resource B v (cb_name cb) (cb_register cb))
      (cseq (put_global (cb_name cb) v (TyStruct (cb_name cb))) (each (cbuffer_member B v) (numbered (cb_members cb)))))))))))"

definition emit_global_var :: "'b builder \<Rightarrow> global_var_decl \<Rightarrow> ('b, unit) cg" where
  "emit_global_var B g =
     (let resource = (\<lambda>t. cbind (ty_of B (OpTypePointer StUniformConstant t)) (\<lambda>pt.
            cbind (with_bld (bd_variable B pt StUniformConstant)) (\<lambda>v.
            cseq (bind_resource B v (gv_name g) (gv_register g)) (put_global (gv_name g) v (gv_ty g)))))
      in case gv_ty g of
           TyTexture2D \<Rightarrow> cbind (image_type_id B) (\<lambda>it. cbind (ty_of B (OpTypeSampledImage it)) resource)
         | TySamplerState \<Rightarrow> cbind (ty_of B OpTypeSampler) resource
         | _ \<Rightarrow> cg_err)"

definition emit_decl :: "'b builder \<Rightarrow> decl \<Rightarrow> ('b, unit) cg" where
  "emit_decl B d =
     (case d of
        DStruct s \<Rightarrow> register_struct B s
      | DCBuffer cb \<Rightarrow> emit_cbuffer B cb
      | DGlobalVar g \<Rightarrow> emit_global_var B g
      | DFunction _ \<Rightarrow> cg_ok ())"

definition emit_globals :: "'b builder \<Rightarrow> translation_unit \<Rightarrow> ('b, unit) cg" where
  "emit_globals B u = each (emit_decl B) (decls u)"

section \<open>The entry point\<close>

definition position_builtin :: "shader_stage \<Rightarrow> bool \<Rightarrow> builtin" where
  "position_builtin st is_output =
     (if is_output \<and> st = Vertex then BuiltInPosition else if \<not> is_output \<and> st = Pixel then BuiltInFragCoord else BuiltInPosition)"

fun io_decorations :: "shader_stage \<Rightarrow> bool \<Rightarrow> u32 \<Rightarrow> struct_member list \<Rightarrow> decoration list" where
  "io_decorations st is_output loc [] = []"
| "io_decorations st is_output loc (m # ms) =
     (if sm_semantic m = Some ''SV_Position'' then DecBuiltIn (position_builtin st is_output) # io_decorations st is_output loc ms
      else if sm_semantic m = Some ''SV_Target'' then DecLocation 0 # io_decorations st is_output loc ms
      else DecLocation loc # io_decorations st is_output (loc + 1) ms)"

definition decorate_struct_io :: "'b builder \<Rightarrow> struct_member list \<Rightarrow> u32 \<Rightarrow> bool \<Rightarrow> ('b, unit) cg" where
  "decorate_struct_io B ms t is_output =
     cseq (add_note B (NDecorate t DecBlock))
       (cbind (cg_get stage) (\<lambda>st. each (\<lambda>(i, d). add_note B (NMemberDecorate t (of_nat i) d)) (numbered (io_decorations st is_output 0 ms))))"

definition decorate_io_var :: "'b builder \<Rightarrow> u32 \<Rightarrow> string option \<Rightarrow> bool \<Rightarrow> ('b, unit) cg" where
  "decorate_io_var B v semantic is_output =
     cbind (cg_get stage) (\<lambda>st.
       add_note B (NDecorate v (if semantic = Some ''SV_Position'' then DecBuiltIn (position_builtin st is_output) else DecLocation 0)))"

definition push_interface :: "u32 \<Rightarrow> ('b, unit) cg" where
  "push_interface v = cg_update (\<lambda>c. c\<lparr>interface := interface c @ [v]\<rparr>)"

definition emit_input :: "'b builder \<Rightarrow> param \<Rightarrow> ('b, unit) cg" where
  "emit_input B p =
     (let variable = (\<lambda>t. cbind (ty_of B (OpTypePointer StInput t)) (\<lambda>pt. cbind (with_bld (bd_variable B pt StInput)) (\<lambda>v.
            cseq (add_note B (NName v (pm_name p))) (cg_ok v))));
          publish = (\<lambda>v. cseq (push_interface v) (put_global (pm_name p) v (pm_ty p)));
          simple = cbind (type_id B (pm_ty p)) (\<lambda>t. cbind (variable t) (\<lambda>v. cseq (decorate_io_var B v (pm_semantic p) False) (publish v)))
      in case pm_ty p of
           TyStruct name \<Rightarrow>
             cbind (cg_get (\<lambda>c. structs c name)) (\<lambda>info. cbind (need info) (\<lambda>info.
             cseq (decorate_struct_io B (si_members info) (si_type_id info) False) (cbind (variable (si_type_id info)) publish)))
         | TyScalar _ \<Rightarrow> simple
         | TyVector _ _ \<Rightarrow> simple
         | _ \<Rightarrow> cg_err)"

definition emit_inputs :: "'b builder \<Rightarrow> function_decl \<Rightarrow> ('b, unit) cg" where
  "emit_inputs B f = each (emit_input B) (fd_params f)"

definition emit_output :: "'b builder \<Rightarrow> function_decl \<Rightarrow> ('b, unit) cg" where
  "emit_output B f =
     (let variable = (\<lambda>t name. cbind (ty_of B (OpTypePointer StOutput t)) (\<lambda>pt. cbind (with_bld (bd_variable B pt StOutput)) (\<lambda>v.
            cseq (add_note B (NName v name)) (cg_ok v))));
          publish = (\<lambda>v. cseq (push_interface v) (cg_update (\<lambda>c. c\<lparr>out_var := Some v, out_ty := fd_return_type f\<rparr>)))
      in case fd_return_type f of
           TyStruct name \<Rightarrow>
             cbind (cg_get (\<lambda>c. structs c name)) (\<lambda>info. cbind (need info) (\<lambda>info.
             cseq (decorate_struct_io B (si_members info) (si_type_id info) True) (cbind (variable (si_type_id info) ''out_var'') publish)))
         | TyVector SkFloat n \<Rightarrow>
             if n = 4 then
               cbind (type_id B (TyVector SkFloat 4)) (\<lambda>t. cbind (variable t ''out_color'') (\<lambda>v.
               cseq (decorate_io_var B v (fd_semantic f) True) (publish v)))
             else cg_err
         | _ \<Rightarrow> cg_err)"

definition begin_entry_function :: "'b builder \<Rightarrow> ('b, unit) cg" where
  "begin_entry_function B =
     cbind (cg_get void_t) (\<lambda>v. cbind (ty_of B (OpTypeFunction v [])) (\<lambda>ft.
     cseq (try_on (bd_begin_function B v ft)) (begin_block B None)))"

text \<open>The identifiers of the inputs are looked up before any parameter is bound to its copy.\<close>

definition input_of :: "param \<Rightarrow> ('b, string \<times> u32 \<times> type) cg" where
  "input_of p = cbind (cg_get (\<lambda>c. globals c (pm_name p))) (\<lambda>g. cbind (need g) (\<lambda>g. cg_ok (pm_name p, p_ptr g, pm_ty p)))"

definition bind_param :: "'b builder \<Rightarrow> string \<times> u32 \<times> type \<Rightarrow> ('b, unit) cg" where
  "bind_param B x =
     (case x of
        (name, gp, ty) \<Rightarrow>
          cbind (alloc_local B ty) (\<lambda>lp. cbind (type_id B ty) (\<lambda>t. cbind (load B t gp) (\<lambda>v.
          cseq (store B lp v) (push_local name lp ty)))))"

definition emit_function_body :: "'b builder \<Rightarrow> function_decl \<Rightarrow> ('b, unit) cg" where
  "emit_function_body B f =
     cbind (collect input_of (fd_params f)) (\<lambda>ps. cseq (each (bind_param B) ps)
     (cbind (need (fd_body f)) (\<lambda>body. cseq (emit_block B body)
     (cseq (cbind (is_terminated B) (\<lambda>t. if t then cg_ok () else finish_with B Ret)) (try_on (bd_end_function B))))))"

definition finish_entry_point :: "'b builder \<Rightarrow> function_decl \<Rightarrow> ('b, unit) cg" where
  "finish_entry_point B f =
     cbind (cg_get (\<lambda>c. (bd_main_id B (bld c), interface c, stage c))) (\<lambda>(main, vars, st).
     case main of
       None \<Rightarrow> (\<lambda>c. Inl BuilderFailed)
     | Some i \<Rightarrow>
         cseq (cg_update (\<lambda>c. c\<lparr>interface := []\<rparr>)) (cseq (add_note B (NEntryPoint (execution_model_of st) i ''main'' vars))
         (cseq (if st = Pixel then add_note B (NExecutionMode i OriginUpperLeft) else cg_ok ()) (add_note B (NName i (fd_name f))))))"

definition emit_main :: "'b builder \<Rightarrow> function_decl \<Rightarrow> ('b, unit) cg" where
  "emit_main B f =
     cseq (emit_inputs B f) (cseq (emit_output B f) (cseq (begin_entry_function B) (cseq (emit_function_body B f) (finish_entry_point B f))))"

definition Ctx_new :: "'b builder \<Rightarrow> shader_stage \<Rightarrow> 'b ctx" where
  "Ctx_new B st =
     (let b = bd_new B;
          b = bd_note B (SetVersion 1 0) b;
          b = bd_note B CapabilityShader b;
          b = bd_note B MemoryModelGLSL450 b;
          (v, b) = bd_type B OpTypeVoid b;
          (bo, b) = bd_type B OpTypeBool b;
          (fl, b) = bd_type B (OpTypeFloat 32) b;
          (i, b) = bd_type B (OpTypeInt 32 1) b;
          (u, b) = bd_type B (OpTypeInt 32 0) b;
          (gl, b) = bd_import B ''GLSL.std.450'' b;
          b = bd_note B (SourceHLSL 500) b
      in \<lparr>stage = st, bld = b, glsl_set = gl, void_t = v, bool_t = bo, float_t = fl, int_t = i, uint_t = u,
          structs = Map.empty, globals = Map.empty, cbuffer_members = Map.empty, locals = [], out_var = None, out_ty = TyVoid,
          interface = []\<rparr>)"

definition main_of :: "decl \<Rightarrow> function_decl option" where
  "main_of d = (case d of DFunction f \<Rightarrow> if fd_name f = ''main'' \<and> fd_body f \<noteq> None then Some f else None | _ \<Rightarrow> None)"

definition run_codegen :: "'b builder \<Rightarrow> translation_unit \<Rightarrow> ('b, unit) cg" where
  "run_codegen B u =
     cseq (emit_globals B u) (cbind (need (List.find (\<lambda>d. main_of d \<noteq> None) (decls u))) (\<lambda>d. cbind (need (main_of d)) (emit_main B)))"

definition codegen :: "'b builder \<Rightarrow> translation_unit \<Rightarrow> shader_stage \<Rightarrow> cg_error + u32 list" where
  "codegen B u st =
     (case run_codegen B u (Ctx_new B st) of Inl e \<Rightarrow> Inl e | Inr (_, c) \<Rightarrow> Inr (bd_assemble B (bld c)))"

end
