(* ===== verification/CodegenSpec.thy ===== *)
theory CodegenSpec
  imports Codegen ParserSpec
begin

text \<open>
  What the code generator guarantees. Its calls follow the protocol of the builder: instructions only into an open
  block, no block inside a block, the function closed at the end, so that of all errors only those of the source
  program remain. The members of a constant buffer are laid out aligned and apart from each other.
\<close>

section \<open>Layout of constant buffers\<close>

fun member_bytes :: "type \<Rightarrow> nat" where
  "member_bytes (TyScalar _) = 4"
| "member_bytes (TyVector _ n) = (if n = 2 then 8 else if n = 3 then 12 else 16)"
| "member_bytes (TyMatrix _ r c) = 16 * unat c"
| "member_bytes _ = 16"

definition member_align :: "type \<Rightarrow> nat" where
  "member_align ty = unat (fst (member_align_size ty))"

lemma member_align_cases: "member_align ty \<in> {4, 8, 16}"
  by (cases ty) (auto simp: member_align_def)

lemma member_size: "member_bytes ty < 2 ^ 32 \<Longrightarrow> unat (snd (member_align_size ty)) = member_bytes ty"
  by (cases ty) (auto simp: unat_word_ariths)

lemma align_up_spec:
  assumes "a \<in> {4, 8, 16}" and "unat x + 16 < 2 ^ 32" and "unat al = a"
  shows "a dvd unat (align_up x al)" and "unat x \<le> unat (align_up x al)" and "unat (align_up x al) < unat x + a"
proof -
  have al: "al \<noteq> 0" using assms(1,3) by auto
  have d: "unat (x div al) = unat x div a" "unat (x mod al) = unat x mod a" using assms(3) by (simp_all add: unat_div unat_mod)
  let ?k = "unat x div a + (if unat x mod a = 0 then 0 else 1)"
  have k: "unat x \<le> ?k * a" "?k * a < unat x + a"
  proof -
    have "u \<le> (u div a + (if u mod a = 0 then 0 else 1)) * a \<and> (u div a + (if u mod a = 0 then 0 else 1)) * a < u + a" for u :: nat
    proof -
      obtain q r where u: "u div a = q" "u mod a = r" "u = q * a + r" using div_mult_mod_eq [of u a] by metis
      moreover have "r < a" using u(2) assms(1) by auto
      ultimately show ?thesis by (cases "r = 0") (simp_all add: algebra_simps)
    qed
    from this [of "unat x"] show "unat x \<le> ?k * a" "?k * a < unat x + a" by blast+
  qed
  have z: "x mod al = 0 \<longleftrightarrow> unat x mod a = 0" using d(2) by (metis unat_0 word_unat_eq_iff)
  define W where "W = x div al + (if x mod al = 0 then 0 else 1)"
  have W: "unat W = ?k" using d(1) z assms(1,2) by (auto simp: W_def unat_word_ariths)
  have "?k * a < 2 ^ 32" using k(2) assms(1,2) by auto
  then have "unat (W * al) = ?k * a" by (simp add: unat_word_ariths W assms(3))
  then have u: "unat (align_up x al) = ?k * a" using al by (simp add: align_up_def W_def)
  show "a dvd unat (align_up x al)" "unat x \<le> unat (align_up x al)" "unat (align_up x al) < unat x + a" using k by (simp_all add: u)
qed

lemma member_offsets_length: "length (member_offsets off tys) = length tys"
  by (induction tys arbitrary: off) (simp_all add: Let_def split: prod.split)

lemma member_offsets_spec:
  "unat off + (\<Sum>ty \<leftarrow> tys. member_bytes ty + 16) + 16 < 2 ^ 32 \<Longrightarrow> offs = member_offsets off tys \<Longrightarrow>
   (\<forall>i < length tys. unat off \<le> unat (offs ! i) \<and> member_align (tys ! i) dvd unat (offs ! i) \<and>
      unat (offs ! i) + member_bytes (tys ! i) < 2 ^ 32) \<and>
   (\<forall>i j. i < j \<longrightarrow> j < length tys \<longrightarrow> unat (offs ! i) + member_bytes (tys ! i) \<le> unat (offs ! j))"
proof (induction tys arbitrary: off offs)
  case (Cons ty tys)
  obtain al sz where m: "member_align_size ty = (al, sz)" by fastforce
  define o1 where "o1 = align_up off al"
  have a: "unat al \<in> {4, 8, 16}" using member_align_cases [of ty] by (simp add: member_align_def m)
  have s: "unat sz = member_bytes ty" using member_size [of ty] Cons.prems(1) m by simp
  note A = align_up_spec [OF a _ refl, of off, folded o1_def]
  have small: "unat off + 16 < 2 ^ 32" using Cons.prems(1) by simp
  have o1: "unat o1 < unat off + 16" using A(3) [OF small] a by auto
  have add: "unat (o1 + sz) = unat o1 + member_bytes ty" using o1 s Cons.prems(1) by (subst unat_add_lem [THEN iffD1]) simp_all
  have offs: "offs = o1 # member_offsets (o1 + sz) tys" using Cons.prems(2) by (simp add: m Let_def o1_def)
  have "unat (o1 + sz) + (\<Sum>ty \<leftarrow> tys. member_bytes ty + 16) + 16 < 2 ^ 32" using Cons.prems(1) o1 add by simp
  note IH = Cons.IH [OF this refl]
  have al: "member_align ty = unat al" by (simp add: member_align_def m)
  show ?case
  proof (intro conjI allI impI)
    fix i assume i: "i < length (ty # tys)"
    show "unat off \<le> unat (offs ! i)" "member_align ((ty # tys) ! i) dvd unat (offs ! i)"
      "unat (offs ! i) + member_bytes ((ty # tys) ! i) < 2 ^ 32"
      using i IH A(1,2) [OF small] add o1 al Cons.prems(1) by (cases i; force simp: offs)+
  next
    fix i j assume ij: "i < j" "j < length (ty # tys)"
    then obtain j' where j: "j = Suc j'" by (cases j) auto
    show "unat (offs ! i) + member_bytes ((ty # tys) ! i) \<le> unat (offs ! j)"
      using ij IH add by (cases i) (auto simp: offs j)
  qed
qed simp



section \<open>The protocol of the builder\<close>

text \<open>Where the builder stands: before the function, in it without a block yet, in an open block, between blocks, after it.\<close>

datatype pos = NoFunction | NoBlock | InBlock | Closed | Done

text \<open>The documented protocol: declarations leave the place alone, instructions need an open block, a terminator closes it, and so
  on. Nothing is assumed of a call out of turn.\<close>

definition builder_laws :: "'b builder \<Rightarrow> ('b \<Rightarrow> pos) \<Rightarrow> bool" where
  "builder_laws B loc \<longleftrightarrow>
     loc (bd_new B) = NoFunction \<and>
     (\<forall>b. bd_selected B b = (loc b = InBlock) \<and> bd_has_function B b = (loc b \<noteq> NoFunction) \<and>
        bd_has_block B b = (loc b \<in> {InBlock, Closed, Done})) \<and>
     (\<forall>n b. loc (bd_note B n b) = loc b) \<and> (\<forall>d b. loc (snd (bd_type B d b)) = loc b) \<and> (\<forall>s b. loc (snd (bd_import B s b)) = loc b) \<and>
     (\<forall>p s b. loc (snd (bd_variable B p s b)) = loc b) \<and> (\<forall>b. loc (snd (bd_id B b)) = loc b) \<and>
     (\<forall>k t i b. loc (bd_const B k t i b) = loc b) \<and> (\<forall>p i b. loc (bd_hoist B p i b) = loc b) \<and>
     (\<forall>v t b. loc b = NoFunction \<longrightarrow> (\<exists>b'. bd_begin_function B v t b = Some b' \<and> loc b' = NoBlock)) \<and>
     (\<forall>l b. loc b \<in> {NoBlock, Closed} \<longrightarrow> (\<exists>b'. bd_begin_block B l b = Some b' \<and> loc b' = InBlock)) \<and>
     (\<forall>i t b. loc b = InBlock \<longrightarrow> (\<exists>x b'. bd_inst B i t b = Some (x, b') \<and> loc b' = InBlock)) \<and>
     (\<forall>opc t i as b. loc b = InBlock \<longrightarrow> (\<exists>b'. bd_insert B opc t i as b = Some b' \<and> loc b' = InBlock)) \<and>
     (\<forall>e b. loc b = InBlock \<longrightarrow> (\<exists>b'. bd_effect B e b = Some b' \<and> loc b' = InBlock)) \<and>
     (\<forall>t b. loc b = InBlock \<longrightarrow> (\<exists>b'. bd_end B t b = Some b' \<and> loc b' = Closed)) \<and>
     (\<forall>b. loc b = Closed \<longrightarrow> (\<exists>b'. bd_end_function B b = Some b' \<and> loc b' = Done)) \<and>
     (\<forall>b. loc b \<noteq> NoFunction \<longrightarrow> bd_main_id B b \<noteq> None)"

lemma builder_lawsD:
  assumes "builder_laws B loc"
  shows "loc b = NoFunction \<Longrightarrow> \<exists>b'. bd_begin_function B v t b = Some b' \<and> loc b' = NoBlock"
    and "loc b = NoBlock \<or> loc b = Closed \<Longrightarrow> \<exists>b'. bd_begin_block B l b = Some b' \<and> loc b' = InBlock"
    and "loc b = InBlock \<Longrightarrow> \<exists>x b'. bd_inst B i t b = Some (x, b') \<and> loc b' = InBlock"
    and "loc b = InBlock \<Longrightarrow> \<exists>b'. bd_insert B opc t j as b = Some b' \<and> loc b' = InBlock"
    and "loc b = InBlock \<Longrightarrow> \<exists>b'. bd_effect B e b = Some b' \<and> loc b' = InBlock"
    and "loc b = InBlock \<Longrightarrow> \<exists>b'. bd_end B te b = Some b' \<and> loc b' = Closed"
    and "loc b = Closed \<Longrightarrow> \<exists>b'. bd_end_function B b = Some b' \<and> loc b' = Done"
    and "loc b \<noteq> NoFunction \<Longrightarrow> bd_main_id B b \<noteq> None"
    and "bd_selected B b \<longleftrightarrow> loc b = InBlock" and "bd_has_function B b \<longleftrightarrow> loc b \<noteq> NoFunction"
    and "bd_has_block B b \<longleftrightarrow> loc b = InBlock \<or> loc b = Closed \<or> loc b = Done" and "loc (bd_new B) = NoFunction"
  using assms by (simp_all add: builder_laws_def) blast

text \<open>A method started where \<open>P\<close> holds of the place ends with an error of the source, a panic if they are expected, or
  where \<open>Q\<close> does.\<close>

definition moves :: "bool \<Rightarrow> ('b \<Rightarrow> pos) \<Rightarrow> pos set \<Rightarrow> ('b, 'a) cg \<Rightarrow> pos set \<Rightarrow> bool" where
  "moves pp loc P m Q \<longleftrightarrow>
     (\<forall>c. loc (bld c) \<in> P \<longrightarrow> (case m c of Inl e \<Rightarrow> e = BadSource \<or> pp \<and> e = GenPanic | Inr (x, c') \<Rightarrow> loc (bld c') \<in> Q))"

named_theorems moves

lemma moves_bind [moves]: "moves pp loc P m Q \<Longrightarrow> (\<And>x. moves pp loc Q (f x) R) \<Longrightarrow> moves pp loc P (cbind m f) R"
  unfolding moves_def cbind_def by (fastforce split: sum.splits prod.splits)

lemma moves_seq [moves]: "moves pp loc P m Q \<Longrightarrow> moves pp loc Q m' R \<Longrightarrow> moves pp loc P (cseq m m') R"
  unfolding cseq_def by (rule moves_bind)

lemma moves_pure [moves]:
  "moves pp loc P (cg_ok x) P" "moves pp loc P cg_err Q" "moves pp loc P (cg_get f) P" "moves pp loc P (need y) P"
  by (auto simp: moves_def cg_ok_def cg_err_def cg_get_def need_def split: option.splits)

lemma moves_update: "(\<And>c. bld (f c) = bld c) \<Longrightarrow> moves pp loc P (cg_update f) P"
  by (simp add: moves_def cg_update_def)

lemma moves_weaken: "moves pp loc P' m Q' \<Longrightarrow> P \<subseteq> P' \<Longrightarrow> Q' \<subseteq> Q \<Longrightarrow> moves pp loc P m Q"
  unfolding moves_def by (fastforce split: sum.splits prod.splits)

lemma moves_with: "(\<And>b. loc (snd (f b)) = loc b) \<Longrightarrow> moves pp loc P (with_bld f) P"
  by (simp add: moves_def with_bld_def split: prod.splits) (metis snd_conv)

lemma moves_on: "(\<And>b. loc (f b) = loc b) \<Longrightarrow> moves pp loc P (on_bld f) P"
  by (simp add: moves_def on_bld_def)

lemma moves_try: "(\<And>b. loc b \<in> P \<Longrightarrow> \<exists>x b'. f b = Some (x, b') \<and> loc b' \<in> Q) \<Longrightarrow> moves pp loc P (try_bld f) Q"
  unfolding moves_def try_bld_def by fastforce

lemma moves_try_on: "(\<And>b. loc b \<in> P \<Longrightarrow> \<exists>b'. f b = Some b' \<and> loc b' \<in> Q) \<Longrightarrow> moves pp loc P (try_on f) Q"
  unfolding moves_def try_on_def by fastforce

lemma moves_each [moves]: "(\<And>x. x \<in> set xs \<Longrightarrow> moves pp loc P (f x) P) \<Longrightarrow> moves pp loc P (each f xs) P"
  by (induction xs) (auto intro: moves)

lemma moves_collect [moves]: "(\<And>x. x \<in> set xs \<Longrightarrow> moves pp loc P (f x) P) \<Longrightarrow> moves pp loc P (collect f xs) P"
  by (induction xs) (auto intro!: moves)

lemma moves_if [moves]: "(b \<Longrightarrow> moves pp loc P m Q) \<Longrightarrow> (\<not> b \<Longrightarrow> moves pp loc P m' Q) \<Longrightarrow> moves pp loc P (if b then m else m') Q"
  by simp

lemma moves_let [moves]: "moves pp loc P (f x) Q \<Longrightarrow> moves pp loc P (Let x f) Q"
  by simp

lemma moves_prod [moves]: "(\<And>x y. p = (x, y) \<Longrightarrow> moves pp loc P (f x y) Q) \<Longrightarrow> moves pp loc P (case p of (x, y) \<Rightarrow> f x y) Q"
  by (cases p) simp

lemma moves_option [moves]:
  "(x = None \<Longrightarrow> moves pp loc P m Q) \<Longrightarrow> (\<And>y. x = Some y \<Longrightarrow> moves pp loc P (f y) Q) \<Longrightarrow>
   moves pp loc P (case x of None \<Rightarrow> m | Some y \<Rightarrow> f y) Q"
  by (cases x) simp_all

lemma moves_type_case [moves]:
  "(ty = TyVoid \<Longrightarrow> moves pp loc P a Q) \<Longrightarrow> (\<And>k. ty = TyScalar k \<Longrightarrow> moves pp loc P (f1 k) Q) \<Longrightarrow>
   (\<And>k n. ty = TyVector k n \<Longrightarrow> moves pp loc P (f2 k n) Q) \<Longrightarrow> (\<And>k n m. ty = TyMatrix k n m \<Longrightarrow> moves pp loc P (f3 k n m) Q) \<Longrightarrow>
   (\<And>s. ty = TyStruct s \<Longrightarrow> moves pp loc P (f4 s) Q) \<Longrightarrow> (ty = TyTexture2D \<Longrightarrow> moves pp loc P b Q) \<Longrightarrow>
   (ty = TySamplerState \<Longrightarrow> moves pp loc P c Q) \<Longrightarrow>
   moves pp loc P (case ty of TyVoid \<Rightarrow> a | TyScalar k \<Rightarrow> f1 k | TyVector k n \<Rightarrow> f2 k n | TyMatrix k n m \<Rightarrow> f3 k n m
     | TyStruct s \<Rightarrow> f4 s | TyTexture2D \<Rightarrow> b | TySamplerState \<Rightarrow> c) Q"
  by (cases ty) simp_all

lemma moves_kind_case [moves]:
  "(k = SkFloat \<Longrightarrow> moves pp loc P a Q) \<Longrightarrow> (k = SkInt \<Longrightarrow> moves pp loc P b Q) \<Longrightarrow> (k = SkUint \<Longrightarrow> moves pp loc P c Q) \<Longrightarrow>
   (k = SkBool \<Longrightarrow> moves pp loc P d Q) \<Longrightarrow>
   moves pp loc P (case k of SkFloat \<Rightarrow> a | SkInt \<Rightarrow> b | SkUint \<Rightarrow> c | SkBool \<Rightarrow> d) Q"
  by (cases k) simp_all

lemma moves_list_case [moves]:
  "(xs = [] \<Longrightarrow> moves pp loc P a Q) \<Longrightarrow> (\<And>y ys. xs = y # ys \<Longrightarrow> moves pp loc P (f y ys) Q) \<Longrightarrow>
   moves pp loc P (case xs of [] \<Rightarrow> a | y # ys \<Rightarrow> f y ys) Q"
  by (cases xs) simp_all

lemma moves_bool_case [moves]:
  "(b \<Longrightarrow> moves pp loc P m Q) \<Longrightarrow> (\<not> b \<Longrightarrow> moves pp loc P m' Q) \<Longrightarrow> moves pp loc P (case b of True \<Rightarrow> m | False \<Rightarrow> m') Q"
  by (cases b) simp_all

lemma laws_moves [moves]:
  assumes "builder_laws B loc"
  shows "moves pp loc P (with_bld (bd_type B d)) P" and "moves pp loc P (with_bld (bd_id B)) P"
    and "moves pp loc P (with_bld (bd_variable B p st)) P" and "moves pp loc P (on_bld (bd_note B n)) P"
    and "moves pp loc P (on_bld (bd_const B k t i)) P" and "moves pp loc P (on_bld (bd_hoist B p i)) P"
  using assms by (auto simp: builder_laws_def intro!: moves_with moves_on)

lemma open_moves [moves]:
  assumes "builder_laws B loc"
  shows "moves pp loc {InBlock} (try_bld (bd_inst B i t)) {InBlock}" and "moves pp loc {InBlock} (try_on (bd_insert B opc t j as)) {InBlock}"
    and "moves pp loc {InBlock} (try_on (bd_effect B e)) {InBlock}" and "moves pp loc {InBlock} (try_on (bd_end B te)) {Closed}"
    and "moves pp loc {Closed} (try_on (bd_end_function B)) {Done}"
    and "P \<subseteq> {NoBlock, Closed} \<Longrightarrow> moves pp loc P (try_on (bd_begin_block B l)) {InBlock}"
    and "moves pp loc {NoFunction} (try_on (bd_begin_function B v ft)) {NoBlock}"
proof -
  note L = builder_lawsD [OF assms]
  show "moves pp loc {InBlock} (try_bld (bd_inst B i t)) {InBlock}" using L(3) by (intro moves_try) simp
  show "moves pp loc {InBlock} (try_on (bd_insert B opc t j as)) {InBlock}" using L(4) by (intro moves_try_on) simp
  show "moves pp loc {InBlock} (try_on (bd_effect B e)) {InBlock}" using L(5) by (intro moves_try_on) simp
  show "moves pp loc {InBlock} (try_on (bd_end B te)) {Closed}" using L(6) by (intro moves_try_on) simp
  show "moves pp loc {Closed} (try_on (bd_end_function B)) {Done}" using L(7) by (intro moves_try_on) simp
  show "moves pp loc P (try_on (bd_begin_block B l)) {InBlock}" if "P \<subseteq> {NoBlock, Closed}"
    using L(2) that by (intro moves_try_on) blast
  show "moves pp loc {NoFunction} (try_on (bd_begin_function B v ft)) {NoBlock}" using L(1) by (intro moves_try_on) simp
qed

section \<open>Types, constants, instructions\<close>

lemma moves_scalar [moves]: "moves pp loc P (scalar_type_id k) P"
  by (cases k) (simp_all add: moves)

lemma moves_vector [moves]: "builder_laws B loc \<Longrightarrow> moves pp loc P (vector_type_id B k n) P"
  unfolding vector_type_id_def by (rule moves | assumption)+

lemma moves_type_id [moves]: "builder_laws B loc \<Longrightarrow> moves pp loc P (type_id B ty) P"
  by (cases ty) (simp_all, (rule moves | assumption)+)

lemma moves_image [moves]: "builder_laws B loc \<Longrightarrow> moves pp loc P (image_type_id B) P"
  unfolding image_type_id_def by (rule moves | assumption)+

lemma moves_value_type [moves]: "builder_laws B loc \<Longrightarrow> moves pp loc P (value_type_id B ty) P"
  by (cases ty) (simp_all add: moves del: type_id.simps, (rule moves | assumption)+)

lemma moves_const [moves]:
  assumes "builder_laws B loc"
  shows "moves pp loc P (const_op B k t) P" and "moves pp loc P (float_const B v) P" and "moves pp loc P (int_const B w sg) P"
    and "moves pp loc P (bool_const B b) P"
  by (insert assms, unfold const_op_def float_const_def int_const_def bool_const_def, (rule moves | assumption)+)

lemma moves_inst [moves]:
  assumes "builder_laws B loc"
  shows "moves pp loc {InBlock} (inst_of B i t) {InBlock}" and "moves pp loc {InBlock} (push_block_inst B opc t j as) {InBlock}"
    and "moves pp loc {InBlock} (raw_inst B opc t as ty) {InBlock}" and "moves pp loc {InBlock} (store B p v) {InBlock}"
    and "moves pp loc {InBlock} (load B t p) {InBlock}"
  by (insert assms, unfold inst_of_def push_block_inst_def raw_inst_def store_def load_def, (rule moves | assumption)+)

lemma moves_need: "(\<And>x. y = Some x \<Longrightarrow> moves pp loc P (k x) R) \<Longrightarrow> moves pp loc P (cbind (need y) k) R"
  by (cases y) (simp_all add: moves_def cbind_def need_def)

lemma moves_known:
  "(\<And>c. loc (bld c) \<in> P \<Longrightarrow> f c = v) \<Longrightarrow> moves pp loc P (k v) R \<Longrightarrow> moves pp loc P (cbind (cg_get f) k) R"
  by (simp add: moves_def cbind_def cg_get_def)

lemma moves_terminated:
  fixes B :: "'a builder"
  assumes "builder_laws B loc" and "moves pp loc (P \<inter> {InBlock}) (k False) R" and "moves pp loc (P - {InBlock}) (k True) R"
  shows "moves pp loc P (cbind (is_terminated B) k) R"
  unfolding moves_def
proof (intro allI impI)
  fix c :: "'a ctx" assume c: "loc (bld c) \<in> P"
  have "cbind (is_terminated B) k c = k (loc (bld c) \<noteq> InBlock) c"
    by (simp add: cbind_def is_terminated_def cg_get_def builder_lawsD(9) [OF assms(1)])
  then show "case cbind (is_terminated B) k c of Inl e \<Rightarrow> e = BadSource \<or> pp \<and> e = GenPanic | Inr (x, c') \<Rightarrow> loc (bld c') \<in> R"
    using assms(2,3) c unfolding moves_def by (cases "loc (bld c) = InBlock") simp_all
qed

lemma moves_alloc [moves]:
  assumes "builder_laws B loc"
  shows "moves pp loc {InBlock} (alloc_local B ty) {InBlock}"
  unfolding alloc_local_def
  by (rule moves_bind [OF moves_type_id [OF assms]], rule moves_bind [OF laws_moves(1) [OF assms]],
      rule moves_bind [OF laws_moves(2) [OF assms]], rule moves_known [where v = True])
    (simp add: builder_lawsD(10,11) [OF assms], simp, insert assms, (rule moves | assumption)+)

lemma moves_broadcast_const [moves]:
  "builder_laws B loc \<Longrightarrow> moves pp loc {InBlock} (broadcast_const B k ty) {InBlock}"
  unfolding broadcast_const_def by (rule moves | assumption)+

lemma moves_coerce_scalar [moves]: "builder_laws B loc \<Longrightarrow> moves pp loc {InBlock} (coerce_scalar B v k) {InBlock}"
  unfolding coerce_scalar_def by (rule moves | assumption)+

lemma moves_coerce [moves]: "builder_laws B loc \<Longrightarrow> moves pp loc {InBlock} (coerce B v ty) {InBlock}"
  unfolding coerce_def by (rule moves | assumption)+

lemma moves_coerce_to_bool [moves]: "builder_laws B loc \<Longrightarrow> moves pp loc {InBlock} (coerce_to_bool B v) {InBlock}"
  unfolding coerce_to_bool_def by (rule moves | assumption)+

lemma moves_ops [moves]:
  assumes "builder_laws B loc"
  shows "moves pp loc {InBlock} (emit_arith B bop l lty r rty) {InBlock}" and "moves pp loc {InBlock} (emit_comparison B bop lv rv) {InBlock}"
    and "moves pp loc {InBlock} (emit_unary_val B uop v) {InBlock}" and "moves pp loc {InBlock} (emit_cast_val B ty v) {InBlock}"
    and "moves pp loc {InBlock} (emit_swizzle B v member k) {InBlock}" and "moves pp loc {InBlock} (emit_saturate B v) {InBlock}"
    and "moves pp loc {InBlock} (emit_dot B lv rv) {InBlock}" and "moves pp loc {InBlock} (emit_ext B name num vs) {InBlock}"
  by (insert assms, unfold emit_arith_def emit_comparison_def emit_unary_val_def emit_cast_val_def emit_swizzle_def
      emit_saturate_def glsl_unarylike_or_clamp_def emit_dot_def emit_ext_def, (rule moves | assumption)+)

lemma moves_logical: "builder_laws B loc \<Longrightarrow> bop = And \<or> bop = Or \<Longrightarrow> moves pp loc {InBlock} (emit_logical B bop l r) {InBlock}"
  unfolding emit_logical_def by (erule disjE; simp; (rule moves | assumption)+)

lemma moves_mul [moves]: "builder_laws B loc \<Longrightarrow> moves pp loc {InBlock} (mul_vals B a b) {InBlock}"
  unfolding mul_vals_def prod.case by (rule moves | assumption)+

lemma moves_ident_place [moves]: "builder_laws B loc \<Longrightarrow> moves pp loc {InBlock} (emit_ident_place B name) {InBlock}"
  unfolding emit_ident_place_def prod.case by (rule moves | assumption)+

lemma moves_place [moves]: "builder_laws B loc \<Longrightarrow> moves pp loc {InBlock} (emit_place B e) {InBlock}"
proof (induction B e rule: emit_place.induct)
  case (2 B e member)
  show ?case
    unfolding emit_place.simps by (insert 2(2), rule moves_bind [OF 2(1)], assumption, (rule moves | assumption)+)
qed (simp_all add: moves)

section \<open>Expressions\<close>

text \<open>The calls whose type inference looks at an argument have that argument.\<close>

fun calls_ok :: "expr \<Rightarrow> bool" where
  "calls_ok (EConstruct _ as) \<longleftrightarrow> (\<forall>a \<in> set as. calls_ok a)"
| "calls_ok (ECall name as) \<longleftrightarrow>
     (name \<in> set (''dot'' # inferable) \<longrightarrow> as \<noteq> []) \<and> (name = ''mul'' \<longrightarrow> 2 \<le> length as) \<and> (\<forall>a \<in> set as. calls_ok a)"
| "calls_ok (EMethodCall e _ as) \<longleftrightarrow> calls_ok e \<and> (\<forall>a \<in> set as. calls_ok a)"
| "calls_ok (EMember e _) \<longleftrightarrow> calls_ok e"
| "calls_ok (EBinary _ l r) \<longleftrightarrow> calls_ok l \<and> calls_ok r"
| "calls_ok (EUnary _ e) \<longleftrightarrow> calls_ok e"
| "calls_ok (ECast _ e) \<longleftrightarrow> calls_ok e"
| "calls_ok _ \<longleftrightarrow> True"

lemma infer_call:
  assumes "infer_type c (ECall name as) = Inl er" and "\<And>a er. a \<in> set as \<Longrightarrow> infer_type c a = Inl er \<Longrightarrow> er = BadSource \<or> er = GenPanic \<and> \<not> calls_ok a"
  shows "er = BadSource \<or> er = GenPanic \<and> \<not> calls_ok (ECall name as)"
proof (cases "name \<noteq> ''length'' \<and> name \<in> set (''dot'' # ''mul'' # inferable)")
  case False
  then show ?thesis using assms(1) unfolding infer_type.simps by (metis Inl_inject sum.distinct(1))
next
  case True
  then have e: "infer_type c (ECall name as) =
      (case as of
           [] \<Rightarrow> Inl GenPanic
         | a # rest \<Rightarrow>
             (case infer_type c a of
                Inl er \<Rightarrow> Inl er
              | Inr t \<Rightarrow>
                  if name = ''dot'' then Inr (case t of TyVector k _ \<Rightarrow> TyScalar k | _ \<Rightarrow> t)
                  else if name = ''mul'' then
                    (case rest of
                       [] \<Rightarrow> Inl GenPanic
                     | b # _ \<Rightarrow> (case infer_type c b of Inl er \<Rightarrow> Inl er | Inr u \<Rightarrow> Inr (infer_mul t u)))
                  else Inr t))" by (simp only: infer_type.simps if_True if_False)
  show ?thesis
  proof (cases as)
    case Nil
    then show ?thesis using True e assms(1) by auto
  next
    case (Cons a rest)
    show ?thesis
    proof (cases "infer_type c a")
      case (Inl er')
      then show ?thesis using e assms(1) assms(2) [of a er'] Cons by (auto simp: calls_ok.simps(2))
    next
      case (Inr t)
      then have m: "name = ''mul''" "name \<noteq> ''dot''" using e assms(1) Cons by (auto split: if_splits)
      show ?thesis
      proof (cases rest)
        case Nil
        then show ?thesis using e assms(1) Cons Inr m by auto
      next
        case (Cons b r)
        then show ?thesis using e assms(1) assms(2) [of b] \<open>as = a # rest\<close> Inr m by (auto split: sum.splits)
      qed
    qed
  qed
qed

lemma infer_errors: "infer_type c e = Inl er \<Longrightarrow> er = BadSource \<or> er = GenPanic \<and> \<not> calls_ok e"
proof (induction e arbitrary: er)
  case (ECall name as)
  show ?case by (rule infer_call [OF ECall(2)]) (use ECall(1) in blast)
next
  case (EMember e member)
  then show ?case by (auto split: sum.splits type.splits option.splits)
next
  case (EBinary bop l r)
  then show ?case by (auto split: sum.splits if_splits)
qed (auto split: option.splits if_splits)

lemma moves_infer:
  assumes "pp \<or> calls_ok e"
  shows "moves pp loc P (\<lambda>c. case infer_type c e of Inl er \<Rightarrow> Inl er | Inr t \<Rightarrow> Inr (t, c)) P"
  using assms infer_errors unfolding moves_def by (fastforce split: sum.splits)

lemma moves_literal [moves]: "builder_laws B loc \<Longrightarrow> moves pp loc P (emit_literal B l) P"
  unfolding emit_literal_def Let_def by (cases l; simp; (rule moves | assumption)+)

lemma moves_ident [moves]:
  assumes "builder_laws B loc"
  shows "moves pp loc {InBlock} (emit_ident B name) {InBlock}" and "moves pp loc {InBlock} (emit_field B e member) {InBlock}"
    and "moves pp loc {InBlock} (construct_vector B ty t ids) {InBlock}" and "moves pp loc {InBlock} (sample_image B p) {InBlock}"
    and "moves pp loc {InBlock} (sample_with B im sv xv) {InBlock}"
  by (insert assms, unfold emit_ident_def emit_field_def construct_vector_def sample_image_def sample_with_def, (rule moves | assumption)+)

lemma moves_broadcast [moves]: "builder_laws B loc \<Longrightarrow> moves pp loc {InBlock} (broadcast B ty n t v) {InBlock}"
  unfolding broadcast_def by (rule moves | assumption)+

lemma moves_args:
  "(\<And>a. a \<in> set as \<Longrightarrow> moves pp loc P (emit_expr B a) P) \<Longrightarrow> moves pp loc P (emit_args B as) P"
  by (induction as) (auto intro!: moves_bind moves_pure)

lemma moves_expr:
  assumes B: "builder_laws B loc"
  shows "pp \<or> calls_ok e \<Longrightarrow> moves pp loc {InBlock} (emit_expr B e) {InBlock}"
proof (induction e)
  case (EConstruct ty args)
  have a: "moves pp loc {InBlock} (emit_expr B a) {InBlock}" if "a \<in> set args" for a using EConstruct that by auto
  note arg = a moves_args [OF a]
  show ?case
    unfolding emit_expr.simps by (insert B, (rule moves | assumption | rule arg, simp)+)
next
  case (ECall name args)
  have a: "moves pp loc {InBlock} (emit_expr B a) {InBlock}" if "a \<in> set args" for a using ECall that by auto
  note arg = a moves_args [OF a]
  show ?case
    unfolding emit_expr.simps prod.case by (insert B, (rule moves | assumption | rule arg, simp)+)
next
  case (EMethodCall e meth args)
  have a: "moves pp loc {InBlock} (emit_expr B a) {InBlock}" if "a \<in> set args" for a using EMethodCall that by auto
  show ?case
    unfolding emit_expr.simps by (insert B, (rule moves | assumption | rule a, simp)+)
next
  case (EMember e member)
  then have e: "moves pp loc {InBlock} (emit_expr B e) {InBlock}" "pp \<or> calls_ok e" by auto
  show ?case
    unfolding emit_expr.simps by (insert B, rule moves_bind [OF moves_infer [OF e(2)]], (rule moves | assumption | rule e)+)
next
  case (EBinary bop l r)
  then have lr: "moves pp loc {InBlock} (emit_expr B l) {InBlock}" "moves pp loc {InBlock} (emit_expr B r) {InBlock}" by auto
  show ?case
    unfolding emit_expr.simps by (insert B, (rule moves | assumption | rule lr | rule moves_logical)+)
next
  case (EUnary uop e)
  then show ?case using B by (auto intro!: moves_bind moves_ops)
next
  case (ECast ty e)
  then show ?case using B by (auto intro!: moves_bind moves_ops)
qed (insert B, simp_all add: moves)

section \<open>Statements\<close>

definition opt_ok :: "('a \<Rightarrow> bool) \<Rightarrow> 'a option \<Rightarrow> bool" where
  "opt_ok f x \<longleftrightarrow> (case x of None \<Rightarrow> True | Some y \<Rightarrow> f y)"

lemma opt_ok_simps [simp]: "opt_ok f None" "opt_ok f (Some x) \<longleftrightarrow> f x"
  by (simp_all add: opt_ok_def)

fun stmt_calls :: "stmt \<Rightarrow> bool" and block_calls :: "block \<Rightarrow> bool" where
  "stmt_calls (SReturn e) \<longleftrightarrow> opt_ok calls_ok e"
| "stmt_calls (SVarDecl vd) \<longleftrightarrow> opt_ok calls_ok (vd_init vd)"
| "stmt_calls (SExpr e) \<longleftrightarrow> calls_ok e"
| "stmt_calls (SIf e b els) \<longleftrightarrow> calls_ok e \<and> block_calls b \<and> (case els of None \<Rightarrow> True | Some b \<Rightarrow> block_calls b)"
| "stmt_calls (SFor init e u b) \<longleftrightarrow>
     (case init of None \<Rightarrow> True | Some s \<Rightarrow> stmt_calls s) \<and> opt_ok calls_ok e \<and> opt_ok calls_ok u \<and> block_calls b"
| "stmt_calls (SBlock b) \<longleftrightarrow> block_calls b"
| "block_calls (Block ss) \<longleftrightarrow> (\<forall>s \<in> set ss. stmt_calls s)"

lemma moves_control [moves]:
  assumes "builder_laws B loc"
  shows "moves pp loc {InBlock} (finish_with B t) {Closed}" and "moves pp loc {InBlock} (try_on (bd_effect B e)) {InBlock}"
    and "moves pp loc {Closed} (begin_block B l) {InBlock}"
  by (insert assms, unfold finish_with_def begin_block_def, (rule moves | assumption | simp)+)

lemma moves_branch_unless [moves]:
  assumes "builder_laws B loc"
  shows "moves pp loc {InBlock, Closed} (branch_unless_terminated B l) {Closed}"
  unfolding branch_unless_terminated_def
  by (rule moves_terminated [OF assms]) (insert moves_control(1) [OF assms] moves_pure(1) [where P = "{Closed}"], auto)

lemma moves_return: "builder_laws B loc \<Longrightarrow> pp \<or> opt_ok calls_ok e \<Longrightarrow> moves pp loc {InBlock} (emit_return B e) {Closed}"
  unfolding emit_return_def by (rule moves | assumption | rule moves_expr | simp)+

lemma moves_push_local [moves]: "moves pp loc P (push_local name p ty) P"
  unfolding push_local_def by (rule moves_update) simp

lemma moves_var_decl:
  "builder_laws B loc \<Longrightarrow> pp \<or> opt_ok calls_ok (vd_init vd) \<Longrightarrow> moves pp loc {InBlock} (emit_var_decl B vd) {InBlock}"
  unfolding emit_var_decl_def by (rule moves | assumption | rule moves_expr | simp)+

lemma moves_if_head: "builder_laws B loc \<Longrightarrow> pp \<or> calls_ok e \<Longrightarrow> moves pp loc {InBlock} (if_head B e has_else) {Closed}"
  unfolding if_head_def by (rule moves | assumption | rule moves_expr)+

lemma moves_loop_head: "builder_laws B loc \<Longrightarrow> pp \<or> opt_ok calls_ok e \<Longrightarrow> moves pp loc {InBlock} (loop_head B e) {Closed}"
  unfolding loop_head_def by (rule moves | assumption | rule moves_expr | simp)+

lemma moves_loop_tail:
  "builder_laws B loc \<Longrightarrow> pp \<or> opt_ok calls_ok u \<Longrightarrow> moves pp loc {InBlock, Closed} (loop_tail B h co m u) {InBlock}"
  unfolding loop_tail_def by (rule moves | assumption | rule moves_expr | simp)+

lemma moves_both: "moves pp loc P m {Closed} \<Longrightarrow> moves pp loc P m {InBlock, Closed}" "moves pp loc P m {InBlock} \<Longrightarrow> moves pp loc P m {InBlock, Closed}"
  by (auto elim: moves_weaken)

lemma moves_stmt:
  "builder_laws B loc \<Longrightarrow> pp \<or> stmt_calls s \<Longrightarrow> moves pp loc {InBlock} (emit_stmt B s) {InBlock, Closed}"
  "builder_laws B loc \<Longrightarrow> pp \<or> block_calls b \<Longrightarrow> moves pp loc {InBlock} (emit_block B b) {InBlock, Closed}"
  "builder_laws B loc \<Longrightarrow> pp \<or> (\<forall>s \<in> set ss. stmt_calls s) \<Longrightarrow> moves pp loc {InBlock} (emit_stmts B ss) {InBlock, Closed}"
proof (induction B s and B b and B ss rule: emit_stmt_emit_block_emit_stmts.induct)
  case (1 B e)
  then show ?case by (auto intro!: moves_both(1) moves_return)
next
  case (2 B vd)
  then show ?case by (auto intro!: moves_both(2) moves_var_decl)
next
  case (3 B e)
  then have "moves pp loc {InBlock} (emit_expr B e) {InBlock}" by (intro moves_expr) simp_all
  then show ?case unfolding emit_stmt.simps by - (rule moves_both(2), rule moves_bind, assumption, rule moves_pure)
next
  case (4 B cond thn els)
  have branch: "moves pp loc {InBlock} (emit_block B thn) {InBlock, Closed}" "\<And>b. els = Some b \<Longrightarrow> moves pp loc {InBlock} (emit_block B b) {InBlock, Closed}"
    using 4 by auto
  have e: "pp \<or> calls_ok cond" using 4(4) by auto
  show ?case
    unfolding emit_stmt.simps
    by (insert 4(3), rule moves_both(2), rule moves_bind [OF moves_if_head [OF 4(3) e]], (rule moves | assumption | rule branch)+)
next
  case (5 B init cond update body)
  have i: "\<And>s. init = Some s \<Longrightarrow> moves pp loc {InBlock} (emit_stmt B s) {InBlock, Closed}" using 5 by auto
  have b: "moves pp loc {InBlock} (emit_block B body) {InBlock, Closed}" using 5(2-) by auto
  have e: "pp \<or> opt_ok calls_ok cond" "pp \<or> opt_ok calls_ok update" using 5(4) by auto
  have ini: "moves pp loc {InBlock} (case init of None \<Rightarrow> cg_ok () | Some s \<Rightarrow> emit_stmt B s) {InBlock, Closed}"
    using i by (cases init) (auto intro: moves_both moves_pure)
  have run: "moves pp loc {InBlock} (cbind (loop_head B cond) (\<lambda>(header, body_l, cont, merge).
      cseq (begin_block B (Some body_l)) (cseq (emit_block B body) (loop_tail B header cont merge update)))) {InBlock}"
    by (insert 5(3), rule moves_bind [OF moves_loop_head [OF 5(3) e(1)]], (rule moves | assumption | rule b | rule moves_loop_tail [OF 5(3) e(2)])+)
  show ?case
    unfolding emit_stmt.simps
  proof (rule moves_seq [OF ini], rule moves_terminated [OF 5(3)])
    show "moves pp loc ({InBlock, Closed} \<inter> {InBlock}) (if False then cg_ok () else cbind (loop_head B cond) (\<lambda>(header, body_l, cont, merge).
      cseq (begin_block B (Some body_l)) (cseq (emit_block B body) (loop_tail B header cont merge update)))) {InBlock, Closed}"
      using moves_both(2) [OF run] by simp
    show "moves pp loc ({InBlock, Closed} - {InBlock}) (if True then cg_ok () else cbind (loop_head B cond) (\<lambda>(header, body_l, cont, merge).
      cseq (begin_block B (Some body_l)) (cseq (emit_block B body) (loop_tail B header cont merge update)))) {InBlock, Closed}"
      using moves_both(1) [OF moves_pure(1)] by simp
  qed
next
  case (9 B s ss)
  have s: "moves pp loc {InBlock} (emit_stmt B s) {InBlock, Closed}" using 9 by auto
  have "moves pp loc {InBlock} (emit_stmts B ss) {InBlock, Closed}" using 9(2) [of False] 9(3,4) by auto
  then show ?case
    unfolding emit_stmts.simps
    by (intro moves_seq [OF s] moves_terminated [OF 9(3)]) (auto intro: moves_both(1) moves_pure)
qed (auto intro: moves_both(2) moves_pure)

section \<open>Globals and the entry point\<close>

lemma moves_put [moves]:
  "moves pp loc P (put_struct name si) P" "moves pp loc P (put_global name q ty) P" "moves pp loc P (push_interface v) P"
  unfolding put_struct_def put_global_def push_interface_def by (rule moves_update; simp)+

lemma moves_resource [moves]: "builder_laws B loc \<Longrightarrow> moves pp loc P (bind_resource B v name reg) P"
  unfolding bind_resource_def by (rule moves | assumption)+

lemma moves_decl [moves]: "builder_laws B loc \<Longrightarrow> moves pp loc P (emit_decl B d) P"
  unfolding emit_decl_def register_struct_def emit_cbuffer_def emit_global_var_def cbuffer_member_def Let_def
  by (cases d; simp only: decl.case; (rule moves | assumption | rule moves_update, simp)+)

lemma moves_io [moves]:
  assumes "builder_laws B loc"
  shows "moves pp loc P (decorate_struct_io B ms t out) P" and "moves pp loc P (decorate_io_var B v sem out) P"
  by (insert assms, unfold decorate_struct_io_def decorate_io_var_def, (rule moves | assumption)+)

lemma moves_inout [moves]:
  assumes "builder_laws B loc"
  shows "moves pp loc P (emit_input B p) P" and "moves pp loc P (emit_output B f) P"
  by (insert assms, unfold emit_input_def emit_output_def Let_def, (rule moves | assumption | rule moves_update, simp)+)

lemma moves_bind_param [moves]: "builder_laws B loc \<Longrightarrow> moves pp loc {InBlock} (bind_param B x) {InBlock}"
  unfolding bind_param_def by (rule moves | assumption)+

lemma moves_begin_entry: "builder_laws B loc \<Longrightarrow> moves pp loc {NoFunction} (begin_entry_function B) {InBlock}"
  unfolding begin_entry_function_def begin_block_def by (rule moves | assumption | simp)+

lemma moves_function_body:
  assumes B: "builder_laws B loc" and "pp \<or> opt_ok block_calls (fd_body f)"
  shows "moves pp loc {InBlock} (emit_function_body B f) {Done}"
proof -
  have ret: "moves pp loc {InBlock, Closed} (cbind (is_terminated B) (\<lambda>t. if t then cg_ok () else finish_with B Ret)) {Closed}"
    by (rule moves_terminated [OF B]) (insert moves_control(1) [OF B] moves_pure(1) [where P = "{Closed}"], auto)
  have body: "moves pp loc {InBlock} (cbind (need (fd_body f)) (\<lambda>body. cseq (emit_block B body)
     (cseq (cbind (is_terminated B) (\<lambda>t. if t then cg_ok () else finish_with B Ret)) (try_on (bd_end_function B))))) {Done}"
  proof (rule moves_need)
    fix b assume "fd_body f = Some b"
    then have "moves pp loc {InBlock} (emit_block B b) {InBlock, Closed}" using assms(2) by (intro moves_stmt [OF B]) simp
    then show "moves pp loc {InBlock} (cseq (emit_block B b)
     (cseq (cbind (is_terminated B) (\<lambda>t. if t then cg_ok () else finish_with B Ret)) (try_on (bd_end_function B)))) {Done}"
      by (rule moves_seq [OF _ moves_seq [OF ret open_moves(5) [OF B]]])
  qed
  show ?thesis
    unfolding emit_function_body_def input_of_def
    by (insert B, (rule body | rule moves | assumption)+)
qed

lemma moves_finish: "builder_laws B loc \<Longrightarrow> moves pp loc {Done} (finish_entry_point B f) {Done}"
proof -
  assume B: "builder_laws B loc"
  show ?thesis
    unfolding moves_def
  proof (intro allI impI)
    fix c :: "'a ctx" assume c: "loc (bld c) \<in> {Done}"
    then obtain i where i: "bd_main_id B (bld c) = Some i" using builder_lawsD(8) [OF B, of "bld c"] by auto
    let ?m = "cseq (cg_update (\<lambda>c. c\<lparr>interface := []\<rparr>)) (cseq (add_note B (NEntryPoint (execution_model_of (stage c)) i ''main'' (interface c)))
         (cseq (if stage c = Pixel then add_note B (NExecutionMode i OriginUpperLeft) else cg_ok ()) (add_note B (NName i (fd_name f)))))"
    have e: "finish_entry_point B f c = ?m c" by (simp add: finish_entry_point_def cbind_def cg_get_def i)
    have "moves pp loc {Done} ?m {Done}" by (insert B, (rule moves | assumption | rule moves_update, simp)+)
    then show "case finish_entry_point B f c of Inl e \<Rightarrow> e = BadSource \<or> pp \<and> e = GenPanic | Inr (x, c') \<Rightarrow> loc (bld c') \<in> {Done}"
      using c unfolding e moves_def by blast
  qed
qed

lemma moves_run:
  assumes B: "builder_laws B loc" and ok: "pp \<or> (\<forall>d \<in> set (decls u). case d of DFunction f \<Rightarrow> opt_ok block_calls (fd_body f) | _ \<Rightarrow> True)"
  shows "moves pp loc {NoFunction} (run_codegen B u) {Done}"
proof -
  have main: "moves pp loc {NoFunction} (emit_main B f) {Done}" if "pp \<or> opt_ok block_calls (fd_body f)" for f
    unfolding emit_main_def emit_inputs_def
    by (insert B, (rule moves_begin_entry [OF B] | rule moves_function_body [OF B that] | rule moves_finish [OF B] | rule moves | assumption)+)
  have "moves pp loc {NoFunction} (cbind (need (main_of d)) (emit_main B)) {Done}" if "d \<in> set (decls u)" for d
    using ok that by (intro moves_need main) (auto simp: main_of_def split: decl.splits if_splits)
  then have rest: "moves pp loc {NoFunction} (cbind (need (List.find (\<lambda>d. main_of d \<noteq> None) (decls u))) (\<lambda>d. cbind (need (main_of d)) (emit_main B))) {Done}"
    by (rule moves_need) (auto simp only: find_Some_iff nth_mem)
  have "moves pp loc {NoFunction} (each (emit_decl B) (decls u)) {NoFunction}" by (rule moves_each) (rule moves_decl [OF B])
  then show ?thesis unfolding run_codegen_def emit_globals_def by (rule moves_seq [OF _ rest])
qed

lemma Ctx_new_at: "builder_laws B loc \<Longrightarrow> loc (bld (Ctx_new B st)) = NoFunction"
proof -
  assume B: "builder_laws B loc"
  have keep: "loc (bd_note B n b) = loc b" "loc (snd (bd_type B d b)) = loc b" "loc (snd (bd_import B s b)) = loc b" for n d s b
    using B by (simp_all add: builder_laws_def)
  have ty: "loc b' = loc b" if "bd_type B d b = (i, b')" for d b i b' using keep(2) [of d b] that by simp
  have im: "loc b' = loc b" if "bd_import B d b = (i, b')" for d b i b' using keep(3) [of d b] that by simp
  show ?thesis
    using builder_lawsD(12) [OF B]
    by (simp add: Ctx_new_def Let_def keep(1) split: prod.split) (use ty im keep(1) builder_lawsD(12) [OF B] in metis)
qed

definition unit_calls :: "translation_unit \<Rightarrow> bool" where
  "unit_calls u \<longleftrightarrow> (\<forall>d \<in> set (decls u). case d of DFunction f \<Rightarrow> opt_ok block_calls (fd_body f) | _ \<Rightarrow> True)"

lemma codegen_result:
  assumes "builder_laws B loc" and "pp \<or> unit_calls u"
  shows "case run_codegen B u (Ctx_new B st) of Inl e \<Rightarrow> e = BadSource \<or> pp \<and> e = GenPanic | Inr (_, c) \<Rightarrow> loc (bld c) = Done"
proof -
  have "moves pp loc {NoFunction} (run_codegen B u) {Done}" using moves_run [OF assms(1)] assms(2) by (simp add: unit_calls_def)
  then have "case run_codegen B u (Ctx_new B st) of Inl e \<Rightarrow> e = BadSource \<or> pp \<and> e = GenPanic | Inr (x, c) \<Rightarrow> loc (bld c) \<in> {Done}"
    using Ctx_new_at [OF assms(1), of st] unfolding moves_def by blast
  then show ?thesis by (auto split: sum.splits)
qed

text \<open>The compiler, from the text to the words of the module: an error of the lexer, of the parser or of the generator.\<close>

datatype compile_error = FrontError front_error | CodegenError cg_error

definition compile :: "'b builder \<Rightarrow> string \<Rightarrow> shader_stage \<Rightarrow> (compile_error + u32 list) option" where
  "compile B source st =
     (case front_end source of
        None \<Rightarrow> None
      | Some (Inl e) \<Rightarrow> Some (Inl (FrontError e))
      | Some (Inr u) \<Rightarrow> (case codegen B u st of Inl e \<Rightarrow> Some (Inl (CodegenError e)) | Inr ws \<Rightarrow> Some (Inr ws)))"

text \<open>C20. The generator keeps to the protocol of the builder: it never asks for an instruction outside a block, a block inside a block
  or the end of a function with a block open, whatever the program; when it succeeds the function is closed. It panics only
  where the type of a call that lacks its argument is inferred.\<close>

theorem codegen_keeps_protocol:
  assumes "builder_laws B loc"
  shows "codegen B u st \<noteq> Inl BuilderFailed \<and> (unit_calls u \<longrightarrow> codegen B u st \<noteq> Inl GenPanic) \<and>
    (\<forall>c. run_codegen B u (Ctx_new B st) = Inr ((), c) \<longrightarrow> loc (bld c) = Done \<and> codegen B u st = Inr (bd_assemble B (bld c)))"
  using codegen_result [OF assms, of True u st] codegen_result [OF assms, of False u st]
  by (cases "run_codegen B u (Ctx_new B st)") (auto simp: codegen_def)


lemma missing_argument_panics: "emit_expr B (EMember (ECall ''dot'' []) member) c = Inl GenPanic"
  by (simp add: cbind_def)

text \<open>A builder that only counts identifiers and keeps its place, and a shader with a branch, for the witness.\<close>

definition demo_builder :: "(u32 \<times> pos) builder" where
  "demo_builder = \<lparr>
     bd_new = (1, NoFunction), bd_note = (\<lambda>n b. b), bd_type = (\<lambda>d (n, p). (n, n + 1, p)), bd_import = (\<lambda>s (n, p). (n, n + 1, p)),
     bd_variable = (\<lambda>t s (n, p). (n, n + 1, p)), bd_id = (\<lambda>(n, p). (n, n + 1, p)), bd_const = (\<lambda>k t i b. b),
     bd_begin_function = (\<lambda>v t (n, p). if p = NoFunction then Some (n, NoBlock) else None),
     bd_end_function = (\<lambda>(n, p). if p = Closed then Some (n, Done) else None),
     bd_begin_block = (\<lambda>l (n, p). if p = NoBlock \<or> p = Closed then Some (n, InBlock) else None),
     bd_inst = (\<lambda>i t (n, p). if p = InBlock then Some (n, n + 1, p) else None),
     bd_insert = (\<lambda>opc t i as (n, p). if p = InBlock then Some (n, p) else None),
     bd_effect = (\<lambda>e (n, p). if p = InBlock then Some (n, p) else None),
     bd_end = (\<lambda>t (n, p). if p = InBlock then Some (n, Closed) else None),
     bd_selected = (\<lambda>(n, p). p = InBlock), bd_has_function = (\<lambda>(n, p). p \<noteq> NoFunction),
     bd_has_block = (\<lambda>(n, p). p = InBlock \<or> p = Closed \<or> p = Done), bd_hoist = (\<lambda>t i b. b),
     bd_main_id = (\<lambda>(n, p). if p = NoFunction then None else Some 1), bd_assemble = (\<lambda>(n, p). [n])\<rparr>"

lemma demo_builder_laws: "builder_laws demo_builder snd"
  by (auto simp: builder_laws_def demo_builder_def split: prod.split)

definition demo_shader :: translation_unit where
  "demo_shader = \<lparr>decls = [
     DCBuffer \<lparr>cb_name = ''C'', cb_register = None, cb_members = [\<lparr>sm_ty = TyVector SkFloat 4, sm_name = ''tint'', sm_semantic = None\<rparr>]\<rparr>,
     DFunction \<lparr>fd_return_type = TyVector SkFloat 4, fd_name = ''main'',
       fd_params = [\<lparr>pm_ty = TyScalar SkFloat, pm_name = ''x'', pm_semantic = None\<rparr>], fd_semantic = Some ''SV_Target'',
       fd_body = Some (Block [
         SIf (EBinary OpLt (EIdent ''x'') (ELiteral (LInt 1))) (Block [SReturn (Some (EIdent ''tint''))]) None,
         SReturn (Some (EBinary Mul (EIdent ''tint'') (EConstruct (TyVector SkFloat 4) [EIdent ''x''])))])\<rparr>]\<rparr>"

theorem codegen_keeps_protocol_witness:
  "\<exists>c. run_codegen demo_builder demo_shader (Ctx_new demo_builder Pixel) = Inr ((), c) \<and> snd (bld c) = Done \<and>
     codegen demo_builder demo_shader Pixel = Inr (bd_assemble demo_builder (bld c))"
proof -
  have "isl (codegen demo_builder demo_shader Pixel) = False" by code_simp
  then have "\<not> isl (run_codegen demo_builder demo_shader (Ctx_new demo_builder Pixel))"
    by (auto simp: codegen_def isl_def split: sum.splits)
  then obtain c where c: "run_codegen demo_builder demo_shader (Ctx_new demo_builder Pixel) = Inr ((), c)"
    by (cases "run_codegen demo_builder demo_shader (Ctx_new demo_builder Pixel)") auto
  from codegen_keeps_protocol [OF demo_builder_laws, of demo_shader Pixel] c show ?thesis by blast
qed

end
