(* ===== verification/CodegenTypes.thy ===== *)
theory CodegenTypes
  imports CodegenSpec
begin

text \<open>
  The types the code generator computes with. The generator asks \<open>infer_type\<close> for the type of an expression before it
  emits code for a member of it, and then trusts the answer; here the type inferred is compared with the type of the value
  the code for the expression has. They agree but for a few forms, which are spelled out.
\<close>

section \<open>Emitting changes the builder only\<close>

definition quiet :: "('b, 'a) cg \<Rightarrow> bool" where
  "quiet m \<longleftrightarrow> (\<forall>c. case m c of Inl e \<Rightarrow> True | Inr (x, c') \<Rightarrow> c' = c\<lparr>bld := bld c'\<rparr>)"

named_theorems quiet

lemma quietD: "quiet m \<Longrightarrow> m c = Inr (x, c') \<Longrightarrow> c' = c\<lparr>bld := bld c'\<rparr>"
  unfolding quiet_def by (metis (mono_tags, lifting) case_prod_conv old.sum.simps(6))

lemma quiet_bind [quiet]: "quiet m \<Longrightarrow> (\<And>x. quiet (f x)) \<Longrightarrow> quiet (cbind m f)"
  unfolding quiet_def
proof (intro allI)
  fix c
  assume m: "\<forall>c. case m c of Inl e \<Rightarrow> True | Inr (x, c') \<Rightarrow> c' = c\<lparr>bld := bld c'\<rparr>"
    and f: "\<And>x. \<forall>c. case f x c of Inl e \<Rightarrow> True | Inr (x, c') \<Rightarrow> c' = c\<lparr>bld := bld c'\<rparr>"
  show "case cbind m f c of Inl e \<Rightarrow> True | Inr (x, c') \<Rightarrow> c' = c\<lparr>bld := bld c'\<rparr>"
  proof (cases "m c")
    case (Inr p)
    obtain x c1 where p: "p = (x, c1)" by fastforce
    have c1: "c1 = c\<lparr>bld := bld c1\<rparr>" using m [THEN spec, of c] Inr p by simp
    show ?thesis
    proof (cases "f x c1")
      case Inr2: (Inr q)
      obtain y c2 where q: "q = (y, c2)" by fastforce
      have "c2 = c1\<lparr>bld := bld c2\<rparr>" using f [of x, THEN spec, of c1] Inr2 q by simp
      then have "c2 = c\<lparr>bld := bld c2\<rparr>" by (subst (asm) c1) simp
      then show ?thesis using Inr p Inr2 q by (simp add: cbind_def)
    qed (simp add: cbind_def Inr p)
  qed (simp add: cbind_def)
qed

lemma quiet_seq [quiet]: "quiet m \<Longrightarrow> quiet m' \<Longrightarrow> quiet (cseq m m')"
  unfolding cseq_def by (rule quiet_bind)

lemma quiet_pure [quiet]:
  "quiet (cg_ok x)" "quiet cg_err" "quiet cg_panic" "quiet (cg_get f)" "quiet (need y)" "quiet (with_bld g)" "quiet (on_bld h)"
  "quiet (try_bld t)" "quiet (try_on u)" "quiet (\<lambda>c. Inl e)"
  by (auto simp: quiet_def cg_ok_def cg_err_def cg_panic_def cg_get_def need_def with_bld_def on_bld_def try_bld_def try_on_def
      split: option.splits prod.splits)

lemma quiet_if [quiet]: "quiet m \<Longrightarrow> quiet m' \<Longrightarrow> quiet (if b then m else m')"
  by simp

lemma quiet_let [quiet]: "quiet (f x) \<Longrightarrow> quiet (Let x f)"
  by simp

lemma quiet_prod [quiet]: "(\<And>x y. quiet (f x y)) \<Longrightarrow> quiet (case p of (x, y) \<Rightarrow> f x y)"
  by (cases p) simp

lemma quiet_option [quiet]: "quiet m \<Longrightarrow> (\<And>y. x = Some y \<Longrightarrow> quiet (f y)) \<Longrightarrow> quiet (case x of None \<Rightarrow> m | Some y \<Rightarrow> f y)"
  by (cases x) simp_all

lemma quiet_type_case [quiet]:
  "quiet a \<Longrightarrow> (\<And>k. quiet (f1 k)) \<Longrightarrow> (\<And>k n. quiet (f2 k n)) \<Longrightarrow> (\<And>k n m. quiet (f3 k n m)) \<Longrightarrow> (\<And>s. quiet (f4 s)) \<Longrightarrow>
   quiet b \<Longrightarrow> quiet c \<Longrightarrow>
   quiet (case ty of TyVoid \<Rightarrow> a | TyScalar k \<Rightarrow> f1 k | TyVector k n \<Rightarrow> f2 k n | TyMatrix k n m \<Rightarrow> f3 k n m
     | TyStruct s \<Rightarrow> f4 s | TyTexture2D \<Rightarrow> b | TySamplerState \<Rightarrow> c)"
  by (cases ty) simp_all

lemma quiet_kind_case [quiet]:
  "quiet a \<Longrightarrow> quiet b \<Longrightarrow> quiet c \<Longrightarrow> quiet d \<Longrightarrow> quiet (case k of SkFloat \<Rightarrow> a | SkInt \<Rightarrow> b | SkUint \<Rightarrow> c | SkBool \<Rightarrow> d)"
  by (cases k) simp_all

lemma quiet_list_case [quiet]:
  "quiet a \<Longrightarrow> (\<And>y ys. xs = y # ys \<Longrightarrow> quiet (f y ys)) \<Longrightarrow> quiet (case xs of [] \<Rightarrow> a | y # ys \<Rightarrow> f y ys)"
  by (cases xs) simp_all

lemma quiet_bool_case [quiet]: "quiet m \<Longrightarrow> quiet m' \<Longrightarrow> quiet (case b of True \<Rightarrow> m | False \<Rightarrow> m')"
  by (cases b) simp_all

lemma quiet_scalar [quiet]: "quiet (scalar_type_id k)"
  by (cases k) (simp_all add: quiet)

lemma quiet_vector [quiet]: "quiet (vector_type_id B k n)"
  unfolding vector_type_id_def by (rule quiet)+

lemma quiet_type_id [quiet]: "quiet (type_id B ty)"
  by (cases ty) (simp_all, (rule quiet)+)

lemma quiet_image [quiet]: "quiet (image_type_id B)"
  unfolding image_type_id_def by (rule quiet)+

lemma quiet_value_type [quiet]: "quiet (value_type_id B ty)"
  by (cases ty) (simp_all add: quiet del: type_id.simps)

lemma quiet_ops [quiet]:
  "quiet (const_op B k t)" "quiet (float_const B v)" "quiet (int_const B w sg)" "quiet (bool_const B b)" "quiet (inst_of B i t)"
  "quiet (push_block_inst B opc t j as)" "quiet (raw_inst B opc t as ty)" "quiet (store B p q)" "quiet (load B t p)" "quiet (alloc_local B ty)"
  "quiet (broadcast_const B r ty)" "quiet (coerce_scalar B x k')" "quiet (coerce B x ty)" "quiet (coerce_to_bool B x)"
  "quiet (emit_arith B bop l lty r' rty)" "quiet (emit_comparison B bop x y)" "quiet (emit_unary_val B uop x)" "quiet (emit_cast_val B ty x)"
  "quiet (emit_swizzle B x member k')" "quiet (emit_saturate B x)" "quiet (emit_dot B x y)" "quiet (emit_ext B name num vs)"
  unfolding const_op_def float_const_def int_const_def bool_const_def inst_of_def push_block_inst_def raw_inst_def store_def load_def
    alloc_local_def broadcast_const_def coerce_scalar_def coerce_def coerce_to_bool_def emit_arith_def emit_comparison_def
    emit_unary_val_def emit_cast_val_def emit_swizzle_def emit_saturate_def glsl_unarylike_or_clamp_def emit_dot_def emit_ext_def
  by (rule quiet)+

lemma quiet_logical [quiet]: "quiet (emit_logical B bop x y)"
  unfolding emit_logical_def by (cases bop; simp only: binary_op.case; (rule quiet)+)

lemma quiet_mul [quiet]: "quiet (mul_vals B x y)"
  unfolding mul_vals_def prod.case by (rule quiet)+

lemma quiet_ident_place [quiet]: "quiet (emit_ident_place B name)"
  unfolding emit_ident_place_def prod.case by (rule quiet)+

lemma quiet_literal [quiet]: "quiet (emit_literal B l)"
  unfolding emit_literal_def Let_def by (cases l; simp only: literal.case; (rule quiet)+)

lemma quiet_place [quiet]: "quiet (emit_place B e)"
  by (induction B e rule: emit_place.induct) (simp_all only: emit_place.simps, (rule quiet | assumption)+)

lemma quiet_values [quiet]:
  "quiet (emit_ident B name)" "quiet (emit_field B e member)" "quiet (construct_vector B ty t ids)" "quiet (broadcast B ty n t v)"
  "quiet (sample_image B p)" "quiet (sample_with B im sv xv)"
  unfolding emit_ident_def emit_field_def construct_vector_def broadcast_def sample_image_def sample_with_def by (rule quiet)+

lemma quiet_infer [quiet]: "quiet (\<lambda>c. case infer_type c e of Inl er \<Rightarrow> Inl er | Inr t \<Rightarrow> Inr (t, c))"
  by (auto simp: quiet_def split: sum.splits)

lemma quiet_args: "(\<And>a. a \<in> set as \<Longrightarrow> quiet (emit_expr B a)) \<Longrightarrow> quiet (emit_args B as)"
  by (induction as) (auto intro!: quiet_bind quiet_pure)

lemma quiet_expr [quiet]: "quiet (emit_expr B e)"
proof (induction e)
  case (EConstruct ty args)
  note arg = EConstruct quiet_args [OF EConstruct]
  show ?case unfolding emit_expr.simps by (rule quiet | rule arg, force)+
next
  case (ECall name args)
  note arg = ECall quiet_args [OF ECall]
  show ?case unfolding emit_expr.simps prod.case by (rule quiet | rule arg, force)+
next
  case (EMethodCall e meth args)
  show ?case unfolding emit_expr.simps by (rule quiet | rule EMethodCall(2), force)+
next
  case (EMember e member)
  show ?case unfolding emit_expr.simps by (rule quiet | rule EMember)+
next
  case (EBinary bop l r)
  show ?case unfolding emit_expr.simps by (rule quiet | rule EBinary)+
next
  case (EUnary uop e)
  show ?case unfolding emit_expr.simps by (rule quiet | rule EUnary)+
next
  case (ECast ty e)
  show ?case unfolding emit_expr.simps by (rule quiet | rule ECast)+
qed (simp_all add: quiet)

lemma infer_bld: "infer_type (c\<lparr>bld := b\<rparr>) e = infer_type c e"
  by (induction e) (auto split: sum.split type.split option.split list.split)

lemma infer_kept: "quiet m \<Longrightarrow> m c = Inr (x, c') \<Longrightarrow> infer_type c' e = infer_type c e"
  using quietD infer_bld by metis

section \<open>The type of a value\<close>

definition yields :: "('b, 'a) cg \<Rightarrow> ('a \<Rightarrow> bool) \<Rightarrow> bool" where
  "yields m Q \<longleftrightarrow> (\<forall>c x c'. m c = Inr (x, c') \<longrightarrow> Q x)"

named_theorems yields

lemma cbindD: "cbind m f c = Inr (y, c'') \<Longrightarrow> \<exists>x c'. m c = Inr (x, c') \<and> f x c' = Inr (y, c'')"
  by (auto simp: cbind_def split: sum.splits prod.splits)

lemma yields_bind [yields]: "(\<And>x. yields (f x) Q) \<Longrightarrow> yields (cbind m f) Q"
  unfolding yields_def using cbindD by metis

lemma yields_weaken: "yields m Q \<Longrightarrow> (\<And>x. Q x \<Longrightarrow> R x) \<Longrightarrow> yields m R"
  unfolding yields_def by blast

lemma yields_seq [yields]: "yields m' Q \<Longrightarrow> yields (cseq m m') Q"
  unfolding cseq_def by (rule yields_bind)

lemma yields_pure [yields]: "Q x \<Longrightarrow> yields (cg_ok x) Q" "yields cg_err Q" "yields cg_panic Q"
  by (simp_all add: yields_def cg_ok_def cg_err_def cg_panic_def)

lemma yields_if [yields]: "(b \<Longrightarrow> yields m Q) \<Longrightarrow> (\<not> b \<Longrightarrow> yields m' Q) \<Longrightarrow> yields (if b then m else m') Q"
  by simp

lemma yields_let [yields]: "yields (f x) Q \<Longrightarrow> yields (Let x f) Q"
  by simp

lemma yields_raw [yields]: "yields (raw_inst B opc t as ty) (\<lambda>v. v_ty v = ty)"
  unfolding raw_inst_def by (rule yields refl | simp)+

abbreviation arith_type :: "type \<Rightarrow> type \<Rightarrow> type" where
  "arith_type l r \<equiv> (if is_composite l then l else r)"

abbreviation compare_type :: "type \<Rightarrow> type" where
  "compare_type t \<equiv> (case t of TyVector _ n \<Rightarrow> TyVector SkBool n | _ \<Rightarrow> TyScalar SkBool)"

lemma yields_ops:
  "yields (emit_arith B bop l lty r rty) (\<lambda>v. v_ty v = arith_type lty rty)"
  "yields (emit_comparison B bop lv rv) (\<lambda>v. v_ty v = compare_type (v_ty lv))"
  "yields (emit_unary_val B uop x) (\<lambda>v. v_ty v = v_ty x)"
  "yields (emit_swizzle B x member k) (\<lambda>v. \<exists>cs. decode_swizzle member = Some cs \<and>
     v_ty v = (if length cs = 1 then TyScalar k else TyVector k (of_nat (length cs))))"
  "yields (emit_saturate B x) (\<lambda>v. v_ty v = v_ty x)"
  "yields (emit_dot B lv rv) (\<lambda>v. v_ty v = (case v_ty lv of TyVector k _ \<Rightarrow> TyScalar k | t \<Rightarrow> t))"
  "yields (emit_ext B name num vs) (\<lambda>v. v_ty v = (if name = ''length'' \<or> vs = [] then TyScalar SkFloat else v_ty (last vs)))"
  "yields (construct_vector B ty t ids) (\<lambda>v. v_ty v = ty)"
  "yields (sample_with B im sv xv) (\<lambda>v. v_ty v = TyVector SkFloat 4)"
proof -
  show "yields (emit_arith B bop l lty r rty) (\<lambda>v. v_ty v = arith_type lty rty)"
    unfolding emit_arith_def Let_def by (rule yields)+
  show "yields (emit_comparison B bop lv rv) (\<lambda>v. v_ty v = compare_type (v_ty lv))"
    unfolding emit_comparison_def Let_def by (rule yields)+
  show "yields (emit_unary_val B uop x) (\<lambda>v. v_ty v = v_ty x)"
    unfolding emit_unary_val_def by (rule yields)+
  show "yields (emit_saturate B x) (\<lambda>v. v_ty v = v_ty x)"
    unfolding emit_saturate_def glsl_unarylike_or_clamp_def by (rule yields | simp)+
  show "yields (emit_dot B lv rv) (\<lambda>v. v_ty v = (case v_ty lv of TyVector k _ \<Rightarrow> TyScalar k | t \<Rightarrow> t))"
    unfolding emit_dot_def Let_def by (rule yields | simp)+
  show "yields (emit_ext B name num vs) (\<lambda>v. v_ty v = (if name = ''length'' \<or> vs = [] then TyScalar SkFloat else v_ty (last vs)))"
    unfolding emit_ext_def Let_def by (rule yields | simp)+
  show "yields (construct_vector B ty t ids) (\<lambda>v. v_ty v = ty)"
    unfolding construct_vector_def by (rule yields | simp)+
  show "yields (sample_with B im sv xv) (\<lambda>v. v_ty v = TyVector SkFloat 4)"
    unfolding sample_with_def by (rule yields | simp)+
  show "yields (emit_swizzle B x member k) (\<lambda>v. \<exists>cs. decode_swizzle member = Some cs \<and>
     v_ty v = (if length cs = 1 then TyScalar k else TyVector k (of_nat (length cs))))"
  proof (cases "decode_swizzle member")
    case None
    then show ?thesis by (simp add: emit_swizzle_def yields_def cbind_def need_def)
  next
    case (Some cs)
    have "yields (cbind (type_id B (TyVector k (of_nat (length cs)))) (\<lambda>t.
      if length cs = 1 then
        cbind (scalar_type_id k) (\<lambda>st. cbind (inst_of B (ICompositeExtract (v_id x) (cs ! 0)) st) (\<lambda>i. cg_ok \<lparr>v_id = i, v_ty = TyScalar k\<rparr>))
      else cbind (inst_of B (IVectorShuffle (v_id x) (v_id x) cs) t) (\<lambda>i. cg_ok \<lparr>v_id = i, v_ty = TyVector k (of_nat (length cs))\<rparr>)))
      (\<lambda>v. v_ty v = (if length cs = 1 then TyScalar k else TyVector k (of_nat (length cs))))"
      by (rule yields | simp)+
    then show ?thesis using Some by (simp add: emit_swizzle_def yields_def cbind_def need_def Let_def)
  qed
qed

lemma cast_type: "yields (emit_cast_val B ty x) (\<lambda>v. v_ty v = ty)"
  unfolding emit_cast_val_def
proof (rule yields_bind)
  fix t show "yields (case cast_opcode (v_ty x) ty of Some opc \<Rightarrow> raw_inst B opc t [v_id x] ty
      | None \<Rightarrow> if v_ty x = ty then cg_ok x else cg_err) (\<lambda>v. v_ty v = ty)"
    by (cases "cast_opcode (v_ty x) ty") (simp_all add: yields)
qed

lemma logical_type: "yields (emit_logical B bop x y) (\<lambda>v. v_ty v = TyScalar SkBool)"
  unfolding emit_logical_def by (rule yields_bind) (cases bop; simp add: yields yields_raw [THEN yields_weaken])

lemma mul_type:
  assumes "is_composite (v_ty a) \<or> v_ty a = v_ty b"
  shows "yields (mul_vals B a b) (\<lambda>v. v_ty v = infer_mul (v_ty a) (v_ty b))"
proof -
  have ar: "yields (emit_arith B Mul (v_id a) (v_ty a) (v_id b) (v_ty b)) (\<lambda>v. v_ty v = v_ty a)"
    using yields_ops(1) [of B Mul "v_id a" "v_ty a" "v_id b" "v_ty b"] assms by (auto split: if_splits)
  show ?thesis
    unfolding mul_vals_def Let_def prod.case
    by (cases "v_ty a"; cases "v_ty b"; insert ar; simp only: type.case infer_mul.simps; (rule yields refl | assumption | simp)+)
qed

section \<open>Where inference and generation agree\<close>

fun agreeing :: "'b ctx \<Rightarrow> expr \<Rightarrow> bool" where
  "agreeing c (EConstruct ty args) \<longleftrightarrow> (case ty of TyScalar _ \<Rightarrow> False | _ \<Rightarrow> True)"
| "agreeing c (ECall name args) \<longleftrightarrow> (\<forall>a \<in> set args. agreeing c a) \<and>
     (if name = ''mul'' then \<forall>a b. args = [a, b] \<longrightarrow> (\<exists>t. infer_type c a = Inr t \<and> is_composite t) \<or> infer_type c a = infer_type c b
      else name \<in> {''length'', ''dot'', ''saturate''} \<or> (\<forall>a \<in> set args. infer_type c a = infer_type c (hd args)))"
| "agreeing c (EBinary bop l r) \<longleftrightarrow> agreeing c l \<and> agreeing c r \<and> (bop = Assign \<longrightarrow> infer_type c l = infer_type c r)"
| "agreeing c (EUnary _ e) \<longleftrightarrow> agreeing c e"
| "agreeing c _ \<longleftrightarrow> True"

lemma agreeing_bld: "agreeing (c\<lparr>bld := b\<rparr>) e = agreeing c e"
  by (induction e) (simp_all add: infer_bld)

lemma agreeing_kept: "quiet m \<Longrightarrow> m c = Inr (x, c') \<Longrightarrow> agreeing c' e = agreeing c e"
  using quietD agreeing_bld by metis

lemma ident_place_type: "emit_ident_place B name c = Inr (p, c') \<Longrightarrow> infer_type c (EIdent name) = Inr t \<Longrightarrow> p_ty p = t"
proof -
  assume e: "emit_ident_place B name c = Inr (p, c')" and i: "infer_type c (EIdent name) = Inr t"
  show ?thesis
  proof (cases "find_local name (locals c)")
    case (Some q)
    then show ?thesis using e i by (simp add: emit_ident_place_def cbind_def cg_get_def cg_ok_def)
  next
    case None
    then obtain g where g: "globals c name = Some g" "p_ty g = t" using i by (auto split: option.splits)
    show ?thesis
    proof (cases "cbuffer_members c name")
      case None2: None
      then show ?thesis using e None g by (simp add: emit_ident_place_def cbind_def cg_get_def need_def)
    next
      case (Some m)
      obtain cb k where m: "m = (cb, k)" by fastforce
      have "yields (cbind (type_id B t) (\<lambda>t'. cbind (ty_of B (OpTypePointer StUniform t')) (\<lambda>pt.
           cbind (inst_of B (IAccessChain cb k) pt) (\<lambda>i. cg_ok \<lparr>p_ptr = i, p_ty = t\<rparr>)))) (\<lambda>p. p_ty p = t)"
        by (rule yields | simp)+
      moreover have "cbind (type_id B t) (\<lambda>t'. cbind (ty_of B (OpTypePointer StUniform t')) (\<lambda>pt.
           cbind (inst_of B (IAccessChain cb k) pt) (\<lambda>i. cg_ok \<lparr>p_ptr = i, p_ty = t\<rparr>))) c = Inr (p, c')"
        using e None Some m g by (simp add: emit_ident_place_def cbind_def cg_get_def need_def)
      ultimately show ?thesis unfolding yields_def by blast
    qed
  qed
qed

lemma place_type: "emit_place B e c = Inr (p, c') \<Longrightarrow> infer_type c e = Inr t \<Longrightarrow> p_ty p = t"
proof (induction e arbitrary: c p c' t)
  case (EIdent name)
  then show ?case using ident_place_type by simp
next
  case (EMember e member)
  obtain q c1 where q: "emit_place B e c = Inr (q, c1)" using EMember(2) by (auto dest!: cbindD)
  obtain u where u: "infer_type c e = Inr u" using EMember(3) by (auto split: sum.splits)
  have qt: "p_ty q = u" by (rule EMember(1) [OF q u])
  have c1: "c1 = c\<lparr>bld := bld c1\<rparr>" by (rule quietD [OF quiet_place q])
  then have st: "structs c1 = structs c" by (metis ctx.ext_inject ctx.surjective ctx.update_convs(2))
  obtain name where n: "u = TyStruct name" using EMember(2) q qt by (cases u) (auto simp: cbind_def cg_err_def)
  obtain info idx m where info: "structs c name = Some info" "find_member member (si_members info) = Some (idx, m)" "t = sm_ty m"
    using EMember(3) u n by (auto split: option.splits prod.splits)
  have "yields (cbind (int_const B (of_nat idx) True) (\<lambda>k. cbind (type_id B (sm_ty m)) (\<lambda>t.
           cbind (ty_of B (OpTypePointer StFunction t)) (\<lambda>pt. cbind (inst_of B (IAccessChain (p_ptr q) k) pt) (\<lambda>i.
           cg_ok \<lparr>p_ptr = i, p_ty = sm_ty m\<rparr>))))) (\<lambda>p. p_ty p = sm_ty m)" by (rule yields | simp)+
  moreover have "cbind (int_const B (of_nat idx) True) (\<lambda>k. cbind (type_id B (sm_ty m)) (\<lambda>t.
           cbind (ty_of B (OpTypePointer StFunction t)) (\<lambda>pt. cbind (inst_of B (IAccessChain (p_ptr q) k) pt) (\<lambda>i.
           cg_ok \<lparr>p_ptr = i, p_ty = sm_ty m\<rparr>)))) c1 = Inr (p, c')"
    using EMember(2) q qt n info st by (simp add: cbind_def cg_get_def need_def)
  ultimately show ?case unfolding yields_def info(3) by blast
qed (simp_all add: cg_err_def)

section \<open>Inference is right\<close>

definition well_inferred :: "'b builder \<Rightarrow> expr \<Rightarrow> bool" where
  "well_inferred B e \<longleftrightarrow>
     (\<forall>c v c' t. emit_expr B e c = Inr (v, c') \<longrightarrow> infer_type c e = Inr t \<longrightarrow> agreeing c e \<longrightarrow> v_ty v = t)"

lemma well_inferredD:
  "well_inferred B e \<Longrightarrow> emit_expr B e c = Inr (v, c') \<Longrightarrow> infer_type c e = Inr t \<Longrightarrow> agreeing c e \<Longrightarrow> v_ty v = t"
  unfolding well_inferred_def by blast

lemma well_inferredI:
  "(\<And>c v c' t. emit_expr B e c = Inr (v, c') \<Longrightarrow> infer_type c e = Inr t \<Longrightarrow> agreeing c e \<Longrightarrow> v_ty v = t) \<Longrightarrow> well_inferred B e"
  unfolding well_inferred_def by blast

lemma yieldsD: "yields m Q \<Longrightarrow> m c = Inr (x, c') \<Longrightarrow> Q x"
  unfolding yields_def by blast

lemma args_type:
  assumes "\<And>a. a \<in> set as \<Longrightarrow> well_inferred B a" "emit_args B as c = Inr (vs, c')" "\<And>a. a \<in> set as \<Longrightarrow> agreeing c a"
    "as \<noteq> []" "infer_type c (last as) = Inr t"
  shows "vs \<noteq> [] \<and> v_ty (last vs) = t"
  using assms
proof (induction as arbitrary: c vs)
  case (Cons a as)
  obtain v c1 where v: "emit_expr B a c = Inr (v, c1)"
    and r: "cbind (emit_args B as) (\<lambda>vs. cg_ok (v # vs)) c1 = Inr (vs, c')"
    using cbindD [OF Cons.prems(2) [unfolded emit_args.simps]] by blast
  obtain us c2 where us: "emit_args B as c1 = Inr (us, c2)" "vs = v # us" "c2 = c'"
    using cbindD [OF r] by (auto simp: cg_ok_def)
  show ?case
  proof (cases as)
    case Nil
    then show ?thesis using us Cons.prems well_inferredD [OF _ v] by (simp add: cg_ok_def)
  next
    case (Cons b bs)
    have "us \<noteq> [] \<and> v_ty (last us) = t"
      using Cons.prems Cons us agreeing_kept [OF quiet_expr v] infer_kept [OF quiet_expr v]
      by (intro Cons.IH [of c1]) auto
    then show ?thesis using us by simp
  qed
qed simp

lemma two_emitted:
  assumes "cbind (emit_expr B l) (\<lambda>lv. cbind (emit_expr B r) (f lv)) c = Inr (v, c')"
  obtains lv rv c1 c2 where "emit_expr B l c = Inr (lv, c1)" "emit_expr B r c1 = Inr (rv, c2)" "f lv rv c2 = Inr (v, c')"
    "\<And>e. infer_type c1 e = infer_type c e" "\<And>e. agreeing c1 e = agreeing c e"
proof -
  obtain lv c1 where l: "emit_expr B l c = Inr (lv, c1)" and r: "cbind (emit_expr B r) (f lv) c1 = Inr (v, c')"
    using cbindD [OF assms] by blast
  obtain rv c2 where "emit_expr B r c1 = Inr (rv, c2)" "f lv rv c2 = Inr (v, c')" using cbindD [OF r] by blast
  then show thesis
    using that [OF l] infer_kept [OF quiet_expr l] agreeing_kept [OF quiet_expr l] by blast
qed

lemma inferred_ident: "well_inferred B (EIdent name)"
proof (rule well_inferredI)
  fix c v c' t
  assume e: "emit_expr B (EIdent name) c = Inr (v, c')" and i: "infer_type c (EIdent name) = Inr t"
  obtain p c1 where p: "emit_ident_place B name c = Inr (p, c1)"
    and r: "cbind (value_type_id B (p_ty p)) (\<lambda>t. cbind (load B t (p_ptr p)) (\<lambda>i. cg_ok \<lparr>v_id = i, v_ty = p_ty p\<rparr>)) c1 = Inr (v, c')"
    using cbindD [OF e [unfolded emit_expr.simps emit_ident_def]] by blast
  have "yields (cbind (value_type_id B (p_ty p)) (\<lambda>t. cbind (load B t (p_ptr p)) (\<lambda>i. cg_ok \<lparr>v_id = i, v_ty = p_ty p\<rparr>)))
    (\<lambda>v. v_ty v = p_ty p)" by (rule yields | simp)+
  from yieldsD [OF this r] show "v_ty v = t" using ident_place_type [OF p i] by simp
qed

lemma inferred_literal: "well_inferred B (ELiteral l)"
proof (rule well_inferredI)
  fix c v c' t
  assume e: "emit_expr B (ELiteral l) c = Inr (v, c')" and i: "infer_type c (ELiteral l) = Inr t"
  have "yields (emit_literal B l) (\<lambda>v. v_ty v = TyScalar (case l of LFloat _ \<Rightarrow> SkFloat | LInt _ \<Rightarrow> SkInt | LUint _ \<Rightarrow> SkUint | LBool _ \<Rightarrow> SkBool))"
    unfolding emit_literal_def Let_def by (cases l; simp only: literal.case; (rule yields | simp)+)
  from yieldsD [OF this, of c v c'] show "v_ty v = t" using e i by simp
qed

lemma inferred_construct: "well_inferred B (EConstruct ty args)"
proof (rule well_inferredI)
  fix c v c' t
  assume e: "emit_expr B (EConstruct ty args) c = Inr (v, c')" and i: "infer_type c (EConstruct ty args) = Inr t"
    and a: "agreeing c (EConstruct ty args)"
  have b: "yields (broadcast B ty n target x) (\<lambda>v. v_ty v = ty)" for n target x
    unfolding broadcast_def by (cases "v_ty x") (simp_all add: yields yields_ops)
  have "yields (emit_expr B (EConstruct ty args)) (\<lambda>v. v_ty v = ty)"
  proof (cases ty)
    case (TyVector k n)
    show ?thesis unfolding TyVector emit_expr.simps type.case
      by (cases args rule: remdups_adj.cases; simp only: list.case; (rule yields_bind yields_ops b [unfolded TyVector])+)
  qed (use a in \<open>simp_all add: yields\<close>)
  from yieldsD [OF this, of c v c'] show "v_ty v = t" using e i by simp
qed

lemma inferred_member:
  assumes "well_inferred B e"
  shows "well_inferred B (EMember e member)"
proof (rule well_inferredI)
  fix c v c' t
  assume e: "emit_expr B (EMember e member) c = Inr (v, c')" and i: "infer_type c (EMember e member) = Inr t"
  obtain u where u: "infer_type c e = Inr u" using i by (auto split: sum.splits)
  consider (struct) s where "u = TyStruct s" | (vector) k n where "u = TyVector k n" using i u by (cases u) auto
  then show "v_ty v = t"
  proof cases
    case struct
    then have f: "emit_field B e member c = Inr (v, c')" using e u by (simp add: cbind_def)
    obtain p c1 where p: "emit_place B (EMember e member) c = Inr (p, c1)"
      and r: "cbind (type_id B (p_ty p)) (\<lambda>t. cbind (load B t (p_ptr p)) (\<lambda>i. cg_ok \<lparr>v_id = i, v_ty = p_ty p\<rparr>)) c1 = Inr (v, c')"
      using cbindD [OF f [unfolded emit_field_def]] by blast
    have "yields (cbind (type_id B (p_ty p)) (\<lambda>t. cbind (load B t (p_ptr p)) (\<lambda>i. cg_ok \<lparr>v_id = i, v_ty = p_ty p\<rparr>)))
      (\<lambda>v. v_ty v = p_ty p)" by (rule yields | simp)+
    from yieldsD [OF this r] show ?thesis using place_type [OF p i] by simp
  next
    case vector
    then have f: "cbind (emit_expr B e) (\<lambda>v. emit_swizzle B v member k) c = Inr (v, c')" using e u by (simp add: cbind_def)
    obtain x c1 where "emit_swizzle B x member k c1 = Inr (v, c')" using cbindD [OF f] by blast
    from yieldsD [OF yields_ops(4) this] show ?thesis using i u vector by auto
  qed
qed

lemma no_number: "map_of intrinsics ''saturate'' = None" "map_of intrinsics ''dot'' = None"
  by (simp_all add: intrinsics_def)

lemma inferred_mul:
  assumes "well_inferred B x" "well_inferred B y"
  shows "well_inferred B (ECall ''mul'' [x, y])"
proof (rule well_inferredI)
  fix c v c' t
  assume e: "emit_expr B (ECall ''mul'' [x, y]) c = Inr (v, c')" and i: "infer_type c (ECall ''mul'' [x, y]) = Inr t"
    and a: "agreeing c (ECall ''mul'' [x, y])"
  have em: "cbind (emit_expr B x) (\<lambda>lv. cbind (emit_expr B y) (mul_vals B lv)) c = Inr (v, c')" using e by simp
  show "v_ty v = t"
  proof (rule two_emitted [OF em])
    fix lv rv c1 c2
    assume l: "emit_expr B x c = Inr (lv, c1)" and r: "emit_expr B y c1 = Inr (rv, c2)" and d: "mul_vals B lv rv c2 = Inr (v, c')"
      and k: "\<And>e. infer_type c1 e = infer_type c e" "\<And>e. agreeing c1 e = agreeing c e"
    obtain u w where u: "infer_type c x = Inr u" "infer_type c y = Inr w" "t = infer_mul u w"
      using i by (auto split: sum.splits)
    have "v_ty lv = u" "v_ty rv = w"
      using well_inferredD [OF assms(1) l] well_inferredD [OF assms(2) r] k u a by auto
    then show ?thesis using yieldsD [OF mul_type d] u a by auto
  qed
qed

lemma inferred_call:
  assumes args: "\<And>a. a \<in> set args \<Longrightarrow> well_inferred B a"
  shows "well_inferred B (ECall name args)"
proof (rule well_inferredI)
  fix c v c' t
  assume e: "emit_expr B (ECall name args) c = Inr (v, c')" and i: "infer_type c (ECall name args) = Inr t"
    and a: "agreeing c (ECall name args)"
  consider (saturate) x where "name = ''saturate''" "args = [x]" | (dot) x y where "name = ''dot''" "args = [x, y]"
    | (mul) x y where "name = ''mul''" "args = [x, y]"
    | (ext) num arity where "name \<noteq> ''mul''" "name \<notin> {''saturate'', ''dot''}" "map_of intrinsics name = Some (num, arity)"
      "cbind (emit_args B args) (emit_ext B name num) c = Inr (v, c')"
    using e no_number by (auto split: bool.splits list.splits if_splits option.splits simp: cg_err_def)
  then show "v_ty v = t"
  proof cases
    case saturate
    then obtain xv c1 where x: "emit_expr B x c = Inr (xv, c1)" and s: "emit_saturate B xv c1 = Inr (v, c')"
      using e cbindD by fastforce
    have "v_ty xv = t" using well_inferredD [OF args x] saturate i a by (auto simp: inferable_def split: sum.splits)
    then show ?thesis using yieldsD [OF yields_ops(5) s] by simp
  next
    case dot
    have em: "cbind (emit_expr B x) (\<lambda>lv. cbind (emit_expr B y) (emit_dot B lv)) c = Inr (v, c')" using e dot by simp
    show ?thesis
    proof (rule two_emitted [OF em])
      fix lv rv c1 c2
      assume l: "emit_expr B x c = Inr (lv, c1)" and d: "emit_dot B lv rv c2 = Inr (v, c')"
      obtain u where u: "infer_type c x = Inr u" using i dot by (auto split: sum.splits)
      have "v_ty lv = u" using well_inferredD [OF args l u] dot a by simp
      then show ?thesis using yieldsD [OF yields_ops(6) d] i u dot by (cases u) simp_all
    qed
  next
    case mul
    have "well_inferred B x" "well_inferred B y" using args mul by simp_all
    then have "well_inferred B (ECall name args)" unfolding mul by (rule inferred_mul)
    then show ?thesis by (rule well_inferredD [OF _ e i a])
  next
    case ext
    obtain vs c1 where vs: "emit_args B args c = Inr (vs, c1)" and x: "emit_ext B name num vs c1 = Inr (v, c')"
      using cbindD [OF ext(4)] by blast
    show ?thesis
    proof (cases "name = ''length''")
      case True
      then show ?thesis using yieldsD [OF yields_ops(7) x] i by simp
    next
      case False
      then have h: "args \<noteq> []" "infer_type c (hd args) = Inr t" using i ext by (auto split: list.splits sum.splits if_splits)
      have "infer_type c (last args) = Inr t" using h a False ext by auto
      then have "vs \<noteq> [] \<and> v_ty (last vs) = t" using args_type [OF args vs] h a by auto
      then show ?thesis using yieldsD [OF yields_ops(7) x] False by simp
    qed
  qed
qed

lemma compound_type:
  assumes "cbind (emit_place B l) (\<lambda>p. cbind (type_id B (p_ty p)) (\<lambda>t. cbind (load B t (p_ptr p)) (\<lambda>cur.
     cbind (emit_expr B r) (\<lambda>v. cbind (emit_arith B core cur (p_ty p) (v_id v) (v_ty v)) (\<lambda>res.
     cseq (store B (p_ptr p) (v_id res)) (cg_ok res)))))) c = Inr (v, c')" (is "cbind _ ?f c = _")
  obtains p c1 rv c2 c3 where "emit_place B l c = Inr (p, c1)" "emit_expr B r c2 = Inr (rv, c3)"
    "\<And>e. infer_type c2 e = infer_type c e" "\<And>e. agreeing c2 e = agreeing c e" "v_ty v = arith_type (p_ty p) (v_ty rv)"
proof -
  obtain p c1 where p: "emit_place B l c = Inr (p, c1)" and f: "?f p c1 = Inr (v, c')" using cbindD [OF assms] by blast
  obtain t a where t: "type_id B (p_ty p) c1 = Inr (t, a)"
    and g: "cbind (load B t (p_ptr p)) (\<lambda>cur. cbind (emit_expr B r) (\<lambda>v. cbind (emit_arith B core cur (p_ty p) (v_id v) (v_ty v))
      (\<lambda>res. cseq (store B (p_ptr p) (v_id res)) (cg_ok res)))) a = Inr (v, c')" using cbindD [OF f] by blast
  obtain cur b where b: "load B t (p_ptr p) a = Inr (cur, b)"
    and h: "cbind (emit_expr B r) (\<lambda>v. cbind (emit_arith B core cur (p_ty p) (v_id v) (v_ty v))
      (\<lambda>res. cseq (store B (p_ptr p) (v_id res)) (cg_ok res))) b = Inr (v, c')" using cbindD [OF g] by blast
  obtain rv d where r: "emit_expr B r b = Inr (rv, d)"
    and k: "cbind (emit_arith B core cur (p_ty p) (v_id rv) (v_ty rv)) (\<lambda>res. cseq (store B (p_ptr p) (v_id res)) (cg_ok res)) d = Inr (v, c')"
    using cbindD [OF h] by blast
  obtain res d' where res: "emit_arith B core cur (p_ty p) (v_id rv) (v_ty rv) d = Inr (res, d')"
    and s: "cseq (store B (p_ptr p) (v_id res)) (cg_ok res) d' = Inr (v, c')" using cbindD [OF k] by blast
  have "v = res" using cbindD [OF s [unfolded cseq_def]] by (auto simp: cg_ok_def)
  moreover note quiets = quiet_place p quiet_type_id t quiet_ops(9) b
  have "infer_type b e = infer_type c e" "agreeing b e = agreeing c e" for e
    using infer_kept [OF quiet_place p] infer_kept [OF quiet_type_id t] infer_kept [OF quiet_ops(9) b]
      agreeing_kept [OF quiet_place p] agreeing_kept [OF quiet_type_id t] agreeing_kept [OF quiet_ops(9) b] by simp_all
  ultimately show thesis using that [OF p r] yieldsD [OF yields_ops(1) res] by simp
qed

lemma inferred_assign:
  assumes "well_inferred B r"
  shows "well_inferred B (EBinary Assign l r)"
proof (rule well_inferredI)
  fix c v c' t
  assume e: "emit_expr B (EBinary Assign l r) c = Inr (v, c')" and i: "infer_type c (EBinary Assign l r) = Inr t"
    and a: "agreeing c (EBinary Assign l r)"
  obtain p c1 where p: "emit_place B l c = Inr (p, c1)"
    and f: "cbind (emit_expr B r) (\<lambda>v. cbind (coerce B v (p_ty p)) (\<lambda>v. cseq (store B (p_ptr p) (v_id v)) (cg_ok v))) c1 = Inr (v, c')"
    using e cbindD by fastforce
  obtain rv c2 where r: "emit_expr B r c1 = Inr (rv, c2)"
    and g: "cbind (coerce B rv (p_ty p)) (\<lambda>v. cseq (store B (p_ptr p) (v_id v)) (cg_ok v)) c2 = Inr (v, c')"
    using cbindD [OF f] by blast
  have t: "infer_type c l = Inr t" "infer_type c r = Inr t" using i a by (auto split: sum.splits if_splits)
  have ty: "v_ty rv = t" "p_ty p = t"
    using well_inferredD [OF assms r] infer_kept [OF quiet_place p] agreeing_kept [OF quiet_place p] t a place_type [OF p t(1)] by auto
  have "cseq (store B (p_ptr p) (v_id rv)) (cg_ok rv) c2 = Inr (v, c')" using g ty by (simp add: coerce_def cbind_def cg_ok_def)
  then have "v = rv" unfolding cseq_def by (auto dest!: cbindD simp: cg_ok_def)
  then show "v_ty v = t" using ty by simp
qed

lemma inferred_plain:
  assumes "well_inferred B l" "well_inferred B r" "bop \<noteq> Assign" "core_op bop = None"
  shows "well_inferred B (EBinary bop l r)"
proof (rule well_inferredI)
  fix c v c' t
  assume e: "emit_expr B (EBinary bop l r) c = Inr (v, c')" and i: "infer_type c (EBinary bop l r) = Inr t"
    and a: "agreeing c (EBinary bop l r)"
  have em: "cbind (emit_expr B l) (\<lambda>lv. cbind (emit_expr B r) (\<lambda>rv.
     if is_comparison bop then emit_comparison B bop lv rv else if bop = And \<or> bop = Or then emit_logical B bop lv rv
     else emit_arith B bop (v_id lv) (v_ty lv) (v_id rv) (v_ty rv))) c = Inr (v, c')" using e assms(3, 4) by simp
  show "v_ty v = t"
  proof (rule two_emitted [OF em])
    fix lv rv c1 c2
    assume l: "emit_expr B l c = Inr (lv, c1)" and r: "emit_expr B r c1 = Inr (rv, c2)"
      and k: "\<And>e. infer_type c1 e = infer_type c e" "\<And>e. agreeing c1 e = agreeing c e"
      and d: "(if is_comparison bop then emit_comparison B bop lv rv else if bop = And \<or> bop = Or then emit_logical B bop lv rv
        else emit_arith B bop (v_id lv) (v_ty lv) (v_id rv) (v_ty rv)) c2 = Inr (v, c')"
    have lt: "infer_type c l = Inr u \<Longrightarrow> v_ty lv = u" for u using well_inferredD [OF assms(1) l] a by simp
    have rt: "infer_type c r = Inr u \<Longrightarrow> v_ty rv = u" for u using well_inferredD [OF assms(2) r] k a by simp
    consider "is_comparison bop" | "\<not> is_comparison bop" "bop = And \<or> bop = Or" | "\<not> is_comparison bop" "\<not> (bop = And \<or> bop = Or)"
      by blast
    then show ?thesis
    proof cases
      case 1
      then show ?thesis using d i lt by (auto dest: yieldsD [OF yields_ops(2)] split: sum.splits)
    next
      case 2
      then show ?thesis using d i by (auto dest: yieldsD [OF logical_type])
    next
      case 3
      then show ?thesis using d i lt rt by (auto dest: yieldsD [OF yields_ops(1)] split: sum.splits if_splits)
    qed
  qed
qed

lemma inferred_binary:
  assumes "well_inferred B l" "well_inferred B r"
  shows "well_inferred B (EBinary bop l r)"
proof (rule well_inferredI)
  fix c v c' t
  assume e: "emit_expr B (EBinary bop l r) c = Inr (v, c')" and i: "infer_type c (EBinary bop l r) = Inr t"
    and a: "agreeing c (EBinary bop l r)"
  show "v_ty v = t"
  proof (cases "bop = Assign")
    case True
    then show ?thesis using well_inferredD [OF inferred_assign [OF assms(2)]] e i a by simp
  next
    case na: False
    show ?thesis
    proof (cases "core_op bop")
      case None
      then show ?thesis using well_inferredD [OF inferred_plain [OF assms na]] e i a by simp
    next
      case (Some core)
      have nc: "\<not> is_comparison bop" "\<not> (bop = And \<or> bop = Or)" using Some by (auto simp: core_op_def split: binary_op.splits)
      show ?thesis
      proof (rule compound_type [of B l r core c v c'])
        show "cbind (emit_place B l) (\<lambda>p. cbind (type_id B (p_ty p)) (\<lambda>t. cbind (load B t (p_ptr p)) (\<lambda>cur.
           cbind (emit_expr B r) (\<lambda>v. cbind (emit_arith B core cur (p_ty p) (v_id v) (v_ty v)) (\<lambda>res.
           cseq (store B (p_ptr p) (v_id res)) (cg_ok res)))))) c = Inr (v, c')" using e na Some by simp
      next
        fix p c1 rv c2 c3
        assume p: "emit_place B l c = Inr (p, c1)" and r: "emit_expr B r c2 = Inr (rv, c3)"
          and k: "\<And>e. infer_type c2 e = infer_type c e" "\<And>e. agreeing c2 e = agreeing c e"
          and v: "v_ty v = arith_type (p_ty p) (v_ty rv)"
        have "infer_type c r = Inr u \<Longrightarrow> v_ty rv = u" for u using well_inferredD [OF assms(2) r] k a by simp
        then show ?thesis using v i nc place_type [OF p] by (auto split: sum.splits if_splits)
      qed
    qed
  qed
qed

lemma well_inferred_all: "well_inferred B e"
proof (induction e)
  case (EMethodCall e meth args)
  show ?case
  proof (rule well_inferredI)
    fix c v c' t
    assume e: "emit_expr B (EMethodCall e meth args) c = Inr (v, c')" and i: "infer_type c (EMethodCall e meth args) = Inr t"
    have "yields (emit_expr B (EMethodCall e meth args)) (\<lambda>v. v_ty v = TyVector SkFloat 4)"
    proof (cases "meth = ''Sample'' \<and> (\<exists>s x. args = [s, x])")
      case True
      then obtain s x where "meth = ''Sample''" "args = [s, x]" by blast
      then show ?thesis by simp (rule yields_bind yields_ops)+
    next
      case False
      then have "emit_expr B (EMethodCall e meth args) = cg_err" by (auto split: list.split)
      then show ?thesis by (simp only: yields)
    qed
    from yieldsD [OF this, of c v c'] show "v_ty v = t" using e i by (simp split: if_splits)
  qed
next
  case (EUnary uop e)
  then show ?case
    unfolding well_inferred_def by (auto dest!: cbindD dest: yieldsD [OF yields_ops(3)])
next
  case (ECast ty e)
  then show ?case
    unfolding well_inferred_def by (auto dest!: cbindD dest: yieldsD [OF cast_type])
qed (rule inferred_ident inferred_literal inferred_construct inferred_member inferred_call inferred_binary; assumption?)+

text \<open>C21. Wherever the generator infers a type for an expression and emits code for it, the value has the type inferred, but for
  constructors of scalars, assignments and intrinsics between values of different types.\<close>

theorem inferred_type_right:
  assumes "emit_expr B e c = Inr (v, c')" "infer_type c e = Inr t" "agreeing c e"
  shows "v_ty v = t"
  by (rule well_inferredD [OF well_inferred_all assms])

definition demo_expr :: expr where
  "demo_expr = EBinary Mul (EMember (EIdent ''p'') ''xy'') (ECall ''dot'' [EIdent ''p'', EIdent ''p''])"

definition demo_ctx :: "(u32 \<times> pos) ctx" where
  "demo_ctx = (Ctx_new demo_builder Pixel)\<lparr>bld := (20, InBlock), locals := [(''p'', \<lparr>p_ptr = 11, p_ty = TyVector SkFloat 4\<rparr>)]\<rparr>"

theorem inferred_type_right_witness:
  "\<exists>v c'. emit_expr demo_builder demo_expr demo_ctx = Inr (v, c') \<and> v_ty v = TyVector SkFloat 2"
proof -
  have "isl (emit_expr demo_builder demo_expr demo_ctx) = False" by code_simp
  then obtain v c' where e: "emit_expr demo_builder demo_expr demo_ctx = Inr (v, c')"
    by (cases "emit_expr demo_builder demo_expr demo_ctx") auto
  have i: "infer_type demo_ctx demo_expr = Inr (TyVector SkFloat 2)" by code_simp
  have a: "agreeing demo_ctx demo_expr" by (simp add: demo_expr_def)
  from inferred_type_right [OF e i a] e show ?thesis by blast
qed

end
